(* ===== verification/Prelude.thy ===== *)
theory Prelude
  imports Main "HOL-Library.Word"
begin

text \<open>
  Shared vocabulary of the development: the machine integers of the Rust source, the
  checked and saturating operations it uses, results (\<open>Result<T, E>\<close> as a sum), the
  textual helpers behind \<open>format!\<close>, and the list facts about bounded retention that
  several components rely on.

  Conventions. A Rust \<open>u8/u16/u32/u64\<close> is a word of that width; an \<open>i64\<close> is a 64-bit
  word read through \<open>sint\<close>; a length, an index or another \<open>usize\<close> is a \<open>nat\<close>, with the
  saturation of \<open>saturating_add\<close> written out.  A \<open>&str\<close> is the list of its UTF-8 bytes
  (\<open>string\<close>), so \<open>length\<close> is Rust's \<open>len()\<close>.
\<close>

section \<open>Collections of rewrite rules\<close>

named_theorems list_window \<open>facts about the last n elements of a list\<close>
named_theorems rust_defs \<open>definitions of the Rust standard operations used by the source\<close>

section \<open>Machine integers\<close>

type_synonym u8 = "8 word"
type_synonym u16 = "16 word"
type_synonym u32 = "32 word"
type_synonym u64 = "64 word"
type_synonym i64 = "64 word"

definition usize_max :: nat where
  "usize_max = 2 ^ 64 - 1"

definition isize_max :: nat where
  "isize_max = 2 ^ 63 - 1"

text \<open>\<open>usize::saturating_add\<close>; \<open>saturating_sub\<close> is subtraction on \<open>nat\<close>.\<close>

definition usize_saturating_add :: "nat \<Rightarrow> nat \<Rightarrow> nat" where
  [rust_defs]: "usize_saturating_add a b = min (a + b) usize_max"

lemma usize_saturating_add_exact [simp]:
  "a + b \<le> usize_max \<Longrightarrow> usize_saturating_add a b = a + b"
  by (simp add: usize_saturating_add_def)

text \<open>\<open>checked_add\<close> and \<open>saturating_add\<close> on unsigned words of any width.\<close>

definition checked_add :: "'a::len word \<Rightarrow> 'a word \<Rightarrow> 'a word option" where
  [rust_defs]: "checked_add a b =
     (if unat a + unat b < 2 ^ LENGTH('a) then Some (a + b) else None)"

definition saturating_add :: "'a::len word \<Rightarrow> 'a word \<Rightarrow> 'a word" where
  [rust_defs]: "saturating_add a b =
     (if unat a + unat b < 2 ^ LENGTH('a) then a + b else - 1)"

definition saturating_mul :: "'a::len word \<Rightarrow> 'a word \<Rightarrow> 'a word" where
  [rust_defs]: "saturating_mul a b =
     (if unat a * unat b < 2 ^ LENGTH('a) then a * b else - 1)"

lemma unat_minus_one_eq: "unat (- 1 :: 'a::len word) = 2 ^ LENGTH('a) - 1"
  by (simp add: unsigned_minus_1_eq_mask mask_eq_exp_minus_1)

lemma unat_u64_le: "unat (w :: 64 word) \<le> 2 ^ 64 - 1"
proof -
  have "unat w < 2 ^ LENGTH(64)" by (rule unsigned_less)
  then show ?thesis by simp
qed

lemma saturating_succ: "i \<noteq> (- 1 :: 64 word) \<Longrightarrow> saturating_add i 1 = i + 1 \<and> i < i + 1 \<and> unat (i + 1) = Suc (unat i)"
proof -
  assume i: "i \<noteq> - 1"
  then have u: "unat (i + 1) = Suc (unat i)" by (metis add.commute unatSuc unat_eq_zero add_eq_0_iff)
  have "unat (i + 1) < 2 ^ 64" using unsigned_less [of "i + 1"] by simp
  with u show ?thesis by (simp add: saturating_add_def word_less_nat_alt)
qed

lemma checked_add_SomeD:
  "checked_add a b = Some c \<Longrightarrow> c = a + b \<and> unat c = unat a + unat b"
  by (auto simp: checked_add_def unat_word_ariths split: if_splits)

lemma checked_add_one_None_iff:
  "checked_add a (1 :: 'a::len word) = None \<longleftrightarrow> a = - 1"
proof -
  have "unat a < 2 ^ LENGTH('a)" by (rule unsigned_less)
  then have "unat a + 1 < 2 ^ LENGTH('a) \<longleftrightarrow> unat a \<noteq> 2 ^ LENGTH('a) - 1" by arith
  then show ?thesis
    by (simp add: checked_add_def unat_minus_one_eq word_unat_eq_iff)
qed

lemma unat_saturating_add:
  "unat (saturating_add a b :: 'a::len word) = min (unat a + unat b) (2 ^ LENGTH('a) - 1)"
proof (cases "unat a + unat b < 2 ^ LENGTH('a)")
  case True
  then show ?thesis by (simp add: saturating_add_def unat_word_ariths)
next
  case False
  then show ?thesis by (simp add: saturating_add_def unat_minus_one_eq)
qed

lemma unat_saturating_mul:
  "unat (saturating_mul a b :: 'a::len word) = min (unat a * unat b) (2 ^ LENGTH('a) - 1)"
proof (cases "unat a * unat b < 2 ^ LENGTH('a)")
  case True
  then show ?thesis by (simp add: saturating_mul_def unat_word_ariths)
next
  case False
  then show ?thesis by (simp add: saturating_mul_def unat_minus_one_eq)
qed

text \<open>The two's complement reading of a 64-bit word.\<close>

lemma sint_u64: "sint (w :: 64 word) = (if unat w < 2 ^ 63 then int (unat w) else int (unat w) - 2 ^ 64)"
proof -
  have u: "int (unat w) = uint w" by simp
  have lt: "uint w < 2 ^ 64" using uint_lt2p [of w] by simp
  have b: "bit (uint w) 63 \<longleftrightarrow> 2 ^ 63 \<le> uint w"
  proof -
    have "uint w div 2 ^ 63 < 2" using lt by (simp add: div_less_iff_less_mult)
    moreover have "0 \<le> uint w div 2 ^ 63" by (simp add: pos_imp_zdiv_nonneg_iff)
    ultimately have "uint w div 2 ^ 63 = 0 \<or> uint w div 2 ^ 63 = 1" by linarith
    then show ?thesis
      by (auto simp: bit_iff_odd zdiv_eq_0_iff div_pos_pos_trivial)
  qed
  have "sint w = uint w - 2 ^ 64 * of_bool (bit (uint w) 63)"
  proof -
    have "sint w = signed_take_bit 63 (uint w)" by (simp add: sint_uint)
    also have "\<dots> = take_bit (Suc 63) (uint w) - 2 ^ Suc 63 * of_bool (bit (uint w) 63)"
      by (rule signed_take_bit_eq_take_bit_minus)
    also have "take_bit (Suc 63) (uint w) = uint w"
      by (rule take_bit_int_eq_self) (use lt in simp_all)
    finally show ?thesis by simp
  qed
  moreover have "unat w < 2 ^ 63 \<longleftrightarrow> \<not> bit (uint w) 63"
  proof -
    have "unat w < 2 ^ 63 \<longleftrightarrow> int (unat w) < 2 ^ 63"
      by (rule of_nat_less_numeral_power_cancel_iff [symmetric])
    then show ?thesis unfolding u b by (simp only: not_le)
  qed
  ultimately show ?thesis unfolding u by (simp only: of_bool_def split: if_split) simp
qed

lemma sint_u64_nonneg_iff: "0 \<le> sint (w :: 64 word) \<longleftrightarrow> unat w < 2 ^ 63"
proof -
  have "unat w < 2 ^ 64" using unsigned_less [of w] by simp
  then have "int (unat w) < 2 ^ 64" by (rule of_nat_less_numeral_power_cancel_iff [THEN iffD2])
  then show ?thesis by (simp add: sint_u64 del: of_nat_less_numeral_power_cancel_iff)
qed

section \<open>Results\<close>

text \<open>\<open>Result<T, E>\<close>: \<open>Inl\<close> carries the error, \<open>Inr\<close> the value.\<close>

abbreviation Err :: "'e \<Rightarrow> 'e + 'a" where
  "Err e \<equiv> Inl e"

abbreviation Ok :: "'a \<Rightarrow> 'e + 'a" where
  "Ok a \<equiv> Inr a"

text \<open>The \<open>?\<close> operator: continue with the value, return the error as it is.\<close>

fun and_then :: "'e + 'a \<Rightarrow> ('a \<Rightarrow> 'e + 'b) \<Rightarrow> 'e + 'b" where
  "and_then (Inl e) f = Inl e"
| "and_then (Inr a) f = f a"

fun ok_or :: "'e \<Rightarrow> 'a option \<Rightarrow> 'e + 'a" where
  "ok_or e None = Inl e"
| "ok_or e (Some a) = Inr a"

lemma and_then_Ok_iff: "and_then r f = Inr b \<longleftrightarrow> (\<exists>a. r = Inr a \<and> f a = Inr b)"
  by (cases r) auto

lemma and_then_Err_iff: "and_then r f = Inl e \<longleftrightarrow> r = Inl e \<or> (\<exists>a. r = Inr a \<and> f a = Inl e)"
  by (cases r) auto

lemma ok_or_Ok_iff: "ok_or e x = Inr a \<longleftrightarrow> x = Some a"
  by (cases x) auto

lemma ok_or_Err_iff: "ok_or e x = Inl e' \<longleftrightarrow> x = None \<and> e' = e"
  by (cases x) auto

lemmas result_iffs = and_then_Ok_iff and_then_Err_iff ok_or_Ok_iff ok_or_Err_iff

section \<open>Searching in sequences\<close>

text \<open>\<open>Iterator::position\<close>; \<open>Iterator::find\<close> is the library's \<open>find\<close>.\<close>

fun position :: "('a \<Rightarrow> bool) \<Rightarrow> 'a list \<Rightarrow> nat option" where
  "position P [] = None"
| "position P (x # xs) = (if P x then Some 0 else map_option Suc (position P xs))"

lemma position_None_iff: "position P xs = None \<longleftrightarrow> (\<forall>x \<in> set xs. \<not> P x)"
  by (induction xs) auto

lemma position_SomeD:
  "position P xs = Some i \<Longrightarrow> i < length xs \<and> P (xs ! i) \<and> (\<forall>j < i. \<not> P (xs ! j))"
proof (induction xs arbitrary: i)
  case Nil
  then show ?case by simp
next
  case (Cons x xs)
  show ?case
  proof (cases "P x")
    case True
    with Cons.prems show ?thesis by simp
  next
    case False
    with Cons.prems obtain k where k: "position P xs = Some k" and i: "i = Suc k" by auto
    from Cons.IH [OF k] False i show ?thesis by (auto simp: nth_Cons split: nat.splits)
  qed
qed

lemma position_SomeI:
  "\<lbrakk> i < length xs; P (xs ! i); \<And>j. j < i \<Longrightarrow> \<not> P (xs ! j) \<rbrakk> \<Longrightarrow> position P xs = Some i"
proof (induction xs arbitrary: i)
  case Nil
  then show ?case by simp
next
  case (Cons x xs)
  show ?case
  proof (cases i)
    case 0
    with Cons.prems show ?thesis by simp
  next
    case (Suc k)
    from Cons.prems(3) [of 0] Suc have "\<not> P x" by simp
    moreover have "position P xs = Some k"
    proof (rule Cons.IH)
      show "k < length xs" "P (xs ! k)" using Cons.prems(1,2) Suc by simp_all
      show "\<not> P (xs ! j)" if "j < k" for j using Cons.prems(3) [of "Suc j"] Suc that by simp
    qed
    ultimately show ?thesis using Suc by simp
  qed
qed

lemma find_position: "find P xs = map_option (\<lambda>i. xs ! i) (position P xs)"
  by (induction xs) (auto simp: option.map_comp comp_def)

text \<open>Removing and replacing one element by index.\<close>

definition remove_at :: "nat \<Rightarrow> 'a list \<Rightarrow> 'a list" where
  "remove_at i xs = take i xs @ drop (Suc i) xs"

lemma length_remove_at: "i < length xs \<Longrightarrow> length (remove_at i xs) = length xs - 1"
  by (simp add: remove_at_def)

lemma set_remove_at_subset: "set (remove_at i xs) \<subseteq> set xs"
  by (auto simp: remove_at_def dest: in_set_takeD in_set_dropD)

lemma map_remove_at: "map f (remove_at i xs) = remove_at i (map f xs)"
  by (simp add: remove_at_def take_map drop_map)

lemma distinct_remove_at: "distinct xs \<Longrightarrow> distinct (remove_at i xs)"
proof (cases "i < length xs")
  case True
  assume "distinct xs"
  then have "distinct (take i xs @ xs ! i # drop (Suc i) xs)"
    using id_take_nth_drop [OF True] by simp
  then show ?thesis by (auto simp: remove_at_def)
qed (simp add: remove_at_def)

lemma set_remove_at:
  assumes "i < length xs" and "distinct xs"
  shows "set (remove_at i xs) = set xs - {xs ! i}"
proof -
  have eq: "xs = take i xs @ xs ! i # drop (Suc i) xs"
    by (rule id_take_nth_drop [OF assms(1)])
  with assms(2) have "distinct (take i xs @ xs ! i # drop (Suc i) xs)" by simp
  then show ?thesis
    by (subst (2) eq) (auto simp: remove_at_def)
qed

section \<open>Lists searched by key\<close>

text \<open>
  Several components keep a vector and find an element by its identity with \<open>find\<close> or
  \<open>position\<close>.  \<open>lookup_by key xs\<close> is that vector read as a partial map.
\<close>

definition lookup_by :: "('a \<Rightarrow> 'k) \<Rightarrow> 'a list \<Rightarrow> 'k \<Rightarrow> 'a option" where
  "lookup_by key xs k = find (\<lambda>x. key x = k) xs"

lemma lookup_by_Nil [simp]: "lookup_by key [] k = None"
  by (simp add: lookup_by_def)

lemma lookup_by_Cons: "lookup_by key (x # xs) k = (if key x = k then Some x else lookup_by key xs k)"
  by (simp add: lookup_by_def)

lemma lookup_by_None_iff: "lookup_by key xs k = None \<longleftrightarrow> k \<notin> key ` set xs"
  by (auto simp: lookup_by_def find_None_iff)

lemma lookup_by_SomeD: "lookup_by key xs k = Some x \<Longrightarrow> x \<in> set xs \<and> key x = k"
  by (auto simp: lookup_by_def find_Some_iff)

lemma lookup_by_distinct: "distinct (map key xs) \<Longrightarrow> x \<in> set xs \<Longrightarrow> lookup_by key xs (key x) = Some x"
  by (induction xs) (auto simp: lookup_by_Cons)

lemma lookup_by_Some_iff:
  "distinct (map key xs) \<Longrightarrow> lookup_by key xs k = Some x \<longleftrightarrow> x \<in> set xs \<and> key x = k"
  by (auto dest: lookup_by_SomeD lookup_by_distinct)

lemma lookup_by_position:
  "lookup_by key xs k = map_option (\<lambda>i. xs ! i) (position (\<lambda>x. key x = k) xs)"
  by (simp add: lookup_by_def find_position)

lemma lookup_by_snoc:
  assumes "key x \<notin> key ` set xs"
  shows "lookup_by key (xs @ [x]) = (lookup_by key xs)(key x \<mapsto> x)"
  using assms by (induction xs) (auto simp: fun_eq_iff lookup_by_Cons)

lemma map_key_update: "i < length xs \<Longrightarrow> key y = key (xs ! i) \<Longrightarrow> map key (xs[i := y]) = map key xs"
  by (metis list_update_id map_update nth_map)

lemma lookup_by_update:
  assumes "i < length xs" and "key y = key (xs ! i)" and "distinct (map key xs)"
  shows "lookup_by key (xs[i := y]) = (lookup_by key xs)(key y \<mapsto> y)"
  using assms
proof (induction xs arbitrary: i)
  case Nil
  then show ?case by simp
next
  case (Cons x xs)
  show ?case
  proof (cases i)
    case 0
    with Cons.prems show ?thesis by (auto simp: fun_eq_iff lookup_by_Cons)
  next
    case (Suc j)
    with Cons.prems have "key x \<noteq> key y" by auto
    with Cons Suc show ?thesis by (auto simp: fun_eq_iff lookup_by_Cons)
  qed
qed

lemma lookup_by_filter:
  "distinct (map key xs) \<Longrightarrow> lookup_by key (filter P xs) k =
     (case lookup_by key xs k of None \<Rightarrow> None | Some x \<Rightarrow> if P x then Some x else None)"
proof (induction xs)
  case (Cons x xs)
  have "lookup_by key xs (key x) = None" using Cons.prems by (simp add: lookup_by_None_iff)
  with Cons show ?case by (auto simp: lookup_by_Cons split: option.splits)
qed simp

lemma lookup_by_remove_at:
  assumes "i < length xs" and "distinct (map key xs)"
  shows "lookup_by key (remove_at i xs) = (lookup_by key xs)(key (xs ! i) := None)"
proof
  fix k
  have d: "distinct (map key (remove_at i xs))"
    using assms(2) by (simp add: map_remove_at distinct_remove_at)
  have s: "key ` set (remove_at i xs) = key ` set xs - {key (xs ! i)}"
    using set_remove_at [of i "map key xs"] assms by (simp flip: map_remove_at)
  show "lookup_by key (remove_at i xs) k = ((lookup_by key xs)(key (xs ! i) := None)) k"
  proof (cases "k \<in> key ` set (remove_at i xs)")
    case True
    then obtain x where x: "x \<in> set (remove_at i xs)" "key x = k" by auto
    then have "x \<in> set xs" using set_remove_at_subset by fast
    with x d assms(2) have "lookup_by key (remove_at i xs) k = Some x" "lookup_by key xs k = Some x"
      using lookup_by_distinct by fast+
    moreover have "k \<noteq> key (xs ! i)" using True s by blast
    ultimately show ?thesis by simp
  next
    case False
    then have "lookup_by key (remove_at i xs) k = None" by (simp add: lookup_by_None_iff)
    moreover have "k = key (xs ! i) \<or> lookup_by key xs k = None"
      using False s by (auto simp: lookup_by_None_iff)
    ultimately show ?thesis by auto
  qed
qed

section \<open>The last elements of a list\<close>

definition last_n :: "nat \<Rightarrow> 'a list \<Rightarrow> 'a list" where
  "last_n n xs = drop (length xs - n) xs"

lemma length_last_n [simp]: "length (last_n n xs) = min n (length xs)"
  by (simp add: last_n_def)

lemma last_n_all [simp]: "length xs \<le> n \<Longrightarrow> last_n n xs = xs"
  by (simp add: last_n_def)

lemma last_n_Nil [simp]: "last_n n [] = []"
  by (simp add: last_n_def)

lemma last_n_0 [simp]: "last_n 0 xs = []"
  by (simp add: last_n_def)

lemma last_n_append_last_n [list_window]: "last_n n (last_n n xs @ ys) = last_n n (xs @ ys)"
proof (cases "length xs \<le> n")
  case True
  then show ?thesis by simp
next
  case False
  then show ?thesis by (simp add: last_n_def add.commute)
qed

lemma map_last_n [list_window]: "map f (last_n n xs) = last_n n (map f xs)"
  by (simp add: last_n_def drop_map)

lemma drop_last_n [list_window]:
  "length xs - n \<le> k \<Longrightarrow> drop (k - (length xs - n)) (last_n n xs) = drop k xs"
  by (simp add: last_n_def)

lemma last_n_snoc [list_window]:
  "0 < n \<Longrightarrow> last_n n (xs @ [x]) = (if length xs < n then xs @ [x] else tl (last_n n xs) @ [x])"
  by (auto simp: last_n_def drop_Suc tl_drop Suc_diff_le)

lemma filter_greater_upt:
  "filter (\<lambda>i. a < i) [m..<n] = [max (Suc a) m..<n]"
proof (induction n)
  case 0
  show ?case by simp
next
  case (Suc n)
  show ?case
  proof (cases "m \<le> n")
    case True
    with Suc show ?thesis by (auto simp: max_def)
  next
    case False
    then show ?thesis by simp
  qed
qed

text \<open>
  A filter by a key that grows along the list is a \<open>drop\<close>: how the source reads
  \<open>events after a position\<close> out of a queue of consecutive sequence numbers.
\<close>

lemma filter_after_consecutive:
  assumes "map k xs = [m..<m + length xs]"
  shows "filter (\<lambda>x. a < k x) xs = drop (Suc a - m) xs"
  using assms
proof (induction xs arbitrary: m)
  case Nil
  then show ?case by simp
next
  case (Cons x xs)
  from Cons.prems have kx: "k x = m" and tail: "map k xs = [Suc m..<Suc m + length xs]"
    by (auto simp: upt_conv_Cons simp del: upt_Suc)
  have IH: "filter (\<lambda>x. a < k x) xs = drop (Suc a - Suc m) xs"
    by (rule Cons.IH [OF tail])
  show ?case
  proof (cases "a < m")
    case True
    with kx IH show ?thesis by simp
  next
    case False
    with kx IH show ?thesis by (simp add: Suc_diff_le)
  qed
qed

section \<open>Folds\<close>

lemma fold_eq_invariant:
  "\<lbrakk> I s; \<forall>x \<in> set xs. \<forall>s. I s \<longrightarrow> f x s = g x s \<and> I (f x s) \<rbrakk> \<Longrightarrow> fold f xs s = fold g xs s"
proof (induction xs arbitrary: s)
  case (Cons x xs)
  then have x: "f x s = g x s" "I (f x s)" by auto
  have "fold f xs (f x s) = fold g xs (f x s)"
    by (rule Cons.IH [OF x(2)]) (meson Cons.prems(2) list.set_intros(2))
  with x(1) show ?case by simp
qed simp

lemma fold_mono:
  assumes "\<And>x s. V s \<subseteq> V (f x s)"
  shows "V s \<subseteq> V (fold f xs s)"
proof (induction xs arbitrary: s)
  case (Cons x xs)
  have "V s \<subseteq> V (f x s)" by (rule assms)
  also have "\<dots> \<subseteq> V (fold f xs (f x s))" by (rule Cons.IH)
  finally show ?case by simp
qed simp

lemma fold_covers:
  assumes "\<And>x s. x \<in> set xs \<Longrightarrow> k x \<in> V (f x s)" and "\<And>x s. V s \<subseteq> V (f x s)"
  shows "k ` set xs \<subseteq> V (fold f xs s)"
  using assms(1)
proof (induction xs arbitrary: s)
  case (Cons x xs)
  have "V (f x s) \<subseteq> V (fold f xs (f x s))" by (rule fold_mono [of V f, OF assms(2)])
  with Cons.prems [of x s] have "k x \<in> V (fold f xs (f x s))" by auto
  with Cons show ?case by simp
qed simp

section \<open>Runs of fallible steps\<close>

text \<open>
  A component driven by a list of requests. \<open>None\<close> is a panic of the source, which ends
  the run.  \<open>emitted\<close> collects what every step of a run produces.
\<close>

fun run_steps :: "('s \<Rightarrow> 'r \<Rightarrow> 's option) \<Rightarrow> 's \<Rightarrow> 'r list \<Rightarrow> 's option" where
  "run_steps f s [] = Some s"
| "run_steps f s (r # rs) = (case f s r of None \<Rightarrow> None | Some t \<Rightarrow> run_steps f t rs)"

fun emitted :: "('s \<Rightarrow> 'r \<Rightarrow> 's option) \<Rightarrow> ('s \<Rightarrow> 'r \<Rightarrow> 'a list) \<Rightarrow> 's \<Rightarrow> 'r list \<Rightarrow> 'a list" where
  "emitted f e s [] = []"
| "emitted f e s (r # rs) =
     (case f s r of None \<Rightarrow> [] | Some t \<Rightarrow> e s r @ emitted f e t rs)"

lemma run_steps_invariant:
  assumes "run_steps f s rs = Some t" and "I s"
    and "\<And>s r t. I s \<Longrightarrow> f s r = Some t \<Longrightarrow> I t"
  shows "I t"
  using assms(1,2)
  by (induction rs arbitrary: s) (auto split: option.splits intro: assms(3))

section \<open>Paths of labelled steps\<close>

inductive path :: "('s \<Rightarrow> 'l \<Rightarrow> 's \<Rightarrow> bool) \<Rightarrow> 's \<Rightarrow> 'l list \<Rightarrow> 's \<Rightarrow> bool"
  for step where
  path_Nil: "path step s [] s"
| path_Cons: "step s l t \<Longrightarrow> path step t ls u \<Longrightarrow> path step s (l # ls) u"

inductive_simps path_Nil_iff [simp]: "path step s [] t"

inductive_simps path_Cons_iff: "path step s (l # ls) u"

lemma path_append_iff: "path step s (ls @ ms) u \<longleftrightarrow> (\<exists>t. path step s ls t \<and> path step t ms u)"
  by (induction ls arbitrary: s) (auto simp: path_Cons_iff)

lemma path_invariant:
  assumes "path step s ls t" and "I s" and "\<And>s l t. step s l t \<Longrightarrow> l \<in> set ls \<Longrightarrow> I s \<Longrightarrow> I t"
  shows "I t"
  using assms by (induction rule: path.induct) auto

text \<open>
  Exclusive execution: an identity starts only when it is not in flight and stays in flight
  until a step finishes it.  Then two starts of one identity are separated by a finish.
\<close>

locale exclusive_execution =
  fixes step :: "'s \<Rightarrow> 'l \<Rightarrow> 's \<Rightarrow> bool"
    and inv :: "'s \<Rightarrow> bool"
    and inflight :: "'s \<Rightarrow> 'i \<Rightarrow> bool"
    and starts :: "'l \<Rightarrow> 'i \<Rightarrow> bool"
    and finishes :: "'l \<Rightarrow> 'i \<Rightarrow> bool"
  assumes step_inv: "inv s \<Longrightarrow> step s l t \<Longrightarrow> inv t"
    and starts_fresh: "inv s \<Longrightarrow> step s l t \<Longrightarrow> starts l i \<Longrightarrow> \<not> inflight s i \<and> inflight t i"
    and stays: "inv s \<Longrightarrow> step s l t \<Longrightarrow> inflight s i \<Longrightarrow> \<not> finishes l i \<Longrightarrow> inflight t i"
begin

lemma path_inv: "path step s ls t \<Longrightarrow> inv s \<Longrightarrow> inv t"
  by (induction rule: path.induct) (auto intro: step_inv)

lemma inflight_until_finished:
  "\<lbrakk> path step s ls t; inv s; inflight s i; \<forall>l \<in> set ls. \<not> finishes l i \<rbrakk> \<Longrightarrow>
   inflight t i \<and> (\<forall>l \<in> set ls. \<not> starts l i)"
proof (induction rule: path.induct)
  case (path_Nil s)
  then show ?case by simp
next
  case (path_Cons s l t ls u)
  then have "inflight t i" "inv t" by (auto intro: stays step_inv)
  with path_Cons show ?case by (auto dest: starts_fresh)
qed

lemma finished_between_starts:
  assumes "path step s (pre @ l1 # mid @ l2 # post) t" and "inv s" and "starts l1 i" and "starts l2 i"
  shows "\<exists>l \<in> set mid. finishes l i"
proof (rule ccontr)
  assume none: "\<not> (\<exists>l \<in> set mid. finishes l i)"
  from assms(1) obtain a b c d where p: "path step s pre a" "step a l1 b" "path step b mid c" "step c l2 d"
    by (auto simp: path_append_iff path_Cons_iff)
  have "inv a" by (rule path_inv [OF p(1) assms(2)])
  then have b: "inflight b i" "inv b" using p(2) assms(3) by (auto dest: starts_fresh intro: step_inv)
  with inflight_until_finished [OF p(3)] none have "inflight c i" by blast
  moreover have "inv c" by (rule path_inv [OF p(3) b(2)])
  ultimately show False using p(4) assms(4) by (auto dest: starts_fresh)
qed

end

section \<open>Text\<close>

text \<open>
  Decimal and lower-case hexadecimal rendering, as \<open>{}\<close> and \<open>{:x}\<close> of \<open>format!\<close> print
  an unsigned integer.
\<close>

definition digit_char :: "nat \<Rightarrow> char" where
  "digit_char d = (if d < 10 then char_of (48 + d) else char_of (87 + d))"

fun show_base :: "nat \<Rightarrow> nat \<Rightarrow> string" where
  "show_base b n =
     (if b < 2 \<or> n < b then [digit_char n] else show_base b (n div b) @ [digit_char (n mod b)])"

declare show_base.simps [simp del]

definition show_nat :: "nat \<Rightarrow> string" where
  "show_nat n = show_base 10 n"

definition show_hex :: "nat \<Rightarrow> string" where
  "show_hex n = show_base 16 n"

text \<open>A signed integer: a minus sign before the digits of a negative one.\<close>

definition show_int :: "int \<Rightarrow> string" where
  "show_int i = (if i < 0 then CHR ''-'' # show_nat (nat (- i)) else show_nat (nat i))"

text \<open>\<open>[\<dots>].join(sep)\<close>.\<close>

fun join :: "string \<Rightarrow> string list \<Rightarrow> string" where
  "join sep [] = []"
| "join sep [x] = x"
| "join sep (x # y # xs) = x @ sep @ join sep (y # xs)"

text \<open>\<open>str::split\<close> at a character.\<close>

fun split_on :: "char \<Rightarrow> string \<Rightarrow> string list" where
  "split_on sep [] = [[]]"
| "split_on sep (c # cs) =
     (if c = sep then [] # split_on sep cs
      else (case split_on sep cs of [] \<Rightarrow> [[c]] | part # parts \<Rightarrow> (c # part) # parts))"

text \<open>
  \<open>chars().any(char::is_control)\<close> on UTF-8 bytes: U+0000..U+001F and U+007F are one byte,
  U+0080..U+009F are the two bytes C2 80..C2 9F, and C2 is only ever a lead byte.
\<close>

definition is_ascii_control :: "char \<Rightarrow> bool" where
  "is_ascii_control c = (of_char c < (32 :: nat) \<or> of_char c = (127 :: nat))"

fun has_control :: "string \<Rightarrow> bool" where
  "has_control [] = False"
| "has_control (c # cs) =
     (is_ascii_control c
      \<or> (of_char c = (194 :: nat)
          \<and> (case cs of [] \<Rightarrow> False | d # _ \<Rightarrow> (128 :: nat) \<le> of_char d \<and> of_char d \<le> (159 :: nat)))
      \<or> has_control cs)"

text \<open>
  \<open>trim().is_empty()\<close>: every character is \<open>White_Space\<close>.  In UTF-8 these are the bytes
  09..0D and 20, and U+0085, U+00A0, U+1680, U+2000..U+200A, U+2028, U+2029, U+202F, U+205F and
  U+3000 in two or three bytes.
\<close>

definition ascii_space :: "nat \<Rightarrow> bool" where
  "ascii_space b = (9 \<le> b \<and> b \<le> 13 \<or> b = 32)"

definition wide_space :: "nat \<Rightarrow> nat \<Rightarrow> nat \<Rightarrow> bool" where
  "wide_space a b c =
     (a = 225 \<and> b = 154 \<and> c = 128
      \<or> a = 226 \<and> b = 128 \<and> (128 \<le> c \<and> c \<le> 138 \<or> c = 168 \<or> c = 169 \<or> c = 175)
      \<or> a = 226 \<and> b = 129 \<and> c = 159
      \<or> a = 227 \<and> b = 128 \<and> c = 128)"

fun is_blank :: "string \<Rightarrow> bool" where
  "is_blank [] = True"
| "is_blank (c # cs) =
     (if ascii_space (of_char c) then is_blank cs
      else case cs of
        [] \<Rightarrow> False
      | d # ds \<Rightarrow>
          if of_char c = (194 :: nat) \<and> (of_char d = (133 :: nat) \<or> of_char d = (160 :: nat)) then is_blank ds
          else (case ds of
                  [] \<Rightarrow> False
                | e # es \<Rightarrow> wide_space (of_char c) (of_char d) (of_char e) \<and> is_blank es))"

definition is_ascii_digit :: "char \<Rightarrow> bool" where
  "is_ascii_digit c = ((48 :: nat) \<le> of_char c \<and> of_char c \<le> (57 :: nat))"

definition is_ascii_alphanumeric :: "char \<Rightarrow> bool" where
  "is_ascii_alphanumeric c =
     (is_ascii_digit c
      \<or> (65 :: nat) \<le> of_char c \<and> of_char c \<le> (90 :: nat)
      \<or> (97 :: nat) \<le> of_char c \<and> of_char c \<le> (122 :: nat))"

lemma show_base_nonempty [simp]: "show_base b n \<noteq> []"
  by (subst show_base.simps) simp

lemma digit_char_inj: "digit_char d = digit_char e \<Longrightarrow> d < 16 \<Longrightarrow> e < 16 \<Longrightarrow> d = e"
proof -
  assume "d < 16" "e < 16" "digit_char d = digit_char e"
  then have "(of_char (digit_char d) :: nat) = of_char (digit_char e)" by simp
  with \<open>d < 16\<close> \<open>e < 16\<close> show ?thesis
    by (auto simp: digit_char_def of_char_of split: if_splits)
qed

lemma digit_char_neq_dash: "d < 16 \<Longrightarrow> digit_char d \<noteq> CHR ''-''"
proof
  assume "d < 16" "digit_char d = CHR ''-''"
  then have "(of_char (digit_char d) :: nat) = of_char (CHR ''-'')" by simp
  with \<open>d < 16\<close> show False by (auto simp: digit_char_def of_char_of split: if_splits)
qed

lemma show_base_dash_free:
  "2 \<le> b \<Longrightarrow> b \<le> 16 \<Longrightarrow> CHR ''-'' \<notin> set (show_base b n)"
proof (induction b n rule: show_base.induct)
  case (1 b n)
  show ?case
  proof (cases "n < b")
    case True
    with 1 digit_char_neq_dash [of n] show ?thesis by (subst show_base.simps) simp
  next
    case False
    have "n mod b < 16" using "1.prems" mod_less_divisor [of b n] by linarith
    with False 1 digit_char_neq_dash [of "n mod b"] show ?thesis
      by (subst show_base.simps) auto
  qed
qed

lemma show_base_inj:
  "\<lbrakk> 2 \<le> b; b \<le> 16; show_base b m = show_base b n \<rbrakk> \<Longrightarrow> m = n"
proof (induction b m arbitrary: n rule: show_base.induct)
  case (1 b m)
  have small: "k mod b < 16" for k using "1.prems"(1,2) mod_less_divisor [of b k] by linarith
  have one: "show_base b k = [digit_char k]" if "k < b" for k
    using that by (subst show_base.simps) simp
  have more: "show_base b k = show_base b (k div b) @ [digit_char (k mod b)]" if "\<not> k < b" for k
    using that "1.prems"(1) by (subst show_base.simps) simp
  consider "m < b" "n < b" | "m < b" "\<not> n < b" | "\<not> m < b" "n < b" | "\<not> m < b" "\<not> n < b"
    by blast
  then show ?case
  proof cases
    case 1
    with "1.prems" one digit_char_inj [of m n] show ?thesis by simp
  next
    case 2
    with "1.prems"(3) one [of m] more [of n] show ?thesis
      using show_base_nonempty [of b "n div b"] by (auto simp del: show_base_nonempty)
  next
    case 3
    with "1.prems"(3) one [of n] more [of m] show ?thesis by simp
  next
    case 4
    with "1.prems"(3) more [of m] more [of n]
    have "show_base b (m div b) = show_base b (n div b)"
      and d: "digit_char (m mod b) = digit_char (n mod b)" by simp_all
    with "1.IH" 4 "1.prems"(1,2) have "m div b = n div b" by simp
    moreover from d small have "m mod b = n mod b" by (blast dest: digit_char_inj)
    ultimately show ?thesis by (metis div_mult_mod_eq)
  qed
qed

lemma length_show_base:
  "\<lbrakk> 2 \<le> b; n < b ^ k; 0 < k \<rbrakk> \<Longrightarrow> length (show_base b n) \<le> k"
proof (induction b n arbitrary: k rule: show_base.induct)
  case (1 b n)
  show ?case
  proof (cases "n < b")
    case True
    with 1 show ?thesis by (subst show_base.simps) simp
  next
    case False
    with "1.prems" have "k \<noteq> 1" by auto
    with "1.prems"(3) obtain j where k: "k = Suc j" and j: "0 < j"
      by (cases k) auto
    from "1.prems" k have "n div b < b ^ j"
      by (simp add: less_mult_imp_div_less mult.commute)
    with "1.IH" False "1.prems" j have "length (show_base b (n div b)) \<le> j" by simp
    with False "1.prems" k show ?thesis by (subst show_base.simps) simp
  qed
qed

section \<open>Parsing text\<close>

text \<open>\<open>chars().any(char::is_whitespace)\<close>, with the characters of \<open>is_blank\<close>.\<close>

fun has_whitespace :: "string \<Rightarrow> bool" where
  "has_whitespace [] = False"
| "has_whitespace (c # cs) =
     (ascii_space (of_char c)
      \<or> (case cs of
            [] \<Rightarrow> False
          | d # ds \<Rightarrow>
              of_char c = (194 :: nat) \<and> (of_char d = (133 :: nat) \<or> of_char d = (160 :: nat))
              \<or> (case ds of [] \<Rightarrow> False | e # _ \<Rightarrow> wide_space (of_char c) (of_char d) (of_char e)))
      \<or> has_whitespace cs)"

definition to_ascii_lowercase :: "string \<Rightarrow> string" where
  "to_ascii_lowercase s =
     map (\<lambda>c. if (65 :: nat) \<le> of_char c \<and> of_char c \<le> (90 :: nat) then char_of (of_char c + (32 :: nat)) else c) s"

definition eq_ignore_ascii_case :: "string \<Rightarrow> string \<Rightarrow> bool" where
  "eq_ignore_ascii_case a b \<longleftrightarrow> to_ascii_lowercase a = to_ascii_lowercase b"

text \<open>\<open>strip_prefix\<close>, \<open>split_once\<close> and \<open>rsplit_once\<close>.\<close>

definition strip_prefix :: "string \<Rightarrow> string \<Rightarrow> string option" where
  "strip_prefix p s = (if take (length p) s = p then Some (drop (length p) s) else None)"

fun split_once :: "string \<Rightarrow> string \<Rightarrow> (string \<times> string) option" where
  "split_once sep [] = (if sep = [] then Some ([], []) else None)"
| "split_once sep (c # cs) =
     (case strip_prefix sep (c # cs) of
        Some rest \<Rightarrow> Some ([], rest)
      | None \<Rightarrow> map_option (\<lambda>(a, b). (c # a, b)) (split_once sep cs))"

fun rsplit_once :: "char \<Rightarrow> string \<Rightarrow> (string \<times> string) option" where
  "rsplit_once sep [] = None"
| "rsplit_once sep (c # cs) =
     (case rsplit_once sep cs of
        Some (a, b) \<Rightarrow> Some (c # a, b)
      | None \<Rightarrow> if c = sep then Some ([], cs) else None)"

text \<open>\<open>rsplit(separators).next()\<close>: the text after the last separator.\<close>

definition after_last :: "char set \<Rightarrow> string \<Rightarrow> string" where
  "after_last seps s = rev (takeWhile (\<lambda>c. c \<notin> seps) (rev s))"

text \<open>
  \<open>parse\<close> of an unsigned integer up to \<open>maximum\<close>: an optional plus sign before at least one
  decimal digit.
\<close>

definition decimal_value :: "string \<Rightarrow> nat" where
  "decimal_value ds = foldl (\<lambda>n d. n * 10 + (of_char d - 48)) 0 ds"

definition parse_unsigned :: "nat \<Rightarrow> string \<Rightarrow> nat option" where
  "parse_unsigned maximum s =
     (let ds = (case s of CHR ''+'' # rest \<Rightarrow> rest | _ \<Rightarrow> s) in
      if ds \<noteq> [] \<and> list_all is_ascii_digit ds \<and> decimal_value ds \<le> maximum
      then Some (decimal_value ds) else None)"

definition replace_char :: "char \<Rightarrow> string \<Rightarrow> string \<Rightarrow> string" where
  "replace_char c by s = concat (map (\<lambda>x. if x = c then by else [x]) s)"

end
