(* ===== verification/Json_Value.thy ===== *)
theory Json_Value
  imports Prelude
begin

text \<open>
  JSON documents as the source handles them: \<open>serde_json::Value\<close>.  An object is the list
  of its members: in iteration order for a document that is read, in the order the \<open>json!\<close>
  macro writes them for one that is built, which is only ever looked into by name.  The library
  keeps the names of one object distinct, which \<open>wf_json\<close> states.  A number is one of serde_json's three internal forms
  (an unsigned integer, a negative integer, or a finite double, which no modelled code
  inspects and which is kept as its bit pattern).
\<close>

datatype json_number = PosInt u64 | NegInt i64 | Float u64

datatype json =
    JNull
  | JBool bool
  | JNum json_number
  | JStr string
  | JArr "json list"
  | JObj "(string \<times> json) list"

fun as_str :: "json \<Rightarrow> string option" where
  "as_str (JStr s) = Some s"
| "as_str _ = None"

fun as_object :: "json \<Rightarrow> (string \<times> json) list option" where
  "as_object (JObj ms) = Some ms"
| "as_object _ = None"

text \<open>\<open>Value::as_i64\<close>: an unsigned value that does not fit an \<open>i64\<close> and a double give nothing.\<close>

fun as_i64 :: "json \<Rightarrow> i64 option" where
  "as_i64 (JNum (PosInt n)) = (if unat n < 2 ^ 63 then Some n else None)"
| "as_i64 (JNum (NegInt n)) = Some n"
| "as_i64 _ = None"

fun is_number :: "json \<Rightarrow> bool" where
  "is_number (JNum _) = True"
| "is_number _ = False"

text \<open>\<open>value[key]\<close>: null when the value is no object or has no such member.\<close>

fun json_index :: "json \<Rightarrow> string \<Rightarrow> json" where
  "json_index (JObj ms) k = (case map_of ms k of None \<Rightarrow> JNull | Some v \<Rightarrow> v)"
| "json_index _ k = JNull"

text \<open>\<open>Value::from(i64)\<close>.\<close>

definition json_of_i64 :: "i64 \<Rightarrow> json" where
  "json_of_i64 n = JNum (if 0 \<le> sint n then PosInt n else NegInt n)"

definition json_of_u64 :: "u64 \<Rightarrow> json" where
  "json_of_u64 n = JNum (PosInt n)"

definition json_of_option :: "('a \<Rightarrow> json) \<Rightarrow> 'a option \<Rightarrow> json" where
  "json_of_option f x = (case x of None \<Rightarrow> JNull | Some a \<Rightarrow> f a)"

lemma as_i64_json_of_i64 [simp]: "as_i64 (json_of_i64 n) = Some n"
  by (simp add: json_of_i64_def sint_u64_nonneg_iff)

fun wf_json :: "json \<Rightarrow> bool" where
  "wf_json (JArr xs) = (\<forall>x \<in> set xs. wf_json x)"
| "wf_json (JObj ms) = (distinct (map fst ms) \<and> (\<forall>m \<in> set ms. wf_json (snd m)))"
| "wf_json _ = True"

end
