(* ===== verification/Retention.thy ===== *)
theory Retention
  imports Prelude
begin

text \<open>
  Bounded retention, the contract that the event journal and the raw-output ring share:
  every step appends what it emits and keeps the newest \<open>limit\<close> elements.  The locale
  states the one-step law; its lemma lifts it to whole runs, so a client may reason about
  the complete history although only a window of it is stored.
\<close>

locale retention =
  fixes step :: "'s \<Rightarrow> 'r \<Rightarrow> 's option"
    and emit :: "'s \<Rightarrow> 'r \<Rightarrow> 'a list"
    and contents :: "'s \<Rightarrow> 'a list"
    and limit :: "'s \<Rightarrow> nat"
    and inv :: "'s \<Rightarrow> bool"
  assumes step_inv: "inv s \<Longrightarrow> step s r = Some t \<Longrightarrow> inv t"
    and step_limit: "inv s \<Longrightarrow> step s r = Some t \<Longrightarrow> limit t = limit s"
    and step_contents: "inv s \<Longrightarrow> step s r = Some t \<Longrightarrow>
          contents t = last_n (limit s) (contents s @ emit s r)"
begin

lemma run_retained:
  assumes "run_steps step s rs = Some t" and "inv s" and "contents s = last_n (limit s) h"
  shows "inv t \<and> limit t = limit s \<and>
         contents t = last_n (limit s) (h @ emitted step emit s rs)"
  using assms
proof (induction rs arbitrary: s h)
  case Nil
  then show ?case by simp
next
  case (Cons r rs)
  from Cons.prems(1) obtain u where u: "step s r = Some u" and run: "run_steps step u rs = Some t"
    by (auto split: option.splits)
  from Cons.prems(2,3) u have "contents u = last_n (limit u) (h @ emit s r)"
    by (simp add: step_contents step_limit last_n_append_last_n)
  from Cons.IH [OF run step_inv [OF Cons.prems(2) u] this]
  show ?case using u step_limit [OF Cons.prems(2) u] by simp
qed

lemma run_from_empty:
  assumes "run_steps step s rs = Some t" and "inv s" and "contents s = []"
  shows "contents t = last_n (limit t) (emitted step emit s rs)"
  using run_retained [OF assms(1,2), of "[]"] assms(3) by simp

end

end
