(* ===== verification/Event_Journal.thy ===== *)
theory Event_Journal
  imports Prelude Json_Value Retention
begin

text \<open>
  The server's event journal (\<open>src/event_journal.rs\<close>): the closed set of event kinds and
  their catalogue, the bounded queue of committed events, and reads after a position.
  A client that holds a position (an epoch and a sequence number) either reads exactly
  the events committed after it or is told why it cannot (restart, gap, future).
\<close>

section \<open>Event kinds and their catalogue\<close>

definition EVENT_SCHEMA_VERSION :: u32 where
  "EVENT_SCHEMA_VERSION = 1"

definition DEFAULT_EVENT_CAPACITY :: nat where
  "DEFAULT_EVENT_CAPACITY = 4096"

datatype EventKind =
    ComposerDraft
  | ComposerSubmitted
  | ComposerSubmissionFinished
  | FocusChanged
  | LayoutTreeCollapse
  | LayoutTabsVisibility
  | LayoutTabsWidth
  | TabClosed
  | TabCreated
  | TabNote
  | TabParent
  | TabRenamed
  | TabSelected
  | TabState
  | TerminalOutput
  | TerminalPasted
  | TerminalResized
  | TerminalViewport
  | UiLease
  | WindowVisibility
  | WorkingContextCwd
  | WorkingContextCwdEditor
  | WorkingContextCwdRequested
  | WorkingContextProxyEditor
  | WorkingContextProxyRequested
  | WorkingContextProxySubmitted
  | WorkingContextProxyResolved
  | WorkspaceSaved
  | WorkspaceShutdown

definition EventKind_ALL :: "EventKind list" where
  "EventKind_ALL =
    [ComposerDraft, ComposerSubmitted, ComposerSubmissionFinished, FocusChanged,
     LayoutTreeCollapse, LayoutTabsVisibility, LayoutTabsWidth, TabClosed,
     TabCreated, TabNote, TabParent, TabRenamed,
     TabSelected, TabState, TerminalOutput, TerminalPasted,
     TerminalResized, TerminalViewport, UiLease, WindowVisibility,
     WorkingContextCwd, WorkingContextCwdEditor, WorkingContextCwdRequested, WorkingContextProxyEditor,
     WorkingContextProxyRequested, WorkingContextProxySubmitted, WorkingContextProxyResolved, WorkspaceSaved,
     WorkspaceShutdown]"

fun EventKind_as_str :: "EventKind \<Rightarrow> string" where
  "EventKind_as_str ComposerDraft = ''composer.draft''"
| "EventKind_as_str ComposerSubmitted = ''composer.submitted''"
| "EventKind_as_str ComposerSubmissionFinished = ''composer.submission-finished''"
| "EventKind_as_str FocusChanged = ''focus.changed''"
| "EventKind_as_str LayoutTreeCollapse = ''layout.tree.collapse''"
| "EventKind_as_str LayoutTabsVisibility = ''layout.tabs.visibility''"
| "EventKind_as_str LayoutTabsWidth = ''layout.tabs.width''"
| "EventKind_as_str TabClosed = ''tab.closed''"
| "EventKind_as_str TabCreated = ''tab.created''"
| "EventKind_as_str TabNote = ''tab.note''"
| "EventKind_as_str TabParent = ''tab.parent''"
| "EventKind_as_str TabRenamed = ''tab.renamed''"
| "EventKind_as_str TabSelected = ''tab.selected''"
| "EventKind_as_str TabState = ''tab.state''"
| "EventKind_as_str TerminalOutput = ''terminal.output''"
| "EventKind_as_str TerminalPasted = ''terminal.pasted''"
| "EventKind_as_str TerminalResized = ''terminal.resized''"
| "EventKind_as_str TerminalViewport = ''terminal.viewport''"
| "EventKind_as_str UiLease = ''ui.lease''"
| "EventKind_as_str WindowVisibility = ''window.visibility''"
| "EventKind_as_str WorkingContextCwd = ''working-context.cwd''"
| "EventKind_as_str WorkingContextCwdEditor = ''working-context.cwd.editor''"
| "EventKind_as_str WorkingContextCwdRequested = ''working-context.cwd.requested''"
| "EventKind_as_str WorkingContextProxyEditor = ''working-context.proxy.editor''"
| "EventKind_as_str WorkingContextProxyRequested = ''working-context.proxy.requested''"
| "EventKind_as_str WorkingContextProxySubmitted = ''working-context.proxy.submitted''"
| "EventKind_as_str WorkingContextProxyResolved = ''working-context.proxy.resolved''"
| "EventKind_as_str WorkspaceSaved = ''workspace.saved''"
| "EventKind_as_str WorkspaceShutdown = ''workspace.shutdown''"

record EventSpec =
  spec_kind :: string
  spec_state_path :: string
  spec_payload :: string
  spec_scope :: string
  spec_since :: string

definition event_spec :: "EventKind \<Rightarrow> string \<Rightarrow> string \<Rightarrow> string \<Rightarrow> string \<Rightarrow> EventSpec" where
  "event_spec kind state_path payload scope since =
     \<lparr>spec_kind = EventKind_as_str kind, spec_state_path = state_path, spec_payload = payload,
      spec_scope = scope, spec_since = since\<rparr>"

definition EVENT_CATALOG :: "EventSpec list" where
  "EVENT_CATALOG =
    [event_spec ComposerDraft ''tabs[].draft''
       ''{length:u64}'' ''tab'' ''0.1.5'',
     event_spec ComposerSubmitted ''tabs[].draft''
       ''{length:u64}'' ''tab'' ''0.1.5'',
     event_spec ComposerSubmissionFinished ''tabs[].submit_pending''
       ''{enter_written:bool,terminal_finalized:bool}'' ''tab'' ''0.1.7'',
     event_spec FocusChanged ''focus.surface''
       ''{from:string,to:string}'' ''server'' ''0.1.6'',
     event_spec LayoutTreeCollapse ''tabs[].collapsed''
       ''{collapsed:bool}'' ''tab'' ''0.1.9'',
     event_spec LayoutTabsVisibility ''layout.sidebar.visible''
       ''{visible:bool,cause:string,operation_id:string}'' ''server'' ''0.1.6'',
     event_spec LayoutTabsWidth ''layout.sidebar.configured_width''
       ''{configured_width:u16,effective_width:i32,cause:string,operation_id:string}'' ''server'' ''0.1.6'',
     event_spec TabClosed ''tabs[]''
       ''{index:u32,parent_id:u64?,exit_code:i32?,promoted_children:[u64],active_id:u64?}'' ''tab'' ''0.1.5'',
     event_spec TabCreated ''tabs[]''
       ''{index:u32,parent_id:u64?,selected:bool}'' ''tab'' ''0.1.5'',
     event_spec TabNote ''tabs[].note''
       ''{previous_note:string,note:string}'' ''tab'' ''0.1.5'',
     event_spec TabParent ''tabs[].parent_id''
       ''{previous_parent_id:u64?,parent_id:u64?}'' ''tab'' ''0.1.5'',
     event_spec TabRenamed ''tabs[].name''
       ''{previous_name:string,name:string}'' ''tab'' ''0.1.5'',
     event_spec TabSelected ''tabs[].active''
       ''{}'' ''tab'' ''0.1.5'',
     event_spec TabState ''tabs[].state''
       ''{state:string,exit_code:i32?,error:string?}'' ''tab'' ''0.1.5'',
     event_spec TerminalOutput ''inspect.windows[].output_bytes''
       ''{output_bytes:u64,advanced_by:u64}'' ''tab'' ''0.1.5'',
     event_spec TerminalPasted ''inspect.windows[].output_bytes''
       ''{characters:u64,bytes:u64,bracketed:bool,source:string}'' ''tab'' ''0.1.5'',
     event_spec TerminalResized ''tabs[].screen''
       ''{rows:u16,columns:u16,source:string}'' ''tab'' ''0.1.9'',
     event_spec TerminalViewport ''tabs[].scrollback_offset''
       ''{scrollback_offset:u64,source:string}'' ''tab'' ''0.1.5'',
     event_spec UiLease ''ui.lease''
       ''{state:string,client_id:string,client_pid:u32,reason:string}'' ''server'' ''0.1.9'',
     event_spec WindowVisibility ''window.visible''
       ''{visible:bool,reason:string}'' ''server'' ''0.1.6'',
     event_spec WorkingContextCwd ''tabs[].working_context.cwd''
       ''{path:string?,source:string,pending:bool}'' ''tab'' ''0.1.6'',
     event_spec WorkingContextCwdEditor ''modal.kind''
       ''{open:bool}'' ''tab'' ''0.1.6'',
     event_spec WorkingContextCwdRequested ''tabs[].working_context.cwd''
       ''{path:string,source:string,pending:bool,disposition:string,composer_mode:string?|shell:string?}'' ''tab'' ''0.1.6'',
     event_spec WorkingContextProxyEditor ''modal.kind''
       ''{open:bool}'' ''tab'' ''0.1.6'',
     event_spec WorkingContextProxyRequested ''tabs[].working_context.proxy''
       ''{configured:bool,source:string,request_pending:bool,disposition:string}'' ''tab'' ''0.1.6'',
     event_spec WorkingContextProxySubmitted ''tabs[].working_context.proxy''
       ''{sensitive:bool}'' ''tab'' ''0.1.6'',
     event_spec WorkingContextProxyResolved ''tabs[].working_context.proxy''
       ''{configured:bool,source:string,application_state:string,request_pending:bool}'' ''tab'' ''0.1.8'',
     event_spec WorkspaceSaved ''startup.workspace_file_exists''
       ''{}'' ''server'' ''0.1.5'',
     event_spec WorkspaceShutdown ''server-list[]''
       ''{saved:bool,destroyed:bool?}'' ''server'' ''0.1.5'']"

section \<open>Positions, envelopes and read errors\<close>

record EventPosition =
  pos_epoch :: string
  pos_sequence :: u64

record EventEnvelope =
  ev_schema_version :: u32
  ev_epoch :: string
  ev_sequence :: u64
  ev_kind :: string
  ev_tab_id :: "u64 option"
  ev_request_id :: "string option"
  ev_operation_id :: "string option"
  ev_payload :: json

datatype JournalReadError =
    Restart string EventPosition
  | Gap u64 u64 EventPosition
  | FutureSequence u64 EventPosition

fun JournalReadError_fmt :: "JournalReadError \<Rightarrow> string" where
  "JournalReadError_fmt (Restart requested_epoch current) =
     ''server_restart: requested epoch '' @ requested_epoch @ '', current epoch ''
       @ pos_epoch current @ '' at sequence '' @ show_nat (unat (pos_sequence current))"
| "JournalReadError_fmt (Gap requested_after earliest_available current) =
     ''journal_gap: sequence '' @ show_nat (unat requested_after)
       @ '' is older than earliest available '' @ show_nat (unat earliest_available)
       @ ''; current sequence is '' @ show_nat (unat (pos_sequence current))"
| "JournalReadError_fmt (FutureSequence requested_after current) =
     ''future_sequence: requested sequence '' @ show_nat (unat requested_after)
       @ '', current sequence is '' @ show_nat (unat (pos_sequence current))"

fun JournalReadError_code :: "JournalReadError \<Rightarrow> string" where
  "JournalReadError_code (Restart _ _) = ''server_restart''"
| "JournalReadError_code (Gap _ _ _) = ''journal_gap''"
| "JournalReadError_code (FutureSequence _ _) = ''future_sequence''"

definition EventPosition_json :: "EventPosition \<Rightarrow> json" where
  "EventPosition_json p =
     JObj [(''epoch'', JStr (pos_epoch p)), (''sequence'', json_of_u64 (pos_sequence p))]"

fun JournalReadError_to_json :: "JournalReadError \<Rightarrow> json" where
  "JournalReadError_to_json (Restart requested_epoch current) =
     JObj [(''code'', JStr ''server_restart''),
           (''requested_epoch'', JStr requested_epoch),
           (''current'', EventPosition_json current)]"
| "JournalReadError_to_json (Gap requested_after earliest_available current) =
     JObj [(''code'', JStr ''journal_gap''),
           (''requested_after'', json_of_u64 requested_after),
           (''earliest_available'', json_of_u64 earliest_available),
           (''current'', EventPosition_json current)]"
| "JournalReadError_to_json (FutureSequence requested_after current) =
     JObj [(''code'', JStr ''future_sequence''),
           (''requested_after'', json_of_u64 requested_after),
           (''current'', EventPosition_json current)]"

section \<open>The journal\<close>

record EventJournal =
  jr_epoch :: string
  jr_sequence :: u64
  jr_capacity :: nat
  jr_events :: "EventEnvelope list"

definition with_epoch :: "string \<Rightarrow> nat \<Rightarrow> EventJournal" where
  "with_epoch epoch capacity =
     \<lparr>jr_epoch = epoch, jr_sequence = 0, jr_capacity = max capacity 1, jr_events = []\<rparr>"

text \<open>\<open>EventJournal::new\<close>; the epoch text (process id and start time) is the argument.\<close>

definition EventJournal_new :: "string \<Rightarrow> EventJournal" where
  "EventJournal_new new_epoch = with_epoch new_epoch DEFAULT_EVENT_CAPACITY"

definition journal_position :: "EventJournal \<Rightarrow> EventPosition" where
  "journal_position j = \<lparr>pos_epoch = jr_epoch j, pos_sequence = jr_sequence j\<rparr>"

text \<open>
  \<open>commit_correlated\<close> returns the committed event and the new journal; \<open>None\<close> is the panic
  on an exhausted sequence.
\<close>

definition commit_correlated ::
  "EventJournal \<Rightarrow> EventKind \<Rightarrow> u64 option \<Rightarrow> string option \<Rightarrow> string option \<Rightarrow> json
   \<Rightarrow> (EventEnvelope \<times> EventJournal) option" where
  "commit_correlated j kind tab_id request_id operation_id payload =
     (case checked_add (jr_sequence j) 1 of
        None \<Rightarrow> None
      | Some sequence \<Rightarrow>
          let event =
                \<lparr>ev_schema_version = EVENT_SCHEMA_VERSION, ev_epoch = jr_epoch j,
                 ev_sequence = sequence, ev_kind = EventKind_as_str kind, ev_tab_id = tab_id,
                 ev_request_id = request_id, ev_operation_id = operation_id,
                 ev_payload = payload\<rparr>;
              kept = (if length (jr_events j) = jr_capacity j then tl (jr_events j)
                      else jr_events j)
          in Some (event, j\<lparr>jr_sequence := sequence, jr_events := kept @ [event]\<rparr>))"

definition journal_commit ::
  "EventJournal \<Rightarrow> EventKind \<Rightarrow> u64 option \<Rightarrow> json \<Rightarrow> (EventEnvelope \<times> EventJournal) option" where
  "journal_commit j kind tab_id payload = commit_correlated j kind tab_id None None payload"

definition read_after ::
  "EventJournal \<Rightarrow> string \<Rightarrow> u64 \<Rightarrow> nat \<Rightarrow> JournalReadError + EventEnvelope list" where
  "read_after j epoch after limit =
     (let current = journal_position j in
      if epoch \<noteq> jr_epoch j then Err (Restart epoch current)
      else if jr_sequence j < after then Err (FutureSequence after current)
      else
        let matching = take (max limit 1) (filter (\<lambda>e. after < ev_sequence e) (jr_events j)) in
        (case jr_events j of
           [] \<Rightarrow> Ok matching
         | e # _ \<Rightarrow>
             if saturating_add after 1 < ev_sequence e
             then Err (Gap after (ev_sequence e) current)
             else Ok matching))"

section \<open>The journal invariant\<close>

text \<open>
  The retained events are consecutive, end at the current sequence number, carry the
  journal's epoch, and there are as many of them as were committed, up to the capacity.
\<close>

definition journal_ok :: "EventJournal \<Rightarrow> bool" where
  "journal_ok j \<longleftrightarrow>
     1 \<le> jr_capacity j
     \<and> length (jr_events j) = min (unat (jr_sequence j)) (jr_capacity j)
     \<and> map (\<lambda>e. unat (ev_sequence e)) (jr_events j)
         = [Suc (unat (jr_sequence j)) - length (jr_events j)..<Suc (unat (jr_sequence j))]
     \<and> (\<forall>e \<in> set (jr_events j). ev_epoch e = jr_epoch j)"

text \<open>A journal as a machine: one request is the argument tuple of one commit.\<close>

type_synonym commit_request =
  "EventKind \<times> u64 option \<times> string option \<times> string option \<times> json"

definition commit_with :: "EventJournal \<Rightarrow> commit_request \<Rightarrow> (EventEnvelope \<times> EventJournal) option" where
  "commit_with j r = (case r of (kind, tab_id, request_id, operation_id, payload) \<Rightarrow>
     commit_correlated j kind tab_id request_id operation_id payload)"

definition commit_step :: "EventJournal \<Rightarrow> commit_request \<Rightarrow> EventJournal option" where
  "commit_step j r = map_option snd (commit_with j r)"

definition commit_emit :: "EventJournal \<Rightarrow> commit_request \<Rightarrow> EventEnvelope list" where
  "commit_emit j r = (case commit_with j r of None \<Rightarrow> [] | Some (e, _) \<Rightarrow> [e])"

definition journal_run :: "EventJournal \<Rightarrow> commit_request list \<Rightarrow> EventJournal option" where
  "journal_run j rs = run_steps commit_step j rs"

definition journal_history :: "EventJournal \<Rightarrow> commit_request list \<Rightarrow> EventEnvelope list" where
  "journal_history j rs = emitted commit_step commit_emit j rs"

lemma journal_ok_with_epoch: "journal_ok (with_epoch epoch capacity)"
  by (simp add: journal_ok_def with_epoch_def)

lemma commit_correlated_SomeD:
  assumes "commit_correlated j kind tab_id request_id operation_id payload = Some (e, j')"
  shows "unat (jr_sequence j') = Suc (unat (jr_sequence j)) \<and> ev_sequence e = jr_sequence j'
    \<and> ev_epoch e = jr_epoch j \<and> ev_kind e = EventKind_as_str kind \<and> ev_tab_id e = tab_id
    \<and> ev_request_id e = request_id \<and> ev_operation_id e = operation_id \<and> ev_payload e = payload
    \<and> jr_epoch j' = jr_epoch j \<and> jr_capacity j' = jr_capacity j
    \<and> jr_events j' = (if length (jr_events j) = jr_capacity j then tl (jr_events j)
                      else jr_events j) @ [e]"
  using assms
  by (auto simp: commit_correlated_def Let_def split: option.splits dest!: checked_add_SomeD)

lemma commit_keeps_last_n:
  assumes "journal_ok j" and "commit_with j r = Some (e, j')"
  shows "jr_events j' = last_n (jr_capacity j) (jr_events j @ [e])"
proof -
  have cap: "0 < jr_capacity j" and len: "length (jr_events j) \<le> jr_capacity j"
    using assms(1) by (auto simp: journal_ok_def)
  have ev: "jr_events j' = (if length (jr_events j) = jr_capacity j then tl (jr_events j)
                            else jr_events j) @ [e]"
    using assms(2) by (cases r) (auto simp: commit_with_def dest: commit_correlated_SomeD)
  show ?thesis using cap len by (auto simp: ev last_n_snoc)
qed

lemma journal_ok_commit:
  assumes ok: "journal_ok j" and c: "commit_with j r = Some (e, j')"
  shows "journal_ok j'"
proof -
  let ?k = "\<lambda>e. unat (ev_sequence e)" and ?n = "unat (jr_sequence j)" and ?l = "length (jr_events j)"
  obtain kind tab_id request_id operation_id payload
    where "commit_correlated j kind tab_id request_id operation_id payload = Some (e, j')"
    using c by (cases r) (auto simp: commit_with_def)
  from commit_correlated_SomeD [OF this]
  have n': "unat (jr_sequence j') = Suc ?n" and k: "ev_sequence e = jr_sequence j'"
    and cap: "jr_capacity j' = jr_capacity j"
    and ep: "jr_epoch j' = jr_epoch j" "ev_epoch e = jr_epoch j" by simp_all
  have ev: "jr_events j' = last_n (jr_capacity j) (jr_events j @ [e])"
    by (rule commit_keeps_last_n [OF ok c])
  from ok have seqs: "map ?k (jr_events j) = [Suc ?n - ?l..<Suc ?n]"
    and len: "?l = min ?n (jr_capacity j)" by (simp_all add: journal_ok_def)
  have "map ?k (jr_events j @ [e]) = [Suc ?n - ?l..<Suc (Suc ?n)]"
    using seqs k n' len by simp
  then have "map ?k (jr_events j') = last_n (jr_capacity j) [Suc ?n - ?l..<Suc (Suc ?n)]"
    by (simp only: ev map_last_n)
  also have "\<dots> = [Suc ?n - ?l + (Suc ?l - jr_capacity j)..<Suc (Suc ?n)]"
    using len by (simp add: last_n_def del: upt_Suc)
  also have "Suc ?n - ?l + (Suc ?l - jr_capacity j) = Suc (Suc ?n) - length (jr_events j')"
    unfolding ev length_last_n using len ok by (simp add: journal_ok_def)
  finally have "map ?k (jr_events j') = [Suc (Suc ?n) - length (jr_events j')..<Suc (Suc ?n)]" .
  moreover have "set (jr_events j') \<subseteq> insert e (set (jr_events j))"
    unfolding ev last_n_def by (auto dest: in_set_dropD)
  ultimately show ?thesis
    using ok ep cap n' len by (auto simp: journal_ok_def ev)
qed

interpretation events: retention commit_step commit_emit jr_events jr_capacity journal_ok
proof (standard, goal_cases)
  case (1 s r t)
  then show ?case by (auto simp: commit_step_def intro: journal_ok_commit)
next
  case (2 s r t)
  then show ?case
    by (cases r) (auto simp: commit_step_def commit_with_def dest: commit_correlated_SomeD)
next
  case (3 s r t)
  then show ?case
    by (auto simp: commit_step_def commit_emit_def dest: commit_keeps_last_n)
qed

lemma journal_run_ok: "journal_run j rs = Some j' \<Longrightarrow> journal_ok j \<Longrightarrow> journal_ok j'"
  unfolding journal_run_def by (rule run_steps_invariant, assumption, assumption)
    (rule events.step_inv)

lemma journal_run_sequence:
  assumes "journal_run j rs = Some j'"
  shows "unat (jr_sequence j') = unat (jr_sequence j) + length (journal_history j rs)
    \<and> jr_epoch j' = jr_epoch j \<and> jr_capacity j' = jr_capacity j
    \<and> length (journal_history j rs) = length rs"
  using assms unfolding journal_run_def journal_history_def
proof (induction rs arbitrary: j)
  case Nil
  then show ?case by simp
next
  case (Cons r rs)
  from Cons.prems obtain u where u: "commit_step j r = Some u"
    and run: "run_steps commit_step u rs = Some j'"
    by (auto split: option.splits)
  from u obtain e where e: "commit_with j r = Some (e, u)" by (auto simp: commit_step_def)
  then have "unat (jr_sequence u) = Suc (unat (jr_sequence j)) \<and> jr_epoch u = jr_epoch j
      \<and> jr_capacity u = jr_capacity j"
    by (cases r) (auto simp: commit_with_def dest: commit_correlated_SomeD)
  with Cons.IH [OF run] u e show ?case by (simp add: commit_emit_def)
qed

lemma journal_history_append:
  assumes "journal_run j rs = Some j'"
  shows "journal_history j (rs @ rs') = journal_history j rs @ journal_history j' rs'
    \<and> journal_run j (rs @ rs') = journal_run j' rs'"
  using assms unfolding journal_run_def journal_history_def
  by (induction rs arbitrary: j) (auto split: option.splits)

lemma journal_run_retained:
  assumes "journal_run (with_epoch epoch capacity) rs = Some j"
  shows "jr_events j = last_n (jr_capacity j) (journal_history (with_epoch epoch capacity) rs)"
  using events.run_from_empty [of "with_epoch epoch capacity" rs j] assms journal_ok_with_epoch
  by (simp add: journal_run_def journal_history_def with_epoch_def)

text \<open>What a read does on any journal that satisfies the invariant.\<close>

lemma read_after_ok:
  assumes ok: "journal_ok j"
  defines "n \<equiv> unat (jr_sequence j)" and "l \<equiv> length (jr_events j)"
  shows "read_after j epoch after limit =
    (if epoch \<noteq> jr_epoch j then Err (Restart epoch (journal_position j))
     else if n < unat after then Err (FutureSequence after (journal_position j))
     else if unat after < n - l
       then Err (Gap after (ev_sequence (hd (jr_events j))) (journal_position j))
     else Ok (take (max limit 1) (drop (unat after - (n - l)) (jr_events j))))"
proof -
  from ok have seqs: "map (\<lambda>e. unat (ev_sequence e)) (jr_events j) = [Suc n - l..<Suc n]"
    and len: "l = min n (jr_capacity j)" and cap: "1 \<le> jr_capacity j"
    by (simp_all add: journal_ok_def n_def l_def)
  have fut: "jr_sequence j < after \<longleftrightarrow> n < unat after"
    by (simp add: word_less_nat_alt n_def)
  show ?thesis
  proof (cases "epoch = jr_epoch j \<and> \<not> n < unat after")
    case False
    then show ?thesis using fut by (auto simp: read_after_def Let_def)
  next
    case True
    have "map (\<lambda>e. unat (ev_sequence e)) (jr_events j) = [Suc n - l..<(Suc n - l) + length (jr_events j)]"
      using seqs len by (simp add: l_def)
    then have flt: "filter (\<lambda>e. after < ev_sequence e) (jr_events j)
        = drop (unat after - (n - l)) (jr_events j)"
      using filter_after_consecutive
        [of "\<lambda>e. unat (ev_sequence e)" "jr_events j" "Suc n - l" "unat after"] len
      by (simp add: word_less_nat_alt Suc_diff_le)
    show ?thesis
    proof (cases "jr_events j")
      case Nil
      with True fut flt len cap show ?thesis
        by (simp add: read_after_def Let_def l_def)
    next
      case (Cons e es)
      with seqs [symmetric] have e: "unat (ev_sequence e) = Suc n - l"
        by (simp add: upt_eq_Cons_conv del: upt_Suc)
      have "unat (saturating_add after 1) = min (unat after + 1) (2 ^ 64 - 1)"
        using unat_saturating_add [of after 1] by simp
      moreover have "unat (ev_sequence e) \<le> 2 ^ 64 - 1" and "unat after \<le> 2 ^ 64 - 1"
        by (rule unat_u64_le)+
      ultimately have "saturating_add after 1 < ev_sequence e \<longleftrightarrow> unat after < n - l"
        using e len True by (simp add: word_less_nat_alt) arith
      with True fut flt Cons show ?thesis
        by (simp add: read_after_def Let_def)
    qed
  qed
qed

lemma count_list_distinct: "distinct xs \<Longrightarrow> x \<in> set xs \<Longrightarrow> count_list xs x = 1"
  by (induction xs) (auto simp: count_list_0_iff)

section \<open>Properties\<close>

lemma read_after_history:
  assumes run: "journal_run (with_epoch ep capacity) rs = Some j"
  defines "h \<equiv> journal_history (with_epoch ep capacity) rs"
  shows "read_after j epoch after limit =
    (if epoch \<noteq> ep then Err (Restart epoch (journal_position j))
     else if length h < unat after then Err (FutureSequence after (journal_position j))
     else if unat after + max capacity 1 < length h
       then Err (Gap after (of_nat (Suc (length h - max capacity 1))) (journal_position j))
     else Ok (take (max limit 1) (drop (unat after) h)))"
proof -
  have ok: "journal_ok j" by (rule journal_run_ok [OF run journal_ok_with_epoch])
  from journal_run_sequence [OF run]
  have n: "unat (jr_sequence j) = length h" and ep: "jr_epoch j = ep"
    and cap: "jr_capacity j = max capacity 1"
    by (simp_all add: h_def with_epoch_def)
  have ev: "jr_events j = last_n (max capacity 1) h"
    using journal_run_retained [OF run] cap by (simp add: h_def)
  have l: "length h - length (jr_events j) = length h - max capacity 1"
    by (simp add: ev)
  have hd: "ev_sequence (hd (jr_events j)) = of_nat (Suc (length h - max capacity 1))"
    if "jr_events j \<noteq> []"
  proof -
    have "map (\<lambda>e. unat (ev_sequence e)) (jr_events j)
        = [Suc (length h) - length (jr_events j)..<Suc (length h)]"
      using ok n by (simp add: journal_ok_def)
    with that have "unat (ev_sequence (hd (jr_events j))) = Suc (length h) - length (jr_events j)"
      by (cases "jr_events j") (auto simp: upt_eq_Cons_conv simp del: upt_Suc dest: sym)
    then have "unat (ev_sequence (hd (jr_events j))) = Suc (length h - max capacity 1)"
      using l by (simp add: ev Suc_diff_le)
    then show ?thesis by (metis of_nat_unat ucast_id)
  qed
  have d: "drop (unat after - (length h - max capacity 1)) (last_n (max capacity 1) h)
      = drop (unat after) h" if "\<not> unat after + max capacity 1 < length h"
    using that by (intro drop_last_n) simp
  have ne: "jr_events j \<noteq> []" if "unat after < length h - max capacity 1"
    using that by (auto simp: ev last_n_def)
  show ?thesis
    using read_after_ok [OF ok, of epoch after limit] n ep l hd d ne
    by (auto simp: ev less_diff_conv)
qed

lemma read_after_ok_page:
  assumes "journal_run (with_epoch ep capacity) rs = Some j"
    and "read_after j ep after limit = Ok page"
  shows "page = take (max limit 1) (drop (unat after) (journal_history (with_epoch ep capacity) rs))"
    and "unat after \<le> length (journal_history (with_epoch ep capacity) rs)"
  using assms(2) by (simp_all add: read_after_history [OF assms(1)] split: if_splits)

text \<open>
  C6. The exact behaviour of a read on a journal driven by any sequence of commits, in terms
  of the complete history of committed events: a foreign epoch is a restart, a position beyond
  the history is a future sequence, a position whose successor was already discarded is a gap
  that names the earliest retained sequence, and every other read returns precisely the next
  events of the history, in order, at most \<open>max limit 1\<close> of them.
\<close>

theorem read_after_exact:
  assumes run: "journal_run (with_epoch ep capacity) rs = Some j"
  defines "h \<equiv> journal_history (with_epoch ep capacity) rs"
  shows "read_after j epoch after limit =
    (if epoch \<noteq> ep then Err (Restart epoch (journal_position j))
     else if length h < unat after then Err (FutureSequence after (journal_position j))
     else if unat after + max capacity 1 < length h
       then Err (Gap after (of_nat (Suc (length h - max capacity 1))) (journal_position j))
     else Ok (take (max limit 1) (drop (unat after) h)))"
  unfolding h_def by (rule read_after_history [OF run])

theorem read_after_exact_witness:
  "let j = the (journal_run (with_epoch ''e'' 2)
              [(TabCreated, Some 7, None, None, JNull), (TabSelected, Some 7, None, None, JNull),
               (TabClosed, None, None, None, JNull)])
   in read_after j ''e'' 0 10 = Err (Gap 0 2 \<lparr>pos_epoch = ''e'', pos_sequence = 3\<rparr>)
      \<and> map_sum id (map ev_sequence) (read_after j ''e'' 1 10) = Ok [2, 3]"
proof -
  let ?rs = "[(TabCreated, Some 7, None, None, JNull), (TabSelected, Some 7, None, None, JNull),
               (TabClosed, None, None, None, JNull)] :: commit_request list"
  obtain j where j: "journal_run (with_epoch ''e'' 2) ?rs = Some j"
    by (simp add: journal_run_def with_epoch_def commit_step_def commit_with_def
        commit_correlated_def checked_add_def Let_def)
  show ?thesis
    using read_after_exact [OF j, of "''e''" 0 10] read_after_exact [OF j, of "''e''" 1 10] j
    by (auto simp: journal_run_def journal_history_def with_epoch_def commit_step_def commit_emit_def
        commit_with_def commit_correlated_def checked_add_def Let_def journal_position_def)
qed

text \<open>
  C20. Resuming a read loses and repeats nothing.  A client reads a page after a position,
  more events are committed, and it reads again after the last event it saw: whenever both
  reads succeed, the two pages together are consecutive events of the final history,
  starting right after the first position.
\<close>

theorem read_after_resume:
  assumes run1: "journal_run (with_epoch ep capacity) rs1 = Some j1"
    and run2: "journal_run j1 rs2 = Some j2"
    and page1: "read_after j1 ep after limit1 = Ok page1"
    and page2: "read_after j2 ep (after + of_nat (length page1)) limit2 = Ok page2"
  defines "h \<equiv> journal_history (with_epoch ep capacity) (rs1 @ rs2)"
  shows "page1 @ page2 = take (length page1 + length page2) (drop (unat after) h)"
proof -
  let ?j0 = "with_epoch ep capacity"
  let ?h1 = "journal_history ?j0 rs1"
  from journal_history_append [OF run1, of rs2] run2
  have run12: "journal_run ?j0 (rs1 @ rs2) = Some j2" and h: "h = ?h1 @ journal_history j1 rs2"
    by (simp_all add: h_def)
  note p1 = read_after_ok_page(1) [OF run1 page1] and a = read_after_ok_page(2) [OF run1 page1]
  have len1: "unat after + length page1 \<le> length ?h1" using p1 a by simp
  have "length ?h1 \<le> 2 ^ 64 - 1"
    using journal_run_sequence [OF run1] unat_u64_le [of "jr_sequence j1"]
    by (simp add: with_epoch_def)
  with len1 have "unat (after + of_nat (length page1)) = unat after + length page1"
    by (simp add: unat_word_ariths unat_of_nat)
  with read_after_ok_page(1) [OF run12 page2]
  have p2: "page2 = take (max limit2 1) (drop (unat after + length page1) h)"
    by (simp add: h_def)
  have "page1 = take (length page1) (drop (unat after) h)"
    using p1 len1 by (simp add: h take_append min_def)
  moreover have "page2 = take (length page2) (drop (length page1) (drop (unat after) h))"
    using p2 by (simp add: add.commute min_def)
  ultimately show ?thesis by (metis take_add)
qed

theorem read_after_resume_witness:
  "let j0 = with_epoch ''e'' 4;
       j1 = the (journal_run j0 [(TabCreated, Some 7, None, None, JNull),
                                 (TabSelected, Some 7, None, None, JNull)]);
       j2 = the (journal_run j1 [(TabClosed, None, None, None, JNull)])
   in \<exists>page1 page2. read_after j1 ''e'' 0 1 = Ok page1 \<and> read_after j2 ''e'' 1 5 = Ok page2
        \<and> map ev_sequence (page1 @ page2) = [1, 2, 3]"
proof -
  let ?j0 = "with_epoch ''e'' 4"
  let ?rs1 = "[(TabCreated, Some 7, None, None, JNull),
               (TabSelected, Some 7, None, None, JNull)] :: commit_request list"
  let ?rs2 = "[(TabClosed, None, None, None, JNull)] :: commit_request list"
  note defs = journal_run_def journal_history_def with_epoch_def commit_step_def commit_emit_def
    commit_with_def commit_correlated_def checked_add_def Let_def
  obtain j1 where j1: "journal_run ?j0 ?rs1 = Some j1"
    by (simp add: defs)
  obtain j2 where j2: "journal_run j1 ?rs2 = Some j2"
    using j1 by (auto simp: defs)
  from j1 obtain page1 where page1: "read_after j1 ''e'' 0 1 = Ok page1" and l: "length page1 = 1"
    by (auto simp: defs read_after_def saturating_add_def)
  from j1 j2 obtain page2 where page2: "read_after j2 ''e'' 1 5 = Ok page2" and l2: "length page2 = 2"
    by (auto simp: defs read_after_def saturating_add_def)
  have "page1 @ page2 = take (length page1 + length page2)
      (drop (unat (0 :: u64)) (journal_history ?j0 (?rs1 @ ?rs2)))"
    using page2 l by (intro read_after_resume [OF j1 j2 page1]) simp
  then have "map ev_sequence (page1 @ page2) = [1, 2, 3]"
    using l l2 by (simp add: defs)
  with page1 page2 j1 j2 show ?thesis by (auto simp: Let_def)
qed

text \<open>
  The event catalogue is a complete and unambiguous view of the closed set of kinds:
  it lists the kinds in their declared order, no two kinds share a wire name, and every
  kind has exactly one entry.
\<close>

theorem event_catalog_complete:
  "map spec_kind EVENT_CATALOG = map EventKind_as_str EventKind_ALL
   \<and> set EventKind_ALL = UNIV \<and> distinct (map spec_kind EVENT_CATALOG)
   \<and> (\<forall>kind. length (filter (\<lambda>spec. spec_kind spec = EventKind_as_str kind) EVENT_CATALOG) = 1)"
proof -
  have kinds: "map spec_kind EVENT_CATALOG = map EventKind_as_str EventKind_ALL"
    by (simp add: EVENT_CATALOG_def EventKind_ALL_def event_spec_def)
  have all: "kind \<in> set EventKind_ALL" for kind
    by (cases kind) (simp_all add: EventKind_ALL_def)
  have dist: "distinct (map EventKind_as_str EventKind_ALL)"
    by (simp add: EventKind_ALL_def)
  have "length (filter (\<lambda>spec. spec_kind spec = EventKind_as_str kind) EVENT_CATALOG) = 1" for kind
  proof -
    have "length (filter (\<lambda>spec. spec_kind spec = EventKind_as_str kind) EVENT_CATALOG)
        = count_list (map spec_kind EVENT_CATALOG) (EventKind_as_str kind)"
      by (simp add: count_list_eq_length_filter filter_map comp_def eq_commute)
    also have "\<dots> = 1"
      using dist all [of kind] by (simp add: kinds count_list_distinct)
    finally show ?thesis .
  qed
  with kinds all dist show ?thesis by auto
qed

end
