(* ===== verification/Chassis_Bytecode.thy ===== *)
theory Chassis_Bytecode
  imports Prelude Json_Value
begin

text \<open>
  The Chassis-L2 instruction set (\<open>crates/agenterm-chassis/src/bytecode.rs\<close>): opcodes and
  their encoded size, the assembler from the JSON-friendly IR to bytecode, the decoder, and
  the JSON form of one IR operation.  The main result is the round trip: whatever the
  assembler produces, the decoder reads back as the instructions the IR meant.
\<close>

section \<open>Little-endian integers\<close>

fun to_le :: "nat \<Rightarrow> u64 \<Rightarrow> u8 list" where
  "to_le 0 w = []"
| "to_le (Suc n) w = ucast w # to_le n (drop_bit 8 w)"

definition to_le_bytes :: "u64 \<Rightarrow> u8 list" where
  "to_le_bytes w = to_le 8 w"

fun from_le_bytes :: "u8 list \<Rightarrow> u64" where
  "from_le_bytes [] = 0"
| "from_le_bytes (b # bs) = ucast b + 256 * from_le_bytes bs"

section \<open>Opcodes\<close>

definition MAX_OPS :: nat where
  "MAX_OPS = 4096"

definition MAX_CAPS :: nat where
  "MAX_CAPS = 256"

datatype Op =
  OpPushI64 | OpAdd | OpSub | OpEq | OpNot | OpJump | OpJumpIfZero | OpCallCap | OpRet | OpHalt

fun Op_as_u8 :: "Op \<Rightarrow> u8" where
  "Op_as_u8 OpPushI64 = 0"
| "Op_as_u8 OpAdd = 1"
| "Op_as_u8 OpSub = 2"
| "Op_as_u8 OpEq = 3"
| "Op_as_u8 OpNot = 4"
| "Op_as_u8 OpJump = 5"
| "Op_as_u8 OpJumpIfZero = 6"
| "Op_as_u8 OpCallCap = 7"
| "Op_as_u8 OpRet = 8"
| "Op_as_u8 OpHalt = 9"

definition Op_from_u8 :: "u8 \<Rightarrow> Op option" where
  "Op_from_u8 raw =
     (if raw = 0 then Some OpPushI64 else if raw = 1 then Some OpAdd
      else if raw = 2 then Some OpSub else if raw = 3 then Some OpEq
      else if raw = 4 then Some OpNot else if raw = 5 then Some OpJump
      else if raw = 6 then Some OpJumpIfZero else if raw = 7 then Some OpCallCap
      else if raw = 8 then Some OpRet else if raw = 9 then Some OpHalt else None)"

fun encoded_len :: "Op \<Rightarrow> nat" where
  "encoded_len OpPushI64 = 1 + 8"
| "encoded_len OpJump = 1 + 8"
| "encoded_len OpJumpIfZero = 1 + 8"
| "encoded_len OpCallCap = 1 + 1"
| "encoded_len OpAdd = 1"
| "encoded_len OpSub = 1"
| "encoded_len OpEq = 1"
| "encoded_len OpNot = 1"
| "encoded_len OpRet = 1"
| "encoded_len OpHalt = 1"

lemma encoded_len_pos [simp]: "0 < encoded_len op"
  by (cases op) simp_all

lemma Op_from_u8_as_u8 [simp]: "Op_from_u8 (Op_as_u8 op) = Some op"
  by (cases op) (simp_all add: Op_from_u8_def)

section \<open>Programs, instructions and the IR\<close>

record Program =
  prog_code :: "u8 list"
  prog_caps :: "string list"

datatype Inst =
    InstPushI64 i64
  | InstAdd
  | InstSub
  | InstEq
  | InstNot
  | InstJump nat
  | InstJumpIfZero nat
  | InstCallCap u8
  | InstRet
  | InstHalt

datatype IrOp =
    IrPush i64
  | IrAdd
  | IrSub
  | IrEq
  | IrNot
  | IrJump i64
  | IrJumpIfZero i64
  | IrCall string
  | IrRet
  | IrHalt

record L2Source =
  src_caps :: "string list"
  src_ops :: "IrOp list"

text \<open>
  The source reports every failure as a formatted \<open>String\<close>; here each message is a
  constructor that carries the values the message prints.
\<close>

datatype AssembleError =
    TooManyOps nat
  | TooManyCaps nat
  | UnknownCapName string
  | CallNotInCapTable string nat
  | MissingPushImmediate nat
  | MissingJumpTarget nat
  | MissingCapIndex nat
  | JumpTargetNegative i64 nat
  | JumpTargetOutOfRange nat nat nat

section \<open>The assembler\<close>

text \<open>Pass one: the opcode of every IR operation with its immediate, call names resolved.\<close>

type_synonym parsed_op = "Op \<times> i64 option \<times> i64 option \<times> u8 option"

definition allow_listed :: "string list option \<Rightarrow> string \<Rightarrow> bool" where
  "allow_listed allow_list name = (case allow_list of None \<Rightarrow> True | Some allow \<Rightarrow> name \<in> set allow)"

fun cap_index_from :: "nat \<Rightarrow> string list \<Rightarrow> (string \<rightharpoonup> u8) \<Rightarrow> (string \<rightharpoonup> u8)" where
  "cap_index_from i [] m = m"
| "cap_index_from i (name # names) m = cap_index_from (Suc i) names (m(name \<mapsto> of_nat i))"

definition cap_index :: "string list \<Rightarrow> (string \<rightharpoonup> u8)" where
  "cap_index caps = cap_index_from 0 caps Map.empty"

fun parse_op ::
  "string list option \<Rightarrow> (string \<rightharpoonup> u8) \<Rightarrow> nat \<Rightarrow> IrOp \<Rightarrow> AssembleError + parsed_op" where
  "parse_op allow_list index i (IrPush v) = Ok (OpPushI64, None, Some v, None)"
| "parse_op allow_list index i IrAdd = Ok (OpAdd, None, None, None)"
| "parse_op allow_list index i IrSub = Ok (OpSub, None, None, None)"
| "parse_op allow_list index i IrEq = Ok (OpEq, None, None, None)"
| "parse_op allow_list index i IrNot = Ok (OpNot, None, None, None)"
| "parse_op allow_list index i (IrJump t) = Ok (OpJump, Some t, None, None)"
| "parse_op allow_list index i (IrJumpIfZero t) = Ok (OpJumpIfZero, Some t, None, None)"
| "parse_op allow_list index i (IrCall name) =
     (if \<not> allow_listed allow_list name then Err (UnknownCapName name)
      else case index name of
          None \<Rightarrow> Err (CallNotInCapTable name i)
        | Some idx \<Rightarrow> Ok (OpCallCap, None, None, Some idx))"
| "parse_op allow_list index i IrRet = Ok (OpRet, None, None, None)"
| "parse_op allow_list index i IrHalt = Ok (OpHalt, None, None, None)"

fun parse_ops ::
  "string list option \<Rightarrow> (string \<rightharpoonup> u8) \<Rightarrow> nat \<Rightarrow> IrOp list \<Rightarrow> AssembleError + parsed_op list" where
  "parse_ops allow_list index i [] = Ok []"
| "parse_ops allow_list index i (op # ops) =
     and_then (parse_op allow_list index i op) (\<lambda>p.
     and_then (parse_ops allow_list index (Suc i) ops) (\<lambda>ps. Ok (p # ps)))"

text \<open>Pass two: the byte offset of every operation.\<close>

fun offsets_from :: "nat \<Rightarrow> nat list \<Rightarrow> nat list" where
  "offsets_from cursor [] = []"
| "offsets_from cursor (sz # sizes) =
     cursor # offsets_from (usize_saturating_add cursor sz) sizes"

text \<open>Pass three: the bytes of one operation; \<open>i\<close> is its index, for the messages.\<close>

definition encode_jump :: "nat list \<Rightarrow> nat \<Rightarrow> i64 option \<Rightarrow> AssembleError + u8 list" where
  "encode_jump offsets i jump_idx =
     and_then (ok_or (MissingJumpTarget i) jump_idx) (\<lambda>target.
       if sint target < 0 then Err (JumpTargetNegative target i)
       else if length offsets \<le> unat target
         then Err (JumpTargetOutOfRange (unat target) i (length offsets))
       else Ok (to_le_bytes (of_nat (offsets ! unat target))))"

fun encode_op :: "nat list \<Rightarrow> nat \<Rightarrow> parsed_op \<Rightarrow> AssembleError + u8 list" where
  "encode_op offsets i (kind, jump_idx, push_val, cap) =
     and_then
       (case kind of
          OpPushI64 \<Rightarrow> and_then (ok_or (MissingPushImmediate i) push_val) (\<lambda>v. Ok (to_le_bytes v))
        | OpJump \<Rightarrow> encode_jump offsets i jump_idx
        | OpJumpIfZero \<Rightarrow> encode_jump offsets i jump_idx
        | OpCallCap \<Rightarrow> and_then (ok_or (MissingCapIndex i) cap) (\<lambda>idx. Ok [idx])
        | _ \<Rightarrow> Ok [])
       (\<lambda>operands. Ok (Op_as_u8 kind # operands))"

fun encode_ops :: "nat list \<Rightarrow> nat \<Rightarrow> parsed_op list \<Rightarrow> AssembleError + u8 list list" where
  "encode_ops offsets i [] = Ok []"
| "encode_ops offsets i (p # ps) =
     and_then (encode_op offsets i p) (\<lambda>bytes.
     and_then (encode_ops offsets (Suc i) ps) (\<lambda>rest. Ok (bytes # rest)))"

definition assemble :: "L2Source \<Rightarrow> string list option \<Rightarrow> AssembleError + Program" where
  "assemble source allow_list =
     (if MAX_OPS < length (src_ops source) then Err (TooManyOps (length (src_ops source)))
      else if MAX_CAPS < length (src_caps source) then Err (TooManyCaps (length (src_caps source)))
      else case find (\<lambda>name. \<not> allow_listed allow_list name) (src_caps source) of
          Some name \<Rightarrow> Err (UnknownCapName name)
        | None \<Rightarrow>
            and_then (parse_ops allow_list (cap_index (src_caps source)) 0 (src_ops source)) (\<lambda>parsed.
            and_then (encode_ops (offsets_from 0 (map (\<lambda>p. encoded_len (fst p)) parsed)) 0 parsed)
              (\<lambda>bytes. Ok \<lparr>prog_code = concat bytes, prog_caps = src_caps source\<rparr>)))"

section \<open>The decoder\<close>

datatype DecodeError =
    UnknownOpcode u8 nat
  | TruncatedOperand Op nat
  | BadJumpNegative i64 nat
  | BadJumpBoundary nat nat

text \<open>First loop: instruction starts, with opcode and length checks.\<close>

function scan_starts :: "u8 list \<Rightarrow> nat \<Rightarrow> DecodeError + nat list" where
  "scan_starts code i =
     (if i < length code then
        case Op_from_u8 (code ! i) of
          None \<Rightarrow> Err (UnknownOpcode (code ! i) i)
        | Some op \<Rightarrow>
            if length code < i + encoded_len op then Err (TruncatedOperand op i)
            else and_then (scan_starts code (i + encoded_len op)) (\<lambda>starts. Ok (i # starts))
      else Ok [])"
  by pat_completeness auto
termination
  by (relation "measure (\<lambda>(code, i). length code - i)") (auto simp: diff_less_mono2)

declare scan_starts.simps [simp del]

definition read_jump_target :: "u8 list \<Rightarrow> nat \<Rightarrow> nat list \<Rightarrow> DecodeError + nat" where
  "read_jump_target code at starts =
     (let off = from_le_bytes (take 8 (drop (at + 1) code)) in
      if sint off < 0 then Err (BadJumpNegative off at)
      else ok_or (BadJumpBoundary (unat off) at) (position (\<lambda>s. s = unat off) starts))"

definition decode_at :: "u8 list \<Rightarrow> nat list \<Rightarrow> nat \<Rightarrow> DecodeError + Inst" where
  "decode_at code starts at =
     (case Op_from_u8 (code ! at) of
        None \<Rightarrow> Err (UnknownOpcode (code ! at) at)
      | Some op \<Rightarrow>
          (case op of
             OpPushI64 \<Rightarrow> Ok (InstPushI64 (from_le_bytes (take 8 (drop (at + 1) code))))
           | OpAdd \<Rightarrow> Ok InstAdd
           | OpSub \<Rightarrow> Ok InstSub
           | OpEq \<Rightarrow> Ok InstEq
           | OpNot \<Rightarrow> Ok InstNot
           | OpJump \<Rightarrow> and_then (read_jump_target code at starts) (\<lambda>t. Ok (InstJump t))
           | OpJumpIfZero \<Rightarrow> and_then (read_jump_target code at starts) (\<lambda>t. Ok (InstJumpIfZero t))
           | OpCallCap \<Rightarrow> Ok (InstCallCap (code ! (at + 1)))
           | OpRet \<Rightarrow> Ok InstRet
           | OpHalt \<Rightarrow> Ok InstHalt))"

fun decode_all :: "u8 list \<Rightarrow> nat list \<Rightarrow> nat list \<Rightarrow> DecodeError + Inst list" where
  "decode_all code starts [] = Ok []"
| "decode_all code starts (at # ats) =
     and_then (decode_at code starts at) (\<lambda>inst.
     and_then (decode_all code starts ats) (\<lambda>insts. Ok (inst # insts)))"

definition decode :: "u8 list \<Rightarrow> DecodeError + Inst list" where
  "decode code =
     and_then (scan_starts code 0) (\<lambda>starts. decode_all code starts starts)"

section \<open>The JSON form of an IR operation\<close>

fun IrOp_serialize :: "IrOp \<Rightarrow> json list" where
  "IrOp_serialize (IrPush v) = [JStr ''push'', json_of_i64 v]"
| "IrOp_serialize IrAdd = [JStr ''add'']"
| "IrOp_serialize IrSub = [JStr ''sub'']"
| "IrOp_serialize IrEq = [JStr ''eq'']"
| "IrOp_serialize IrNot = [JStr ''not'']"
| "IrOp_serialize (IrJump t) = [JStr ''jump'', json_of_i64 t]"
| "IrOp_serialize (IrJumpIfZero t) = [JStr ''jz'', json_of_i64 t]"
| "IrOp_serialize (IrCall name) = [JStr ''call'', JStr name]"
| "IrOp_serialize IrRet = [JStr ''ret'']"
| "IrOp_serialize IrHalt = [JStr ''halt'']"

definition cell_get :: "json list \<Rightarrow> nat \<Rightarrow> json option" where
  "cell_get cells i = (if i < length cells then Some (cells ! i) else None)"

definition parse_ir_op :: "json list \<Rightarrow> string + IrOp" where
  "parse_ir_op cells =
     (case Option.bind (cell_get cells 0) as_str of
        None \<Rightarrow> Err ''op must start with a string name''
      | Some name \<Rightarrow>
          if name = ''push'' \<or> name = ''push_i64'' \<or> name = ''pushi64'' then
            and_then (ok_or ''push requires an i64 operand'' (Option.bind (cell_get cells 1) as_i64))
              (\<lambda>v. Ok (IrPush v))
          else if name = ''add'' then Ok IrAdd
          else if name = ''sub'' then Ok IrSub
          else if name = ''eq'' then Ok IrEq
          else if name = ''not'' then Ok IrNot
          else if name = ''jump'' \<or> name = ''jmp'' then
            and_then (ok_or ''jump requires an i64 target'' (Option.bind (cell_get cells 1) as_i64))
              (\<lambda>t. Ok (IrJump t))
          else if name = ''jz'' \<or> name = ''jump_if_zero'' \<or> name = ''jumpifzero'' then
            and_then (ok_or ''jump_if_zero requires an i64 target'' (Option.bind (cell_get cells 1) as_i64))
              (\<lambda>t. Ok (IrJumpIfZero t))
          else if name = ''call'' \<or> name = ''call_cap'' \<or> name = ''callcap'' then
            and_then (ok_or ''call requires a capability name'' (Option.bind (cell_get cells 1) as_str))
              (\<lambda>cap. Ok (IrCall cap))
          else if name = ''ret'' then Ok IrRet
          else if name = ''halt'' then Ok IrHalt
          else Err (''unknown IR op `'' @ name @ ''`''))"

section \<open>Integers and tables\<close>

lemma to_le_length [simp]: "length (to_le n w) = n"
  by (induction n arbitrary: w) simp_all

lemma length_to_le_bytes [simp]: "length (to_le_bytes w) = 8"
  by (simp add: to_le_bytes_def)

lemma from_le_to_le: "from_le_bytes (to_le n w) = take_bit (8 * n) w"
proof (induction n arbitrary: w)
  case 0
  show ?case by simp
next
  case (Suc n)
  have split: "take_bit (8 + 8 * n) w = take_bit 8 w + push_bit 8 (take_bit (8 * n) (drop_bit 8 w))"
    by (rule bit_word_eqI)
      (auto simp: disjunctive_add bit_simps ac_simps dest: bit_imp_le_length)
  have byte: "ucast (ucast w :: u8) = take_bit 8 (w :: u64)"
    by (rule bit_word_eqI) (auto simp: bit_simps dest: bit_imp_le_length)
  have "(256 :: u64) * x = push_bit 8 x" for x
    by (simp add: push_bit_eq_mult mult.commute)
  with Suc split byte show ?case by simp
qed

lemma from_le_to_le_bytes [simp]: "from_le_bytes (to_le_bytes w) = w"
  by (simp add: to_le_bytes_def from_le_to_le take_bit_word_eq_self)

lemma cap_index_from_SomeD:
  "\<lbrakk> cap_index_from i names m name = Some idx; m name \<noteq> Some idx \<rbrakk>
   \<Longrightarrow> \<exists>k < length names. idx = of_nat (i + k) \<and> names ! k = name"
proof (induction names arbitrary: i m)
  case Nil
  then show ?case by auto
next
  case (Cons n names)
  show ?case
  proof (cases "(m(n \<mapsto> of_nat i)) name \<noteq> Some idx")
    case True
    from Cons.prems(1) have "cap_index_from (Suc i) names (m(n \<mapsto> of_nat i)) name = Some idx"
      by simp
    from Cons.IH [OF this True] obtain k
      where "k < length names" "idx = of_nat (Suc i + k)" "names ! k = name" by blast
    then show ?thesis by (intro exI [of _ "Suc k"]) simp
  next
    case False
    with Cons.prems have "name = n" "idx = of_nat i" by (auto split: if_splits)
    then show ?thesis by (intro exI [of _ 0]) simp
  qed
qed

text \<open>A resolved capability index names the capability in the program's own table.\<close>

lemma cap_index_SomeD:
  assumes "cap_index caps name = Some idx" and "length caps \<le> MAX_CAPS"
  shows "unat idx < length caps \<and> caps ! unat idx = name"
proof -
  from cap_index_from_SomeD [of 0 caps Map.empty name idx] assms(1)
  obtain k where "k < length caps" "idx = of_nat k" "caps ! k = name"
    by (auto simp: cap_index_def)
  with assms(2) show ?thesis by (simp add: MAX_CAPS_def unat_of_nat)
qed

lemma cap_index_from_None_iff:
  "cap_index_from i names m name = None \<longleftrightarrow> name \<notin> set names \<and> m name = None"
  by (induction names arbitrary: i m) auto

lemma cap_index_None_iff: "cap_index caps name = None \<longleftrightarrow> name \<notin> set caps"
  by (simp add: cap_index_def cap_index_from_None_iff)

section \<open>What the assembler's output decodes to\<close>

text \<open>
  The reference translation of one IR operation: jump targets stay instruction indices and
  a call becomes the index of its capability in the program's table.
\<close>

fun inst_of :: "(string \<rightharpoonup> u8) \<Rightarrow> IrOp \<Rightarrow> Inst" where
  "inst_of index (IrPush v) = InstPushI64 v"
| "inst_of index IrAdd = InstAdd"
| "inst_of index IrSub = InstSub"
| "inst_of index IrEq = InstEq"
| "inst_of index IrNot = InstNot"
| "inst_of index (IrJump t) = InstJump (unat t)"
| "inst_of index (IrJumpIfZero t) = InstJumpIfZero (unat t)"
| "inst_of index (IrCall name) = InstCallCap (the (index name))"
| "inst_of index IrRet = InstRet"
| "inst_of index IrHalt = InstHalt"

fun starts_from :: "nat \<Rightarrow> nat list \<Rightarrow> nat list" where
  "starts_from cursor [] = []"
| "starts_from cursor (sz # sizes) = cursor # starts_from (cursor + sz) sizes"

lemma length_starts_from [simp]: "length (starts_from c sizes) = length sizes"
  by (induction sizes arbitrary: c) simp_all

lemma starts_from_nth:
  "i < length sizes \<Longrightarrow> starts_from c sizes ! i = c + sum_list (take i sizes)"
proof (induction sizes arbitrary: c i)
  case Nil
  then show ?case by simp
next
  case (Cons sz sizes)
  then show ?case by (cases i) simp_all
qed

lemma offsets_from_exact:
  "c + sum_list sizes \<le> usize_max \<Longrightarrow> offsets_from c sizes = starts_from c sizes"
  by (induction sizes arbitrary: c) (simp_all add: add.assoc)

lemma sum_list_take_strict:
  assumes "\<forall>s \<in> set sizes. 0 < s" and "j < i" and "i \<le> length sizes"
  shows "sum_list (take j sizes) < sum_list (take i sizes :: nat list)"
proof -
  have "take i sizes = take j sizes @ drop j (take i sizes)"
    by (metis append_take_drop_id assms(2) min.absorb3 take_take)
  then have "sum_list (take i sizes) = sum_list (take j sizes) + sum_list (drop j (take i sizes))"
    by (metis sum_list_append)
  moreover have "hd (drop j (take i sizes)) \<in> set sizes"
    and "drop j (take i sizes) \<noteq> []"
    using assms by (auto simp: hd_drop_conv_nth)
  then have "0 < sum_list (drop j (take i sizes))"
    using assms(1) by (cases "drop j (take i sizes)") auto
  ultimately show ?thesis by simp
qed

lemma position_starts_from:
  assumes "\<forall>s \<in> set sizes. 0 < s" and "i < length sizes"
  shows "position (\<lambda>s. s = starts_from c sizes ! i) (starts_from c sizes) = Some i"
proof (rule position_SomeI)
  fix j assume "j < i"
  with assms sum_list_take_strict [of sizes j i]
  show "starts_from c sizes ! j \<noteq> starts_from c sizes ! i"
    by (simp add: starts_from_nth)
qed (use assms in simp_all)

text \<open>The bytes of one instruction: its opcode and as many operand bytes as it takes.\<close>

definition chunk_ok :: "Op \<Rightarrow> u8 list \<Rightarrow> bool" where
  "chunk_ok op c \<longleftrightarrow> c \<noteq> [] \<and> hd c = Op_as_u8 op \<and> length c = encoded_len op"

lemma scan_starts_concat:
  "list_all2 chunk_ok ops cs \<Longrightarrow>
   scan_starts (pre @ concat cs) (length pre) = Ok (starts_from (length pre) (map encoded_len ops))"
proof (induction arbitrary: pre rule: list_all2_induct)
  case Nil
  show ?case by (subst scan_starts.simps) simp
next
  case (Cons op ops c cs)
  from Cons.hyps have c0: "c ! 0 = Op_as_u8 op"
    by (auto simp: chunk_ok_def simp flip: hd_conv_nth)
  with Cons.hyps have nth: "(pre @ concat (c # cs)) ! length pre = Op_as_u8 op"
    and len: "length c = encoded_len op" and ne: "c \<noteq> []"
    by (simp_all add: chunk_ok_def nth_append)
  from Cons.IH [of "pre @ c"] nth len ne show ?case
    by (subst scan_starts.simps) (simp add: list_all2_Cons add.commute)
qed

lemma encode_op_chunk: "encode_op offsets i p = Ok c \<Longrightarrow> chunk_ok (fst p) c"
  by (cases p)
    (auto simp: chunk_ok_def result_iffs encode_jump_def split: Op.splits if_splits)

lemma encode_ops_chunks:
  "encode_ops offsets i ps = Ok cs \<Longrightarrow> list_all2 chunk_ok (map fst ps) cs"
  by (induction ps arbitrary: i cs) (auto simp: result_iffs simp del: encode_op.simps dest: encode_op_chunk)

lemma read_jump_target_chunk:
  assumes enc: "encode_jump offsets i (Some t) = Ok operands"
    and offsets: "offsets = starts_from 0 sizes" "\<forall>s \<in> set sizes. 0 < s" "sum_list sizes < 2 ^ 63"
  shows "read_jump_target (pre @ (b # operands) @ post) (length pre) offsets = Ok (unat t)"
proof -
  from enc have t: "unat t < length sizes"
    and operands: "operands = to_le_bytes (of_nat (offsets ! unat t))"
    by (auto simp: encode_jump_def offsets(1) split: if_splits)
  have "sum_list sizes = sum_list (take (unat t) sizes) + sum_list (drop (unat t) sizes)"
    by (metis append_take_drop_id sum_list_append)
  with offsets(3) t have lt: "offsets ! unat t < 2 ^ 63"
    by (simp add: offsets(1) starts_from_nth)
  then have u: "unat (of_nat (offsets ! unat t) :: u64) = offsets ! unat t"
    by (simp add: unat_of_nat)
  with lt have "0 \<le> sint (of_nat (offsets ! unat t) :: u64)"
    by (simp add: sint_u64_nonneg_iff)
  then show ?thesis
    using u position_starts_from [OF offsets(2) t, of 0]
    by (simp add: read_jump_target_def operands offsets(1))
qed

lemma decode_at_chunk:
  assumes parse: "parse_op allow_list index i op = Ok p" and enc: "encode_op offsets i p = Ok c"
    and offsets: "offsets = starts_from 0 sizes" "\<forall>s \<in> set sizes. 0 < s" "sum_list sizes < 2 ^ 63"
  shows "decode_at (pre @ c @ post) offsets (length pre) = Ok (inst_of index op)"
proof -
  obtain operands where c: "c = Op_as_u8 (fst p) # operands"
    using encode_op_chunk [OF enc] by (cases c) (auto simp: chunk_ok_def)
  have op: "Op_from_u8 ((pre @ c @ post) ! length pre) = Some (fst p)"
    by (simp add: c)
  have drop: "drop (Suc (length pre)) (pre @ c @ post) = operands @ post"
    by (simp add: c)
  have nth: "(pre @ c @ post) ! Suc (length pre) = (operands @ post) ! 0"
    by (simp add: c nth_append)
  have jump: "read_jump_target (pre @ b # operands @ post) (length pre) offsets = Ok (unat t)"
    if "encode_jump offsets i (Some t) = Ok operands" for t b
    using read_jump_target_chunk [OF that offsets] by simp
  show ?thesis
    using parse enc op drop nth
    by (cases op)
      (auto simp: decode_at_def c result_iffs jump allow_listed_def
        simp del: append_assoc split: if_splits option.splits)
qed

lemma decode_all_chunks:
  assumes offsets: "offsets = starts_from 0 sizes" "\<forall>s \<in> set sizes. 0 < s" "sum_list sizes < 2 ^ 63"
  shows "\<lbrakk> parse_ops allow_list index i ops = Ok ps; encode_ops offsets i ps = Ok cs \<rbrakk> \<Longrightarrow>
    decode_all (pre @ concat cs) offsets
      (starts_from (length pre) (map (\<lambda>p. encoded_len (fst p)) ps)) = Ok (map (inst_of index) ops)"
proof (induction ops arbitrary: i ps cs pre)
  case Nil
  then show ?case by simp
next
  case (Cons op ops)
  from Cons.prems obtain p qs c ds where parts:
    "ps = p # qs" "cs = c # ds" "parse_op allow_list index i op = Ok p"
    "parse_ops allow_list index (Suc i) ops = Ok qs"
    "encode_op offsets i p = Ok c" "encode_ops offsets (Suc i) qs = Ok ds"
    by (auto simp: result_iffs simp del: encode_op.simps)
  have len: "length c = encoded_len (fst p)"
    using encode_op_chunk [OF parts(5)] by (simp add: chunk_ok_def)
  from Cons.IH [OF parts(4,6), of "pre @ c"] len decode_at_chunk [OF parts(3,5) offsets]
  show ?case by (simp add: parts(1,2))
qed

lemma parse_ops_length: "parse_ops allow_list index i ops = Ok ps \<Longrightarrow> length ps = length ops"
  by (induction ops arbitrary: i ps) (auto simp: result_iffs)

lemma sum_encoded_len: "sum_list (map (\<lambda>p. encoded_len (fst p)) ps) \<le> 9 * length ps"
proof (induction ps)
  case (Cons p ps)
  have "encoded_len (fst p) \<le> 9" by (cases "fst p") simp_all
  with Cons show ?case by simp
qed simp

lemma assemble_OkD:
  assumes "assemble source allow_list = Ok p"
  obtains ps cs where "parse_ops allow_list (cap_index (src_caps source)) 0 (src_ops source) = Ok ps"
    "encode_ops (starts_from 0 (map (\<lambda>p. encoded_len (fst p)) ps)) 0 ps = Ok cs"
    "prog_code p = concat cs" "prog_caps p = src_caps source"
    "sum_list (map (\<lambda>p. encoded_len (fst p)) ps) \<le> 9 * 4096"
    "length (src_caps source) \<le> MAX_CAPS"
    "\<forall>name \<in> set (src_caps source). allow_listed allow_list name"
proof -
  from assms obtain ps cs where
    ps: "parse_ops allow_list (cap_index (src_caps source)) 0 (src_ops source) = Ok ps" and
    cs: "encode_ops (offsets_from 0 (map (\<lambda>p. encoded_len (fst p)) ps)) 0 ps = Ok cs" and
    p: "p = \<lparr>prog_code = concat cs, prog_caps = src_caps source\<rparr>" and
    ops: "length (src_ops source) \<le> 4096" and caps: "length (src_caps source) \<le> MAX_CAPS" and
    allowed: "\<forall>name \<in> set (src_caps source). allow_listed allow_list name"
    by (auto simp: assemble_def MAX_OPS_def result_iffs find_None_iff split: if_splits option.splits)
  have small: "sum_list (map (\<lambda>p. encoded_len (fst p)) ps) \<le> 9 * 4096"
    using sum_encoded_len [of ps] parse_ops_length [OF ps] ops by linarith
  then have "offsets_from 0 (map (\<lambda>p. encoded_len (fst p)) ps)
      = starts_from 0 (map (\<lambda>p. encoded_len (fst p)) ps)"
    by (intro offsets_from_exact) (simp add: usize_max_def)
  with ps cs p small caps allowed that show ?thesis by simp
qed

lemma decode_assemble:
  assumes "assemble source allow_list = Ok p"
  shows "decode (prog_code p) = Ok (map (inst_of (cap_index (src_caps source))) (src_ops source))"
    and "prog_caps p = src_caps source"
proof -
  from assms obtain ps cs where
    ps: "parse_ops allow_list (cap_index (src_caps source)) 0 (src_ops source) = Ok ps" and
    cs: "encode_ops (starts_from 0 (map (\<lambda>p. encoded_len (fst p)) ps)) 0 ps = Ok cs" and
    p: "prog_code p = concat cs" "prog_caps p = src_caps source" and
    small: "sum_list (map (\<lambda>p. encoded_len (fst p)) ps) \<le> 9 * 4096"
    by (rule assemble_OkD)
  let ?sizes = "map (\<lambda>p. encoded_len (fst p)) ps"
  have "scan_starts (concat cs) 0 = Ok (starts_from 0 ?sizes)"
    using scan_starts_concat [OF encode_ops_chunks [OF cs], of "[]"] by (simp add: comp_def)
  moreover have "decode_all (concat cs) (starts_from 0 ?sizes) (starts_from 0 ?sizes)
      = Ok (map (inst_of (cap_index (src_caps source))) (src_ops source))"
    using decode_all_chunks [OF refl _ _ ps cs, of "[]"] small by simp
  ultimately show "decode (prog_code p)
      = Ok (map (inst_of (cap_index (src_caps source))) (src_ops source))"
    by (simp add: decode_def p)
  show "prog_caps p = src_caps source" by (rule p)
qed

lemma parse_ops_Ok_iff:
  "(\<exists>ps. parse_ops allow_list index i ops = Ok ps) \<longleftrightarrow>
   (\<forall>name. IrCall name \<in> set ops \<longrightarrow> allow_listed allow_list name \<and> index name \<noteq> None)"
proof (induction ops arbitrary: i)
  case Nil
  show ?case by simp
next
  case (Cons op ops)
  have "(\<exists>ps. parse_ops allow_list index i (op # ops) = Ok ps) \<longleftrightarrow>
      (\<exists>p. parse_op allow_list index i op = Ok p)
      \<and> (\<exists>ps. parse_ops allow_list index (Suc i) ops = Ok ps)"
    by (auto simp: result_iffs)
  moreover have "(\<exists>p. parse_op allow_list index i op = Ok p) \<longleftrightarrow>
      (\<forall>name. op = IrCall name \<longrightarrow> allow_listed allow_list name \<and> index name \<noteq> None)"
    by (cases op) (auto split: option.splits)
  ultimately show ?case using Cons.IH [of "Suc i"] by auto
qed

lemma encode_jump_Ok_iff:
  assumes "length offsets \<le> MAX_OPS"
  shows "(\<exists>b. encode_jump offsets i (Some t) = Ok b) \<longleftrightarrow> unat t < length offsets"
proof -
  have "0 \<le> sint t" if "unat t < length offsets"
    using that assms by (simp add: sint_u64_nonneg_iff MAX_OPS_def)
  then show ?thesis by (auto simp: encode_jump_def not_less)
qed

lemma encode_op_Ok_iff:
  assumes "parse_op allow_list index i op = Ok p" and "length offsets \<le> MAX_OPS"
  shows "(\<exists>c. encode_op offsets i p = Ok c) \<longleftrightarrow>
    (\<forall>t. op = IrJump t \<or> op = IrJumpIfZero t \<longrightarrow> unat t < length offsets)"
proof -
  have jump: "(\<exists>c. and_then (encode_jump offsets i (Some t)) (\<lambda>operands. Ok (b # operands)) = Ok c) \<longleftrightarrow>
      unat t < length offsets" for t b
    using encode_jump_Ok_iff [OF assms(2), of i t] by (auto simp: result_iffs)
  show ?thesis
    using assms(1) by (cases op) (auto simp: jump dest: jump [THEN iffD1, OF exI] split: if_splits option.splits)
qed

lemma encode_ops_Ok_iff:
  assumes "length offsets \<le> MAX_OPS"
  shows "parse_ops allow_list index i ops = Ok ps \<Longrightarrow>
    (\<exists>cs. encode_ops offsets i ps = Ok cs) \<longleftrightarrow>
    (\<forall>t. IrJump t \<in> set ops \<or> IrJumpIfZero t \<in> set ops \<longrightarrow> unat t < length offsets)"
proof (induction ops arbitrary: i ps)
  case Nil
  then show ?case by simp
next
  case (Cons op ops)
  from Cons.prems obtain p qs where parts: "ps = p # qs"
    "parse_op allow_list index i op = Ok p" "parse_ops allow_list index (Suc i) ops = Ok qs"
    by (auto simp: result_iffs)
  have "(\<exists>cs. encode_ops offsets i ps = Ok cs) \<longleftrightarrow>
      (\<exists>c. encode_op offsets i p = Ok c) \<and> (\<exists>cs. encode_ops offsets (Suc i) qs = Ok cs)"
    by (auto simp: parts(1) result_iffs simp del: encode_op.simps)
  with encode_op_Ok_iff [OF parts(2) assms] Cons.IH [OF parts(3)] show ?case by auto
qed

lemma assemble_accepts:
  "(\<exists>p. assemble source allow_list = Ok p) \<longleftrightarrow>
     length (src_ops source) \<le> MAX_OPS \<and> length (src_caps source) \<le> MAX_CAPS
     \<and> (\<forall>name \<in> set (src_caps source). allow_listed allow_list name)
     \<and> (\<forall>name. IrCall name \<in> set (src_ops source) \<longrightarrow> name \<in> set (src_caps source))
     \<and> (\<forall>t. IrJump t \<in> set (src_ops source) \<or> IrJumpIfZero t \<in> set (src_ops source)
           \<longrightarrow> unat t < length (src_ops source))"
proof -
  let ?index = "cap_index (src_caps source)"
  let ?offsets = "\<lambda>ps. offsets_from 0 (map (\<lambda>p. encoded_len (fst p)) ps)"
  have len: "length (offsets_from c xs) = length xs" for c xs
    by (induction xs arbitrary: c) simp_all
  have shape: "(\<exists>p. assemble source allow_list = Ok p) \<longleftrightarrow>
      length (src_ops source) \<le> MAX_OPS \<and> length (src_caps source) \<le> MAX_CAPS
      \<and> (\<forall>name \<in> set (src_caps source). allow_listed allow_list name)
      \<and> (\<exists>ps. parse_ops allow_list ?index 0 (src_ops source) = Ok ps
              \<and> (\<exists>cs. encode_ops (?offsets ps) 0 ps = Ok cs))"
    by (auto simp: assemble_def result_iffs find_None_iff find_Some_iff split: option.splits)
  have encode: "(\<exists>cs. encode_ops (?offsets ps) 0 ps = Ok cs) \<longleftrightarrow>
      (\<forall>t. IrJump t \<in> set (src_ops source) \<or> IrJumpIfZero t \<in> set (src_ops source)
           \<longrightarrow> unat t < length (src_ops source))"
    if "parse_ops allow_list ?index 0 (src_ops source) = Ok ps" "length (src_ops source) \<le> MAX_OPS" for ps
    using encode_ops_Ok_iff [of "?offsets ps", OF _ that(1)] that(2) parse_ops_length [OF that(1)]
    by (simp add: len)
  show ?thesis
    unfolding shape using encode parse_ops_Ok_iff [of allow_list ?index 0 "src_ops source"]
    by (auto simp: cap_index_None_iff)
qed

section \<open>Properties\<close>

text \<open>
  C17. The decoder inverts the assembler.  Whenever a source assembles, decoding the produced
  bytes succeeds and yields the instructions of the source one for one: immediates unchanged,
  jump targets back as instruction indices, and every call as an index under which the
  program's own capability table holds the name that was called, a name the allow list
  permits.
\<close>

theorem assemble_decode_roundtrip:
  assumes "assemble source allow_list = Ok p"
  shows "decode (prog_code p) = Ok (map (inst_of (cap_index (src_caps source))) (src_ops source))
    \<and> prog_caps p = src_caps source
    \<and> (\<forall>name. IrCall name \<in> set (src_ops source) \<longrightarrow>
         allow_listed allow_list name
         \<and> (\<exists>idx. cap_index (src_caps source) name = Some idx
               \<and> unat idx < length (prog_caps p) \<and> prog_caps p ! unat idx = name))"
proof -
  from assms obtain ps cs where
    ps: "parse_ops allow_list (cap_index (src_caps source)) 0 (src_ops source) = Ok ps"
    and caps: "length (src_caps source) \<le> MAX_CAPS"
    by (rule assemble_OkD)
  then have "\<forall>name. IrCall name \<in> set (src_ops source) \<longrightarrow>
      allow_listed allow_list name \<and> cap_index (src_caps source) name \<noteq> None"
    using parse_ops_Ok_iff by blast
  with decode_assemble [OF assms] caps show ?thesis
    by (auto dest: cap_index_SomeD)
qed

theorem assemble_decode_roundtrip_witness:
  "\<exists>p. assemble \<lparr>src_caps = [''tabs.count''],
                  src_ops = [IrCall ''tabs.count'', IrJumpIfZero 3, IrPush 7, IrHalt]\<rparr> None = Ok p
     \<and> prog_code p = [7, 0, 6, 20, 0, 0, 0, 0, 0, 0, 0, 0, 7, 0, 0, 0, 0, 0, 0, 0, 9]
     \<and> decode (prog_code p) = Ok [InstCallCap 0, InstJumpIfZero 3, InstPushI64 7, InstHalt]"
proof -
  let ?source = "\<lparr>src_caps = [''tabs.count''],
    src_ops = [IrCall ''tabs.count'', IrJumpIfZero 3, IrPush 7, IrHalt]\<rparr> :: L2Source"
  have le: "to_le_bytes 20 = [20, 0, 0, 0, 0, 0, 0, 0]" "to_le_bytes 7 = [7, 0, 0, 0, 0, 0, 0, 0]"
    by code_simp+
  obtain p where p: "assemble ?source None = Ok p"
    and code: "prog_code p = [7, 0, 6, 20, 0, 0, 0, 0, 0, 0, 0, 0, 7, 0, 0, 0, 0, 0, 0, 0, 9]"
    by (simp add: assemble_def MAX_OPS_def MAX_CAPS_def allow_listed_def cap_index_def encode_jump_def
        le usize_saturating_add_def usize_max_def)
  with assemble_decode_roundtrip [OF p] show ?thesis
    by (simp add: cap_index_def)
qed

text \<open>
  C25. Exactly which sources the assembler accepts: at most \<open>MAX_OPS\<close> operations and
  \<open>MAX_CAPS\<close> capabilities, a capability table within the allow list, every call in the table,
  and every jump target an existing (and so non-negative) instruction index.
\<close>

theorem assemble_accepts_iff:
  "(\<exists>p. assemble source allow_list = Ok p) \<longleftrightarrow>
     length (src_ops source) \<le> MAX_OPS \<and> length (src_caps source) \<le> MAX_CAPS
     \<and> (\<forall>name \<in> set (src_caps source). allow_listed allow_list name)
     \<and> (\<forall>name. IrCall name \<in> set (src_ops source) \<longrightarrow> name \<in> set (src_caps source))
     \<and> (\<forall>t. IrJump t \<in> set (src_ops source) \<or> IrJumpIfZero t \<in> set (src_ops source)
           \<longrightarrow> unat t < length (src_ops source))"
  by (rule assemble_accepts)

theorem assemble_accepts_iff_witness:
  "(\<exists>p. assemble \<lparr>src_caps = [''tabs.count''], src_ops = [IrCall ''tabs.count'', IrJump 0]\<rparr>
          (Some [''tabs.count'']) = Ok p)
   \<and> \<not> (\<exists>p. assemble \<lparr>src_caps = [''tabs.count''], src_ops = [IrJump (- 1)]\<rparr> None = Ok p)"
  using assemble_accepts_iff [of "\<lparr>src_caps = [''tabs.count''],
      src_ops = [IrCall ''tabs.count'', IrJump 0]\<rparr>" "Some [''tabs.count'']"]
    assemble_accepts_iff [of "\<lparr>src_caps = [''tabs.count''], src_ops = [IrJump (- 1)]\<rparr>" None]
  by (auto simp: MAX_OPS_def MAX_CAPS_def allow_listed_def unat_minus_one_eq)

text \<open>
  The JSON form of every IR operation parses back to that operation, negative and large
  immediates included.
\<close>

theorem ir_op_json_roundtrip: "parse_ir_op (IrOp_serialize op) = Ok op"
  by (cases op) (simp_all add: parse_ir_op_def cell_get_def)

end
