(* ===== verification/Chassis_VM.thy ===== *)
theory Chassis_VM
  imports Chassis_Bytecode
begin

text \<open>
  The bounded interpreter of Chassis-L2 bytecode (\<open>crates/agenterm-chassis/src/vm.rs\<close>).
  The host is a state threaded through the run; a capability call returns a value or an
  error and the host's next state.  The operand stack is the list of its slots, top first.

  Results: running assembled bytecode equals interpreting the IR directly (the reference
  semantics \<open>ir_run\<close>), a larger step budget never changes a finished run, and a contract
  for hosts (locale \<open>cap_host\<close>) that bounds what a program may do to its host.
\<close>

section \<open>The interpreter\<close>

definition MAX_STACK :: nat where
  "MAX_STACK = 256"

definition DEFAULT_MAX_STEPS :: u32 where
  "DEFAULT_MAX_STEPS = 1000000"

text \<open>\<open>CapHost::call\<close>: a result and the next state of the host.\<close>

type_synonym 'h cap_call = "'h \<Rightarrow> string \<Rightarrow> (string + i64) \<times> 'h"

datatype VmError =
    VmDecode DecodeError
  | CallCapOutOfRange u8
  | StepBudgetExceeded u32
  | PcPastEnd nat
  | StackOverflow
  | StackUnderflow
  | VmHost string

definition vm_push :: "i64 list \<Rightarrow> i64 \<Rightarrow> VmError + i64 list" where
  "vm_push stack value =
     (if MAX_STACK \<le> length stack then Err StackOverflow else Ok (value # stack))"

fun vm_pop :: "i64 list \<Rightarrow> VmError + i64 \<times> i64 list" where
  "vm_pop [] = Err StackUnderflow"
| "vm_pop (v # stack) = Ok (v, stack)"

text \<open>\<open>i64::from(bool)\<close>.\<close>

definition i64_of_bool :: "bool \<Rightarrow> i64" where
  "i64_of_bool b = (if b then 1 else 0)"

text \<open>One turn of the match: the returned value, or the next program counter and stack.\<close>

datatype vm_next = Finish i64 | Continue nat "i64 list"

definition vm_binary :: "(i64 \<Rightarrow> i64 \<Rightarrow> i64) \<Rightarrow> nat \<Rightarrow> i64 list \<Rightarrow> VmError + vm_next" where
  "vm_binary f pc stack =
     and_then (vm_pop stack) (\<lambda>(b, stack).
     and_then (vm_pop stack) (\<lambda>(a, stack).
     and_then (vm_push stack (f a b)) (\<lambda>stack. Ok (Continue (pc + 1) stack))))"

fun vm_exec ::
  "'h cap_call \<Rightarrow> string list \<Rightarrow> Inst \<Rightarrow> nat \<Rightarrow> i64 list \<Rightarrow> 'h \<Rightarrow> (VmError + vm_next) \<times> 'h" where
  "vm_exec call caps (InstPushI64 v) pc stack h =
     (and_then (vm_push stack v) (\<lambda>stack. Ok (Continue (pc + 1) stack)), h)"
| "vm_exec call caps InstAdd pc stack h = (vm_binary (+) pc stack, h)"
| "vm_exec call caps InstSub pc stack h = (vm_binary (-) pc stack, h)"
| "vm_exec call caps InstEq pc stack h = (vm_binary (\<lambda>a b. i64_of_bool (a = b)) pc stack, h)"
| "vm_exec call caps InstNot pc stack h =
     (and_then (vm_pop stack) (\<lambda>(a, stack).
      and_then (vm_push stack (i64_of_bool (a = 0))) (\<lambda>stack. Ok (Continue (pc + 1) stack))), h)"
| "vm_exec call caps (InstJump target) pc stack h = (Ok (Continue target stack), h)"
| "vm_exec call caps (InstJumpIfZero target) pc stack h =
     (and_then (vm_pop stack) (\<lambda>(a, stack).
        Ok (Continue (if a = 0 then target else pc + 1) stack)), h)"
| "vm_exec call caps (InstCallCap idx) pc stack h =
     (if length caps \<le> unat idx then (Err (CallCapOutOfRange idx), h)
      else case call h (caps ! unat idx) of
          (Inl e, h') \<Rightarrow> (Err (VmHost e), h')
        | (Inr value, h') \<Rightarrow>
            (and_then (vm_push stack value) (\<lambda>stack. Ok (Continue (pc + 1) stack)), h'))"
| "vm_exec call caps InstRet pc stack h = (Ok (Finish (if stack = [] then 0 else hd stack)), h)"
| "vm_exec call caps InstHalt pc stack h = (Ok (Finish (if stack = [] then 0 else hd stack)), h)"

function vm_loop ::
  "'h cap_call \<Rightarrow> string list \<Rightarrow> Inst list \<Rightarrow> u32 \<Rightarrow> u32 \<Rightarrow> nat \<Rightarrow> i64 list \<Rightarrow> 'h
   \<Rightarrow> (VmError + i64) \<times> 'h" where
  "vm_loop call caps insts max_steps steps pc stack h =
     (if max_steps \<le> steps then (Err (StepBudgetExceeded max_steps), h)
      else if length insts \<le> pc then (Err (PcPastEnd pc), h)
      else case vm_exec call caps (insts ! pc) pc stack h of
          (Inl e, h') \<Rightarrow> (Err e, h')
        | (Inr (Finish value), h') \<Rightarrow> (Ok value, h')
        | (Inr (Continue pc' stack'), h') \<Rightarrow>
            vm_loop call caps insts max_steps (saturating_add steps 1) pc' stack' h')"
  by pat_completeness auto

lemma steps_succ:
  fixes steps max_steps :: u32
  assumes "steps < max_steps"
  shows "unat (saturating_add steps 1) = Suc (unat steps)"
proof -
  have "unat steps < unat max_steps" using assms by (simp add: word_less_nat_alt)
  moreover have "unat max_steps < 2 ^ LENGTH(32)" by (rule unsigned_less)
  ultimately show ?thesis by (simp add: unat_saturating_add)
qed

termination vm_loop
proof (relation "measure (\<lambda>(call, caps, insts, max_steps, steps, pc, stack, h). unat max_steps - unat steps)",
    goal_cases)
  case 1
  show ?case by simp
next
  case (2 call caps insts max_steps steps pc stack h)
  then have "steps < max_steps" by simp
  then show ?case using steps_succ [of steps max_steps] by (simp add: word_less_nat_alt)
qed

declare vm_loop.simps [simp del]

definition vm_run ::
  "'h cap_call \<Rightarrow> Program \<Rightarrow> u32 \<Rightarrow> 'h \<Rightarrow> (VmError + i64) \<times> 'h" where
  "vm_run call program max_steps h =
     (case decode (prog_code program) of
        Inl e \<Rightarrow> (Err (VmDecode e), h)
      | Inr insts \<Rightarrow>
          (case find (\<lambda>inst. case inst of InstCallCap idx \<Rightarrow> length (prog_caps program) \<le> unat idx
                                 | _ \<Rightarrow> False) insts of
             Some (InstCallCap idx) \<Rightarrow> (Err (CallCapOutOfRange idx), h)
           | _ \<Rightarrow> vm_loop call (prog_caps program) insts max_steps 0 0 [] h))"

section \<open>The stack\<close>

lemma length_vm_push: "vm_push stack v = Ok stack' \<Longrightarrow> length stack' \<le> MAX_STACK"
  by (auto simp: vm_push_def split: if_splits)

lemma vm_pop_OkD: "vm_pop stack = Ok (v, rest) \<Longrightarrow> stack = v # rest"
  by (cases stack) simp_all

lemma vm_binary_stack:
  "vm_binary f pc stack = Ok (Continue pc' stack') \<Longrightarrow> length stack' \<le> MAX_STACK"
  by (auto simp: vm_binary_def result_iffs dest: length_vm_push split: prod.splits)

lemma vm_exec_stack:
  assumes "vm_exec call caps inst pc stack h = (Ok (Continue pc' stack'), h')"
    and "length stack \<le> MAX_STACK"
  shows "length stack' \<le> MAX_STACK"
  using assms
  by (cases inst)
    (auto simp: result_iffs dest: length_vm_push vm_pop_OkD vm_binary_stack
      split: prod.splits sum.splits if_splits)

section \<open>The reference semantics of the IR\<close>

text \<open>
  An interpreter of the IR itself: operations by name, jump targets as instruction indices,
  stack effects by pattern.  Only an operation that grows the stack checks for overflow.
\<close>

definition ir_grow :: "i64 \<Rightarrow> nat \<Rightarrow> i64 list \<Rightarrow> VmError + vm_next" where
  "ir_grow v pc stack =
     (if length stack < MAX_STACK then Ok (Continue (Suc pc) (v # stack)) else Err StackOverflow)"

fun ir_exec :: "'h cap_call \<Rightarrow> IrOp \<Rightarrow> nat \<Rightarrow> i64 list \<Rightarrow> 'h \<Rightarrow> (VmError + vm_next) \<times> 'h" where
  "ir_exec call (IrPush v) pc stack h = (ir_grow v pc stack, h)"
| "ir_exec call IrAdd pc (b # a # stack) h = (Ok (Continue (Suc pc) ((a + b) # stack)), h)"
| "ir_exec call IrSub pc (b # a # stack) h = (Ok (Continue (Suc pc) ((a - b) # stack)), h)"
| "ir_exec call IrEq pc (b # a # stack) h =
     (Ok (Continue (Suc pc) ((if a = b then 1 else 0) # stack)), h)"
| "ir_exec call IrNot pc (a # stack) h =
     (Ok (Continue (Suc pc) ((if a = 0 then 1 else 0) # stack)), h)"
| "ir_exec call (IrJump t) pc stack h = (Ok (Continue (unat t) stack), h)"
| "ir_exec call (IrJumpIfZero t) pc (a # stack) h =
     (Ok (Continue (if a = 0 then unat t else Suc pc) stack), h)"
| "ir_exec call (IrCall name) pc stack h =
     (case call h name of
        (Inl e, h') \<Rightarrow> (Err (VmHost e), h')
      | (Inr v, h') \<Rightarrow> (ir_grow v pc stack, h'))"
| "ir_exec call IrRet pc stack h = (Ok (Finish (case stack of [] \<Rightarrow> 0 | v # _ \<Rightarrow> v)), h)"
| "ir_exec call IrHalt pc stack h = (Ok (Finish (case stack of [] \<Rightarrow> 0 | v # _ \<Rightarrow> v)), h)"
| "ir_exec call _ pc stack h = (Err StackUnderflow, h)"

fun ir_steps ::
  "'h cap_call \<Rightarrow> IrOp list \<Rightarrow> u32 \<Rightarrow> nat \<Rightarrow> nat \<Rightarrow> i64 list \<Rightarrow> 'h \<Rightarrow> (VmError + i64) \<times> 'h" where
  "ir_steps call ops max_steps 0 pc stack h = (Err (StepBudgetExceeded max_steps), h)"
| "ir_steps call ops max_steps (Suc n) pc stack h =
     (if length ops \<le> pc then (Err (PcPastEnd pc), h)
      else case ir_exec call (ops ! pc) pc stack h of
          (Inl e, h') \<Rightarrow> (Err e, h')
        | (Inr (Finish value), h') \<Rightarrow> (Ok value, h')
        | (Inr (Continue pc' stack'), h') \<Rightarrow> ir_steps call ops max_steps n pc' stack' h')"

lemma ir_steps_numeral:
  "ir_steps call ops max_steps (numeral n) pc stack h =
     (if length ops \<le> pc then (Err (PcPastEnd pc), h)
      else case ir_exec call (ops ! pc) pc stack h of
          (Inl e, h') \<Rightarrow> (Err e, h')
        | (Inr (Finish value), h') \<Rightarrow> (Ok value, h')
        | (Inr (Continue pc' stack'), h') \<Rightarrow>
            ir_steps call ops max_steps (pred_numeral n) pc' stack' h')"
  by (simp add: numeral_eq_Suc)

definition ir_run :: "'h cap_call \<Rightarrow> L2Source \<Rightarrow> u32 \<Rightarrow> 'h \<Rightarrow> (VmError + i64) \<times> 'h" where
  "ir_run call source max_steps h =
     ir_steps call (src_ops source) max_steps (unat max_steps) 0 [] h"

text \<open>One instruction against one IR operation, on a stack within its bound.\<close>

definition resolves :: "string list \<Rightarrow> (string \<rightharpoonup> u8) \<Rightarrow> IrOp \<Rightarrow> bool" where
  "resolves caps index op \<longleftrightarrow>
     (\<forall>name. op = IrCall name \<longrightarrow>
        (\<exists>idx. index name = Some idx \<and> unat idx < length caps \<and> caps ! unat idx = name))"

lemma vm_exec_inst_of:
  assumes "resolves caps index op" and "length stack \<le> MAX_STACK"
  shows "vm_exec call caps (inst_of index op) pc stack h = ir_exec call op pc stack h"
proof -
  consider "stack = []" | v where "stack = [v]" | v w rest where "stack = v # w # rest"
    by (cases stack; cases "tl stack") auto
  then show ?thesis
    using assms
    by cases
      (cases op; auto simp: resolves_def vm_binary_def vm_push_def ir_grow_def i64_of_bool_def MAX_STACK_def
        split: prod.splits sum.splits)+
qed

lemma vm_loop_ir_steps:
  assumes "\<forall>op \<in> set ops. resolves caps index op"
  shows "length stack \<le> MAX_STACK \<Longrightarrow>
    vm_loop call caps (map (inst_of index) ops) max_steps steps pc stack h
    = ir_steps call ops max_steps (unat max_steps - unat steps) pc stack h"
proof (induction "unat max_steps - unat steps" arbitrary: steps pc stack h)
  case 0
  then have "max_steps \<le> steps" by (simp add: word_le_nat_alt)
  then show ?case by (subst vm_loop.simps) (simp flip: "0.hyps")
next
  case (Suc n)
  have lt: "steps < max_steps" using Suc.hyps(2) by (simp add: word_less_nat_alt)
  have n: "n = unat max_steps - unat (saturating_add steps 1)"
    using Suc.hyps(2) steps_succ [OF lt] by simp
  show ?case
  proof (cases "pc < length ops")
    case False
    with lt show ?thesis by (subst vm_loop.simps) (simp flip: Suc.hyps(2))
  next
    case True
    have exec: "vm_exec call caps (map (inst_of index) ops ! pc) pc stack h
        = ir_exec call (ops ! pc) pc stack h"
      using True assms Suc.prems by (simp add: vm_exec_inst_of)
    have next_stack: "length stack' \<le> MAX_STACK"
      if "ir_exec call (ops ! pc) pc stack h = (Ok (Continue pc' stack'), h')" for pc' stack' h'
      using vm_exec_stack [OF _ Suc.prems] exec that by metis
    show ?thesis
      using lt True exec Suc.hyps(1) [OF n] next_stack n
      by (subst vm_loop.simps)
        (auto simp flip: Suc.hyps(2) split: prod.splits sum.splits vm_next.splits)
  qed
qed

lemma assemble_resolves:
  assumes "assemble source allow_list = Ok p"
  shows "\<forall>op \<in> set (src_ops source). resolves (src_caps source) (cap_index (src_caps source)) op"
proof -
  from assms obtain ps cs where
    ps: "parse_ops allow_list (cap_index (src_caps source)) 0 (src_ops source) = Ok ps"
    and caps: "length (src_caps source) \<le> MAX_CAPS"
    by (rule assemble_OkD)
  then have "\<forall>name. IrCall name \<in> set (src_ops source) \<longrightarrow> cap_index (src_caps source) name \<noteq> None"
    using parse_ops_Ok_iff by blast
  with caps show ?thesis by (auto simp: resolves_def dest: cap_index_SomeD)
qed

lemma vm_run_ir_run:
  assumes "assemble source allow_list = Ok p"
  shows "vm_run call p max_steps h = ir_run call source max_steps h"
proof -
  note resolved = assemble_resolves [OF assms]
  let ?insts = "map (inst_of (cap_index (src_caps source))) (src_ops source)"
  have "case inst of InstCallCap idx \<Rightarrow> \<not> length (src_caps source) \<le> unat idx | _ \<Rightarrow> True"
    if "inst \<in> set ?insts" for inst
  proof -
    from that obtain op where "op \<in> set (src_ops source)"
      and "inst = inst_of (cap_index (src_caps source)) op" by auto
    with resolved have op: "resolves (src_caps source) (cap_index (src_caps source)) op"
      and inst: "inst = inst_of (cap_index (src_caps source)) op" by blast+
    show ?thesis
    proof (cases op)
      case (IrCall name)
      with op inst show ?thesis by (auto simp: resolves_def)
    qed (simp_all add: inst)
  qed
  then have "find (\<lambda>inst. case inst of InstCallCap idx \<Rightarrow> length (src_caps source) \<le> unat idx
      | _ \<Rightarrow> False) ?insts = None"
    unfolding find_None_iff by (fastforce split: Inst.splits)
  then show ?thesis
    by (simp add: vm_run_def ir_run_def decode_assemble [OF assms]
        vm_loop_ir_steps [OF resolved])
qed

section \<open>The step budget\<close>

lemma vm_loop_budget:
  assumes "m1 \<le> m2"
  shows "fst (vm_loop call caps insts m1 steps pc stack h) \<noteq> Err (StepBudgetExceeded m1) \<Longrightarrow>
    vm_loop call caps insts m2 steps pc stack h = vm_loop call caps insts m1 steps pc stack h"
  using assms
proof (induction call caps insts m1 steps pc stack h rule: vm_loop.induct)
  case (1 call caps insts m1 steps pc stack h)
  note unfold = vm_loop.simps [of call caps insts _ steps pc stack h]
  have nle: "\<not> m1 \<le> steps" using "1.prems"(1) by (auto simp: unfold)
  with "1.prems"(2) have nle2: "\<not> m2 \<le> steps" by (metis order_trans)
  show ?case
  proof (cases "\<exists>pc' stack' h'. \<not> length insts \<le> pc
      \<and> vm_exec call caps (insts ! pc) pc stack h = (Ok (Continue pc' stack'), h')")
    case True
    then obtain pc' stack' h' where pc: "\<not> length insts \<le> pc"
      and exec: "vm_exec call caps (insts ! pc) pc stack h = (Ok (Continue pc' stack'), h')"
      by blast
    have "fst (vm_loop call caps insts m1 (saturating_add steps 1) pc' stack' h')
        \<noteq> Err (StepBudgetExceeded m1)"
      using "1.prems"(1) nle pc exec by (simp add: unfold)
    from "1.IH" [OF nle pc exec [symmetric] refl refl this "1.prems"(2)]
    show ?thesis using nle nle2 pc exec by (simp add: unfold)
  next
    case False
    with nle nle2 show ?thesis
      by (auto simp: unfold split: prod.splits sum.splits vm_next.splits)
  qed
qed

section \<open>The contract of a capability host\<close>

text \<open>
  A host promises that a call keeps its invariant and counts as at most one call.  What
  follows for a whole run: the invariant holds at the end, and the host was called at most
  once per step of the budget.
\<close>

locale cap_host =
  fixes call :: "'h cap_call"
    and inv :: "'h \<Rightarrow> bool"
    and calls :: "'h \<Rightarrow> nat"
  assumes call_inv: "inv h \<Longrightarrow> inv (snd (call h name))"
    and call_count: "inv h \<Longrightarrow> calls (snd (call h name)) \<le> Suc (calls h)"
begin

lemma exec_contract:
  assumes "vm_exec call caps inst pc stack h = (r, h')" and "inv h"
  shows "inv h' \<and> calls h' \<le> Suc (calls h)"
proof (cases inst)
  case (InstCallCap idx)
  with assms have "h' = h \<or> h' = snd (call h (caps ! unat idx))"
    by (auto split: if_splits prod.splits sum.splits)
  with assms(2) call_inv call_count show ?thesis by auto
qed (use assms in auto)

lemma loop_contract:
  "\<lbrakk> vm_loop call caps insts max_steps steps pc stack h = (r, h'); inv h \<rbrakk> \<Longrightarrow>
   inv h' \<and> calls h' \<le> calls h + (unat max_steps - unat steps)"
proof (induction "unat max_steps - unat steps" arbitrary: steps pc stack h)
  case 0
  then have "max_steps \<le> steps" by (simp add: word_le_nat_alt)
  with 0 show ?case by (subst (asm) vm_loop.simps) simp
next
  case (Suc n)
  have lt: "steps < max_steps" using Suc.hyps(2) by (simp add: word_less_nat_alt)
  then have nle: "\<not> max_steps \<le> steps" by simp
  have n: "n = unat max_steps - unat (saturating_add steps 1)"
    using Suc.hyps(2) steps_succ [OF lt] by simp
  show ?case
  proof (cases "length insts \<le> pc")
    case True
    with Suc.prems nle show ?thesis by (subst (asm) vm_loop.simps) auto
  next
    case False
    obtain r1 h1 where exec: "vm_exec call caps (insts ! pc) pc stack h = (r1, h1)"
      by (cases "vm_exec call caps (insts ! pc) pc stack h")
    note here = exec_contract [OF exec Suc.prems(2)]
    show ?thesis
    proof (cases "\<exists>pc' stack'. r1 = Ok (Continue pc' stack')")
      case True
      then obtain pc' stack' where r1: "r1 = Ok (Continue pc' stack')" by blast
      with Suc.prems(1) nle False exec
      have "vm_loop call caps insts max_steps (saturating_add steps 1) pc' stack' h1 = (r, h')"
        by (subst (asm) vm_loop.simps) simp
      from Suc.hyps(1) [OF n this] here n Suc.hyps(2) show ?thesis by linarith
    next
      case ended: False
      then have "h' = h1"
        using Suc.prems(1) nle False exec
        by (subst (asm) vm_loop.simps) (auto split: sum.splits vm_next.splits)
      with here Suc.hyps(2) show ?thesis by auto
    qed
  qed
qed

lemma run_contract:
  assumes "inv h"
  shows "inv (snd (vm_run call p max_steps h))"
    and "calls (snd (vm_run call p max_steps h)) \<le> calls h + unat max_steps"
proof -
  have "inv h' \<and> calls h' \<le> calls h + unat max_steps" if "vm_run call p max_steps h = (r, h')" for r h'
    using that assms loop_contract [of "prog_caps p" _ max_steps 0 0 "[]" h]
    by (auto simp: vm_run_def split: sum.splits option.splits Inst.splits)
  then show "inv (snd (vm_run call p max_steps h))"
    and "calls (snd (vm_run call p max_steps h)) \<le> calls h + unat max_steps"
    by (metis prod.collapse)+
qed

end

section \<open>Properties\<close>

text \<open>
  C10. Compiler correctness of the L2 toolchain: for every source that assembles, any host and
  any step budget, running the bytecode gives the same value or error and leaves the host in
  the same state as interpreting the IR by its reference semantics.  In particular decode
  errors and capability indices out of range never arise for assembled programs, and the
  operand stack never exceeds its bound.
\<close>

theorem vm_run_refines_ir:
  assumes "assemble source allow_list = Ok p"
  shows "vm_run call p max_steps h = ir_run call source max_steps h"
  by (rule vm_run_ir_run [OF assms])

theorem vm_run_refines_ir_witness:
  "\<exists>p. assemble \<lparr>src_caps = [''n''], src_ops = [IrCall ''n'', IrPush 2, IrSub, IrHalt]\<rparr> None = Ok p
     \<and> vm_run (\<lambda>h name. (Ok h, h + 1)) p 10 (5 :: i64) = (Ok 3, 6)"
proof -
  let ?source = "\<lparr>src_caps = [''n''], src_ops = [IrCall ''n'', IrPush 2, IrSub, IrHalt]\<rparr> :: L2Source"
  obtain p where p: "assemble ?source None = Ok p"
    by (simp add: assemble_def MAX_OPS_def MAX_CAPS_def allow_listed_def cap_index_def)
  have "ir_run (\<lambda>h name. (Ok h, h + 1)) ?source 10 (5 :: i64) = (Ok 3, 6)"
    by (simp add: ir_run_def ir_grow_def MAX_STACK_def ir_steps_numeral)
  with p vm_run_refines_ir [OF p, of "\<lambda>h name. (Ok h, h + 1)" 10 "5 :: i64"] show ?thesis by auto
qed

text \<open>
  A step budget only ever cuts a run short: a run that ends for another reason than its
  budget ends the same way, with the same host state, under every larger budget.
\<close>

theorem vm_run_budget_monotone:
  assumes "m1 \<le> m2" and "fst (vm_run call p m1 h) \<noteq> Err (StepBudgetExceeded m1)"
  shows "vm_run call p m2 h = vm_run call p m1 h"
  using assms(2)
  by (auto simp: vm_run_def vm_loop_budget [OF assms(1)] split: sum.splits option.splits Inst.splits)

theorem vm_run_budget_monotone_witness:
  "fst (vm_run (\<lambda>h name. (Ok 0, h)) \<lparr>prog_code = [9], prog_caps = []\<rparr> 1 ()) = Ok 0
   \<and> vm_run (\<lambda>h name. (Ok 0, h)) \<lparr>prog_code = [9], prog_caps = []\<rparr> DEFAULT_MAX_STEPS () = (Ok 0, ())"
proof -
  let ?run = "\<lambda>m. vm_run (\<lambda>h name. (Ok 0, h)) \<lparr>prog_code = [9], prog_caps = []\<rparr> m ()"
  have one: "?run 1 = (Ok 0, ())"
    by (simp add: vm_run_def decode_def decode_at_def scan_starts.simps vm_loop.simps Op_from_u8_def)
  then have "?run DEFAULT_MAX_STEPS = ?run 1"
    by (intro vm_run_budget_monotone) (simp_all add: DEFAULT_MAX_STEPS_def)
  with one show ?thesis by simp
qed

end
