(* ===== verification/Chassis_Dispatch.thy ===== *)
theory Chassis_Dispatch
  imports Chassis_VM
begin

text \<open>
  The dispatcher between L2 programs and the product host
  (\<open>crates/agenterm-chassis/src/l2_dispatch.rs\<close>): a host ABI document becomes lookup tables
  plus the set of capabilities an app declared, and a call reaches the host callback only
  when its name resolves to a declared capability and its parameters match the signature.

  A \<open>BTreeMap\<close> that the code iterates is the list of its entries in key order, read with
  \<open>map_of\<close>; one that the code only fills and reads is an association list.  The JSON
  parser and the length of serialised JSON are library code and appear as arguments.
\<close>

section \<open>Errors\<close>

definition HOST_ABI_SCHEMA :: u32 where
  "HOST_ABI_SCHEMA = 2"

definition HOST_ABI_VERSION :: u32 where
  "HOST_ABI_VERSION = 3"

definition MAX_CAPABILITY_NAME_BYTES :: nat where
  "MAX_CAPABILITY_NAME_BYTES = 128"

text \<open>\<open>Panicked\<close> is not a constructor of the source: it stands for a failed \<open>expect\<close>.\<close>

datatype DispatchError =
    InvalidAbi string
  | UnknownCapability string
  | UndeclaredCapability string
  | InvalidParameters string
  | ResultTooLarge nat nat
  | VmResult string
  | HostFailed string
  | Panicked string

fun DispatchError_fmt :: "DispatchError \<Rightarrow> string" where
  "DispatchError_fmt (InvalidAbi reason) = ''invalid L2 host ABI: '' @ reason"
| "DispatchError_fmt (UnknownCapability name) = ''unknown L2 capability `'' @ name @ ''`''"
| "DispatchError_fmt (UndeclaredCapability name) = ''L3 app did not declare capability `'' @ name @ ''`''"
| "DispatchError_fmt (InvalidParameters reason) = ''invalid host parameters: '' @ reason"
| "DispatchError_fmt (ResultTooLarge actual max_bytes) =
     ''host result is '' @ show_nat actual @ '' UTF-8 bytes; max is '' @ show_nat max_bytes"
| "DispatchError_fmt (VmResult reason) = ''invalid L2 VM host result: '' @ reason"
| "DispatchError_fmt (HostFailed reason) = ''L2 host callback failed: '' @ reason"
| "DispatchError_fmt (Panicked reason) = reason"

section \<open>The host ABI document\<close>

record NumericBound =
  nb_minimum :: i64
  nb_maximum :: i64

record PropertyContract =
  pc_kind :: string
  pc_bound :: "string option"
  pc_minimum :: "i64 option"
  pc_maximum :: "i64 option"
  pc_minimum_utf8_bytes :: "nat option"
  pc_maximum_utf8_bytes :: "nat option"

record ParameterObject =
  po_kind :: string
  po_required :: "string list"
  po_additional_properties :: bool
  po_properties :: "(string \<times> PropertyContract) list"

record CapabilityContract =
  cc_id :: string
  cc_facade :: "string option"
  cc_host_abi :: u32
  cc_signature :: string

text \<open>A \<open>Signature\<close> has the one field \<open>parameters\<close>; \<open>wire.response\<close> has the one field below.\<close>

record HostAbiDocument =
  abi_schema :: u32
  abi_version :: u32
  abi_maximum_utf8_bytes :: nat
  abi_bounds :: "(string \<times> NumericBound) list"
  abi_signatures :: "(string \<times> ParameterObject) list"
  abi_capabilities :: "CapabilityContract list"

definition validate_document :: "HostAbiDocument \<Rightarrow> DispatchError + unit" where
  "validate_document abi =
     (if abi_schema abi \<noteq> HOST_ABI_SCHEMA \<or> abi_version abi \<noteq> HOST_ABI_VERSION then
        Err (InvalidAbi (''unsupported schema '' @ show_nat (unat (abi_schema abi))
          @ '' / Host ABI '' @ show_nat (unat (abi_version abi))
          @ ''; expected '' @ show_nat (unat HOST_ABI_SCHEMA) @ '' / ''
          @ show_nat (unat HOST_ABI_VERSION)))
      else if abi_maximum_utf8_bytes abi = 0 then
        Err (InvalidAbi ''response maximum_utf8_bytes must be positive'')
      else Ok ())"

definition validate_name :: "string \<Rightarrow> DispatchError + unit" where
  "validate_name name =
     (if name = [] \<or> MAX_CAPABILITY_NAME_BYTES < length name then
        Err (InvalidAbi (''capability name must be 1..='' @ show_nat MAX_CAPABILITY_NAME_BYTES @ '' bytes''))
      else Ok ())"

text \<open>A loop whose body may return an error.\<close>

fun check_each :: "('a \<Rightarrow> 'e + unit) \<Rightarrow> 'a list \<Rightarrow> 'e + unit" where
  "check_each f [] = Ok ()"
| "check_each f (x # xs) = and_then (f x) (\<lambda>_. check_each f xs)"

definition validate_signature ::
  "(string \<times> NumericBound) list \<Rightarrow> string \<times> ParameterObject \<Rightarrow> DispatchError + unit" where
  "validate_signature bounds = (\<lambda>(name, parameters).
     if po_kind parameters \<noteq> ''object'' \<or> po_additional_properties parameters then
       Err (InvalidAbi (''signature `'' @ name @ ''` must be a closed object''))
     else
       and_then (check_each (\<lambda>required.
           if map_of (po_properties parameters) required = None then
             Err (InvalidAbi (''signature `'' @ name @ ''` requires unknown property `'' @ required @ ''`''))
           else Ok ()) (po_required parameters)) (\<lambda>_.
       check_each (\<lambda>(property, contract).
           case pc_bound contract of
             None \<Rightarrow> Ok ()
           | Some bound \<Rightarrow>
               if map_of bounds bound = None then
                 Err (InvalidAbi (''signature `'' @ name @ ''` property `'' @ property
                        @ ''` names unknown bound `'' @ bound @ ''`''))
               else Ok ()) (po_properties parameters)))"

definition validate_signatures ::
  "(string \<times> ParameterObject) list \<Rightarrow> (string \<times> NumericBound) list \<Rightarrow> DispatchError + unit" where
  "validate_signatures signatures bounds = check_each (validate_signature bounds) signatures"

section \<open>Parameters\<close>

definition usize_of_i64 :: "i64 \<Rightarrow> nat option" where
  "usize_of_i64 n = (if sint n < 0 then None else Some (unat n))"

definition lookup_bound :: "(string \<times> NumericBound) list \<Rightarrow> string \<Rightarrow> DispatchError + NumericBound" where
  "lookup_bound bounds name = ok_or (Panicked ''validated bound reference'') (map_of bounds name)"

definition named_bound ::
  "(string \<times> NumericBound) list \<Rightarrow> PropertyContract \<Rightarrow> DispatchError + NumericBound option" where
  "named_bound bounds contract =
     (case pc_bound contract of
        None \<Rightarrow> Ok None
      | Some name \<Rightarrow> and_then (lookup_bound bounds name) (\<lambda>bound. Ok (Some bound)))"

definition unwrap_or :: "'a \<Rightarrow> 'a option \<Rightarrow> 'a" where
  "unwrap_or d x = (case x of None \<Rightarrow> d | Some a \<Rightarrow> a)"

definition text_limits :: "NumericBound option \<Rightarrow> PropertyContract \<Rightarrow> nat \<times> nat" where
  "text_limits bound contract =
     (unwrap_or (unwrap_or 0 (Option.bind bound (\<lambda>b. usize_of_i64 (nb_minimum b))))
        (pc_minimum_utf8_bytes contract),
      unwrap_or (unwrap_or usize_max (Option.bind bound (\<lambda>b. usize_of_i64 (nb_maximum b))))
        (pc_maximum_utf8_bytes contract))"

text \<open>Without a named bound an integer ranges over \<open>i64::MIN..=i64::MAX\<close> unless the contract narrows it.\<close>

definition integer_limits :: "NumericBound option \<Rightarrow> PropertyContract \<Rightarrow> int \<times> int" where
  "integer_limits bound contract =
     (case bound of
        Some b \<Rightarrow> (sint (nb_minimum b), sint (nb_maximum b))
      | None \<Rightarrow> (unwrap_or (- (2 ^ 63)) (map_option sint (pc_minimum contract)),
                 unwrap_or (2 ^ 63 - 1) (map_option sint (pc_maximum contract))))"

definition validate_property ::
  "(string \<times> NumericBound) list \<Rightarrow> string \<Rightarrow> json \<Rightarrow> PropertyContract \<Rightarrow> DispatchError + unit" where
  "validate_property bounds name value contract =
     (if pc_kind contract = ''string'' \<or> pc_kind contract = ''stable_tab_id'' then
        and_then (ok_or (InvalidParameters (''property `'' @ name @ ''` must be a string'')) (as_str value)) (\<lambda>text.
        and_then (named_bound bounds contract) (\<lambda>bound.
        let (minimum, maximum) = text_limits bound contract in
        if length text < minimum \<or> maximum < length text then
          Err (InvalidParameters (''property `'' @ name @ ''` UTF-8 size is outside ''
                 @ show_nat minimum @ ''..='' @ show_nat maximum))
        else Ok ()))
      else if pc_kind contract = ''integer'' \<or> pc_kind contract = ''uint32'' \<or> pc_kind contract = ''uint64'' then
        and_then (ok_or (InvalidParameters (''property `'' @ name @ ''` must be an integer'')) (as_i64 value)) (\<lambda>number.
        if hd (pc_kind contract) = CHR ''u'' \<and> sint number < 0 then
          Err (InvalidParameters (''property `'' @ name @ ''` must be unsigned''))
        else
        and_then (named_bound bounds contract) (\<lambda>bound.
        let (minimum, maximum) = integer_limits bound contract in
        if sint number < minimum \<or> maximum < sint number then
          Err (InvalidParameters (''property `'' @ name @ ''` is outside ''
                 @ show_int minimum @ ''..='' @ show_int maximum))
        else Ok ()))
      else if pc_kind contract = ''number'' then
        (if \<not> is_number value then
           Err (InvalidParameters (''property `'' @ name @ ''` must be a number''))
         else Ok ())
      else Err (InvalidParameters (''property `'' @ name @ ''` has unsupported ABI type `''
                  @ pc_kind contract @ ''`'')))"

definition validate_parameters ::
  "json \<Rightarrow> ParameterObject \<Rightarrow> (string \<times> NumericBound) list \<Rightarrow> DispatchError + unit" where
  "validate_parameters value contract bounds =
     and_then (ok_or (InvalidParameters ''expected object'') (as_object value)) (\<lambda>object.
     and_then (check_each (\<lambda>required.
         if map_of object required = None then
           Err (InvalidParameters (''missing required property `'' @ required @ ''`''))
         else Ok ()) (po_required contract)) (\<lambda>_.
     check_each (\<lambda>(name, value).
       and_then (ok_or (InvalidParameters (''unexpected property `'' @ name @ ''`''))
                   (map_of (po_properties contract) name)) (\<lambda>property.
       validate_property bounds name value property)) object))"

section \<open>The dispatcher\<close>

record 's Dispatcher =
  d_aliases :: "(string \<times> string) list"
  d_capabilities :: "(string \<times> CapabilityContract) list"
  d_signatures :: "(string \<times> ParameterObject) list"
  d_bounds :: "(string \<times> NumericBound) list"
  d_declared :: "string set"
  d_maximum_result_bytes :: nat
  d_host :: 's

text \<open>\<open>HostCallback::call\<close> on a host state.\<close>

type_synonym 's host_callback = "'s \<Rightarrow> string \<Rightarrow> json \<Rightarrow> (string + json) \<times> 's"

definition table_insert :: "'k \<Rightarrow> 'v \<Rightarrow> ('k \<times> 'v) list \<Rightarrow> ('k \<times> 'v) list" where
  "table_insert k v t = (k, v) # filter (\<lambda>e. fst e \<noteq> k) t"

definition insert_alias ::
  "(string \<times> string) list \<Rightarrow> string \<Rightarrow> string \<Rightarrow> DispatchError + (string \<times> string) list" where
  "insert_alias aliases alias canonical =
     (case map_of aliases alias of
        Some previous \<Rightarrow>
          if previous \<noteq> canonical then
            Err (InvalidAbi (''capability alias `'' @ alias @ ''` resolves to both `'' @ previous
                   @ ''` and `'' @ canonical @ ''`''))
          else Ok (table_insert alias canonical aliases)
      | None \<Rightarrow> Ok (table_insert alias canonical aliases))"

type_synonym cap_tables = "(string \<times> string) list \<times> (string \<times> CapabilityContract) list"

definition add_capability ::
  "HostAbiDocument \<Rightarrow> CapabilityContract \<Rightarrow> cap_tables \<Rightarrow> DispatchError + cap_tables" where
  "add_capability abi capability tables =
     (case tables of (aliases, capabilities) \<Rightarrow>
      and_then (validate_name (cc_id capability)) (\<lambda>_.
      if cc_host_abi capability \<noteq> abi_version abi then
        Err (InvalidAbi (''capability `'' @ cc_id capability @ ''` requires Host ABI ''
               @ show_nat (unat (cc_host_abi capability)) @ '', document is ''
               @ show_nat (unat (abi_version abi))))
      else if map_of (abi_signatures abi) (cc_signature capability) = None then
        Err (InvalidAbi (''capability `'' @ cc_id capability @ ''` names unknown signature `''
               @ cc_signature capability @ ''`''))
      else
      and_then (insert_alias aliases (cc_id capability) (cc_id capability)) (\<lambda>aliases.
      and_then (case cc_facade capability of
                  None \<Rightarrow> Ok aliases
                | Some facade \<Rightarrow> and_then (validate_name facade) (\<lambda>_.
                    insert_alias aliases facade (cc_id capability))) (\<lambda>aliases.
      if map_of capabilities (cc_id capability) \<noteq> None then
        Err (InvalidAbi (''duplicate capability `'' @ cc_id capability @ ''`''))
      else Ok (aliases, table_insert (cc_id capability) capability capabilities)))))"

fun add_capabilities ::
  "HostAbiDocument \<Rightarrow> CapabilityContract list \<Rightarrow> cap_tables \<Rightarrow> DispatchError + cap_tables" where
  "add_capabilities abi [] tables = Ok tables"
| "add_capabilities abi (capability # rest) tables =
     and_then (add_capability abi capability tables) (add_capabilities abi rest)"

fun resolve_declarations ::
  "(string \<times> string) list \<Rightarrow> string list \<Rightarrow> string set \<Rightarrow> DispatchError + string set" where
  "resolve_declarations aliases [] declared = Ok declared"
| "resolve_declarations aliases (name # names) declared =
     and_then (ok_or (UnknownCapability name) (map_of aliases name)) (\<lambda>canonical.
       resolve_declarations aliases names (insert canonical declared))"

definition from_host_abi_json ::
  "(string \<Rightarrow> string + HostAbiDocument) \<Rightarrow> string \<Rightarrow> string list \<Rightarrow> 's
   \<Rightarrow> DispatchError + 's Dispatcher" where
  "from_host_abi_json from_str raw app_declarations host =
     (case from_str raw of
        Inl e \<Rightarrow> Err (InvalidAbi e)
      | Inr abi \<Rightarrow>
          and_then (validate_document abi) (\<lambda>_.
          and_then (add_capabilities abi (abi_capabilities abi) ([], [])) (\<lambda>(aliases, capabilities).
          if capabilities = [] then Err (InvalidAbi ''capability catalog is empty'')
          else
          and_then (validate_signatures (abi_signatures abi) (abi_bounds abi)) (\<lambda>_.
          and_then (resolve_declarations aliases app_declarations {}) (\<lambda>declared.
          Ok \<lparr>d_aliases = aliases, d_capabilities = capabilities, d_signatures = abi_signatures abi,
              d_bounds = abi_bounds abi, d_declared = declared,
              d_maximum_result_bytes = abi_maximum_utf8_bytes abi, d_host = host\<rparr>)))))"

text \<open>Everything \<open>dispatch\<close> does before it calls the host.\<close>

definition admit_call :: "'s Dispatcher \<Rightarrow> string \<Rightarrow> json \<Rightarrow> DispatchError + string" where
  "admit_call d requested_name parameters =
     and_then (ok_or (UnknownCapability requested_name) (map_of (d_aliases d) requested_name)) (\<lambda>canonical.
     if canonical \<notin> d_declared d then Err (UndeclaredCapability canonical)
     else
     and_then (ok_or (Panicked ''validated capability table'') (map_of (d_capabilities d) canonical)) (\<lambda>capability.
     and_then (ok_or (Panicked ''validated signature reference'')
                (map_of (d_signatures d) (cc_signature capability))) (\<lambda>signature.
     and_then (validate_parameters parameters signature (d_bounds d)) (\<lambda>_.
     Ok canonical))))"

definition dispatch ::
  "'s host_callback \<Rightarrow> (json \<Rightarrow> string + nat) \<Rightarrow> 's Dispatcher \<Rightarrow> string \<Rightarrow> json
   \<Rightarrow> (DispatchError + json) \<times> 's Dispatcher" where
  "dispatch callback to_vec_len d requested_name parameters =
     (case admit_call d requested_name parameters of
        Inl e \<Rightarrow> (Err e, d)
      | Inr canonical \<Rightarrow>
          (case callback (d_host d) canonical parameters of (outcome, host') \<Rightarrow>
             ((case outcome of
                 Inl e \<Rightarrow> Err (HostFailed e)
               | Inr result \<Rightarrow>
                   (case to_vec_len result of
                      Inl e \<Rightarrow> Err (HostFailed e)
                    | Inr result_bytes \<Rightarrow>
                        if d_maximum_result_bytes d < result_bytes then
                          Err (ResultTooLarge result_bytes (d_maximum_result_bytes d))
                        else Ok result)),
              d\<lparr>d_host := host'\<rparr>)))"

text \<open>\<open>Dispatcher\<close> as the VM's \<open>CapHost\<close>.\<close>

definition dispatcher_call ::
  "'s host_callback \<Rightarrow> (json \<Rightarrow> string + nat) \<Rightarrow> 's Dispatcher cap_call" where
  "dispatcher_call callback to_vec_len d capability =
     (case dispatch callback to_vec_len d capability (JObj []) of
        (Inl e, d') \<Rightarrow> (Err (DispatchError_fmt e), d')
      | (Inr value, d') \<Rightarrow>
          (ok_or (DispatchError_fmt (VmResult ''expected one signed integer'')) (as_i64 value), d'))"

section \<open>Well-formed dispatchers\<close>

text \<open>The references that \<open>dispatch\<close> relies on by \<open>expect\<close> all resolve.\<close>

definition signatures_ok :: "(string \<times> ParameterObject) list \<Rightarrow> (string \<times> NumericBound) list \<Rightarrow> bool" where
  "signatures_ok signatures bounds \<longleftrightarrow>
     (\<forall>name parameters. (name, parameters) \<in> set signatures \<longrightarrow>
        po_kind parameters = ''object'' \<and> \<not> po_additional_properties parameters
        \<and> set (po_required parameters) \<subseteq> fst ` set (po_properties parameters)
        \<and> (\<forall>property contract bound. (property, contract) \<in> set (po_properties parameters)
             \<and> pc_bound contract = Some bound \<longrightarrow> map_of bounds bound \<noteq> None))"

definition tables_ok ::
  "(string \<times> ParameterObject) list \<Rightarrow> cap_tables \<Rightarrow> bool" where
  "tables_ok signatures = (\<lambda>(aliases, capabilities).
     (\<forall>alias canonical. map_of aliases alias = Some canonical \<longrightarrow> map_of capabilities canonical \<noteq> None)
     \<and> (\<forall>id capability. map_of capabilities id = Some capability \<longrightarrow>
          cc_id capability = id \<and> map_of aliases id = Some id
          \<and> map_of signatures (cc_signature capability) \<noteq> None))"

definition dispatcher_ok :: "'s Dispatcher \<Rightarrow> bool" where
  "dispatcher_ok d \<longleftrightarrow>
     tables_ok (d_signatures d) (d_aliases d, d_capabilities d)
     \<and> signatures_ok (d_signatures d) (d_bounds d)
     \<and> (\<forall>id \<in> d_declared d. map_of (d_capabilities d) id \<noteq> None)
     \<and> 0 < d_maximum_result_bytes d"

lemma map_of_table_insert [simp]: "map_of (table_insert k v t) = (map_of t)(k \<mapsto> v)"
proof -
  have "map_of (filter (\<lambda>e. fst e \<noteq> k) t) = (map_of t)(k := None)"
    by (induction t) auto
  then show ?thesis by (simp add: table_insert_def)
qed

lemma check_each_Ok_iff [simp]: "check_each f xs = Ok () \<longleftrightarrow> (\<forall>x \<in> set xs. f x = Ok ())"
  by (induction xs) (auto simp: result_iffs)

lemma check_each_ErrD: "check_each f xs = Err e \<Longrightarrow> \<exists>x \<in> set xs. f x = Err e"
  by (induction xs) (auto simp: result_iffs)

lemma check_option_Ok_iff:
  "(case x of None \<Rightarrow> Ok () | Some b \<Rightarrow> if Q b then Err (e b) else Ok ()) = Ok () \<longleftrightarrow>
   (\<forall>b. x = Some b \<longrightarrow> \<not> Q b)"
  by (simp split: option.splits)

lemma check_if_Ok_iff: "(if Q then Err e else Ok ()) = Ok () \<longleftrightarrow> \<not> Q"
  by simp

lemma and_then_unit_iff: "and_then r (\<lambda>_. k) = Ok () \<longleftrightarrow> r = Ok () \<and> k = Ok ()"
  by (cases r) auto

lemma required_iff:
  "(\<forall>x \<in> set names. map_of t x \<noteq> None) \<longleftrightarrow> set names \<subseteq> fst ` set t"
  by (auto simp: map_of_eq_None_iff)

lemma validate_signature_Ok_iff:
  "validate_signature bounds (name, parameters) = Ok () \<longleftrightarrow>
     po_kind parameters = ''object'' \<and> \<not> po_additional_properties parameters
     \<and> set (po_required parameters) \<subseteq> fst ` set (po_properties parameters)
     \<and> (\<forall>property contract bound. (property, contract) \<in> set (po_properties parameters)
          \<and> pc_bound contract = Some bound \<longrightarrow> map_of bounds bound \<noteq> None)"
proof -
  have "validate_signature bounds (name, parameters) = Ok () \<longleftrightarrow>
      po_kind parameters = ''object'' \<and> \<not> po_additional_properties parameters
      \<and> (\<forall>x \<in> set (po_required parameters). map_of (po_properties parameters) x \<noteq> None)
      \<and> (\<forall>x \<in> set (po_properties parameters). \<forall>b. pc_bound (snd x) = Some b \<longrightarrow> map_of bounds b \<noteq> None)"
    by (simp only: validate_signature_def prod.case split_beta and_then_unit_iff check_each_Ok_iff
        check_option_Ok_iff check_if_Ok_iff if_split [of "\<lambda>r. r = Ok ()"] sum.distinct snd_conv simp_thms) blast
  then show ?thesis unfolding required_iff by auto
qed

lemma validate_signatures_ok:
  assumes "validate_signatures signatures bounds = Ok ()"
  shows "signatures_ok signatures bounds"
  unfolding signatures_ok_def
proof (intro allI impI)
  fix name parameters
  assume "(name, parameters) \<in> set signatures"
  with assms have "validate_signature bounds (name, parameters) = Ok ()"
    by (auto simp: validate_signatures_def)
  then show "po_kind parameters = ''object'' \<and> \<not> po_additional_properties parameters
      \<and> set (po_required parameters) \<subseteq> fst ` set (po_properties parameters)
      \<and> (\<forall>property contract bound. (property, contract) \<in> set (po_properties parameters)
           \<and> pc_bound contract = Some bound \<longrightarrow> map_of bounds bound \<noteq> None)"
    by (rule validate_signature_Ok_iff [THEN iffD1])
qed

lemma insert_alias_OkD:
  assumes "insert_alias aliases alias canonical = Ok aliases'"
  shows "map_of aliases' alias = Some canonical"
    and "\<And>x y. map_of aliases' x = Some y \<Longrightarrow> y = canonical \<or> map_of aliases x = Some y"
    and "\<And>x y. map_of aliases x = Some y \<Longrightarrow> map_of aliases' x = Some y"
  using assms by (auto simp: insert_alias_def split: option.splits if_splits)

lemma add_capability_ok:
  assumes "add_capability abi capability tables = Ok tables'"
    and "tables_ok (abi_signatures abi) tables"
  shows "tables_ok (abi_signatures abi) tables'"
proof -
  obtain aliases capabilities where t: "tables = (aliases, capabilities)" by fastforce
  with assms(1) obtain aliases1 aliases2 where
    sig: "map_of (abi_signatures abi) (cc_signature capability) \<noteq> None" and
    a1: "insert_alias aliases (cc_id capability) (cc_id capability) = Ok aliases1" and
    a2: "(case cc_facade capability of None \<Rightarrow> Ok aliases1
          | Some facade \<Rightarrow> and_then (validate_name facade) (\<lambda>_.
              insert_alias aliases1 facade (cc_id capability))) = Ok aliases2" and
    t': "tables' = (aliases2, table_insert (cc_id capability) capability capabilities)"
    by (auto simp: add_capability_def result_iffs split: if_splits)
  note m1 = insert_alias_OkD [OF a1]
  have kept: "map_of aliases2 (cc_id capability) = Some (cc_id capability)
      \<and> (\<forall>alias canonical. map_of aliases2 alias = Some canonical \<longrightarrow>
           canonical = cc_id capability \<or> map_of aliases alias = Some canonical)
      \<and> (\<forall>alias canonical. map_of aliases alias = Some canonical \<longrightarrow>
           map_of aliases2 alias = Some canonical)"
  proof (cases "cc_facade capability")
    case None
    with a2 have "aliases2 = aliases1" by simp
    with m1 show ?thesis by blast
  next
    case (Some facade)
    with a2 have "insert_alias aliases1 facade (cc_id capability) = Ok aliases2"
      by (auto simp: result_iffs)
    from m1 insert_alias_OkD [OF this] show ?thesis by blast
  qed
  have ok: "map_of aliases al = Some canonical \<Longrightarrow> map_of capabilities canonical \<noteq> None"
    "map_of capabilities id = Some c \<Longrightarrow> cc_id c = id \<and> map_of aliases id = Some id
      \<and> map_of (abi_signatures abi) (cc_signature c) \<noteq> None" for al canonical id c
    using assms(2) by (auto simp: t tables_ok_def)
  show ?thesis
    unfolding t' tables_ok_def prod.case
  proof (intro conjI allI impI)
    fix al canonical
    assume "map_of aliases2 al = Some canonical"
    then have "canonical = cc_id capability \<or> map_of capabilities canonical \<noteq> None"
      using kept ok(1) by blast
    then show "map_of (table_insert (cc_id capability) capability capabilities) canonical \<noteq> None"
      by auto
  next
    fix id c
    assume "map_of (table_insert (cc_id capability) capability capabilities) id = Some c"
    then have "id = cc_id capability \<and> c = capability \<or> map_of capabilities id = Some c"
      by (auto split: if_splits)
    then show "cc_id c = id" "map_of aliases2 id = Some id"
      "map_of (abi_signatures abi) (cc_signature c) \<noteq> None"
      using kept ok(2) sig by blast+
  qed
qed

lemma add_capabilities_ok:
  "\<lbrakk> add_capabilities abi capabilities tables = Ok tables'; tables_ok (abi_signatures abi) tables \<rbrakk>
   \<Longrightarrow> tables_ok (abi_signatures abi) tables'"
  by (induction capabilities arbitrary: tables) (auto simp: result_iffs dest: add_capability_ok)

lemma resolve_declarations_OkD:
  "resolve_declarations aliases names declared = Ok declared' \<Longrightarrow>
   declared' = declared \<union> {canonical. \<exists>name \<in> set names. map_of aliases name = Some canonical}
   \<and> (\<forall>name \<in> set names. map_of aliases name \<noteq> None)"
proof (induction names arbitrary: declared)
  case Nil
  then show ?case by simp
next
  case (Cons name names)
  then obtain canonical where "map_of aliases name = Some canonical"
    and "resolve_declarations aliases names (insert canonical declared) = Ok declared'"
    by (auto simp: result_iffs)
  with Cons.IH [of "insert canonical declared"] show ?case by auto
qed

lemma from_host_abi_ok:
  assumes "from_host_abi_json from_str raw names host = Ok d"
  shows "dispatcher_ok d" and "d_host d = host"
    and "d_declared d = {canonical. \<exists>name \<in> set names. map_of (d_aliases d) name = Some canonical}"
proof -
  from assms obtain abi aliases capabilities declared where
    abi: "validate_document abi = Ok ()" and
    tables: "add_capabilities abi (abi_capabilities abi) ([], []) = Ok (aliases, capabilities)" and
    sigs: "validate_signatures (abi_signatures abi) (abi_bounds abi) = Ok ()" and
    decl: "resolve_declarations aliases names {} = Ok declared" and
    d: "d = \<lparr>d_aliases = aliases, d_capabilities = capabilities, d_signatures = abi_signatures abi,
              d_bounds = abi_bounds abi, d_declared = declared,
              d_maximum_result_bytes = abi_maximum_utf8_bytes abi, d_host = host\<rparr>"
    by (auto simp: from_host_abi_json_def result_iffs split: sum.splits if_splits)
  have "tables_ok (abi_signatures abi) (aliases, capabilities)"
    by (rule add_capabilities_ok [OF tables]) (simp add: tables_ok_def)
  moreover have "0 < abi_maximum_utf8_bytes abi"
    using abi by (auto simp: validate_document_def split: if_splits)
  ultimately show "dispatcher_ok d"
    using resolve_declarations_OkD [OF decl] validate_signatures_ok [OF sigs]
    by (auto simp: d dispatcher_ok_def tables_ok_def)
  show "d_host d = host" by (simp add: d)
  show "d_declared d = {canonical. \<exists>name \<in> set names. map_of (d_aliases d) name = Some canonical}"
    using resolve_declarations_OkD [OF decl] by (simp add: d)
qed

section \<open>What conforming parameters are\<close>

definition property_conforms ::
  "(string \<times> NumericBound) list \<Rightarrow> PropertyContract \<Rightarrow> json \<Rightarrow> bool" where
  "property_conforms bounds contract value =
     (let bound = Option.bind (pc_bound contract) (map_of bounds) in
      if pc_kind contract \<in> {''string'', ''stable_tab_id''} then
        (case as_str value of
           None \<Rightarrow> False
         | Some text \<Rightarrow> fst (text_limits bound contract) \<le> length text
             \<and> length text \<le> snd (text_limits bound contract))
      else if pc_kind contract \<in> {''integer'', ''uint32'', ''uint64''} then
        (case as_i64 value of
           None \<Rightarrow> False
         | Some n \<Rightarrow> (pc_kind contract = ''integer'' \<or> 0 \<le> sint n)
             \<and> fst (integer_limits bound contract) \<le> sint n
             \<and> sint n \<le> snd (integer_limits bound contract))
      else pc_kind contract = ''number'' \<and> is_number value)"

definition parameters_conform ::
  "(string \<times> NumericBound) list \<Rightarrow> ParameterObject \<Rightarrow> json \<Rightarrow> bool" where
  "parameters_conform bounds contract value =
     (case value of
        JObj members \<Rightarrow>
          set (po_required contract) \<subseteq> fst ` set members
          \<and> (\<forall>(name, v) \<in> set members.
               case map_of (po_properties contract) name of
                 None \<Rightarrow> False
               | Some property \<Rightarrow> property_conforms bounds property v)
      | _ \<Rightarrow> False)"

lemma named_bound_resolved:
  assumes "\<And>b. pc_bound contract = Some b \<Longrightarrow> map_of bounds b \<noteq> None"
  shows "named_bound bounds contract = Ok (Option.bind (pc_bound contract) (map_of bounds))"
  using assms by (auto simp: named_bound_def lookup_bound_def split: option.splits)

lemma validate_property_iff:
  assumes "\<And>b. pc_bound contract = Some b \<Longrightarrow> map_of bounds b \<noteq> None"
  shows "validate_property bounds name v contract = Ok () \<longleftrightarrow> property_conforms bounds contract v"
    and "validate_property bounds name v contract \<noteq> Err (Panicked reason)"
proof -
  note resolved = named_bound_resolved [OF assms]
  let ?kind = "pc_kind contract"
  consider (textual) "?kind = ''string'' \<or> ?kind = ''stable_tab_id''"
    | (signed) "?kind = ''integer''" | (unsigned) "?kind = ''uint32'' \<or> ?kind = ''uint64''"
    | (number) "?kind = ''number''"
    | (other) "?kind \<notin> {''string'', ''stable_tab_id'', ''integer'', ''uint32'', ''uint64'', ''number''}"
    by blast
  then have "(validate_property bounds name v contract = Ok () \<longleftrightarrow> property_conforms bounds contract v)
      \<and> validate_property bounds name v contract \<noteq> Err (Panicked reason)"
  proof cases
    case textual
    then show ?thesis
      by (cases "as_str v") (auto simp: validate_property_def property_conforms_def resolved Let_def
          split_beta not_less)
  next
    case signed
    then show ?thesis
      by (cases "as_i64 v") (auto simp: validate_property_def property_conforms_def resolved Let_def
          split_beta not_less)
  next
    case unsigned
    then show ?thesis
      by (cases "as_i64 v") (auto simp: validate_property_def property_conforms_def resolved Let_def
          split_beta not_less)
  qed (auto simp: validate_property_def property_conforms_def)
  then show "validate_property bounds name v contract = Ok () \<longleftrightarrow> property_conforms bounds contract v"
    and "validate_property bounds name v contract \<noteq> Err (Panicked reason)" by blast+
qed

lemma validate_parameters_iff:
  assumes "\<And>property c b. map_of (po_properties contract) property = Some c \<Longrightarrow>
      pc_bound c = Some b \<Longrightarrow> map_of bounds b \<noteq> None"
  shows "validate_parameters v contract bounds = Ok () \<longleftrightarrow> parameters_conform bounds contract v"
    and "validate_parameters v contract bounds \<noteq> Err (Panicked reason)"
proof -
  let ?member = "\<lambda>x. and_then (ok_or (InvalidParameters (''unexpected property `'' @ fst x @ ''`''))
      (map_of (po_properties contract) (fst x))) (validate_property bounds (fst x) (snd x))"
  have member: "?member x = Ok () \<longleftrightarrow>
      (case map_of (po_properties contract) (fst x) of
         None \<Rightarrow> False | Some property \<Rightarrow> property_conforms bounds property (snd x))"
    "?member x \<noteq> Err (Panicked reason)" for x
    using validate_property_iff [of _ bounds "fst x" "snd x"] assms [of "fst x"]
    by (auto simp: result_iffs split: option.splits)
  have "(validate_parameters v contract bounds = Ok () \<longleftrightarrow> parameters_conform bounds contract v)
      \<and> validate_parameters v contract bounds \<noteq> Err (Panicked reason)"
  proof (cases "as_object v")
    case None
    then show ?thesis
      by (cases v) (simp_all add: validate_parameters_def parameters_conform_def)
  next
    case (Some ms)
    then have v: "v = JObj ms" by (cases v) simp_all
    have shape: "validate_parameters v contract bounds =
        and_then (check_each (\<lambda>required. if map_of ms required = None
            then Err (InvalidParameters (''missing required property `'' @ required @ ''`''))
            else Ok ()) (po_required contract)) (\<lambda>_. check_each ?member ms)"
      by (simp only: validate_parameters_def v as_object.simps ok_or.simps and_then.simps case_prod_unfold)
    have "validate_parameters v contract bounds = Ok () \<longleftrightarrow> parameters_conform bounds contract v"
      by (simp only: shape, simp only: parameters_conform_def v json.case and_then_unit_iff
          check_each_Ok_iff check_if_Ok_iff member required_iff case_prod_unfold)
    moreover have "validate_parameters v contract bounds \<noteq> Err (Panicked reason)"
      unfolding shape using member(2)
      by (auto simp: and_then_Err_iff dest!: check_each_ErrD split: if_splits)
    ultimately show ?thesis by blast
  qed
  then show "validate_parameters v contract bounds = Ok () \<longleftrightarrow> parameters_conform bounds contract v"
    and "validate_parameters v contract bounds \<noteq> Err (Panicked reason)" by blast+
qed

section \<open>Admission and dispatch\<close>

lemma admit_call_iff:
  assumes "dispatcher_ok d"
  shows "admit_call d name parameters = Ok canonical \<longleftrightarrow>
      map_of (d_aliases d) name = Some canonical \<and> canonical \<in> d_declared d
      \<and> (\<exists>capability signature. map_of (d_capabilities d) canonical = Some capability
           \<and> map_of (d_signatures d) (cc_signature capability) = Some signature
           \<and> parameters_conform (d_bounds d) signature parameters)"
    and "admit_call d name parameters \<noteq> Err (Panicked reason)"
proof -
  have "(validate_parameters parameters signature (d_bounds d) = Ok ()
         \<longleftrightarrow> parameters_conform (d_bounds d) signature parameters)
      \<and> validate_parameters parameters signature (d_bounds d) \<noteq> Err (Panicked reason)"
    if "map_of (d_signatures d) sid = Some signature" for sid signature reason
    using assms map_of_SomeD [OF that]
    by (intro conjI validate_parameters_iff)
      (fastforce simp: dispatcher_ok_def signatures_ok_def dest: map_of_SomeD)+
  note valid = this [THEN conjunct1] this [THEN conjunct2]
  have known: "map_of (d_capabilities d) canonical \<noteq> None"
    if "map_of (d_aliases d) name = Some canonical" for canonical
    using assms that by (auto simp: dispatcher_ok_def tables_ok_def)
  have signed: "map_of (d_signatures d) (cc_signature capability) \<noteq> None"
    if "map_of (d_capabilities d) canonical = Some capability" for canonical capability
    using assms that by (auto simp: dispatcher_ok_def tables_ok_def)
  show "admit_call d name parameters = Ok canonical \<longleftrightarrow>
      map_of (d_aliases d) name = Some canonical \<and> canonical \<in> d_declared d
      \<and> (\<exists>capability signature. map_of (d_capabilities d) canonical = Some capability
           \<and> map_of (d_signatures d) (cc_signature capability) = Some signature
           \<and> parameters_conform (d_bounds d) signature parameters)"
    by (auto simp: admit_call_def result_iffs valid split: if_splits)
  show "admit_call d name parameters \<noteq> Err (Panicked reason)"
    using known signed valid(2) by (auto simp: admit_call_def result_iffs split: if_splits)
qed

lemma dispatch_tables:
  "dispatch callback len d name parameters = (r, d') \<Longrightarrow> d' = d\<lparr>d_host := d_host d'\<rparr>"
  by (auto simp: dispatch_def split: sum.splits prod.splits)

lemma dispatch_host:
  "d_host (snd (dispatch callback len d name parameters)) =
     (case admit_call d name parameters of
        Inl _ \<Rightarrow> d_host d
      | Inr canonical \<Rightarrow> snd (callback (d_host d) canonical parameters))"
  by (auto simp: dispatch_def split: sum.splits prod.splits)

lemma dispatcher_call_snd:
  "snd (dispatcher_call callback len d name) = snd (dispatch callback len d name (JObj []))"
  by (auto simp: dispatcher_call_def split: sum.splits prod.splits)

text \<open>A host that records which capabilities it was asked for.\<close>

definition logged :: "'s host_callback \<Rightarrow> ('s \<times> string list) host_callback" where
  "logged callback h capability parameters =
     (case callback (fst h) capability parameters of (r, s) \<Rightarrow> (r, (s, snd h @ [capability])))"

definition log_ok :: "string set \<Rightarrow> ('s \<times> string list) Dispatcher \<Rightarrow> bool" where
  "log_ok declared d \<longleftrightarrow> d_declared d = declared \<and> set (snd (d_host d)) \<subseteq> declared"

lemma logged_dispatch:
  assumes "dispatch (logged callback) len d name parameters = (r, d')"
  shows "d_declared d' = d_declared d"
    and "snd (d_host d') = snd (d_host d) \<or>
         (\<exists>canonical \<in> d_declared d. snd (d_host d') = snd (d_host d) @ [canonical])"
proof -
  show "d_declared d' = d_declared d"
    using dispatch_tables [OF assms] by (metis Dispatcher.select_convs(5) Dispatcher.surjective Dispatcher.update_convs(7))
  show "snd (d_host d') = snd (d_host d) \<or>
         (\<exists>canonical \<in> d_declared d. snd (d_host d') = snd (d_host d) @ [canonical])"
    using dispatch_host [of "logged callback" len d name parameters] assms
    by (auto simp: logged_def admit_call_def result_iffs split: sum.splits prod.splits if_splits)
qed

interpretation logged: cap_host "dispatcher_call (logged callback) len" "log_ok declared"
    "\<lambda>d. length (snd (d_host d))"
  for callback :: "'s host_callback" and len :: "json \<Rightarrow> string + nat" and declared :: "string set"
proof
  fix d :: "('s \<times> string list) Dispatcher" and name
  assume ok: "log_ok declared d"
  obtain r d' where d': "dispatch (logged callback) len d name (JObj []) = (r, d')" by fastforce
  note step = logged_dispatch [OF d']
  show "log_ok declared (snd (dispatcher_call (logged callback) len d name))"
    using ok step by (auto simp: log_ok_def dispatcher_call_snd d')
  show "length (snd (d_host (snd (dispatcher_call (logged callback) len d name))))
      \<le> Suc (length (snd (d_host d)))"
    using step by (auto simp: dispatcher_call_snd d')
qed

section \<open>Properties\<close>

text \<open>
  The admission rule of a dispatcher built from a host ABI, exactly: a call reaches the
  host callback if and only if its name resolves to a canonical capability, that capability
  is among the ones the app declared, and its parameters conform to the capability's
  signature.  None of the table lookups the code asserts with \<open>expect\<close> can fail.
\<close>

theorem dispatch_admission_exact:
  assumes "from_host_abi_json from_str raw names host = Ok d"
  shows "(admit_call d name parameters = Ok canonical \<longleftrightarrow>
      map_of (d_aliases d) name = Some canonical
      \<and> (\<exists>declaration \<in> set names. map_of (d_aliases d) declaration = Some canonical)
      \<and> (\<exists>capability signature. map_of (d_capabilities d) canonical = Some capability
           \<and> map_of (d_signatures d) (cc_signature capability) = Some signature
           \<and> parameters_conform (d_bounds d) signature parameters))
    \<and> (\<forall>reason. admit_call d name parameters \<noteq> Err (Panicked reason))"
  using admit_call_iff [OF from_host_abi_ok(1) [OF assms]] from_host_abi_ok(3) [OF assms] by simp

text \<open>A small ABI document: one integer-valued capability without parameters.\<close>

definition sample_abi :: HostAbiDocument where
  "sample_abi = \<lparr>abi_schema = 2, abi_version = 3, abi_maximum_utf8_bytes = 64, abi_bounds = [],
     abi_signatures = [(''empty'', \<lparr>po_kind = ''object'', po_required = [],
        po_additional_properties = False, po_properties = []\<rparr>)],
     abi_capabilities = [\<lparr>cc_id = ''tabs.count'', cc_facade = Some ''workbench.tabs.count'',
        cc_host_abi = 3, cc_signature = ''empty''\<rparr>]\<rparr>"

lemma sample_signatures:
  "abi_signatures sample_abi = [(''empty'', \<lparr>po_kind = ''object'', po_required = [],
     po_additional_properties = False, po_properties = []\<rparr>)]"
  by (simp add: sample_abi_def)

lemma sample_dispatcher:
  "from_host_abi_json (\<lambda>_. Ok sample_abi) [] [''workbench.tabs.count''] h = Ok
     \<lparr>d_aliases = [(''workbench.tabs.count'', ''tabs.count''), (''tabs.count'', ''tabs.count'')],
      d_capabilities = [(''tabs.count'', \<lparr>cc_id = ''tabs.count'', cc_facade = Some ''workbench.tabs.count'',
        cc_host_abi = 3, cc_signature = ''empty''\<rparr>)],
      d_signatures = abi_signatures sample_abi, d_bounds = [], d_declared = {''tabs.count''},
      d_maximum_result_bytes = 64, d_host = h\<rparr>"
  by (simp add: from_host_abi_json_def sample_abi_def validate_document_def HOST_ABI_SCHEMA_def
      HOST_ABI_VERSION_def add_capability_def validate_name_def MAX_CAPABILITY_NAME_BYTES_def
      insert_alias_def table_insert_def validate_signatures_def validate_signature_def)

theorem dispatch_admission_exact_witness:
  "\<exists>d. from_host_abi_json (\<lambda>_. Ok sample_abi) [] [''workbench.tabs.count''] () = Ok d
     \<and> admit_call d ''tabs.count'' (JObj []) = Ok ''tabs.count''
     \<and> admit_call d ''tabs.count'' (JObj [(''x'', JNull)]) \<noteq> Ok ''tabs.count''"
proof -
  obtain d where d: "from_host_abi_json (\<lambda>_. Ok sample_abi) [] [''workbench.tabs.count''] () = Ok d"
    by (rule that [OF sample_dispatcher])
  then have tables: "d_aliases d = [(''workbench.tabs.count'', ''tabs.count''), (''tabs.count'', ''tabs.count'')]"
    "map_of (d_capabilities d) ''tabs.count'' = Some \<lparr>cc_id = ''tabs.count'',
       cc_facade = Some ''workbench.tabs.count'', cc_host_abi = 3, cc_signature = ''empty''\<rparr>"
    "d_signatures d = abi_signatures sample_abi"
    by (auto simp: sample_dispatcher)
  note rule = dispatch_admission_exact [OF d, THEN conjunct1]
  have "admit_call d ''tabs.count'' (JObj []) = Ok ''tabs.count''"
    unfolding rule by (simp add: tables sample_signatures parameters_conform_def)
  moreover have "admit_call d ''tabs.count'' (JObj [(''x'', JNull)]) \<noteq> Ok ''tabs.count''"
    unfolding rule by (simp add: tables sample_signatures parameters_conform_def)
  ultimately show ?thesis using d by blast
qed

text \<open>
  What one dispatch does to the host: nothing at all when the call is not admitted, and
  exactly one callback with the canonical name and the unchanged parameters otherwise.  The
  tables never change, and a value is returned only if the callback produced it and its
  serialised form is within the ABI's response limit.
\<close>

theorem dispatch_calls_host_once:
  assumes "dispatch callback len d name parameters = (r, d')"
  shows "d' = d\<lparr>d_host := case admit_call d name parameters of
             Inl _ \<Rightarrow> d_host d
           | Inr canonical \<Rightarrow> snd (callback (d_host d) canonical parameters)\<rparr>
    \<and> (\<forall>v. r = Ok v \<longrightarrow>
         (\<exists>canonical n. admit_call d name parameters = Ok canonical
            \<and> fst (callback (d_host d) canonical parameters) = Ok v
            \<and> len v = Ok n \<and> n \<le> d_maximum_result_bytes d))"
  using assms by (auto simp: dispatch_def not_less split: sum.splits prod.splits if_splits)

theorem dispatch_calls_host_once_witness:
  "\<exists>d d'. from_host_abi_json (\<lambda>_. Ok sample_abi) [] [''workbench.tabs.count''] (0 :: nat) = Ok d
     \<and> dispatch (\<lambda>h cap p. (Ok (json_of_i64 4), h + 1)) (\<lambda>v. Ok 1) d ''tabs.count'' (JObj [])
         = (Ok (json_of_i64 4), d')
     \<and> d_host d' = 1"
proof -
  let ?cb = "\<lambda>(h :: nat) (cap :: string) (p :: json). (Ok (json_of_i64 4) :: string + json, h + 1)"
  obtain d where d: "from_host_abi_json (\<lambda>_. Ok sample_abi) [] [''workbench.tabs.count''] (0 :: nat) = Ok d"
    by (rule that [OF sample_dispatcher])
  then have admit: "admit_call d ''tabs.count'' (JObj []) = Ok ''tabs.count''"
    and host: "d_host d = 0" and max: "d_maximum_result_bytes d = 64"
    by (auto simp: sample_dispatcher sample_signatures admit_call_def validate_parameters_def)
  obtain r d' where step: "dispatch ?cb (\<lambda>v. Ok 1) d ''tabs.count'' (JObj []) = (r, d')"
    by fastforce
  with admit max have r: "r = Ok (json_of_i64 4)" by (auto simp: dispatch_def)
  from dispatch_calls_host_once [OF step] admit host have "d_host d' = 1" by simp
  with d step r show ?thesis by auto
qed

text \<open>
  C11. What a program can do to the product host.  Run any bytecode program against a
  dispatcher: however the callback behaves and however the run ends, the capabilities it was
  asked for are all declared ones, and there are at most as many requests as the step budget.
\<close>

theorem program_confined_to_declared:
  assumes "snd (d_host d) = []"
    and "vm_run (dispatcher_call (logged callback) len) program max_steps d = (r, d')"
  shows "set (snd (d_host d')) \<subseteq> d_declared d \<and> length (snd (d_host d')) \<le> unat max_steps"
  using logged.run_contract [of "d_declared d" d callback len program max_steps] assms
  by (simp add: log_ok_def)

theorem program_confined_to_declared_witness:
  "\<exists>d r d'. from_host_abi_json (\<lambda>_. Ok sample_abi) [] [''workbench.tabs.count''] ((), [] :: string list) = Ok d
     \<and> vm_run (dispatcher_call (logged (\<lambda>h cap p. (Ok (json_of_i64 4), h))) (\<lambda>v. Ok 1))
         \<lparr>prog_code = [7, 0, 5, 0, 0, 0, 0, 0, 0, 0, 0], prog_caps = [''tabs.count'']\<rparr> 100 d = (r, d')
     \<and> set (snd (d_host d')) \<subseteq> {''tabs.count''} \<and> length (snd (d_host d')) \<le> 100"
proof -
  let ?p = "\<lparr>prog_code = [7, 0, 5, 0, 0, 0, 0, 0, 0, 0, 0], prog_caps = [''tabs.count'']\<rparr>"
  let ?cb = "\<lambda>(h :: unit) (cap :: string) (p :: json). (Ok (json_of_i64 4) :: string + json, h)"
  obtain d where d: "from_host_abi_json (\<lambda>_. Ok sample_abi) [] [''workbench.tabs.count''] ((), [] :: string list) = Ok d"
    by (rule that [OF sample_dispatcher])
  then have host: "snd (d_host d) = []" and decl: "d_declared d = {''tabs.count''}"
    by (auto simp: sample_dispatcher)
  obtain r d' where run: "vm_run (dispatcher_call (logged ?cb) (\<lambda>v. Ok 1)) ?p 100 d = (r, d')"
    by fastforce
  from program_confined_to_declared [OF host run] decl d run show ?thesis by auto
qed

end
