(* ===== verification/Chassis_Image.thy ===== *)
theory Chassis_Image
  imports Chassis_Dispatch
begin

text \<open>
  Loaded chassis images: the loader's program table and its guarded evaluation
  (\<open>crates/agenterm-chassis/src/loader/mod.rs\<close>), the workbench's next/previous-tab rule that
  an image's \<open>adjacent-tab\<close> program decides (\<open>src/frontend/chassis_image.rs\<close>) together with
  the built-in rule it must agree with (\<open>src/control_dispatch.rs\<close>), and the byte stream
  behind an image's content address.

  Reading a file is a function from a path to its bytes or an error, the JSON parsers and
  SHA-256 are functions too; they are arguments of the definitions that use them.
\<close>

section \<open>The loader's programs\<close>

record LoadedProgram =
  lp_program :: Program
  lp_source_ir :: L2Source
  lp_source :: string

record LoadedImage =
  li_root :: string
  li_host_abi :: string
  li_app_manifest :: string
  li_declared_capabilities :: "string list"
  li_programs :: "(string \<times> LoadedProgram) list"

text \<open>
  One entry of \<open>l2/programs\<close>: whether it is a regular file, its name when that is UTF-8, and
  what reading it gives.
\<close>

record DirEntry =
  de_is_file :: bool
  de_name :: "string option"
  de_read :: "string + string"

datatype LoadError =
    NotAFile
  | NameNotUtf8
  | NotJson string
  | ReadFailed string
  | InvalidUtf8 string string
  | InvalidSource string string
  | InvalidProgram string AssembleError
  | DuplicateProgram string

definition ends_with :: "string \<Rightarrow> string \<Rightarrow> bool" where
  "ends_with suffix s = (length suffix \<le> length s \<and> drop (length s - length suffix) s = suffix)"

definition load_program ::
  "(string \<Rightarrow> string + string) \<Rightarrow> (string \<Rightarrow> string + L2Source) \<Rightarrow> DirEntry
   \<Rightarrow> (string \<times> LoadedProgram) list \<Rightarrow> LoadError + (string \<times> LoadedProgram) list" where
  "load_program from_utf8 from_json entry programs =
     (if \<not> de_is_file entry then Err NotAFile
      else
      and_then (ok_or NameNotUtf8 (de_name entry)) (\<lambda>name.
      if \<not> ends_with ''.json'' name then Err (NotJson name)
      else
        case de_read entry of
          Inl e \<Rightarrow> Err (ReadFailed e)
        | Inr source_bytes \<Rightarrow>
            case from_utf8 source_bytes of
              Inl e \<Rightarrow> Err (InvalidUtf8 name e)
            | Inr source_text \<Rightarrow>
                case from_json source_text of
                  Inl e \<Rightarrow> Err (InvalidSource name e)
                | Inr source \<Rightarrow>
                    case assemble source None of
                      Inl e \<Rightarrow> Err (InvalidProgram name e)
                    | Inr program \<Rightarrow>
                        if map_of programs name \<noteq> None then Err (DuplicateProgram name)
                        else Ok (table_insert name \<lparr>lp_program = program, lp_source_ir = source,
                                   lp_source = source_bytes\<rparr> programs)))"

fun load_programs_from ::
  "(string \<Rightarrow> string + string) \<Rightarrow> (string \<Rightarrow> string + L2Source) \<Rightarrow> DirEntry list
   \<Rightarrow> (string \<times> LoadedProgram) list \<Rightarrow> LoadError + (string \<times> LoadedProgram) list" where
  "load_programs_from from_utf8 from_json [] programs = Ok programs"
| "load_programs_from from_utf8 from_json (entry # entries) programs =
     and_then (load_program from_utf8 from_json entry programs)
       (load_programs_from from_utf8 from_json entries)"

text \<open>\<open>load_programs\<close>: the argument is \<open>None\<close> when \<open>l2/programs\<close> is not a directory.\<close>

definition load_programs ::
  "(string \<Rightarrow> string + string) \<Rightarrow> (string \<Rightarrow> string + L2Source) \<Rightarrow> DirEntry list option
   \<Rightarrow> LoadError + (string \<times> LoadedProgram) list" where
  "load_programs from_utf8 from_json dir =
     (case dir of None \<Rightarrow> Ok [] | Some entries \<Rightarrow> load_programs_from from_utf8 from_json entries [])"

section \<open>Guarded evaluation\<close>

text \<open>The two sources of \<open>L2EvalError::Dispatch\<close> are kept apart.\<close>

datatype L2EvalError =
    UnknownProgram string
  | Tampered string
  | DispatchAssemble AssembleError
  | DispatchAbi DispatchError
  | L2Vm VmError

definition path_join :: "string \<Rightarrow> string \<Rightarrow> string" where
  "path_join base rel =
     (if rel \<noteq> [] \<and> hd rel = CHR ''/'' then rel else base @ ''/'' @ rel)"

fun verify_inputs ::
  "(string \<Rightarrow> string + string) \<Rightarrow> (string \<times> string \<times> string) list \<Rightarrow> L2EvalError + unit" where
  "verify_inputs read [] = Ok ()"
| "verify_inputs read ((label, fpath, expected) # inputs) =
     (case read fpath of
        Inl e \<Rightarrow> Err (Tampered (label @ '' unreadable: '' @ e))
      | Inr actual \<Rightarrow>
          if actual \<noteq> expected then Err (Tampered (label @ '' changed after image load''))
          else verify_inputs read inputs)"

definition verify_dispatch_inputs ::
  "(string \<Rightarrow> string + string) \<Rightarrow> LoadedImage \<Rightarrow> string \<Rightarrow> LoadedProgram \<Rightarrow> L2EvalError + unit" where
  "verify_dispatch_inputs read img program_name loaded_program =
     verify_inputs read
       [(''L2 Host ABI'', path_join (li_root img) ''l2/host-abi.json'', li_host_abi img),
        (''L3 manifest'', path_join (li_root img) ''l3/app.json'', li_app_manifest img),
        (''L2 program'', path_join (path_join (li_root img) ''l2/programs'') program_name,
         lp_source loaded_program)]"

definition eval_l2_bounded ::
  "(string \<Rightarrow> string + string) \<Rightarrow> (string \<Rightarrow> string + HostAbiDocument) \<Rightarrow> 's host_callback
   \<Rightarrow> (json \<Rightarrow> string + nat) \<Rightarrow> LoadedImage \<Rightarrow> string \<Rightarrow> 's \<Rightarrow> u32 \<Rightarrow> L2EvalError + i64 \<times> 's" where
  "eval_l2_bounded read from_str callback len img program_name host max_steps =
     and_then (ok_or (UnknownProgram program_name) (map_of (li_programs img) program_name)) (\<lambda>loaded_program.
     and_then (verify_dispatch_inputs read img program_name loaded_program) (\<lambda>_.
     case assemble (lp_source_ir loaded_program) (Some (li_declared_capabilities img)) of
       Inl e \<Rightarrow> Err (DispatchAssemble e)
     | Inr _ \<Rightarrow>
       (case from_host_abi_json from_str (li_host_abi img) (li_declared_capabilities img) host of
          Inl e \<Rightarrow> Err (DispatchAbi e)
        | Inr dispatcher \<Rightarrow>
            (case vm_run (dispatcher_call callback len) (lp_program loaded_program) max_steps dispatcher of
               (Inl e, _) \<Rightarrow> Err (L2Vm e)
             | (Inr v, dispatcher') \<Rightarrow> Ok (v, d_host dispatcher')))))"

definition eval_l2 ::
  "(string \<Rightarrow> string + string) \<Rightarrow> (string \<Rightarrow> string + HostAbiDocument) \<Rightarrow> 's host_callback
   \<Rightarrow> (json \<Rightarrow> string + nat) \<Rightarrow> LoadedImage \<Rightarrow> string \<Rightarrow> 's \<Rightarrow> L2EvalError + i64 \<times> 's" where
  "eval_l2 read from_str callback len img program_name host =
     eval_l2_bounded read from_str callback len img program_name host DEFAULT_MAX_STEPS"

section \<open>The next or previous tab\<close>

record LoadedChassisImage =
  ci_active_tab_program :: Program
  ci_adjacent_tab_program :: Program
  ci_host_abi :: string
  ci_declared_capabilities :: "string list"

record AdjacentTabFacts =
  facts_active_position :: i64
  facts_count :: i64
  facts_step :: i64

definition AdjacentTabFacts_call :: "AdjacentTabFacts host_callback" where
  "AdjacentTabFacts_call facts capability parameters =
     (if parameters \<noteq> JObj [] then Err (''`'' @ capability @ ''` takes no parameters'')
      else if capability = ''tabs.active-position'' then Ok (json_of_i64 (facts_active_position facts))
      else if capability = ''tabs.count'' then Ok (json_of_i64 (facts_count facts))
      else if capability = ''tabs.step'' then Ok (json_of_i64 (facts_step facts))
      else Err (''unsupported adjacent-tab call `'' @ capability @ ''`''), facts)"

datatype AdjacentTabError =
    TooManyTabs
  | AdjacentTabAbi DispatchError
  | AdjacentTabVm VmError
  | AdjacentTabAnswered i64 nat

definition i64_of_usize :: "nat \<Rightarrow> i64 option" where
  "i64_of_usize n = (if n < 2 ^ 63 then Some (of_nat n) else None)"

definition eval_adjacent_tab ::
  "(string \<Rightarrow> string + HostAbiDocument) \<Rightarrow> (json \<Rightarrow> string + nat) \<Rightarrow> LoadedChassisImage
   \<Rightarrow> nat \<Rightarrow> nat \<Rightarrow> 32 word \<Rightarrow> AdjacentTabError + nat" where
  "eval_adjacent_tab from_str len img active_position count step =
     and_then (ok_or TooManyTabs (i64_of_usize active_position)) (\<lambda>active_i64.
     and_then (ok_or TooManyTabs (i64_of_usize count)) (\<lambda>count_i64.
     case from_host_abi_json from_str (ci_host_abi img) (ci_declared_capabilities img)
            \<lparr>facts_active_position = active_i64, facts_count = count_i64, facts_step = scast step\<rparr> of
       Inl e \<Rightarrow> Err (AdjacentTabAbi e)
     | Inr dispatcher \<Rightarrow>
         (case vm_run (dispatcher_call AdjacentTabFacts_call len) (ci_adjacent_tab_program img)
                 DEFAULT_MAX_STEPS dispatcher of
            (Inl e, _) \<Rightarrow> Err (AdjacentTabVm e)
          | (Inr v, _) \<Rightarrow>
              (case usize_of_i64 v of
                 Some pos \<Rightarrow>
                   if pos < count then Ok pos else Err (AdjacentTabAnswered v count)
               | None \<Rightarrow> Err (AdjacentTabAnswered v count)))))"

text \<open>
  \<open>builtin_adjacent_tab_position\<close>: \<open>as i32\<close> truncates, \<open>rem_euclid\<close> gives a remainder
  between 0 and the absolute value of the divisor.  \<open>None\<close> is the panic on a zero divisor.
\<close>

definition builtin_adjacent_tab_position :: "nat \<Rightarrow> nat \<Rightarrow> 32 word \<Rightarrow> nat option" where
  "builtin_adjacent_tab_position current count direction =
     (let sum = sint (word_of_int (int current) + direction);
          divisor = sint (word_of_int (int count) :: 32 word)
      in if divisor = 0 then None else Some (nat (sum mod \<bar>divisor\<bar>)))"

text \<open>The repository's \<open>adjacent-tab\<close> program (\<open>crates/agenterm-chassis/l2/programs/adjacent-tab.json\<close>).\<close>

definition adjacent_tab_source :: L2Source where
  "adjacent_tab_source =
     \<lparr>src_caps = [''tabs.active-position'', ''tabs.step'', ''tabs.count''],
      src_ops =
        [IrCall ''tabs.active-position'', IrCall ''tabs.step'', IrAdd, IrCall ''tabs.count'', IrEq,
         IrJumpIfZero 8, IrPush 0, IrHalt,
         IrCall ''tabs.active-position'', IrCall ''tabs.step'', IrAdd, IrPush (- 1), IrEq,
         IrJumpIfZero 18, IrCall ''tabs.count'', IrPush 1, IrSub, IrHalt,
         IrCall ''tabs.active-position'', IrCall ''tabs.step'', IrAdd, IrHalt]\<rparr>"

section \<open>The stream behind an image's content address\<close>

definition IMAGE_ID_DOMAIN :: "u8 list" where
  "IMAGE_ID_DOMAIN = map (\<lambda>c. of_nat (of_char c)) (''agenterm-chassis-image-id/v1'' @ [CHR 0x00])"

fun image_files_stream :: "(u8 list \<times> u8 list) list \<Rightarrow> u8 list" where
  "image_files_stream [] = []"
| "image_files_stream ((fpath, bytes) # files) =
     to_le_bytes (of_nat (length fpath)) @ fpath @ to_le_bytes (of_nat (length bytes)) @ bytes
       @ image_files_stream files"

definition image_stream :: "(u8 list \<times> u8 list) list \<Rightarrow> u8 list" where
  "image_stream files =
     IMAGE_ID_DOMAIN @ to_le_bytes (of_nat (length files)) @ image_files_stream files"

definition hex_byte :: "u8 \<Rightarrow> string" where
  "hex_byte b = [digit_char (unat b div 16), digit_char (unat b mod 16)]"

definition image_id_of :: "(u8 list \<Rightarrow> u8 list) \<Rightarrow> (u8 list \<times> u8 list) list \<Rightarrow> string" where
  "image_id_of sha256 files = concat (map hex_byte (sha256 (image_stream files)))"

section \<open>Programs of a loaded image\<close>

definition programs_ok :: "(string \<times> LoadedProgram) list \<Rightarrow> bool" where
  "programs_ok programs \<longleftrightarrow>
     (\<forall>name loaded. map_of programs name = Some loaded \<longrightarrow>
        assemble (lp_source_ir loaded) None = Ok (lp_program loaded))"

lemma load_program_ok:
  assumes "load_program from_utf8 from_json entry programs = Ok programs'" and "programs_ok programs"
  shows "programs_ok programs'"
  using assms
  by (auto simp: load_program_def programs_ok_def result_iffs split: if_splits sum.splits)

lemma load_programs_from_ok:
  "\<lbrakk> load_programs_from from_utf8 from_json entries programs = Ok programs'; programs_ok programs \<rbrakk>
   \<Longrightarrow> programs_ok programs'"
  by (induction entries arbitrary: programs) (auto simp: result_iffs dest: load_program_ok)

lemma load_programs_ok:
  "load_programs from_utf8 from_json dir = Ok programs \<Longrightarrow> programs_ok programs"
  by (auto simp: load_programs_def programs_ok_def split: option.splits
      dest!: load_programs_from_ok [unfolded programs_ok_def])

lemma verify_inputs_Ok_iff:
  "verify_inputs read inputs = Ok () \<longleftrightarrow> (\<forall>(label, fpath, expected) \<in> set inputs. read fpath = Ok expected)"
proof (induction inputs)
  case (Cons i inputs)
  obtain label fpath expected where "i = (label, fpath, expected)" by (cases i)
  with Cons show ?case by (auto split: sum.splits)
qed simp

text \<open>
  Evaluating a program of a loaded image.  If it returns a value, then the three inputs on
  disk still are what was loaded, every capability the program calls is one the app declared,
  and value and host state are those of interpreting the program's own IR through a
  dispatcher for the image's ABI and declarations.
\<close>

theorem eval_l2_bounded_sound:
  assumes "load_programs from_utf8 from_json dir = Ok (li_programs img)"
    and "eval_l2_bounded read from_str callback len img program_name host max_steps = Ok (v, host')"
  shows "\<exists>loaded d d'. map_of (li_programs img) program_name = Some loaded
    \<and> read (path_join (li_root img) ''l2/host-abi.json'') = Ok (li_host_abi img)
    \<and> read (path_join (li_root img) ''l3/app.json'') = Ok (li_app_manifest img)
    \<and> read (path_join (path_join (li_root img) ''l2/programs'') program_name) = Ok (lp_source loaded)
    \<and> (\<forall>name. IrCall name \<in> set (src_ops (lp_source_ir loaded)) \<longrightarrow>
         name \<in> set (li_declared_capabilities img))
    \<and> from_host_abi_json from_str (li_host_abi img) (li_declared_capabilities img) host = Ok d
    \<and> ir_run (dispatcher_call callback len) (lp_source_ir loaded) max_steps d = (Ok v, d')
    \<and> host' = d_host d'"
proof -
  from assms(2) obtain loaded p d d' where
    loaded: "map_of (li_programs img) program_name = Some loaded" and
    verified: "verify_dispatch_inputs read img program_name loaded = Ok ()" and
    p: "assemble (lp_source_ir loaded) (Some (li_declared_capabilities img)) = Ok p" and
    d: "from_host_abi_json from_str (li_host_abi img) (li_declared_capabilities img) host = Ok d" and
    run: "vm_run (dispatcher_call callback len) (lp_program loaded) max_steps d = (Ok v, d')"
      "host' = d_host d'"
  proof -
    from assms(2) obtain loaded where
      l: "map_of (li_programs img) program_name = Some loaded"
      "verify_dispatch_inputs read img program_name loaded = Ok ()"
      by (auto simp: eval_l2_bounded_def result_iffs)
    with assms(2) obtain p where
      p: "assemble (lp_source_ir loaded) (Some (li_declared_capabilities img)) = Ok p"
      by (auto simp: eval_l2_bounded_def split: sum.splits)
    with l assms(2) that show ?thesis
      by (auto simp: eval_l2_bounded_def split: sum.splits prod.splits)
  qed
  have "assemble (lp_source_ir loaded) None = Ok (lp_program loaded)"
    using load_programs_ok [OF assms(1)] loaded by (simp add: programs_ok_def)
  from vm_run_ir_run [OF this, of "dispatcher_call callback len" max_steps d] run
  have "ir_run (dispatcher_call callback len) (lp_source_ir loaded) max_steps d = (Ok v, d')" by simp
  moreover from p obtain ps where
    "parse_ops (Some (li_declared_capabilities img)) (cap_index (src_caps (lp_source_ir loaded))) 0
       (src_ops (lp_source_ir loaded)) = Ok ps"
    by (rule assemble_OkD)
  then have "\<forall>name. IrCall name \<in> set (src_ops (lp_source_ir loaded)) \<longrightarrow>
      allow_listed (Some (li_declared_capabilities img)) name"
    using parse_ops_Ok_iff by blast
  then have "\<forall>name. IrCall name \<in> set (src_ops (lp_source_ir loaded)) \<longrightarrow>
      name \<in> set (li_declared_capabilities img)"
    by (simp add: allow_listed_def)
  ultimately show ?thesis
    using loaded d run(2) verified
    by (auto simp: verify_dispatch_inputs_def verify_inputs_Ok_iff simp del: verify_inputs.simps)
qed

section \<open>Content addresses\<close>

lemma prefixed_inject:
  assumes "to_le_bytes (of_nat (length a)) @ a @ r = to_le_bytes (of_nat (length b)) @ b @ s"
    and "length a < 2 ^ 64" and "length b < 2 ^ 64"
  shows "a = b \<and> r = s"
proof -
  from assms(1) have "to_le_bytes (of_nat (length a)) = to_le_bytes (of_nat (length b))"
    and rest: "a @ r = b @ s" by (auto simp: append_eq_append_conv)
  then have "(of_nat (length a) :: u64) = of_nat (length b)" by (metis from_le_to_le_bytes)
  then have "unat (of_nat (length a) :: u64) = unat (of_nat (length b) :: u64)" by simp
  with assms(2,3) have "length a = length b" by (simp add: unat_of_nat)
  with rest show ?thesis by simp
qed

definition file_sizes_fit :: "(u8 list \<times> u8 list) list \<Rightarrow> bool" where
  "file_sizes_fit files \<longleftrightarrow>
     length files < 2 ^ 64
     \<and> (\<forall>(fpath, bytes) \<in> set files. length fpath < 2 ^ 64 \<and> length bytes < 2 ^ 64)"

lemma image_files_stream_inject:
  "\<lbrakk> image_files_stream f = image_files_stream g; length f = length g;
     \<forall>(fpath, bytes) \<in> set f. length fpath < 2 ^ 64 \<and> length bytes < 2 ^ 64;
     \<forall>(fpath, bytes) \<in> set g. length fpath < 2 ^ 64 \<and> length bytes < 2 ^ 64 \<rbrakk> \<Longrightarrow> f = g"
proof (induction f arbitrary: g)
  case Nil
  then show ?case by simp
next
  case (Cons x f)
  obtain fpath bytes where x: "x = (fpath, bytes)" by (cases x)
  from Cons.prems(2) obtain y g' where g: "g = y # g'" by (cases g) auto
  obtain fpath' bytes' where y: "y = (fpath', bytes')" by (cases y)
  have "fpath = fpath' \<and> to_le_bytes (of_nat (length bytes)) @ bytes @ image_files_stream f
      = to_le_bytes (of_nat (length bytes')) @ bytes' @ image_files_stream g'"
    using Cons.prems by (intro prefixed_inject) (auto simp: x y g)
  moreover from this have "bytes = bytes' \<and> image_files_stream f = image_files_stream g'"
    using Cons.prems by (intro prefixed_inject) (auto simp: x y g)
  ultimately show ?case using Cons.IH [of g'] Cons.prems by (auto simp: x y g)
qed

lemma hex_byte_inj: "hex_byte a = hex_byte b \<Longrightarrow> a = b"
proof -
  assume h: "hex_byte a = hex_byte b"
  have lt: "unat x div 16 < 16" for x :: u8 using unsigned_less [of x] by (simp add: div_less_iff_less_mult)
  have "unat a div 16 = unat b div 16" "unat a mod 16 = unat b mod 16"
    using h lt by (auto simp: hex_byte_def intro: digit_char_inj)
  then have "unat a = unat b" by (metis div_mult_mod_eq)
  then show "a = b" by (simp add: word_unat_eq_iff)
qed

lemma hex_bytes_inj: "concat (map hex_byte xs) = concat (map hex_byte ys) \<Longrightarrow> xs = ys"
proof (induction xs arbitrary: ys)
  case Nil
  then show ?case by (cases ys) (auto simp: hex_byte_def)
next
  case (Cons x xs)
  then obtain y ys' where ys: "ys = y # ys'" by (cases ys) (auto simp: hex_byte_def)
  from Cons.prems have "hex_byte x = hex_byte y \<and> concat (map hex_byte xs) = concat (map hex_byte ys')"
    using append_eq_append_conv [of "hex_byte x" "hex_byte y"] by (simp add: ys hex_byte_def [of x] hex_byte_def [of y])
  with Cons.IH [of ys'] hex_byte_inj [of x y] show ?case by (simp add: ys)
qed

text \<open>
  C21. An image's content address identifies its files.  Different lists of paths and contents
  give different hashed streams, so two images share an id only if SHA-256 collides on their
  streams.
\<close>

theorem image_id_identifies_files:
  assumes "file_sizes_fit f" and "file_sizes_fit g" and "image_id_of sha256 f = image_id_of sha256 g"
  shows "f = g \<or> (image_stream f \<noteq> image_stream g \<and> sha256 (image_stream f) = sha256 (image_stream g))"
proof (cases "image_stream f = image_stream g")
  case True
  then have "to_le_bytes (of_nat (length f)) = to_le_bytes (of_nat (length g))"
    and files: "image_files_stream f = image_files_stream g"
    by (auto simp: image_stream_def append_eq_append_conv)
  then have "(of_nat (length f) :: u64) = of_nat (length g)" by (metis from_le_to_le_bytes)
  then have "unat (of_nat (length f) :: u64) = unat (of_nat (length g) :: u64)" by simp
  with assms(1,2) have "length f = length g" by (simp add: unat_of_nat file_sizes_fit_def)
  with files assms(1,2) image_files_stream_inject [of f g] show ?thesis by (simp add: file_sizes_fit_def)
next
  case False
  with assms(3) hex_bytes_inj show ?thesis by (simp add: image_id_of_def)
qed

theorem image_id_identifies_files_witness:
  "image_id_of (\<lambda>stream. stream) [([1], [2, 3])] \<noteq> image_id_of (\<lambda>stream. stream) [([1, 2], [3])]"
  using image_id_identifies_files [of "[([1], [2, 3])]" "[([1, 2], [3])]" "\<lambda>stream. stream"]
  by (auto simp: file_sizes_fit_def)

section \<open>The default adjacent-tab program\<close>

text \<open>The facts host never changes its facts: an instance of the host contract.\<close>

lemma AdjacentTabFacts_unchanged: "snd (AdjacentTabFacts_call facts capability parameters) = facts"
  by (simp add: AdjacentTabFacts_call_def)

interpretation adjacent_facts: cap_host "dispatcher_call AdjacentTabFacts_call len"
    "\<lambda>d. d_host d = facts" "\<lambda>d. 0"
  for len :: "json \<Rightarrow> string + nat" and facts :: AdjacentTabFacts
proof
  fix d :: "AdjacentTabFacts Dispatcher" and name
  assume "d_host d = facts"
  then show "d_host (snd (dispatcher_call AdjacentTabFacts_call len d name)) = facts"
    by (auto simp: dispatcher_call_snd dispatch_host AdjacentTabFacts_unchanged split: sum.splits)
qed simp

lemma adjacent_ir_run:
  assumes "call d ''tabs.active-position'' = (Ok a, d)" and "call d ''tabs.step'' = (Ok s, d)"
    and "call d ''tabs.count'' = (Ok c, d)"
  shows "ir_run call adjacent_tab_source DEFAULT_MAX_STEPS d
    = (Ok (if a + s = c then 0 else if a + s = - 1 then c - 1 else a + s), d)"
  by (simp add: ir_run_def adjacent_tab_source_def DEFAULT_MAX_STEPS_def ir_steps_numeral ir_grow_def
      MAX_STACK_def assms)

lemma facts_dispatch:
  assumes "admit_call d capability (JObj []) = Ok capability"
    and "AdjacentTabFacts_call (d_host d) capability (JObj []) = (Ok (json_of_i64 n), d_host d)"
    and "len (json_of_i64 n) = Ok k" and "k \<le> d_maximum_result_bytes d"
  shows "dispatcher_call AdjacentTabFacts_call len d capability = (Ok n, d)"
  using assms by (simp add: dispatcher_call_def dispatch_def)

lemma adjacent_word_cases:
  assumes "active < count" and "count < 2 ^ 31" and "step = (1 :: 32 word) \<or> step = - 1"
  defines "a \<equiv> of_nat active :: i64" and "s \<equiv> scast step :: i64" and "c \<equiv> of_nat count :: i64"
  shows "(if a + s = c then 0 else if a + s = - 1 then c - 1 else a + s) =
    of_nat (if step = 1 then (if Suc active = count then 0 else Suc active)
            else (if active = 0 then count - 1 else active - 1))"
proof -
  have inj: "(of_nat m :: i64) = of_nat n \<longleftrightarrow> m = n" if "m < 2 ^ 64" "n < 2 ^ 64" for m n
  proof -
    have "unat (of_nat k :: i64) = k" if "k < 2 ^ 64" for k
      using that by (simp add: unat_of_nat)
    with that show ?thesis by metis
  qed
  have top: "(- 1 :: i64) = of_nat (2 ^ 64 - 1)" by simp
  show ?thesis
  proof (cases "step = 1")
    case True
    then have "s = 1" by (simp add: s_def)
    moreover have "a + 1 = of_nat (Suc active)" by (simp add: a_def)
    moreover have "of_nat (Suc active) = c \<longleftrightarrow> Suc active = count"
      unfolding c_def using assms(1,2) by (intro inj) simp_all
    moreover have "of_nat (Suc active) \<noteq> (- 1 :: i64)"
      unfolding top using assms(1,2) by (subst inj) simp_all
    ultimately show ?thesis using True by (simp del: of_nat_Suc)
  next
    case False
    with assms(3) have step: "step = - 1" by blast
    then have s: "s = - 1" by (simp add: s_def)
    show ?thesis
    proof (cases active)
      case 0
      have "(- 1 :: i64) \<noteq> c"
        unfolding top c_def using assms(2) by (subst inj) simp_all
      moreover have "c - 1 = of_nat (count - 1)" using assms(1) by (simp add: c_def of_nat_diff)
      ultimately show ?thesis using False 0 by (simp add: s a_def)
    next
      case (Suc n)
      have "a + s = of_nat n" by (simp add: a_def s Suc)
      moreover have "of_nat n \<noteq> c" unfolding c_def using assms(1,2) Suc by (subst inj) simp_all
      moreover have "of_nat n \<noteq> (- 1 :: i64)" unfolding top using assms(1,2) Suc by (subst inj) simp_all
      ultimately show ?thesis using False Suc by simp
    qed
  qed
qed

lemma builtin_adjacent_cases:
  assumes "active < count" and "count < 2 ^ 31" and "step = (1 :: 32 word) \<or> step = - 1"
  shows "builtin_adjacent_tab_position active count step =
    Some (if step = 1 then (if Suc active = count then 0 else Suc active)
          else (if active = 0 then count - 1 else active - 1))"
proof -
  have small: "sint (word_of_int i :: 32 word) = i" if "- (2 ^ 31) \<le> i" "i < 2 ^ 31" for i
    using that by (simp add: signed_of_int signed_take_bit_int_eq_self)
  have count: "sint (word_of_int (int count) :: 32 word) = int count"
    using assms(2) by (intro small) auto
  show ?thesis
  proof (cases "step = 1")
    case True
    have "sint (word_of_int (int active) + (1 :: 32 word)) = int active + 1"
      using assms(1,2) small [of "int active + 1"] by simp
    moreover have "(int active + 1) mod int count = (if Suc active = count then 0 else int active + 1)"
      using assms(1) by (auto simp: add.commute)
    ultimately show ?thesis
      using True count assms(1)
      by (simp add: builtin_adjacent_tab_position_def Let_def nat_add_distrib)
  next
    case False
    with assms(3) have step: "step = - 1" by blast
    have "sint (word_of_int (int active) + (- 1 :: 32 word)) = int active - 1"
      using assms(1,2) small [of "int active - 1"] by simp
    moreover have "(- 1) mod int count = int count - 1"
      using assms(1) by (simp add: zmod_minus1)
    ultimately show ?thesis
      using False step count assms(1)
      by (auto simp: builtin_adjacent_tab_position_def Let_def nat_diff_distrib)
  qed
qed

text \<open>
  C19. The repository's \<open>adjacent-tab\<close> program computes the built-in next/previous rule.  With
  an image that carries the program and an ABI under which its three capabilities are callable
  without parameters, \<open>eval_adjacent_tab\<close> succeeds for every active position among fewer than
  \<open>2^31\<close> tabs and both directions, and its answer is \<open>builtin_adjacent_tab_position\<close>.  The two
  assumptions on \<open>len\<close> and the response limit say that a serialised integer fits.
\<close>

theorem adjacent_tab_program_is_builtin:
  assumes position: "active < count" "count < 2 ^ 31" and step: "step = 1 \<or> step = - 1"
    and program: "assemble adjacent_tab_source (Some (ci_declared_capabilities img))
          = Ok (ci_adjacent_tab_program img)"
    and abi: "from_host_abi_json from_str (ci_host_abi img) (ci_declared_capabilities img)
          \<lparr>facts_active_position = of_nat active, facts_count = of_nat count,
           facts_step = scast step\<rparr> = Ok d"
    and callable: "\<forall>capability \<in> set (src_caps adjacent_tab_source).
          admit_call d capability (JObj []) = Ok capability"
    and fits: "\<forall>n. \<exists>k \<le> 20. len (json_of_i64 n) = Ok k" "20 \<le> d_maximum_result_bytes d"
  shows "\<exists>position. eval_adjacent_tab from_str len img active count step = Ok position
    \<and> builtin_adjacent_tab_position active count step = Some position"
proof -
  let ?p = "if step = 1 then (if Suc active = count then 0 else Suc active)
            else (if active = 0 then count - 1 else active - 1)"
  have host: "d_host d = \<lparr>facts_active_position = of_nat active, facts_count = of_nat count,
      facts_step = scast step\<rparr>" by (rule from_host_abi_ok(2) [OF abi])
  have call: "dispatcher_call AdjacentTabFacts_call len d capability = (Ok n, d)"
    if "capability \<in> set (src_caps adjacent_tab_source)"
      "AdjacentTabFacts_call (d_host d) capability (JObj []) = (Ok (json_of_i64 n), d_host d)"
    for capability n
  proof -
    obtain k where "k \<le> 20" "len (json_of_i64 n) = Ok k" using fits(1) by blast
    with that callable fits(2) show ?thesis by (intro facts_dispatch [where k = k]) auto
  qed
  have "vm_run (dispatcher_call AdjacentTabFacts_call len) (ci_adjacent_tab_program img)
      DEFAULT_MAX_STEPS d = (Ok (of_nat ?p), d)"
    unfolding vm_run_ir_run [OF program] adjacent_word_cases [OF position step, symmetric]
    by (intro adjacent_ir_run call)
      (simp_all add: adjacent_tab_source_def AdjacentTabFacts_call_def host)
  moreover have "?p < count" using position by auto
  then have "usize_of_i64 (of_nat ?p) = Some ?p"
  proof -
    have u: "unat (of_nat ?p :: i64) = ?p"
      using \<open>?p < count\<close> position(2) by (simp add: unat_of_nat)
    moreover have "0 \<le> sint (of_nat ?p :: i64)"
      unfolding sint_u64_nonneg_iff u using \<open>?p < count\<close> position(2) by simp
    ultimately show ?thesis by (simp add: usize_of_i64_def)
  qed
  ultimately have "eval_adjacent_tab from_str len img active count step = Ok ?p"
    using abi position \<open>?p < count\<close>
    by (simp add: eval_adjacent_tab_def i64_of_usize_def)
  with builtin_adjacent_cases [OF position step] show ?thesis by blast
qed

text \<open>The fragment of the repository's host ABI that the program needs, and the length of a decimal integer.\<close>

definition adjacent_abi :: HostAbiDocument where
  "adjacent_abi = \<lparr>abi_schema = 2, abi_version = 3, abi_maximum_utf8_bytes = 8388608, abi_bounds = [],
     abi_signatures = [(''empty'', \<lparr>po_kind = ''object'', po_required = [],
        po_additional_properties = False, po_properties = []\<rparr>)],
     abi_capabilities = map (\<lambda>id. \<lparr>cc_id = id, cc_facade = None, cc_host_abi = 3, cc_signature = ''empty''\<rparr>)
       [''tabs.active-position'', ''tabs.step'', ''tabs.count'']\<rparr>"

definition decimal_len :: "json \<Rightarrow> string + nat" where
  "decimal_len v = Ok (case as_i64 v of None \<Rightarrow> 0 | Some n \<Rightarrow> length (show_int (sint n)))"

lemma decimal_len_le: "\<exists>k \<le> 20. decimal_len (json_of_i64 n) = Ok k"
proof -
  have "\<bar>sint n\<bar> \<le> 2 ^ 63"
    using sint_greater_eq [of n] sint_less [of n] by simp
  then have "nat \<bar>sint n\<bar> < 10 ^ 19" by simp
  then have "length (show_base 10 (nat \<bar>sint n\<bar>)) \<le> 19" by (intro length_show_base) simp_all
  then have "length (show_int (sint n)) \<le> 20"
    by (auto simp: show_int_def show_nat_def abs_if split: if_splits)
  then show ?thesis by (simp add: decimal_len_def)
qed

lemma adjacent_dispatcher:
  "\<exists>d. from_host_abi_json (\<lambda>_. Ok adjacent_abi) raw (src_caps adjacent_tab_source) facts = Ok d
     \<and> d_maximum_result_bytes d = 8388608
     \<and> (\<forall>capability \<in> set (src_caps adjacent_tab_source). admit_call d capability (JObj []) = Ok capability)"
  by (simp add: from_host_abi_json_def adjacent_abi_def adjacent_tab_source_def validate_document_def
      HOST_ABI_SCHEMA_def HOST_ABI_VERSION_def add_capability_def validate_name_def
      MAX_CAPABILITY_NAME_BYTES_def insert_alias_def table_insert_def validate_signatures_def
      validate_signature_def admit_call_def validate_parameters_def)

theorem adjacent_tab_program_is_builtin_witness:
  "\<exists>img. assemble adjacent_tab_source (Some (ci_declared_capabilities img)) = Ok (ci_adjacent_tab_program img)
     \<and> eval_adjacent_tab (\<lambda>_. Ok adjacent_abi) decimal_len img 0 3 (- 1) = Ok 2"
proof -
  let ?caps = "src_caps adjacent_tab_source"
  obtain p where p: "assemble adjacent_tab_source (Some ?caps) = Ok p"
    using assemble_accepts [of adjacent_tab_source "Some ?caps"]
    by (auto simp: adjacent_tab_source_def MAX_OPS_def MAX_CAPS_def allow_listed_def)
  let ?img = "\<lparr>ci_active_tab_program = p, ci_adjacent_tab_program = p, ci_host_abi = [],
    ci_declared_capabilities = ?caps\<rparr>"
  let ?facts = "\<lparr>facts_active_position = of_nat 0, facts_count = of_nat 3,
    facts_step = scast (- 1 :: 32 word)\<rparr>"
  obtain d where d: "from_host_abi_json (\<lambda>_. Ok adjacent_abi) [] ?caps ?facts = Ok d"
    "d_maximum_result_bytes d = 8388608"
    "\<forall>capability \<in> set ?caps. admit_call d capability (JObj []) = Ok capability"
    using adjacent_dispatcher [of "[]" ?facts] by (elim exE conjE) (rule that)
  have "\<exists>position. eval_adjacent_tab (\<lambda>_. Ok adjacent_abi) decimal_len ?img 0 3 (- 1) = Ok position
      \<and> builtin_adjacent_tab_position 0 3 (- 1) = Some position"
    by (rule adjacent_tab_program_is_builtin [where d = d]) (use p d decimal_len_le in simp_all)
  moreover have "builtin_adjacent_tab_position 0 3 (- 1) = Some 2"
    by (simp add: builtin_adjacent_cases)
  ultimately have "eval_adjacent_tab (\<lambda>_. Ok adjacent_abi) decimal_len ?img 0 3 (- 1) = Ok 2" by auto
  with p show ?thesis by (intro exI [of _ ?img]) simp
qed

lemma count_ir_run:
  assumes "call d ''tabs.count'' = (Ok v, d')"
  shows "ir_run call \<lparr>src_caps = [''tabs.count''], src_ops = [IrCall ''tabs.count'', IrHalt]\<rparr> 10 d = (Ok v, d')"
  by (simp add: ir_run_def ir_steps_numeral ir_grow_def MAX_STACK_def assms)

theorem eval_l2_bounded_sound_witness:
  "\<exists>img (loaded :: LoadedProgram) (d :: nat Dispatcher) d'. load_programs Ok (\<lambda>_. Ok \<lparr>src_caps = [''tabs.count''], src_ops = [IrCall ''tabs.count'', IrHalt]\<rparr>)
       (Some [\<lparr>de_is_file = True, de_name = Some ''a.json'', de_read = Ok ''x''\<rparr>]) = Ok (li_programs img)
     \<and> eval_l2_bounded (\<lambda>_. Ok ''x'') (\<lambda>_. Ok sample_abi) (\<lambda>h cap p. (Ok (json_of_i64 4), h + 1))
         (\<lambda>_. Ok 1) img ''a.json'' (0 :: nat) 10 = Ok (4, 1)
     \<and> ir_run (dispatcher_call (\<lambda>h cap p. (Ok (json_of_i64 4), h + 1)) (\<lambda>_. Ok 1))
         (lp_source_ir loaded) 10 d = (Ok 4, d')
     \<and> 1 = d_host d'"
proof -
  let ?source = "\<lparr>src_caps = [''tabs.count''], src_ops = [IrCall ''tabs.count'', IrHalt]\<rparr> :: L2Source"
  let ?cb = "\<lambda>(h :: nat) (cap :: string) (p :: json). (Ok (json_of_i64 4) :: string + json, h + 1)"
  let ?len = "(\<lambda>_. Ok 1) :: json \<Rightarrow> string + nat"
  let ?dir = "Some [\<lparr>de_is_file = True, de_name = Some ''a.json'', de_read = Ok ''x''\<rparr>]"
  obtain p where p: "assemble ?source None = Ok p"
    by (simp add: assemble_def MAX_OPS_def MAX_CAPS_def allow_listed_def cap_index_def)
  obtain q where q: "assemble ?source (Some [''tabs.count'']) = Ok q"
    by (simp add: assemble_def MAX_OPS_def MAX_CAPS_def allow_listed_def cap_index_def)
  let ?img = "\<lparr>li_root = ''r'', li_host_abi = ''x'', li_app_manifest = ''x'',
    li_declared_capabilities = [''tabs.count''],
    li_programs = [(''a.json'', \<lparr>lp_program = p, lp_source_ir = ?source, lp_source = ''x''\<rparr>)]\<rparr>"
  have load: "load_programs Ok (\<lambda>_. Ok ?source) ?dir = Ok (li_programs ?img)"
    by (simp add: load_programs_def load_program_def ends_with_def p table_insert_def)
  obtain d where d: "from_host_abi_json (\<lambda>_. Ok sample_abi) ''x'' [''tabs.count''] (0 :: nat) = Ok d"
    and admit: "admit_call d ''tabs.count'' (JObj []) = Ok ''tabs.count''"
    and host: "d_host d = 0" "d_maximum_result_bytes d = 64"
    by (simp add: from_host_abi_json_def sample_abi_def validate_document_def
        HOST_ABI_SCHEMA_def HOST_ABI_VERSION_def add_capability_def validate_name_def
        MAX_CAPABILITY_NAME_BYTES_def insert_alias_def table_insert_def validate_signatures_def
        validate_signature_def admit_call_def validate_parameters_def)
  have call: "dispatcher_call ?cb ?len d ''tabs.count'' = (Ok 4, d\<lparr>d_host := 1\<rparr>)"
    using admit host by (simp add: dispatcher_call_def dispatch_def)
  have "ir_run (dispatcher_call ?cb ?len) ?source 10 d = (Ok 4, d\<lparr>d_host := 1\<rparr>)"
    by (rule count_ir_run) (rule call)
  then have run: "eval_l2_bounded (\<lambda>_. Ok ''x'') (\<lambda>_. Ok sample_abi) ?cb ?len ?img ''a.json'' 0 10 = Ok (4, 1)"
    using d q by (simp add: eval_l2_bounded_def verify_dispatch_inputs_def vm_run_ir_run [OF p])
  obtain loaded :: LoadedProgram and d1 d2 where res: "ir_run (dispatcher_call ?cb ?len) (lp_source_ir loaded) 10 d1 = (Ok 4, d2)"
    "1 = d_host d2"
    using eval_l2_bounded_sound [OF load run] by blast
  show ?thesis
    by (rule exI [of _ ?img], rule exI [of _ loaded], rule exI [of _ d1], rule exI [of _ d2])
      (intro conjI load run res)
qed

end
