(* ===== verification/Tab_Tree.thy ===== *)
theory Tab_Tree
  imports Event_Journal
begin

text \<open>
  The tree of tabs (\<open>src/tab_tree.rs\<close>) and the re-parenting operation that keeps it a forest
  (\<open>set_tab_parent_on_host\<close> of \<open>src/control_dispatch.rs\<close>).  The preorder rows are produced by
  the source's recursive \<open>visit\<close>; its depth is bounded by the number of tabs, because every
  level marks one more of them as visited, so the fuel \<open>length nodes + 1\<close> is never used up
  (\<open>visit_fuel\<close>).  Tabs may be orphaned or form cycles: the rows still show every tab once.
\<close>

section \<open>Rows\<close>

record TabTreeNode =
  tn_id :: u64
  tn_parent_id :: "u64 option"
  tn_sort_key :: u32

record TabTreeRow =
  tr_id :: u64
  tr_depth :: nat
  tr_is_last :: bool
  tr_ancestors :: "u64 list"
  tr_guides :: "bool list"

type_synonym visit_state = "u64 set \<times> TabTreeRow list"

definition children_of :: "TabTreeNode list \<Rightarrow> u64 \<Rightarrow> TabTreeNode list" where
  "children_of nodes i = sort_key tn_sort_key (filter (\<lambda>node. tn_parent_id node = Some i) nodes)"

fun visit ::
  "nat \<Rightarrow> TabTreeNode list \<Rightarrow> u64 \<Rightarrow> bool \<Rightarrow> u64 list \<Rightarrow> bool list \<Rightarrow> visit_state \<Rightarrow> visit_state" where
  "visit 0 nodes i is_last ancestors guides st = st"
| "visit (Suc fuel) nodes i is_last ancestors guides st =
     (case st of (visited, rows) \<Rightarrow>
      if i \<in> visited then (visited, rows)
      else
        let depth = length ancestors;
            row = \<lparr>tr_id = i, tr_depth = depth, tr_is_last = is_last, tr_ancestors = ancestors,
                   tr_guides = guides\<rparr>;
            children = children_of nodes i;
            child_ancestors = ancestors @ [i];
            child_guides = (if 0 < depth then guides @ [\<not> is_last] else guides)
        in fold (\<lambda>(position, child).
                   visit fuel nodes (tn_id child) (position + 1 = length children) child_ancestors child_guides)
             (enumerate 0 children) (insert i visited, rows @ [row]))"

definition tree_roots :: "TabTreeNode list \<Rightarrow> TabTreeNode list" where
  "tree_roots nodes = sort_key tn_sort_key
     (filter (\<lambda>node. case tn_parent_id node of
                None \<Rightarrow> True
              | Some parent_id \<Rightarrow> parent_id \<notin> set (map tn_id nodes) \<or> parent_id = tn_id node) nodes)"

definition tree_rows_fuel :: "nat \<Rightarrow> TabTreeNode list \<Rightarrow> TabTreeRow list" where
  "tree_rows_fuel fuel nodes =
     (let roots = tree_roots nodes;
          st = fold (\<lambda>(position, root).
                 visit fuel nodes (tn_id root) (position + 1 = length roots) [] []) (enumerate 0 roots) ({}, []);
          remaining = sort_key tn_sort_key (filter (\<lambda>node. tn_id node \<notin> fst st) nodes)
      in snd (fold (\<lambda>node. visit fuel nodes (tn_id node) True [] []) remaining st))"

definition tree_rows :: "TabTreeNode list \<Rightarrow> TabTreeRow list" where
  "tree_rows nodes = tree_rows_fuel (length nodes + 1) nodes"

definition visible_tree_rows :: "TabTreeRow list \<Rightarrow> u64 set \<Rightarrow> TabTreeRow list" where
  "visible_tree_rows all_rows collapsed_ids =
     filter (\<lambda>row. \<not> (\<exists>i \<in> set (tr_ancestors row). i \<in> collapsed_ids)) all_rows"

section \<open>Cycles\<close>

definition parent_of :: "TabTreeNode list \<Rightarrow> u64 \<Rightarrow> u64 option" where
  "parent_of nodes i = Option.bind (find (\<lambda>node. tn_id node = i) nodes) tn_parent_id"

text \<open>The loop of \<open>would_create_cycle\<close>; running out of iterations answers true.\<close>

fun climb :: "nat \<Rightarrow> TabTreeNode list \<Rightarrow> u64 \<Rightarrow> u64 option \<Rightarrow> bool" where
  "climb 0 nodes child_id current = True"
| "climb (Suc n) nodes child_id current =
     (case current of
        None \<Rightarrow> False
      | Some i \<Rightarrow> if i = child_id then True else climb n nodes child_id (parent_of nodes i))"

definition would_create_cycle :: "TabTreeNode list \<Rightarrow> u64 \<Rightarrow> u64 \<Rightarrow> bool" where
  "would_create_cycle nodes child_id parent_id =
     (if child_id = parent_id then True else climb (length nodes + 1) nodes child_id (Some parent_id))"

section \<open>Moving a tab\<close>

text \<open>
  The host's tabs are seen through their tree nodes.  \<open>None\<close> is the journal's panic on an
  exhausted sequence; the assignment happens before the commit.
\<close>

definition set_tab_parent_on_host ::
  "TabTreeNode list \<Rightarrow> EventJournal \<Rightarrow> u64 \<Rightarrow> u64 option
   \<Rightarrow> ((string + unit) \<times> TabTreeNode list \<times> EventJournal) option" where
  "set_tab_parent_on_host tabs journal child_id parent_id =
     (case position (\<lambda>tab. tn_id tab = child_id) tabs of
        None \<Rightarrow> Some (Err (''can't find child tab: @'' @ show_nat (unat child_id)), tabs, journal)
      | Some child_position \<Rightarrow>
          let refused =
            (case parent_id of
               None \<Rightarrow> None
             | Some p \<Rightarrow>
                 if \<not> list_ex (\<lambda>tab. tn_id tab = p) tabs then Some (''can't find parent tab: @'' @ show_nat (unat p))
                 else if would_create_cycle tabs child_id p then Some (''moving @'' @ show_nat (unat child_id) @ '' under @'' @ show_nat (unat p)
                        @ '' would create a cycle'')
                 else None)
          in (case refused of
                Some e \<Rightarrow> Some (Err e, tabs, journal)
              | None \<Rightarrow>
                  let child = tabs ! child_position;
                      tabs' = tabs[child_position := child\<lparr>tn_parent_id := parent_id\<rparr>]
                  in (case journal_commit journal TabParent (Some child_id)
                            (JObj [(''previous_parent_id'', json_of_option json_of_u64 (tn_parent_id child)),
                                   (''parent_id'', json_of_option json_of_u64 parent_id)]) of
                        None \<Rightarrow> None
                      | Some (_, journal') \<Rightarrow> Some (Ok (), tabs', journal'))))"

section \<open>Every tab is visited exactly once\<close>

abbreviation node_ids :: "TabTreeNode list \<Rightarrow> u64 set" where
  "node_ids nodes \<equiv> set (map tn_id nodes)"

text \<open>
  A row at position \<open>k\<close> is placed under its parent: its last ancestor is its node's parent and
  has an earlier row with the remaining ancestors.
\<close>

definition row_placed :: "TabTreeNode list \<Rightarrow> TabTreeRow list \<Rightarrow> nat \<Rightarrow> bool" where
  "row_placed nodes rows k \<longleftrightarrow>
     (let r = rows ! k in
      tr_depth r = length (tr_ancestors r) \<and> length (tr_guides r) = tr_depth r - 1
      \<and> (tr_ancestors r \<noteq> [] \<longrightarrow>
          (\<exists>node \<in> set nodes. tn_id node = tr_id r \<and> tn_parent_id node = Some (last (tr_ancestors r)))
          \<and> (\<exists>j < k. tr_id (rows ! j) = last (tr_ancestors r)
                   \<and> tr_ancestors (rows ! j) = butlast (tr_ancestors r))))"

definition tree_ok :: "TabTreeNode list \<Rightarrow> visit_state \<Rightarrow> bool" where
  "tree_ok nodes st \<longleftrightarrow>
     distinct (map tr_id (snd st)) \<and> set (map tr_id (snd st)) = fst st \<and> fst st \<subseteq> node_ids nodes
     \<and> (\<forall>k < length (snd st). row_placed nodes (snd st) k)"

definition placed_under ::
  "TabTreeNode list \<Rightarrow> u64 \<Rightarrow> u64 list \<Rightarrow> bool list \<Rightarrow> visit_state \<Rightarrow> bool" where
  "placed_under nodes i ancestors guides st \<longleftrightarrow>
     i \<in> node_ids nodes \<and> length guides = length ancestors - 1
     \<and> (ancestors \<noteq> [] \<longrightarrow>
         (\<exists>node \<in> set nodes. tn_id node = i \<and> tn_parent_id node = Some (last ancestors))
         \<and> (\<exists>r \<in> set (snd st). tr_id r = last ancestors \<and> tr_ancestors r = butlast ancestors))"

definition extends :: "visit_state \<Rightarrow> visit_state \<Rightarrow> bool" where
  "extends st st' \<longleftrightarrow> fst st \<subseteq> fst st' \<and> (\<exists>rest. snd st' = snd st @ rest)"

lemma extends_refl [simp]: "extends st st"
  by (simp add: extends_def)

lemma extends_trans: "extends a b \<Longrightarrow> extends b c \<Longrightarrow> extends a c"
  by (auto simp: extends_def)

lemma placed_under_extends: "placed_under nodes i ancestors guides st \<Longrightarrow> extends st st' \<Longrightarrow>
    placed_under nodes i ancestors guides st'"
  by (fastforce simp: placed_under_def extends_def)

lemma row_placed_append: "k < length rows \<Longrightarrow> row_placed nodes (rows @ rest) k = row_placed nodes rows k"
proof -
  assume k: "k < length rows"
  then have "(\<exists>j < k. P ((rows @ rest) ! j)) \<longleftrightarrow> (\<exists>j < k. P (rows ! j))" for P
    by (metis nth_append order_less_trans)
  from this [of "\<lambda>r. tr_id r = a \<and> tr_ancestors r = b" for a b] k show ?thesis
    by (simp add: row_placed_def Let_def nth_append)
qed

lemma children_of_mem: "child \<in> set (children_of nodes i) \<longleftrightarrow> child \<in> set nodes \<and> tn_parent_id child = Some i"
  by (auto simp: children_of_def)

lemma enumerate_snd_mem: "x \<in> set (enumerate n xs) \<Longrightarrow> snd x \<in> set xs"
  by (cases x) (auto simp: enumerate_eq_zip dest: set_zip_rightD)

lemma tree_ok_visit_row:
  assumes ok: "tree_ok nodes (visited, rows)" and place: "placed_under nodes i ancestors guides (visited, rows)"
    and new: "i \<notin> visited"
    and row: "row = \<lparr>tr_id = i, tr_depth = length ancestors, tr_is_last = l, tr_ancestors = ancestors,
    tr_guides = guides\<rparr>"
  shows "tree_ok nodes (insert i visited, rows @ [row])"
proof -
  have "row_placed nodes (rows @ [row]) (length rows)"
    using place unfolding row_placed_def placed_under_def
    by (auto simp: row Let_def in_set_conv_nth) (metis nth_append)
  then have "row_placed nodes (rows @ [row]) k" if "k < Suc (length rows)" for k
    using ok that by (cases "k = length rows") (auto simp: tree_ok_def row_placed_append)
  moreover have "i \<notin> set (map tr_id rows)" using ok new by (simp add: tree_ok_def)
  ultimately show ?thesis using ok place by (auto simp: tree_ok_def placed_under_def row)
qed

lemma visit_ok:
  "\<lbrakk> tree_ok nodes st; placed_under nodes i ancestors guides st \<rbrakk> \<Longrightarrow>
   tree_ok nodes (visit fuel nodes i l ancestors guides st)
   \<and> extends st (visit fuel nodes i l ancestors guides st)
   \<and> (0 < fuel \<longrightarrow> i \<in> fst (visit fuel nodes i l ancestors guides st))"
proof (induction fuel arbitrary: i l ancestors guides st)
  case 0
  then show ?case by simp
next
  case (Suc fuel)
  obtain visited rows where st: "st = (visited, rows)" by (cases st)
  show ?case
  proof (cases "i \<in> visited")
    case True
    with Suc.prems st show ?thesis by simp
  next
    case False
    let ?row = "\<lparr>tr_id = i, tr_depth = length ancestors, tr_is_last = l, tr_ancestors = ancestors,
      tr_guides = guides\<rparr>"
    let ?st1 = "(insert i visited, rows @ [?row])"
    let ?guides = "if 0 < length ancestors then guides @ [\<not> l] else guides"
    let ?children = "children_of nodes i"
    let ?f = "\<lambda>(position, child). visit fuel nodes (tn_id child) (position + 1 = length ?children)
      (ancestors @ [i]) ?guides"
    have ok1: "tree_ok nodes ?st1"
      using tree_ok_visit_row [of nodes visited rows i ancestors guides ?row l] Suc.prems False st by simp
    have child: "placed_under nodes (tn_id c) (ancestors @ [i]) ?guides ?st1" if "c \<in> set ?children" for c
      using that Suc.prems(2) by (auto simp: placed_under_def children_of_mem st)
    have "tree_ok nodes (fold ?f (enumerate 0 ?children) ?st1)
        \<and> extends ?st1 (fold ?f (enumerate 0 ?children) ?st1)"
    proof (rule fold_invariant [where Q = "\<lambda>x. snd x \<in> set ?children"
          and P = "\<lambda>s. tree_ok nodes s \<and> extends ?st1 s"])
      show "snd x \<in> set ?children" if "x \<in> set (enumerate 0 ?children)" for x
        using that enumerate_snd_mem by blast
      show "tree_ok nodes ?st1 \<and> extends ?st1 ?st1" using ok1 by simp
      show "tree_ok nodes (?f x s) \<and> extends ?st1 (?f x s)"
        if q: "snd x \<in> set ?children" and p: "tree_ok nodes s \<and> extends ?st1 s" for x s
      proof -
        from q p have "placed_under nodes (tn_id (snd x)) (ancestors @ [i]) ?guides s"
          by (blast intro: placed_under_extends child)
        from Suc.IH [OF _ this] p have "tree_ok nodes (?f x s) \<and> extends s (?f x s)"
          by (simp only: split_beta)
        with p show ?thesis by (blast intro: extends_trans)
      qed
    qed
    moreover have "visit (Suc fuel) nodes i l ancestors guides st = fold ?f (enumerate 0 ?children) ?st1"
      using False by (simp add: st Let_def)
    ultimately show ?thesis by (auto simp: extends_def st)
  qed
qed

lemma visit_mono: "fst st \<subseteq> fst (visit fuel nodes i l ancestors guides st)"
proof (induction fuel arbitrary: i l ancestors guides st)
  case (Suc fuel)
  obtain visited rows where st: "st = (visited, rows)" by (cases st)
  have "fst (insert i visited, rows @ [r]) \<subseteq> fst (fold (\<lambda>(position, child).
      visit fuel nodes (tn_id child) (q position) a g) xs (insert i visited, rows @ [r]))" for r q a g xs
    by (rule fold_mono) (simp add: split_beta Suc)
  then show ?case by (fastforce simp: st Let_def)
qed simp

lemma visit_covers: "i \<in> fst (visit (Suc fuel) nodes i l ancestors guides st)"
proof -
  obtain visited rows where st: "st = (visited, rows)" by (cases st)
  have "fst (insert i visited, rows @ [r]) \<subseteq> fst (fold (\<lambda>(position, child).
      visit fuel nodes (tn_id child) (q position) a g) xs (insert i visited, rows @ [r]))" for r q a g xs
    by (rule fold_mono) (simp add: split_beta visit_mono)
  then show ?thesis by (fastforce simp: st Let_def)
qed

text \<open>The states after the roots and after the remaining nodes, as \<open>tree_rows\<close> computes them.\<close>

definition visit_roots :: "nat \<Rightarrow> TabTreeNode list \<Rightarrow> visit_state" where
  "visit_roots fuel nodes =
     fold (\<lambda>(position, root). visit fuel nodes (tn_id root) (position + 1 = length (tree_roots nodes)) [] [])
       (enumerate 0 (tree_roots nodes)) ({}, [])"

definition visit_all :: "nat \<Rightarrow> TabTreeNode list \<Rightarrow> visit_state" where
  "visit_all fuel nodes =
     fold (\<lambda>node. visit fuel nodes (tn_id node) True [] [])
       (sort_key tn_sort_key (filter (\<lambda>node. tn_id node \<notin> fst (visit_roots fuel nodes)) nodes))
       (visit_roots fuel nodes)"

lemma tree_rows_fuel_visit_all: "tree_rows_fuel fuel nodes = snd (visit_all fuel nodes)"
  by (simp add: tree_rows_fuel_def visit_all_def visit_roots_def Let_def)

lemma placed_under_root: "placed_under nodes i [] [] st \<longleftrightarrow> i \<in> node_ids nodes"
  by (simp add: placed_under_def)

lemma tree_roots_subset: "set (tree_roots nodes) \<subseteq> set nodes"
  by (auto simp: tree_roots_def)

lemma visit_root_ok: "tree_ok nodes st \<Longrightarrow> node \<in> set nodes \<Longrightarrow> tree_ok nodes (visit fuel nodes (tn_id node) l [] [] st)"
  by (simp add: visit_ok placed_under_root)

lemma visit_all_ok: "tree_ok nodes (visit_all fuel nodes)"
proof -
  have "tree_ok nodes (visit_roots fuel nodes)"
    unfolding visit_roots_def
  proof (rule fold_invariant [where Q = "\<lambda>x. snd x \<in> set nodes"])
    show "snd x \<in> set nodes" if "x \<in> set (enumerate 0 (tree_roots nodes))" for x
      using enumerate_snd_mem [OF that] tree_roots_subset by blast
    show "tree_ok nodes ({}, [])" by (simp add: tree_ok_def)
  qed (auto simp: split_beta visit_root_ok)
  then show ?thesis
    unfolding visit_all_def by (rule fold_invariant [where Q = "\<lambda>x. x \<in> set nodes", rotated]) (auto simp: visit_root_ok)
qed

lemma visit_all_covers: "fst (visit_all (Suc fuel) nodes) = node_ids nodes"
proof
  show "fst (visit_all (Suc fuel) nodes) \<subseteq> node_ids nodes" using visit_all_ok [of nodes "Suc fuel"] by (simp add: tree_ok_def)
next
  let ?st = "visit_roots (Suc fuel) nodes"
  let ?rest = "sort_key tn_sort_key (filter (\<lambda>node. tn_id node \<notin> fst ?st) nodes)"
  have "tn_id ` set ?rest \<subseteq> fst (visit_all (Suc fuel) nodes)"
    unfolding visit_all_def by (rule fold_covers) (simp_all only: visit_covers visit_mono)
  moreover have "fst ?st \<subseteq> fst (visit_all (Suc fuel) nodes)"
    unfolding visit_all_def by (rule fold_mono) (rule visit_mono)
  ultimately show "node_ids nodes \<subseteq> fst (visit_all (Suc fuel) nodes)" by auto
qed

text \<open>
  Whatever the parents of the tabs are -- missing, cyclic or their own parent -- the tree view
  has exactly one row for every tab.
\<close>

theorem tree_rows_show_every_tab_once:
  "distinct (map tr_id (tree_rows nodes)) \<and> set (map tr_id (tree_rows nodes)) = set (map tn_id nodes)"
  using visit_all_ok [of nodes "Suc (length nodes)"] visit_all_covers [of "length nodes" nodes]
  by (simp add: tree_rows_def tree_rows_fuel_visit_all tree_ok_def del: set_map)

text \<open>
  Every row of the tree view is placed under its parent: the depth is the number of
  ancestors, there is one guide per level between the root and the row, and a row with ancestors
  has as its last ancestor the parent of a node of that id, shown earlier with the remaining
  ancestors.
\<close>

theorem tree_rows_placed:
  "k < length (tree_rows nodes) \<Longrightarrow> row_placed nodes (tree_rows nodes) k"
  using visit_all_ok [of nodes "Suc (length nodes)"]
  by (simp add: tree_rows_def tree_rows_fuel_visit_all tree_ok_def)

definition sample_tabs :: "TabTreeNode list" where
  "sample_tabs =
     [\<lparr>tn_id = 1, tn_parent_id = None, tn_sort_key = 0\<rparr>, \<lparr>tn_id = 2, tn_parent_id = Some 1, tn_sort_key = 1\<rparr>]"

lemma tree_rows_placed_witness:
  "1 < length (tree_rows sample_tabs) \<and> row_placed sample_tabs (tree_rows sample_tabs) 1"
proof -
  have "1 < length (tree_rows sample_tabs)" by code_simp
  with tree_rows_placed [of 1 sample_tabs] show ?thesis by blast
qed

section \<open>The fuel is enough\<close>

abbreviation unvisited :: "TabTreeNode list \<Rightarrow> visit_state \<Rightarrow> nat" where
  "unvisited nodes st \<equiv> card (node_ids nodes - fst st)"

lemma unvisited_visit: "unvisited nodes (visit fuel nodes i l ancestors guides st) \<le> unvisited nodes st"
  using visit_mono [of st fuel nodes i l ancestors guides] by (intro card_mono) auto

lemma visit_fuel:
  "\<lbrakk> unvisited nodes st < fuel; unvisited nodes st < fuel'; i \<in> node_ids nodes \<rbrakk> \<Longrightarrow>
   visit fuel nodes i l ancestors guides st = visit fuel' nodes i l ancestors guides st"
proof (induction fuel arbitrary: fuel' i l ancestors guides st)
  case (Suc fuel)
  obtain visited rows where st: "st = (visited, rows)" by (cases st)
  obtain f' where f': "fuel' = Suc f'" using Suc.prems(2) by (cases fuel') auto
  show ?case
  proof (cases "i \<in> visited")
    case False
    have "node_ids nodes - insert i visited \<subset> node_ids nodes - visited" using False Suc.prems(3) by auto
    then have less: "card (node_ids nodes - insert i visited) < card (node_ids nodes - visited)"
      by (intro psubset_card_mono) simp_all
    let ?I = "\<lambda>s. unvisited nodes s < fuel \<and> unvisited nodes s < f'"
    have "fold (\<lambda>(position, child). visit fuel nodes (tn_id child) (q position) a g)
            (enumerate 0 (children_of nodes i)) (insert i visited, r)
        = fold (\<lambda>(position, child). visit f' nodes (tn_id child) (q position) a g)
            (enumerate 0 (children_of nodes i)) (insert i visited, r)" for q a g r
    proof (rule fold_eq_invariant [where I = ?I], goal_cases)
      case 1
      then show ?case using less Suc.prems(1,2) by (simp add: st f')
    next
      case 2
      then show ?case
      proof (intro ballI allI impI)
        fix x s assume x: "x \<in> set (enumerate 0 (children_of nodes i))" and s: "?I s"
        have "tn_id (snd x) \<in> node_ids nodes" using enumerate_snd_mem [OF x] by (auto simp: children_of_mem)
        then have "visit fuel nodes (tn_id (snd x)) l' a g s = visit f' nodes (tn_id (snd x)) l' a g s" for l'
          using Suc.IH s by blast
        moreover have "?I (visit fuel nodes (tn_id (snd x)) l' a g s)" for l'
          using unvisited_visit [of nodes fuel "tn_id (snd x)" l' a g s] s by linarith
        ultimately show "(case x of (k, child) \<Rightarrow> visit fuel nodes (tn_id child) (q k) a g) s
            = (case x of (k, child) \<Rightarrow> visit f' nodes (tn_id child) (q k) a g) s
          \<and> ?I ((case x of (k, child) \<Rightarrow> visit fuel nodes (tn_id child) (q k) a g) s)"
          by (simp only: split_beta)
      qed
    qed
    with False show ?thesis by (simp add: st f' Let_def)
  qed (simp add: st f')
qed simp

lemma unvisited_le: "unvisited nodes st < Suc (length nodes)"
proof -
  have "unvisited nodes st \<le> card (node_ids nodes)" by (intro card_mono) auto
  also have "\<dots> \<le> length (map tn_id nodes)" by (rule card_length)
  finally show ?thesis by simp
qed

lemma visit_enough_fuel:
  "\<lbrakk> length nodes < fuel; node \<in> set nodes \<rbrakk> \<Longrightarrow>
   visit fuel nodes (tn_id node) l a g st = visit (Suc (length nodes)) nodes (tn_id node) l a g st"
  using unvisited_le [of nodes st] by (intro visit_fuel) auto

text \<open>
  C26. The recursion of \<open>visit\<close> ends within one level per tab: every amount of fuel above the
  number of tabs gives the same rows, whatever cycles the parents form.
\<close>

theorem tree_rows_terminates:
  assumes fuel: "length nodes < fuel"
  shows "tree_rows_fuel fuel nodes = tree_rows nodes"
proof -
  have roots: "visit_roots fuel nodes = visit_roots (Suc (length nodes)) nodes"
    unfolding visit_roots_def
  proof (rule fold_cong, goal_cases)
    case (3 x)
    from enumerate_snd_mem [OF this] have "snd x \<in> set nodes" using tree_roots_subset by blast
    with fuel show ?case by (simp add: split_beta visit_enough_fuel fun_eq_iff)
  qed simp_all
  have "visit_all fuel nodes = visit_all (Suc (length nodes)) nodes"
    unfolding visit_all_def roots by (rule fold_cong) (auto simp: fun_eq_iff visit_enough_fuel [OF fuel])
  then show ?thesis by (simp add: tree_rows_def tree_rows_fuel_visit_all)
qed

lemma tree_rows_terminates_witness:
  "length sample_tabs < 9 \<and> tree_rows_fuel 9 sample_tabs = tree_rows sample_tabs"
  using tree_rows_terminates [of sample_tabs 9] by (simp add: sample_tabs_def)

section \<open>Parent chains\<close>

fun chain :: "TabTreeNode list \<Rightarrow> nat \<Rightarrow> u64 option \<Rightarrow> u64 option" where
  "chain nodes 0 c = c"
| "chain nodes (Suc n) c = chain nodes n (Option.bind c (parent_of nodes))"

text \<open>The tabs form a forest when every chain of parents ends.\<close>

definition forest :: "TabTreeNode list \<Rightarrow> bool" where
  "forest nodes \<longleftrightarrow> (\<forall>i. \<exists>n. chain nodes n (Some i) = None)"

lemma chain_None [simp]: "chain nodes n None = None"
  by (induction n) simp_all

lemma chain_Suc: "chain nodes (Suc n) c = Option.bind (chain nodes n c) (parent_of nodes)"
  by (induction n arbitrary: c) (simp_all del: Option.bind_assoc)

lemma chain_add: "chain nodes (m + n) c = chain nodes n (chain nodes m c)"
  by (induction m arbitrary: c) simp_all

lemma chain_None_mono: "chain nodes m c = None \<Longrightarrow> m \<le> n \<Longrightarrow> chain nodes n c = None"
  by (metis chain_None chain_add le_iff_add)

lemma climb_iff:
  "climb n nodes child_id c \<longleftrightarrow>
     (\<exists>i < n. chain nodes i c = Some child_id) \<or> (\<forall>i < n. chain nodes i c \<noteq> None)"
proof (induction n arbitrary: c)
  case (Suc n)
  show ?case
  proof (cases c)
    case (Some i)
    then show ?thesis by (simp add: Suc All_less_Suc2 Ex_less_Suc2)
  qed (auto intro!: exI [of _ 0])
qed simp

lemma parent_of_SomeD: "parent_of nodes i = Some p \<Longrightarrow> i \<in> node_ids nodes"
  by (auto simp: parent_of_def bind_eq_Some_conv find_Some_iff)

text \<open>A chain of at least as many tabs as there are either repeats, and then never ends, or holds all of them.\<close>

lemma long_chain:
  assumes long: "\<forall>i \<le> length nodes. chain nodes i c \<noteq> None"
  shows "node_ids nodes \<subseteq> {i. \<exists>k. chain nodes k c = Some i} \<or> (\<forall>k. chain nodes k c \<noteq> None)"
proof (cases "inj_on (\<lambda>k. chain nodes k c) {..< length nodes}")
  case True
  let ?ids = "(\<lambda>k. chain nodes k c) ` {..< length nodes}"
  have "?ids \<subseteq> Some ` node_ids nodes"
  proof
    fix x assume "x \<in> ?ids"
    then obtain k where k: "k < length nodes" and x: "x = chain nodes k c" by auto
    from long k have "chain nodes (Suc k) c \<noteq> None" by (metis Suc_leI)
    then show "x \<in> Some ` node_ids nodes"
      unfolding chain_Suc x by (cases "chain nodes k c") (auto dest: parent_of_SomeD)
  qed
  moreover have "card (Some ` node_ids nodes) \<le> card ?ids"
    using card_image [OF True] card_length [of "map tn_id nodes"] by (simp add: card_image del: set_map)
  ultimately have ids: "?ids = Some ` node_ids nodes" by (intro card_seteq) auto
  have "\<exists>k. chain nodes k c = Some i" if "i \<in> node_ids nodes" for i
  proof -
    have "Some i \<in> ?ids" unfolding ids using that by (rule imageI)
    then show ?thesis by (auto simp del: chain.simps)
  qed
  then show ?thesis by blast
next
  case False
  then obtain a b where ab: "chain nodes a c = chain nodes b c" "a < b" "b < length nodes"
    unfolding inj_on_def by (metis lessThan_iff linorder_neqE_nat)
  define d where "d = b - a"
  have loop: "chain nodes (a + d) c = chain nodes a c" "0 < d" using ab by (simp_all add: d_def)
  have again: "chain nodes (a + n * d) c = chain nodes a c" for n
  proof (induction n)
    case (Suc n)
    have "chain nodes (a + Suc n * d) c = chain nodes ((a + n * d) + d) c" by (simp add: algebra_simps)
    also have "\<dots> = chain nodes d (chain nodes a c)" unfolding chain_add [of nodes "a + n * d"] Suc ..
    also have "\<dots> = chain nodes a c" unfolding chain_add [symmetric] by (rule loop(1))
    finally show ?case .
  qed simp
  have "chain nodes k c \<noteq> None" for k
  proof
    assume "chain nodes k c = None"
    moreover have "k \<le> k * d" using loop(2) by (cases d) simp_all
    then have "k \<le> a + k * d" by (rule trans_le_add2)
    ultimately have "chain nodes (a + k * d) c = None" by (rule chain_None_mono)
    then have "chain nodes a c = None" by (simp only: again)
    moreover have "a \<le> length nodes" using ab by simp
    ultimately show False using long by blast
  qed
  then show ?thesis by blast
qed

lemma would_create_cycle_iff:
  assumes child: "child_id \<in> set (map tn_id nodes)"
  shows "would_create_cycle nodes child_id parent_id \<longleftrightarrow>
     (\<exists>k. chain nodes k (Some parent_id) = Some child_id) \<or> (\<forall>k. chain nodes k (Some parent_id) \<noteq> None)"
    (is "_ \<longleftrightarrow> ?hit \<or> ?endless")
proof (cases "child_id = parent_id")
  case True
  then show ?thesis by (auto simp: would_create_cycle_def intro: exI [of _ 0])
next
  case False
  have "climb (Suc (length nodes)) nodes child_id (Some parent_id) \<longleftrightarrow> ?hit \<or> ?endless"
  proof
    assume "climb (Suc (length nodes)) nodes child_id (Some parent_id)"
    then show "?hit \<or> ?endless"
      unfolding climb_iff less_Suc_eq_le using long_chain [of nodes "Some parent_id"] child by blast
  next
    assume "?hit \<or> ?endless"
    then show "climb (Suc (length nodes)) nodes child_id (Some parent_id)"
      unfolding climb_iff by (metis chain_None_mono not_less option.distinct(1) order_less_imp_le)
  qed
  with False show ?thesis by (simp add: would_create_cycle_def)
qed

text \<open>
  The cycle check is exact: moving a tab of the list under \<open>parent_id\<close> is refused if and only
  if the tab is its new parent or one of the new parent's ancestors, or the chain of ancestors of
  the new parent never ends.
\<close>

theorem would_create_cycle_exact:
  assumes "child_id \<in> set (map tn_id nodes)"
  shows "would_create_cycle nodes child_id parent_id \<longleftrightarrow>
     (\<exists>k. chain nodes k (Some parent_id) = Some child_id) \<or> (\<forall>k. chain nodes k (Some parent_id) \<noteq> None)"
  using assms by (rule would_create_cycle_iff)

lemma would_create_cycle_exact_witness:
  "(2 :: u64) \<in> set (map tn_id sample_tabs) \<and> \<not> would_create_cycle sample_tabs 2 1
   \<and> (\<nexists>k. chain sample_tabs k (Some 1) = Some 2)"
proof -
  have "2 \<in> set (map tn_id sample_tabs)" "\<not> would_create_cycle sample_tabs 2 1" by code_simp+
  with would_create_cycle_exact [of 2 sample_tabs 1] show ?thesis by blast
qed

section \<open>Moving a tab keeps the forest\<close>

lemma find_update_first:
  "position (\<lambda>x. f x = a) xs = Some k \<Longrightarrow> f y = a \<Longrightarrow>
   find (\<lambda>x. f x = b) (xs[k := y]) = (if b = a then Some y else find (\<lambda>x. f x = b) xs)"
  by (induction xs arbitrary: k) (auto split: if_splits nat.splits)

lemma parent_of_update:
  assumes "position (\<lambda>tab. tn_id tab = child_id) tabs = Some k"
  shows "parent_of (tabs[k := (tabs ! k)\<lparr>tn_parent_id := p\<rparr>]) i = (if i = child_id then p else parent_of tabs i)"
proof -
  have "tn_id ((tabs ! k)\<lparr>tn_parent_id := p\<rparr>) = child_id" using position_SomeD [OF assms] by simp
  from find_update_first [OF assms this] show ?thesis by (simp add: parent_of_def)
qed

lemma chain_update_avoids:
  assumes "\<And>i. i \<noteq> child_id \<Longrightarrow> parent_of tabs' i = parent_of tabs i"
    and "\<forall>k. chain tabs k c \<noteq> Some child_id"
  shows "chain tabs' n c = chain tabs n c"
proof (induction n)
  case (Suc n)
  have "chain tabs n c \<noteq> Some child_id" using assms(2) by blast
  with Suc assms(1) show ?case
    unfolding chain_Suc by (cases "chain tabs n c") auto
qed simp

lemma forest_update:
  assumes f: "forest tabs" and k: "position (\<lambda>tab. tn_id tab = child_id) tabs = Some k"
    and p: "\<And>q. p = Some q \<Longrightarrow> \<not> would_create_cycle tabs child_id q"
  shows "forest (tabs[k := (tabs ! k)\<lparr>tn_parent_id := p\<rparr>])" (is "forest ?tabs'")
proof -
  note parent = parent_of_update [OF k, of p]
  have child: "child_id \<in> node_ids tabs" using position_SomeD [OF k] by auto
  have ends_p: "\<exists>m. chain ?tabs' m p = None"
  proof (cases p)
    case (Some q)
    with p would_create_cycle_iff [OF child, of q]
    have "\<forall>k. chain tabs k p \<noteq> Some child_id" "\<exists>k. chain tabs k p = None" by auto
    then show ?thesis using chain_update_avoids [of child_id ?tabs' tabs p] parent by auto
  qed (simp add: exI [of _ 0])
  have "\<exists>m. chain ?tabs' m c = None" if "chain tabs n c = None" for n c
    using that
  proof (induction n arbitrary: c)
    case (Suc n)
    show ?case
    proof (cases c)
      case (Some i)
      have "\<exists>m. chain ?tabs' m (parent_of ?tabs' i) = None"
        using ends_p Suc.IH [of "parent_of tabs i"] Suc.prems Some by (cases "i = child_id") (simp_all add: parent)
      then obtain m where "chain ?tabs' (Suc m) c = None" by (auto simp: Some)
      then show ?thesis by blast
    qed (simp add: exI [of _ 0])
  qed (auto intro: exI [of _ 0])
  with f show ?thesis unfolding forest_def by blast
qed

text \<open>
  C14. Moving a tab keeps the forest. When every chain of parents ends before the request, it does
  so after it; an accepted request makes exactly the requested parent the child's parent and
  leaves every other tab's parent and all identifiers alone; a refused one changes neither the
  tabs nor the event journal.
\<close>

theorem set_parent_keeps_forest:
  assumes f: "forest tabs" and r: "set_tab_parent_on_host tabs journal child_id parent_id = Some (r, tabs', journal')"
  shows "forest tabs' \<and> map tn_id tabs' = map tn_id tabs
    \<and> (case r of
         Inl e \<Rightarrow> tabs' = tabs \<and> journal' = journal
       | Inr _ \<Rightarrow> \<forall>i. parent_of tabs' i = (if i = child_id then parent_id else parent_of tabs i))"
proof (cases r)
  case (Inl e)
  with f r show ?thesis
    by (auto simp: set_tab_parent_on_host_def Let_def split: option.splits if_splits)
next
  case (Inr u)
  with r obtain k where k: "position (\<lambda>tab. tn_id tab = child_id) tabs = Some k"
    and tabs': "tabs' = tabs[k := (tabs ! k)\<lparr>tn_parent_id := parent_id\<rparr>]"
    and ok: "\<And>q. parent_id = Some q \<Longrightarrow> \<not> would_create_cycle tabs child_id q"
    by (auto simp: set_tab_parent_on_host_def Let_def split: option.splits if_splits)
  have "map tn_id tabs' = map tn_id tabs"
    using position_SomeD [OF k] by (simp add: tabs' map_update list_update_same_conv)
  then show ?thesis using forest_update [OF f k ok] parent_of_update [OF k] Inr by (simp add: tabs')
qed

lemma set_parent_keeps_forest_witness:
  "\<exists>tabs' journal'. forest tabs'
     \<and> set_tab_parent_on_host sample_tabs (EventJournal_new ''s'') 2 None = Some (Ok (), tabs', journal')
     \<and> parent_of tabs' 2 = None"
proof -
  have "chain sample_tabs 2 (Some i) = None" for i
    by (simp add: sample_tabs_def parent_of_def numeral_2_eq_2)
  then have f: "forest sample_tabs" unfolding forest_def by blast
  obtain tabs' journal' where
    r: "set_tab_parent_on_host sample_tabs (EventJournal_new ''s'') 2 None = Some (Ok (), tabs', journal')"
    by (simp add: set_tab_parent_on_host_def sample_tabs_def journal_commit_def commit_correlated_def
        EventJournal_new_def with_epoch_def checked_add_def Let_def)
  from set_parent_keeps_forest [OF f r] r show ?thesis by auto
qed

end
