(* ===== verification/Terminal_Lifecycle.thy ===== *)
theory Terminal_Lifecycle
  imports Retention
begin

text \<open>
  The state a terminal tab keeps about its process: the end-of-output protocol, the delayed Enter of
  a submission and the ring of raw output bytes (\<open>src/terminal_lifecycle.rs\<close>), the observations
  taken of them (\<open>src/terminal_observation.rs\<close>), and the reads of the output at an absolute cursor
  (\<open>read_terminal_output\<close> and its helpers in \<open>src/control_dispatch.rs\<close>).  A byte is a \<open>char\<close>, an
  \<open>Instant\<close> or a \<open>Duration\<close> a number of nanoseconds.
\<close>

type_synonym bytes = string
type_synonym instant = nat
type_synonym duration = nat

section \<open>Lifecycle\<close>

record TerminalLifecycle =
  tl_reader_closed :: bool
  tl_parser_drained :: bool

definition TerminalLifecycle_default :: TerminalLifecycle where
  "TerminalLifecycle_default = \<lparr>tl_reader_closed = False, tl_parser_drained = False\<rparr>"

definition close_reader_after_parser_drain :: "TerminalLifecycle \<Rightarrow> TerminalLifecycle" where
  "close_reader_after_parser_drain l = l\<lparr>tl_reader_closed := True, tl_parser_drained := True\<rparr>"

definition lifecycle_finalized :: "TerminalLifecycle \<Rightarrow> bool \<Rightarrow> bool" where
  "lifecycle_finalized l process_finished = (process_finished \<and> tl_reader_closed l \<and> tl_parser_drained l)"

section \<open>Submissions\<close>

datatype SubmissionState = SubmissionIdle | SubmissionPending instant

fun submission_is_pending :: "SubmissionState \<Rightarrow> bool" where
  "submission_is_pending SubmissionIdle = False"
| "submission_is_pending (SubmissionPending due_at) = True"

definition schedule :: "SubmissionState \<Rightarrow> instant \<Rightarrow> duration \<Rightarrow> bool \<times> SubmissionState" where
  "schedule s now delay =
     (if submission_is_pending s then (False, s) else (True, SubmissionPending (now + delay)))"

fun take_if_due :: "SubmissionState \<Rightarrow> instant \<Rightarrow> bool \<times> SubmissionState" where
  "take_if_due SubmissionIdle now = (False, SubmissionIdle)"
| "take_if_due (SubmissionPending due_at) now =
     (if due_at \<le> now then (True, SubmissionIdle) else (False, SubmissionPending due_at))"

section \<open>The ring of raw output\<close>

record BoundedByteRing =
  rg_bytes :: bytes
  rg_capacity :: nat

definition ring_new :: "nat \<Rightarrow> BoundedByteRing" where
  "ring_new capacity = \<lparr>rg_bytes = [], rg_capacity = capacity\<rparr>"

definition ring_extend :: "BoundedByteRing \<Rightarrow> bytes \<Rightarrow> BoundedByteRing" where
  "ring_extend r incoming =
     (if rg_capacity r = 0 then r
      else if rg_capacity r \<le> length incoming
      then r\<lparr>rg_bytes := drop (length incoming - rg_capacity r) incoming\<rparr>
      else
        let overflow = usize_saturating_add (length (rg_bytes r)) (length incoming) - rg_capacity r
        in r\<lparr>rg_bytes := drop overflow (rg_bytes r) @ incoming\<rparr>)"

definition ring_to_vec :: "BoundedByteRing \<Rightarrow> bytes" where
  "ring_to_vec r = rg_bytes r"

definition ring_len :: "BoundedByteRing \<Rightarrow> nat" where
  "ring_len r = length (rg_bytes r)"

definition ring_copy_from :: "BoundedByteRing \<Rightarrow> nat \<Rightarrow> nat \<Rightarrow> bytes" where
  "ring_copy_from r offset maximum = take maximum (drop (min offset (length (rg_bytes r))) (rg_bytes r))"

section \<open>Observations\<close>

datatype TerminalProcessState = ProcessRunning | ProcessExited u32 | ProcessError string

record TerminalObservation =
  ob_process_id :: "u32 option"
  ob_exit_code :: "u32 option"
  ob_error :: "string option"
  ob_input_bytes :: nat
  ob_input_writes :: nat
  ob_output_bytes :: nat
  ob_submit_pending :: bool
  ob_submission_enter_written :: "bool option"
  ob_reader_closed :: bool
  ob_parser_drained :: bool
  ob_finalized :: bool

record TerminalObservationDelta =
  dl_output_advanced_by :: nat
  dl_process_state_changed :: bool
  dl_submission_finished :: bool
  dl_lifecycle_changed :: bool
  dl_became_finalized :: bool

datatype TerminalObservationInvariantError = OutputCounterRegressed nat nat

fun TerminalObservationInvariantError_fmt :: "TerminalObservationInvariantError \<Rightarrow> string" where
  "TerminalObservationInvariantError_fmt (OutputCounterRegressed before after) =
     ''terminal output counter regressed from '' @ show_nat before @ '' to '' @ show_nat after"

definition process_state :: "TerminalObservation \<Rightarrow> TerminalProcessState" where
  "process_state ob =
     (case ob_error ob of
        Some msg \<Rightarrow> ProcessError msg
      | None \<Rightarrow> (case ob_exit_code ob of Some code \<Rightarrow> ProcessExited code | None \<Rightarrow> ProcessRunning))"

definition delta_to ::
  "TerminalObservation \<Rightarrow> TerminalObservation \<Rightarrow> TerminalObservationInvariantError + TerminalObservationDelta" where
  "delta_to ob after =
     (if ob_output_bytes after < ob_output_bytes ob
      then Err (OutputCounterRegressed (ob_output_bytes ob) (ob_output_bytes after))
      else Ok \<lparr>dl_output_advanced_by = ob_output_bytes after - ob_output_bytes ob,
        dl_process_state_changed = (process_state ob \<noteq> process_state after),
        dl_submission_finished = (ob_submit_pending ob \<and> \<not> ob_submit_pending after),
        dl_lifecycle_changed =
          (ob_reader_closed ob \<noteq> ob_reader_closed after \<or> ob_parser_drained ob \<noteq> ob_parser_drained after
           \<or> ob_finalized ob \<noteq> ob_finalized after),
        dl_became_finalized = (\<not> ob_finalized ob \<and> ob_finalized after)\<rparr>)"

section \<open>Reading output at a cursor\<close>

datatype TerminalOutputCursor = CursorEarliest | CursorCurrent | CursorAbsolute nat

datatype TerminalOutputRead =
    OutputData (rd_earliest: nat) (rd_current: nat) (rd_start: nat) (rd_next: nat) (rd_bytes: bytes)
  | OutputGap nat nat nat
  | OutputFuture nat nat

definition read_terminal_output ::
  "BoundedByteRing \<Rightarrow> nat \<Rightarrow> TerminalOutputCursor \<Rightarrow> nat \<Rightarrow> TerminalOutputRead" where
  "read_terminal_output retained current cursor maximum =
     (let earliest = current - ring_len retained;
          requested = (case cursor of
              CursorEarliest \<Rightarrow> earliest
            | CursorCurrent \<Rightarrow> current
            | CursorAbsolute v \<Rightarrow> v)
      in if requested < earliest then OutputGap requested earliest current
         else if current < requested then OutputFuture requested current
         else
           let bytes = ring_copy_from retained (requested - earliest) maximum;
               next = usize_saturating_add requested (length bytes)
           in OutputData earliest current requested next bytes)"

section \<open>The ring keeps the end of the stream\<close>

text \<open>
  A vector never holds more than \<open>isize::MAX\<close> bytes, so the saturating sum in \<open>extend\<close> is exact
  for chunks and contents within that bound.
\<close>

definition ring_ok :: "BoundedByteRing \<Rightarrow> bool" where
  "ring_ok r \<longleftrightarrow> length (rg_bytes r) \<le> rg_capacity r \<and> rg_capacity r \<le> isize_max"

definition ring_step :: "BoundedByteRing \<Rightarrow> bytes \<Rightarrow> BoundedByteRing option" where
  "ring_step r chunk = (if length chunk \<le> isize_max then Some (ring_extend r chunk) else None)"

lemma ring_capacity_extend [simp]: "rg_capacity (ring_extend r c) = rg_capacity r"
  by (simp add: ring_extend_def Let_def)

lemma isize_usize: "2 * isize_max < usize_max"
  by (simp add: isize_max_def usize_max_def)

lemma ring_extend_last_n:
  assumes ok: "ring_ok r" and c: "length c \<le> isize_max"
  shows "rg_bytes (ring_extend r c) = last_n (rg_capacity r) (rg_bytes r @ c)"
proof (cases "rg_capacity r \<le> length c")
  case True
  with ok show ?thesis
    by (auto simp: ring_extend_def last_n_def ring_ok_def)
next
  case False
  have "length (rg_bytes r) + length c \<le> usize_max" using ok c isize_usize by (simp add: ring_ok_def)
  with False show ?thesis by (auto simp: ring_extend_def last_n_def Let_def)
qed

lemma ring_ok_extend: "ring_ok r \<Longrightarrow> length c \<le> isize_max \<Longrightarrow> ring_ok (ring_extend r c)"
  by (simp add: ring_extend_last_n ring_ok_def)

interpretation ring: retention ring_step "\<lambda>_ chunk. chunk" rg_bytes rg_capacity ring_ok
proof
  show "ring_ok t" if "ring_ok s" "ring_step s r = Some t" for s r t
    using that ring_ok_extend by (auto simp: ring_step_def split: if_splits)
  show "rg_capacity t = rg_capacity s" if "ring_ok s" "ring_step s r = Some t" for s r t
    using that by (auto simp: ring_step_def split: if_splits)
  show "rg_bytes t = last_n (rg_capacity s) (rg_bytes s @ r)" if "ring_ok s" "ring_step s r = Some t" for s r t
    using that ring_extend_last_n by (auto simp: ring_step_def split: if_splits)
qed

text \<open>Reading from a ring that holds the end of a stream is reading from the stream.\<close>

lemma read_terminal_output_stream:
  assumes ring: "rg_bytes r = last_n limit stream" and len: "length stream \<le> usize_max"
  shows "read_terminal_output r (length stream) cursor maximum =
    (let earliest = length stream - limit;
         requested = (case cursor of CursorEarliest \<Rightarrow> earliest | CursorCurrent \<Rightarrow> length stream | CursorAbsolute v \<Rightarrow> v)
     in if requested < earliest then OutputGap requested earliest (length stream)
        else if length stream < requested then OutputFuture requested (length stream)
        else OutputData earliest (length stream) requested
          (min (requested + maximum) (length stream)) (take maximum (drop requested stream)))"
proof -
  have e: "length stream - ring_len r = length stream - limit" by (simp add: ring_len_def ring)
  have "ring_copy_from r (k - (length stream - limit)) maximum = take maximum (drop k stream)"
    if "length stream - limit \<le> k" "k \<le> length stream" for k
    using that by (simp add: ring_copy_from_def ring drop_last_n min_def) (auto simp: last_n_def)
  moreover have "usize_saturating_add k (length (take maximum (drop k stream))) = min (k + maximum) (length stream)"
    if "k \<le> length stream" for k
    using that len by (simp add: usize_saturating_add_def min_def) arith
  ultimately show ?thesis
    by (simp add: read_terminal_output_def e Let_def not_less)
qed

end
