(* ===== verification/Proxy_Redaction.thy ===== *)
theory Proxy_Redaction
  imports Terminal_Lifecycle
begin

text \<open>
  Redaction of proxy secrets from terminal output (\<open>redact_proxy_stream_chunk\<close> of
  \<open>src/terminal_runtime.rs\<close>).  The output arrives in reads that may cut a secret anywhere, so bytes
  that could be the beginning of a secret are held back.  What comes out in the end is the
  replacement of the secrets in the whole stream, however the stream was cut.
\<close>

section \<open>Model\<close>

definition PROXY_REDACTION_MARKER :: bytes where
  "PROXY_REDACTION_MARKER = ''<redacted-proxy>''"

definition starts_with :: "bytes \<Rightarrow> bytes \<Rightarrow> bool" where
  "starts_with s needle \<longleftrightarrow> take (length needle) s = needle"

text \<open>Nonempty needles, the longest first; \<open>sort_by_key\<close> is stable, as \<open>sort_key\<close>.\<close>

definition ordered_needles :: "bytes list \<Rightarrow> bytes list" where
  "ordered_needles needles = sort_key (\<lambda>needle. - int (length needle)) (filter (\<lambda>needle. needle \<noteq> []) needles)"

text \<open>
  The loop over the pending bytes: the output and what is left of the pending bytes.  A needle
  that is found is not empty, so dropping its length drops the first byte and the rest.
\<close>

fun redact_loop :: "bool \<Rightarrow> bytes list \<Rightarrow> bytes \<Rightarrow> bytes \<times> bytes" where
  "redact_loop flush ordered [] = ([], [])"
| "redact_loop flush ordered (b # bs) =
     (let remaining = b # bs in
      if \<not> flush \<and> list_ex (\<lambda>needle. length remaining < length needle \<and> starts_with needle remaining) ordered
      then ([], remaining)
      else (case find (\<lambda>needle. starts_with remaining needle) ordered of
          Some needle \<Rightarrow>
            (case redact_loop flush ordered (drop (length needle - 1) bs) of
               (output, pending) \<Rightarrow> (PROXY_REDACTION_MARKER @ output, pending))
        | None \<Rightarrow>
            (case redact_loop flush ordered bs of (output, pending) \<Rightarrow> (b # output, pending))))"

text \<open>\<open>redact_proxy_stream_chunk pending needles bytes flush\<close>: the output and the new pending bytes.\<close>

definition redact_proxy_stream_chunk :: "bytes \<Rightarrow> bytes list \<Rightarrow> bytes \<Rightarrow> bool \<Rightarrow> bytes \<times> bytes" where
  "redact_proxy_stream_chunk pending needles bytes flush =
     (if needles = [] then (bytes, pending)
      else redact_loop flush (ordered_needles needles) (pending @ bytes))"

section \<open>What redaction means\<close>

text \<open>
  The replacement of secrets in a complete stream, from the left: where a secret starts, the longest
  such secret becomes the marker; every other byte stays.
\<close>

inductive redacted :: "bytes list \<Rightarrow> bytes \<Rightarrow> bytes \<Rightarrow> bool" for needles where
  redacted_end: "redacted needles [] []"
| redacted_secret: "\<lbrakk> needle \<in> set needles; needle \<noteq> [];
      \<And>other. other \<in> set needles \<Longrightarrow> starts_with (needle @ s) other \<Longrightarrow> length other \<le> length needle;
      redacted needles s out \<rbrakk> \<Longrightarrow> redacted needles (needle @ s) (PROXY_REDACTION_MARKER @ out)"
| redacted_byte: "\<lbrakk> \<And>needle. needle \<in> set needles \<Longrightarrow> needle \<noteq> [] \<Longrightarrow> \<not> starts_with (b # s) needle;
      redacted needles s out \<rbrakk> \<Longrightarrow> redacted needles (b # s) (b # out)"

lemma starts_with_self [simp]: "starts_with (n @ s) n"
  by (simp add: starts_with_def)

lemma starts_with_iff: "starts_with s n \<longleftrightarrow> (\<exists>t. s = n @ t)"
  by (metis append_eq_conv_conj append_take_drop_id starts_with_def)

lemma starts_with_same_length: "starts_with s n \<Longrightarrow> starts_with s m \<Longrightarrow> length n = length m \<Longrightarrow> n = m"
  by (metis starts_with_def)

lemma redacted_unique: "redacted needles s out \<Longrightarrow> redacted needles s out' \<Longrightarrow> out' = out"
proof (induction arbitrary: out' rule: redacted.induct)
  case redacted_end
  then show ?case by (cases rule: redacted.cases) auto
next
  case (redacted_secret n s out)
  note here = redacted_secret.hyps redacted_secret.IH
  from redacted_secret.prems show ?case
  proof (cases rule: redacted.cases)
    case redacted_end
    with here(2) show ?thesis by simp
  next
    case (redacted_secret m s' o')
    have "starts_with (n @ s) m" unfolding redacted_secret(1) by simp
    then have "length m \<le> length n" using here(3) redacted_secret(3) by blast
    moreover have "starts_with (m @ s') n" unfolding redacted_secret(1) [symmetric] by simp
    then have "length n \<le> length m" using here(1) redacted_secret(5) by blast
    ultimately have "length m = length n" by simp
    with redacted_secret(1) have "s' = s" by simp
    with here(5) redacted_secret(2,6) show ?thesis by simp
  next
    case (redacted_byte b s' o')
    have "starts_with (b # s') n" unfolding redacted_byte(1) [symmetric] by simp
    with redacted_byte(3) here(1,2) show ?thesis by blast
  qed
next
  case (redacted_byte b s out)
  note here = redacted_byte.hyps redacted_byte.IH
  from redacted_byte.prems show ?case
  proof (cases rule: redacted.cases)
    case (redacted_secret m s' o')
    have "starts_with (b # s) m" unfolding redacted_secret(1) by simp
    with redacted_secret(3,4) here(1) show ?thesis by blast
  next
    case (redacted_byte o')
    with here(3) show ?thesis by simp
  qed
qed

section \<open>The loop replaces exactly the secrets\<close>

lemma set_ordered_needles: "set (ordered_needles needles) = {n \<in> set needles. n \<noteq> []}"
  by (auto simp: ordered_needles_def)

lemma sorted_ordered_needles: "sorted (map (\<lambda>n. - int (length n)) (ordered_needles needles))"
  by (simp add: ordered_needles_def)

text \<open>The first match in the ordered list is the longest one.\<close>

lemma find_longest:
  "\<lbrakk> sorted (map (\<lambda>n. - int (length n)) ns); find P ns = Some n; m \<in> set ns; P m \<rbrakk> \<Longrightarrow> length m \<le> length n"
  by (induction ns) (auto split: if_splits)

lemma redact_loop_flush:
  assumes os: "os = ordered_needles needles"
  shows "snd (redact_loop True os s) = [] \<and> redacted needles s (fst (redact_loop True os s))"
proof (induction s rule: length_induct)
  case (1 s)
  show ?case
  proof (cases s)
    case Nil
    then show ?thesis by (simp add: redacted_end)
  next
    case (Cons b bs)
    show ?thesis
    proof (cases "find (\<lambda>n. starts_with s n) os")
      case None
      have "redacted needles bs (fst (redact_loop True os bs))" "snd (redact_loop True os bs) = []"
        using 1 Cons by simp_all
      moreover have "\<not> starts_with s n" if "n \<in> set needles" "n \<noteq> []" for n
        using None that by (auto simp: find_None_iff os set_ordered_needles)
      ultimately show ?thesis
        using None Cons by (auto simp: Let_def split: prod.splits intro: redacted_byte)
    next
      case (Some n)
      from Some have n: "n \<in> set needles" "n \<noteq> []" "starts_with s n"
        using set_ordered_needles by (auto simp: find_Some_iff os dest: nth_mem)
      then obtain t where t: "s = n @ t" by (auto simp: starts_with_iff)
      have d: "drop (length n - 1) bs = t"
        using t Cons n(2) by (cases n) auto
      have long: "length m \<le> length n" if "m \<in> set needles" "starts_with (n @ t) m" for m
        using that find_longest [OF _ Some, of m] sorted_ordered_needles [of needles] t
        by (cases "m = []") (auto simp: os set_ordered_needles)
      have "length t < length s" using t n(2) by simp
      with 1 have "redacted needles t (fst (redact_loop True os t))" "snd (redact_loop True os t) = []" by blast+
      with n long have "redacted needles s (PROXY_REDACTION_MARKER @ fst (redact_loop True os t))"
        unfolding t by (intro redacted_secret)
      with \<open>snd (redact_loop True os t) = []\<close> Some Cons d show ?thesis
        by (auto simp: Let_def split: prod.splits)
    qed
  qed
qed

text \<open>Without the flush the loop stops where more bytes could matter, and nowhere else.\<close>

lemma starts_with_extend:
  "\<not> (length a < length m \<and> starts_with m a) \<Longrightarrow> starts_with (a @ b) m = starts_with a m"
proof (cases "length m \<le> length a")
  case False
  assume no: "\<not> (length a < length m \<and> starts_with m a)"
  have "\<not> starts_with (a @ b) m"
  proof
    assume "starts_with (a @ b) m"
    then have "m = a @ take (length m - length a) b" using False by (simp add: starts_with_def)
    then have "starts_with m a" by (metis starts_with_self)
    with no False show False by simp
  qed
  moreover have "\<not> starts_with a m" using False by (auto simp: starts_with_iff)
  ultimately show ?thesis by simp
qed (simp add: starts_with_def)

lemma find_cong_set: "(\<And>x. x \<in> set xs \<Longrightarrow> P x = Q x) \<Longrightarrow> find P xs = find Q xs"
  by (induction xs) auto

lemma redact_loop_continue:
  "redact_loop False os a = (out, rest) \<Longrightarrow>
   fst (redact_loop True os (a @ b)) = out @ fst (redact_loop True os (rest @ b))"
proof (induction a arbitrary: out rest rule: length_induct)
  case (1 a)
  show ?case
  proof (cases a)
    case Nil
    with "1.prems" show ?thesis by simp
  next
    case (Cons c cs)
    show ?thesis
    proof (cases "list_ex (\<lambda>n. length a < length n \<and> starts_with n a) os")
      case True
      with "1.prems" Cons show ?thesis by (auto simp: Let_def)
    next
      case False
      then have same: "find (\<lambda>n. starts_with (a @ b) n) os = find (\<lambda>n. starts_with a n) os"
        by (intro find_cong_set starts_with_extend) (auto simp: list_ex_iff)
      show ?thesis
      proof (cases "find (\<lambda>n. starts_with a n) os")
        case None
        obtain o' where "redact_loop False os cs = (o', rest)" "out = c # o'"
          using "1.prems" False None Cons by (auto simp: Let_def split: prod.splits)
        then have "fst (redact_loop True os (cs @ b)) = o' @ fst (redact_loop True os (rest @ b))" "out = c # o'"
          using "1.IH" Cons by auto
        with same None Cons show ?thesis by (auto simp: Let_def split: prod.splits)
      next
        case (Some n)
        obtain o' where loop: "redact_loop False os (drop (length n - 1) cs) = (o', rest)"
          and out: "out = PROXY_REDACTION_MARKER @ o'"
          using "1.prems" False Some Cons by (auto simp: Let_def split: prod.splits)
        have "starts_with a n" using Some by (auto simp: find_Some_iff)
        then have "length n \<le> length a" by (auto simp: starts_with_iff)
        then have "drop (length n - 1) (cs @ b) = drop (length n - 1) cs @ b" using Cons by simp
        moreover have "fst (redact_loop True os (drop (length n - 1) cs @ b)) = o' @ fst (redact_loop True os (rest @ b))"
          using "1.IH" loop Cons by auto
        ultimately show ?thesis using same Some Cons out by (auto simp: Let_def split: prod.splits)
      qed
    qed
  qed
qed

section \<open>Streams in reads\<close>

text \<open>The reads of a stream one after the other, and the flush when the reader closes.\<close>

fun redact_reads :: "bytes list \<Rightarrow> bytes \<Rightarrow> bytes list \<Rightarrow> bytes \<times> bytes" where
  "redact_reads needles pending [] = ([], pending)"
| "redact_reads needles pending (chunk # chunks) =
     (let (out, pending') = redact_proxy_stream_chunk pending needles chunk False;
          (outs, final) = redact_reads needles pending' chunks
      in (out @ outs, final))"

definition flush_pending :: "bytes list \<Rightarrow> bytes \<Rightarrow> bytes" where
  "flush_pending needles pending = fst (redact_proxy_stream_chunk pending needles [] True)"

text \<open>
  What is pending can be redacted later: the invariant between the bytes received, the bytes shown
  and the bytes held back.
\<close>

definition redaction_ok :: "bytes list \<Rightarrow> bytes \<Rightarrow> bytes \<Rightarrow> bytes \<Rightarrow> bool" where
  "redaction_ok needles raw shown pending \<longleftrightarrow>
     (needles = [] \<longrightarrow> pending = [])
     \<and> (\<forall>more. fst (redact_loop True (ordered_needles needles) (raw @ more))
              = shown @ fst (redact_loop True (ordered_needles needles) (pending @ more)))"

lemma redact_loop_no_needles: "redact_loop flush [] s = (s, [])"
  by (induction s) (simp_all add: Let_def)

lemma redaction_ok_init: "redaction_ok needles [] [] []"
  by (simp add: redaction_ok_def)

lemma redaction_ok_chunk:
  assumes ok: "redaction_ok needles raw shown pending"
    and step: "redact_proxy_stream_chunk pending needles chunk False = (out, pending')"
  shows "redaction_ok needles (raw @ chunk) (shown @ out) pending'"
proof (cases "needles = []")
  case True
  with ok step show ?thesis
    by (auto simp: redaction_ok_def redact_proxy_stream_chunk_def ordered_needles_def redact_loop_no_needles)
next
  case False
  with step have loop: "redact_loop False (ordered_needles needles) (pending @ chunk) = (out, pending')"
    by (simp add: redact_proxy_stream_chunk_def)
  have "fst (redact_loop True (ordered_needles needles) ((raw @ chunk) @ more))
      = (shown @ out) @ fst (redact_loop True (ordered_needles needles) (pending' @ more))" for more
    using ok redact_loop_continue [OF loop, of more] by (simp add: redaction_ok_def)
  with False show ?thesis by (simp add: redaction_ok_def)
qed

lemma redaction_ok_flush:
  assumes "redaction_ok needles raw shown pending"
  shows "redacted needles raw (shown @ flush_pending needles pending)"
proof -
  have "fst (redact_loop True (ordered_needles needles) raw) = shown @ flush_pending needles pending"
    using assms unfolding redaction_ok_def flush_pending_def redact_proxy_stream_chunk_def
    by (metis append_Nil2 fst_conv redact_loop.simps(1))
  then show ?thesis using redact_loop_flush [OF refl, of needles raw] by simp
qed

lemma redaction_ok_reads:
  "redaction_ok needles raw shown pending \<Longrightarrow> redact_reads needles pending chunks = (outs, final) \<Longrightarrow>
   redaction_ok needles (raw @ concat chunks) (shown @ outs) final"
proof (induction chunks arbitrary: raw shown pending outs)
  case (Cons chunk chunks)
  obtain out pending' where step: "redact_proxy_stream_chunk pending needles chunk False = (out, pending')"
    by (cases "redact_proxy_stream_chunk pending needles chunk False")
  with Cons.prems obtain outs' where reads: "redact_reads needles pending' chunks = (outs', final)" "outs = out @ outs'"
    by (auto split: prod.splits)
  from Cons.IH [OF redaction_ok_chunk [OF Cons.prems(1) step] reads(1)] reads(2) show ?case by simp
qed simp

text \<open>
  C9. Redaction does not depend on the reads. However the output of a process is cut into reads,
  what is shown until the reader closes is exactly the stream in which, from the left, the longest
  secret starting at a position is replaced by the marker and every byte at which no secret starts
  is kept; that text is determined by the stream alone.
\<close>

theorem redaction_independent_of_reads:
  assumes "redact_reads needles [] chunks = (outs, pending)"
  shows "redacted needles (concat chunks) (outs @ flush_pending needles pending)
     \<and> (\<forall>out. redacted needles (concat chunks) out \<longrightarrow> out = outs @ flush_pending needles pending)"
proof -
  have "redaction_ok needles (concat chunks) outs pending"
    using redaction_ok_reads [OF redaction_ok_init assms] by simp
  then have "redacted needles (concat chunks) (outs @ flush_pending needles pending)" by (rule redaction_ok_flush)
  then show ?thesis using redacted_unique by blast
qed

lemma redaction_independent_of_reads_witness:
  "redacted [''http://u:p@h''] ''go http://u:p@h ok'' ''go <redacted-proxy> ok''"
proof -
  have "redact_reads [''http://u:p@h''] [] [''go htt'', ''p://u:p'', ''@h ok''] = (''go <redacted-proxy> ok'', [])"
    by code_simp
  from conjunct1 [OF redaction_independent_of_reads [OF this]] show ?thesis
    by (simp add: flush_pending_def redact_proxy_stream_chunk_def)
qed

end
