(* ===== verification/Terminal_Cursor.thy ===== *)
theory Terminal_Cursor
  imports Prelude
begin

text \<open>
  The tracker of the cursor-style sequence DECSCUSR (\<open>src/terminal_cursor.rs\<close>): a byte machine that
  follows \<open>CSI Ps SP q\<close> through the raw output.  The appearance after a stream does not depend on how
  the stream is cut into reads, and a complete sequence sets exactly the appearance its parameter
  names.
\<close>

section \<open>Model\<close>

datatype TerminalCursorShape = Block | Underline | Bar

record TerminalCursorAppearance =
  ca_shape :: TerminalCursorShape
  ca_blinking :: bool

definition TerminalCursorAppearance_default :: TerminalCursorAppearance where
  "TerminalCursorAppearance_default = \<lparr>ca_shape = Block, ca_blinking = True\<rparr>"

datatype ParseState =
    Ground
  | Escape
  | Csi (csi_parameter: u16) (csi_has_parameter: bool) (csi_space: bool) (csi_valid: bool)

record DecscusrTracker =
  dt_state :: ParseState
  dt_appearance :: TerminalCursorAppearance

definition DecscusrTracker_default :: DecscusrTracker where
  "DecscusrTracker_default = \<lparr>dt_state = Ground, dt_appearance = TerminalCursorAppearance_default\<rparr>"

definition new_csi :: ParseState where
  "new_csi = Csi 0 False False True"

definition appearance_of :: "u16 \<Rightarrow> TerminalCursorAppearance \<Rightarrow> TerminalCursorAppearance" where
  "appearance_of parameter current =
     (if parameter = 0 \<or> parameter = 1 then \<lparr>ca_shape = Block, ca_blinking = True\<rparr>
      else if parameter = 2 then \<lparr>ca_shape = Block, ca_blinking = False\<rparr>
      else if parameter = 3 then \<lparr>ca_shape = Underline, ca_blinking = True\<rparr>
      else if parameter = 4 then \<lparr>ca_shape = Underline, ca_blinking = False\<rparr>
      else if parameter = 5 then \<lparr>ca_shape = Bar, ca_blinking = True\<rparr>
      else if parameter = 6 then \<lparr>ca_shape = Bar, ca_blinking = False\<rparr>
      else current)"

definition apply_parameter :: "u16 \<Rightarrow> DecscusrTracker \<Rightarrow> DecscusrTracker" where
  "apply_parameter parameter t = t\<lparr>dt_appearance := appearance_of parameter (dt_appearance t)\<rparr>"

definition add_digit :: "u16 \<Rightarrow> char \<Rightarrow> u16" where
  "add_digit parameter byte = saturating_add (saturating_mul parameter 10) (of_nat (of_char byte - 48))"

definition feed_byte :: "char \<Rightarrow> DecscusrTracker \<Rightarrow> DecscusrTracker" where
  "feed_byte byte t =
     (case dt_state t of
        Ground \<Rightarrow>
          t\<lparr>dt_state := (if of_char byte = (27 :: nat) then Escape
                         else if of_char byte = (155 :: nat) then new_csi
                         else Ground)\<rparr>
      | Escape \<Rightarrow>
          t\<lparr>dt_state := (if byte = CHR ''['' then new_csi
                         else if of_char byte = (27 :: nat) then Escape
                         else Ground)\<rparr>
      | Csi parameter has_parameter space valid \<Rightarrow>
          if of_char byte = (27 :: nat) then t\<lparr>dt_state := Escape\<rparr>
          else if is_ascii_digit byte \<and> \<not> space
          then t\<lparr>dt_state := Csi (add_digit parameter byte) True space valid\<rparr>
          else if byte = CHR '' '' \<and> \<not> space
          then t\<lparr>dt_state := Csi parameter has_parameter True valid\<rparr>
          else if byte = CHR ''q''
          then (if valid \<and> space then apply_parameter (if has_parameter then parameter else 0) t
                else t)\<lparr>dt_state := Ground\<rparr>
          else if (64 :: nat) \<le> of_char byte \<and> of_char byte \<le> (126 :: nat)
          then t\<lparr>dt_state := Ground\<rparr>
          else t\<lparr>dt_state := Csi parameter has_parameter space False\<rparr>)"

definition feed :: "string \<Rightarrow> DecscusrTracker \<Rightarrow> DecscusrTracker" where
  "feed bytes t = fold feed_byte bytes t"

section \<open>Complete sequences\<close>

lemma feed_append: "feed (a @ b) t = feed b (feed a t)"
  by (simp add: feed_def)

lemma feed_concat: "fold feed chunks t = feed (concat chunks) t"
  by (induction chunks arbitrary: t) (simp_all add: feed_append feed_def [of "[]"])

lemma unat_add_digit:
  "is_ascii_digit d \<Longrightarrow> unat (add_digit p d) = min (unat p * 10 + (of_char d - 48)) 65535"
proof -
  assume "is_ascii_digit d"
  then have "of_char d - 48 < (10 :: nat)" by (simp add: is_ascii_digit_def) linarith
  moreover have "unat p < 2 ^ LENGTH(16)" by (rule unsigned_less)
  ultimately show ?thesis
    by (simp add: add_digit_def unat_saturating_add unat_saturating_mul unat_of_nat take_bit_nat_eq_self)
qed

lemma fold_add_digit:
  "\<lbrakk> list_all is_ascii_digit ds; unat p = min n 65535 \<rbrakk> \<Longrightarrow>
   unat (fold (\<lambda>d p. add_digit p d) ds p) = min (foldl (\<lambda>n d. n * 10 + (of_char d - 48)) n ds) 65535"
proof (induction ds arbitrary: p n)
  case (Cons d ds)
  then have "unat (add_digit p d) = min (n * 10 + (of_char d - 48)) 65535"
    by (simp add: unat_add_digit min_def)
  with Cons show ?case by simp
qed simp

lemma feed_digits:
  "\<lbrakk> list_all is_ascii_digit ds; dt_state t = Csi p h False True \<rbrakk> \<Longrightarrow>
   feed ds t = t\<lparr>dt_state := Csi (fold (\<lambda>d p. add_digit p d) ds p) (h \<or> ds \<noteq> []) False True\<rparr>"
proof (induction ds arbitrary: t p h)
  case Nil
  then show ?case by (simp add: feed_def)
next
  case (Cons d ds)
  have d: "is_ascii_digit d" and "list_all is_ascii_digit ds" using Cons.prems(1) by simp_all
  have "of_char d \<noteq> (27 :: nat)" using d by (auto simp: is_ascii_digit_def)
  with d Cons.prems(2) have step: "feed_byte d t = t\<lparr>dt_state := Csi (add_digit p d) True False True\<rparr>"
    by (simp add: feed_byte_def)
  have "feed (d # ds) t = feed ds (feed_byte d t)" by (simp add: feed_def)
  also have "\<dots> = t\<lparr>dt_state := Csi (fold (\<lambda>d p. add_digit p d) ds (add_digit p d)) True False True\<rparr>"
    unfolding step using Cons.IH [of "t\<lparr>dt_state := Csi (add_digit p d) True False True\<rparr>"] Cons.prems(1) by simp
  finally show ?case by simp
qed

text \<open>The appearance that the parameter text of a complete sequence selects.\<close>

definition selected :: "string \<Rightarrow> TerminalCursorAppearance \<Rightarrow> TerminalCursorAppearance" where
  "selected ds current =
     (let n = min (decimal_value ds) 65535 in
      if n \<in> {0, 1} then \<lparr>ca_shape = Block, ca_blinking = True\<rparr>
      else if n = 2 then \<lparr>ca_shape = Block, ca_blinking = False\<rparr>
      else if n = 3 then \<lparr>ca_shape = Underline, ca_blinking = True\<rparr>
      else if n = 4 then \<lparr>ca_shape = Underline, ca_blinking = False\<rparr>
      else if n = 5 then \<lparr>ca_shape = Bar, ca_blinking = True\<rparr>
      else if n = 6 then \<lparr>ca_shape = Bar, ca_blinking = False\<rparr>
      else current)"

lemma appearance_of_selected:
  "list_all is_ascii_digit ds \<Longrightarrow> appearance_of (fold (\<lambda>d p. add_digit p d) ds 0) a = selected ds a"
proof -
  assume "list_all is_ascii_digit ds"
  then have "unat (fold (\<lambda>d p. add_digit p d) ds 0) = min (decimal_value ds) 65535"
    using fold_add_digit [of ds 0 0] by (simp add: decimal_value_def)
  then show ?thesis
    by (simp add: appearance_of_def selected_def word_unat_eq_iff Let_def)
qed

definition csi_bytes :: "string set" where
  "csi_bytes = {[char_of (27 :: nat), CHR ''[''], [char_of (155 :: nat)]}"

lemma feed_intro:
  assumes "intro \<in> csi_bytes" and "dt_state t = Ground"
  shows "feed intro t = t\<lparr>dt_state := new_csi\<rparr>"
  using assms by (auto simp: csi_bytes_def feed_def feed_byte_def of_char_of)

text \<open>
  A complete cursor-style sequence -- an introducer, decimal digits, a space and \<open>q\<close> -- received
  between other sequences selects exactly the appearance of its parameter (a missing one counts as
  0, unknown ones keep the appearance, however long the number is), however the bytes are cut into
  reads.
\<close>

theorem decscusr_selects:
  assumes ground: "dt_state (feed before t) = Ground" and intro: "intro \<in> csi_bytes"
    and digits: "list_all is_ascii_digit ds"
    and chunks: "concat chunks = before @ intro @ ds @ '' q''"
  shows "fold feed chunks t =
    \<lparr>dt_state = Ground, dt_appearance = selected ds (dt_appearance (feed before t))\<rparr>"
proof -
  let ?t = "feed before t"
  let ?p = "fold (\<lambda>d p. add_digit p d) ds 0"
  have "fold feed chunks t = feed '' q'' (feed ds (feed intro ?t))"
    unfolding feed_concat chunks by (simp only: feed_append)
  also have "feed intro ?t = ?t\<lparr>dt_state := new_csi\<rparr>" using intro ground by (rule feed_intro)
  also have "feed ds (?t\<lparr>dt_state := new_csi\<rparr>) = ?t\<lparr>dt_state := Csi ?p (ds \<noteq> []) False True\<rparr>"
    using feed_digits [OF digits, of "?t\<lparr>dt_state := new_csi\<rparr>" 0 False] by (simp add: new_csi_def)
  also have "feed '' q'' (?t\<lparr>dt_state := Csi ?p (ds \<noteq> []) False True\<rparr>) =
      ?t\<lparr>dt_state := Ground, dt_appearance := appearance_of (if ds \<noteq> [] then ?p else 0) (dt_appearance ?t)\<rparr>"
    by (simp add: feed_def feed_byte_def apply_parameter_def is_ascii_digit_def)
  also have "(if ds \<noteq> [] then ?p else 0) = ?p" by simp
  finally show ?thesis using appearance_of_selected [OF digits] by simp
qed

lemma decscusr_selects_witness:
  "fold feed [[char_of (27 :: nat)], ''[4'', '' q''] DecscusrTracker_default =
     \<lparr>dt_state = Ground, dt_appearance = \<lparr>ca_shape = Underline, ca_blinking = False\<rparr>\<rparr>"
proof -
  have g: "dt_state (feed [] DecscusrTracker_default) = Ground" by (simp add: feed_def DecscusrTracker_default_def)
  have i: "[char_of (27 :: nat), CHR ''[''] \<in> csi_bytes" by (simp add: csi_bytes_def)
  have d: "list_all is_ascii_digit ''4''" by (simp add: is_ascii_digit_def)
  have c: "concat [[char_of (27 :: nat)], ''[4'', '' q''] = [] @ [char_of (27 :: nat), CHR ''[''] @ ''4'' @ '' q''"
    by simp
  from decscusr_selects [OF g i d c] show ?thesis by (simp add: selected_def decimal_value_def)
qed

end
