(* ===== verification/Utf8.thy ===== *)
theory Utf8
  imports Prelude
begin

text \<open>
  UTF-8 as the standard library checks and walks it: \<open>std::str::from_utf8\<close>, \<open>str::chars\<close>,
  \<open>chars().count()\<close> and \<open>str::is_char_boundary\<close> on lists of bytes.  A character is the list of its
  one to four bytes.  The theory also holds \<open>bounded_utf8_prefix\<close> of \<open>src/control_dispatch.rs\<close>.
\<close>

section \<open>Encoded characters\<close>

abbreviation byte :: "char \<Rightarrow> nat" where
  "byte c \<equiv> of_char c"

definition is_continuation :: "char \<Rightarrow> bool" where
  "is_continuation c \<longleftrightarrow> 128 \<le> byte c \<and> byte c \<le> 191"

fun utf8_char :: "string \<Rightarrow> bool" where
  "utf8_char [a] = (byte a < 128)"
| "utf8_char [a, b] = (194 \<le> byte a \<and> byte a \<le> 223 \<and> is_continuation b)"
| "utf8_char [a, b, c] =
     (224 \<le> byte a \<and> byte a \<le> 239 \<and> is_continuation b \<and> is_continuation c
      \<and> (byte a = 224 \<longrightarrow> 160 \<le> byte b) \<and> (byte a = 237 \<longrightarrow> byte b \<le> 159))"
| "utf8_char [a, b, c, d] =
     (240 \<le> byte a \<and> byte a \<le> 244 \<and> is_continuation b \<and> is_continuation c \<and> is_continuation d
      \<and> (byte a = 240 \<longrightarrow> 144 \<le> byte b) \<and> (byte a = 244 \<longrightarrow> byte b \<le> 143))"
| "utf8_char _ = False"

text \<open>The length announced by a lead byte.\<close>

definition utf8_width :: "char \<Rightarrow> nat" where
  "utf8_width a = (if byte a < 128 then 1 else if byte a < 224 then 2 else if byte a < 240 then 3 else 4)"

fun utf8_chars :: "string \<Rightarrow> string list option" where
  "utf8_chars [] = Some []"
| "utf8_chars (a # s) =
     (let n = utf8_width a; c = take n (a # s) in
      if utf8_char c then map_option (\<lambda>cs. c # cs) (utf8_chars (drop (n - 1) s)) else None)"

definition from_utf8 :: "string \<Rightarrow> bool" where
  "from_utf8 s \<longleftrightarrow> utf8_chars s \<noteq> None"

definition char_count :: "string \<Rightarrow> nat" where
  "char_count s = length (filter (\<lambda>c. \<not> is_continuation c) s)"

definition is_char_boundary :: "string \<Rightarrow> nat \<Rightarrow> bool" where
  "is_char_boundary s i \<longleftrightarrow> i = 0 \<or> i = length s \<or> (i < length s \<and> \<not> is_continuation (s ! i))"

text \<open>The loop of \<open>bounded_utf8_prefix\<close>, and the function.\<close>

fun boundary_before :: "string \<Rightarrow> nat \<Rightarrow> nat" where
  "boundary_before s 0 = 0"
| "boundary_before s (Suc n) = (if is_char_boundary s (Suc n) then Suc n else boundary_before s n)"

definition bounded_utf8_prefix :: "string \<Rightarrow> nat \<Rightarrow> string" where
  "bounded_utf8_prefix v maximum = take (boundary_before v (min maximum (length v))) v"

section \<open>Decoding\<close>

lemma utf8_char_width: "utf8_char c \<Longrightarrow> c \<noteq> [] \<and> length c = utf8_width (hd c)"
  by (cases c rule: utf8_char.cases) (auto simp: utf8_width_def)

lemma utf8_char_lead: "utf8_char c \<Longrightarrow> \<not> is_continuation (hd c)"
  by (cases c rule: utf8_char.cases) (auto simp: is_continuation_def)

lemma utf8_char_tail: "utf8_char c \<Longrightarrow> x \<in> set (tl c) \<Longrightarrow> is_continuation x"
  by (cases c rule: utf8_char.cases) auto

lemma utf8_width_pos [simp]: "0 < utf8_width a"
  by (simp add: utf8_width_def)

lemma utf8_chars_append:
  assumes "utf8_char c"
  shows "utf8_chars (c @ s) = map_option (\<lambda>cs. c # cs) (utf8_chars s)"
proof -
  from utf8_char_width [OF assms] obtain a r where c: "c = a # r" and len: "length c = utf8_width a"
    by (cases c) auto
  have "take (utf8_width a) (a # r @ s) = c" using len c by (metis append_Cons append_eq_conv_conj)
  moreover have "drop (utf8_width a - 1) (r @ s) = s" using len c by simp
  ultimately show ?thesis using assms by (simp add: c Let_def)
qed

lemma utf8_chars_Some_iff: "utf8_chars s = Some cs \<longleftrightarrow> s = concat cs \<and> (\<forall>c \<in> set cs. utf8_char c)"
proof
  show "utf8_chars s = Some cs \<Longrightarrow> s = concat cs \<and> (\<forall>c \<in> set cs. utf8_char c)"
  proof (induction s arbitrary: cs rule: utf8_chars.induct)
    case (2 a s)
    let ?c = "take (utf8_width a) (a # s)"
    from "2.prems" obtain ds where c: "utf8_char ?c" and ds: "utf8_chars (drop (utf8_width a - 1) s) = Some ds"
      and cs: "cs = ?c # ds"
      by (auto simp: Let_def split: if_splits)
    have "drop (utf8_width a - 1) s = concat ds \<and> (\<forall>c \<in> set ds. utf8_char c)"
      by (rule "2.IH" [OF refl refl c ds])
    moreover have "a # s = ?c @ drop (utf8_width a - 1) s"
      by (metis Suc_diff_1 append_take_drop_id drop_Suc_Cons utf8_width_pos)
    ultimately show ?case using c cs by simp
  qed simp
next
  assume "s = concat cs \<and> (\<forall>c \<in> set cs. utf8_char c)"
  then show "utf8_chars s = Some cs"
    by (induction cs arbitrary: s) (auto simp: utf8_chars_append)
qed

lemma from_utf8_iff: "from_utf8 s \<longleftrightarrow> (\<exists>cs. s = concat cs \<and> (\<forall>c \<in> set cs. utf8_char c))"
  by (auto simp: from_utf8_def simp flip: utf8_chars_Some_iff)

lemma from_utf8_append: "from_utf8 a \<Longrightarrow> from_utf8 b \<Longrightarrow> from_utf8 (a @ b)"
  unfolding from_utf8_iff by (metis Un_iff concat_append set_append)

lemma from_utf8_ascii: "(\<And>c. c \<in> set s \<Longrightarrow> byte c < 128) \<Longrightarrow> from_utf8 s"
  unfolding from_utf8_iff by (intro exI [of _ "map (\<lambda>c. [c]) s"]) auto

section \<open>Prefixes at a character boundary\<close>

lemma nth_char_boundary:
  assumes "\<forall>c \<in> set cs. utf8_char c" and "i < length (concat cs)" and "\<not> is_continuation (concat cs ! i)"
  shows "\<exists>k \<le> length cs. take i (concat cs) = concat (take k cs)"
  using assms
proof (induction cs arbitrary: i)
  case (Cons c cs)
  show ?case
  proof (cases "i < length c")
    case True
    have "i = 0"
    proof (rule ccontr)
      assume "i \<noteq> 0"
      with True have "c ! i \<in> set (tl c)" by (cases c; cases i) auto
      with Cons.prems True show False using utf8_char_tail [of c] by (simp add: nth_append)
    qed
    then show ?thesis by (intro exI [of _ 0]) simp
  next
    case False
    with Cons.prems have "\<exists>k \<le> length cs. take (i - length c) (concat cs) = concat (take k cs)"
      by (intro Cons.IH) (auto simp: nth_append)
    then obtain k where "k \<le> length cs" "take (i - length c) (concat cs) = concat (take k cs)" by blast
    with False show ?thesis by (intro exI [of _ "Suc k"]) simp
  qed
qed simp

lemma char_boundary_prefix:
  assumes "\<forall>c \<in> set cs. utf8_char c" and "is_char_boundary (concat cs) i"
  shows "\<exists>k \<le> length cs. take i (concat cs) = concat (take k cs)"
  using assms(2) nth_char_boundary [OF assms(1)]
  unfolding is_char_boundary_def by (elim disjE) (force, force, blast)

lemma prefix_char_boundary:
  assumes "\<forall>c \<in> set cs. utf8_char c" and "k \<le> length cs"
  shows "is_char_boundary (concat cs) (length (concat (take k cs)))"
proof (cases "k = length cs")
  case False
  with assms(2) have k: "k < length cs" by simp
  have cs: "concat cs = concat (take k cs) @ cs ! k @ concat (drop (Suc k) cs)"
    using id_take_nth_drop [OF k] by (metis concat.simps(2) concat_append)
  have c: "utf8_char (cs ! k)" using assms(1) k by simp
  then have "cs ! k \<noteq> []" using utf8_char_width by blast
  then have "concat cs ! length (concat (take k cs)) = hd (cs ! k)"
    by (subst cs) (simp add: nth_append hd_conv_nth)
  moreover have "length (concat (take k cs)) < length (concat cs)"
    using \<open>cs ! k \<noteq> []\<close> arg_cong [OF cs, of length] by simp
  ultimately show ?thesis using utf8_char_lead [OF c] by (simp add: is_char_boundary_def)
qed (simp add: is_char_boundary_def)

lemma boundary_before_le: "boundary_before s n \<le> n"
  by (induction n) simp_all

lemma boundary_before_boundary: "is_char_boundary s (boundary_before s n)"
  by (induction n) (simp_all add: is_char_boundary_def)

lemma boundary_before_greatest: "is_char_boundary s i \<Longrightarrow> i \<le> n \<Longrightarrow> i \<le> boundary_before s n"
proof (induction n)
  case (Suc n)
  then show ?case by (cases "i = Suc n") (auto simp: le_Suc_eq)
qed simp

text \<open>
  Truncating a text to a byte limit never splits a character: the result is the longest prefix
  of whole characters that fits the limit, hence again valid UTF-8.
\<close>

theorem bounded_utf8_prefix_longest:
  assumes v: "utf8_chars v = Some cs"
  shows "\<exists>k \<le> length cs. bounded_utf8_prefix v maximum = concat (take k cs)
     \<and> length (bounded_utf8_prefix v maximum) \<le> maximum \<and> from_utf8 (bounded_utf8_prefix v maximum)
     \<and> (\<forall>j \<le> length cs. length (concat (take j cs)) \<le> maximum \<longrightarrow>
          length (concat (take j cs)) \<le> length (bounded_utf8_prefix v maximum))"
proof -
  let ?n = "min maximum (length v)"
  let ?b = "boundary_before v ?n"
  from v have cs: "v = concat cs" "\<forall>c \<in> set cs. utf8_char c" by (auto simp: utf8_chars_Some_iff)
  have len: "length (bounded_utf8_prefix v maximum) = ?b"
    using boundary_before_le [of v ?n] by (simp add: bounded_utf8_prefix_def)
  have "is_char_boundary (concat cs) ?b" using boundary_before_boundary [of v ?n] by (simp only: cs(1))
  from char_boundary_prefix [OF cs(2) this] obtain k
    where k: "k \<le> length cs" "bounded_utf8_prefix v maximum = concat (take k cs)"
    unfolding bounded_utf8_prefix_def by (metis cs(1))
  have "from_utf8 (concat (take k cs))" using cs(2) by (auto simp: from_utf8_iff dest: in_set_takeD)
  moreover have "length (concat (take j cs)) \<le> ?b"
    if j: "j \<le> length cs" "length (concat (take j cs)) \<le> maximum" for j
  proof -
    have "length (concat (take j cs)) \<le> length v"
      unfolding cs(1) by (metis append_take_drop_id concat_append le_add1 length_append)
    with j(2) show ?thesis
      using prefix_char_boundary [OF cs(2) j(1)] by (intro boundary_before_greatest) (simp_all add: cs(1))
  qed
  ultimately show ?thesis using k len boundary_before_le [of v ?n] by (intro exI [of _ k]) auto
qed

lemma bounded_utf8_prefix_longest_witness:
  "utf8_chars [CHR ''a'', char_of (195 :: nat), char_of (169 :: nat)]
     = Some [''a'', [char_of (195 :: nat), char_of (169 :: nat)]]
   \<and> from_utf8 (bounded_utf8_prefix [CHR ''a'', char_of (195 :: nat), char_of (169 :: nat)] 2)"
proof -
  have "utf8_chars [CHR ''a'', char_of (195 :: nat), char_of (169 :: nat)]
      = Some [''a'', [char_of (195 :: nat), char_of (169 :: nat)]]"
    by (subst utf8_chars_Some_iff) (simp add: is_continuation_def of_char_of)
  with bounded_utf8_prefix_longest [OF this, of 2] show ?thesis by blast
qed

end
