(* ===== verification/Working_Context.thy ===== *)
theory Working_Context
  imports Utf8
begin

text \<open>
  The working context of a tab (\<open>src/working_context.rs\<close>): secrets, the proxy state machine and its
  URL check, the tracked working directory, the shell commands built from paths and arguments, and
  the OSC 7 reports of the shell.  Variables of the process environment are an argument; the
  request and editor paths that only tests compile are left out.  Errors are the messages.
\<close>

section \<open>Secrets and proxies\<close>

definition OSC7_MAX_BYTES :: nat where
  "OSC7_MAX_BYTES = 4096"

definition CWD_MAX_CHARS :: nat where
  "CWD_MAX_CHARS = 4096"

definition PROXY_MAX_BYTES :: nat where
  "PROXY_MAX_BYTES = 8192"

datatype SecretValue = SecretValue (expose: string)

definition SecretValue_new :: "string \<Rightarrow> string + SecretValue" where
  "SecretValue_new v =
     (if PROXY_MAX_BYTES < length v then Err (''proxy value exceeds '' @ show_nat PROXY_MAX_BYTES @ '' bytes'')
      else if char_of (0 :: nat) \<in> set v \<or> (\<exists>c \<in> set v. c = CHR 0x0D \<or> c = CHR 0x0A)
      then Err ''proxy value contains a forbidden control character''
      else Ok (SecretValue v))"

datatype ProxySource = ProxySource_Launch | ProxySource_Off

fun ProxySource_as_str :: "ProxySource \<Rightarrow> string" where
  "ProxySource_as_str ProxySource_Launch = ''launch''"
| "ProxySource_as_str ProxySource_Off = ''off''"

datatype ProxyApplicationState =
    ProxyOff | ProxyLaunchApplied | ProxyPrepared | ProxySubmitted | ProxyApplied | ProxyFailed

fun ProxyApplicationState_as_str :: "ProxyApplicationState \<Rightarrow> string" where
  "ProxyApplicationState_as_str ProxyOff = ''off''"
| "ProxyApplicationState_as_str ProxyLaunchApplied = ''launch_applied''"
| "ProxyApplicationState_as_str ProxyPrepared = ''prepared''"
| "ProxyApplicationState_as_str ProxySubmitted = ''submitted''"
| "ProxyApplicationState_as_str ProxyApplied = ''applied''"
| "ProxyApplicationState_as_str ProxyFailed = ''failed''"

record ProxyFacts =
  pf_configured :: bool
  pf_source :: ProxySource
  pf_application_state :: ProxyApplicationState
  pf_request_pending :: bool

record ProxyState =
  px_http :: "SecretValue option"
  px_https :: "SecretValue option"
  px_source :: ProxySource
  px_application_state :: ProxyApplicationState

definition host_port_ok :: "string \<Rightarrow> bool" where
  "host_port_ok host_port =
     (case strip_prefix ''['' host_port of
        Some bracketed \<Rightarrow>
          (case split_once '']'' bracketed of
             None \<Rightarrow> False
           | Some (host_body, suffix) \<Rightarrow>
               host_body \<noteq> []
               \<and> list_all (\<lambda>c. is_ascii_digit c \<or> (97 :: nat) \<le> of_char c \<and> of_char c \<le> (102 :: nat)
                     \<or> (65 :: nat) \<le> of_char c \<and> of_char c \<le> (70 :: nat) \<or> c \<in> {CHR '':'', CHR ''.'', CHR ''%''})
                   host_body
               \<and> (suffix = []
                   \<or> (case Option.bind (strip_prefix '':'' suffix) (parse_unsigned 65535) of
                        Some port \<Rightarrow> port \<noteq> 0 | None \<Rightarrow> False)))
      | None \<Rightarrow>
          if 1 < length (filter (\<lambda>c. c = CHR '':'') host_port) then False
          else
            let (host, port) = (case rsplit_once CHR '':'' host_port of
                None \<Rightarrow> (host_port, 80)
              | Some (host, port) \<Rightarrow>
                  (host, case parse_unsigned 65535 port of Some n \<Rightarrow> n | None \<Rightarrow> 0))
            in port \<noteq> 0 \<and> host \<noteq> []
               \<and> list_all (\<lambda>c. is_ascii_alphanumeric c \<or> c \<in> {CHR ''.'', CHR ''-'', CHR ''_''}) host)"

text \<open>
  \<open>parse_proxy_url\<close> returns a unit struct, so it is the predicate that it returns one.  The default
  port of a URL without one is 80 or 443; only whether it is nonzero matters.
\<close>

definition parse_proxy_url :: "string \<Rightarrow> bool" where
  "parse_proxy_url v =
     (if v = [] \<or> PROXY_MAX_BYTES < length v \<or> has_control v \<or> has_whitespace v then False
      else (case split_once ''://'' v of
          None \<Rightarrow> False
        | Some (raw_scheme, rest) \<Rightarrow>
            if \<not> eq_ignore_ascii_case raw_scheme ''http'' \<and> \<not> eq_ignore_ascii_case raw_scheme ''https'' then False
            else
              let authority = takeWhile (\<lambda>c. c \<notin> {CHR ''/'', CHR ''?'', CHR ''#''}) rest in
              if authority = [] then False
              else
                let host_port = (case rsplit_once CHR ''@'' authority of None \<Rightarrow> authority | Some (_, host) \<Rightarrow> host)
                in host_port_ok host_port))"

definition nonempty_secret :: "string option \<Rightarrow> string + SecretValue option" where
  "nonempty_secret v =
     (case v of
        None \<Rightarrow> Ok None
      | Some t \<Rightarrow> if t = [] then Ok None else and_then (SecretValue_new t) (\<lambda>s. Ok (Some s)))"

definition ProxyState_new ::
  "string option \<Rightarrow> string option \<Rightarrow> ProxySource \<Rightarrow> ProxyApplicationState \<Rightarrow> string + ProxyState" where
  "ProxyState_new http https source application_state =
     (if list_ex (\<lambda>v. case v of None \<Rightarrow> False | Some t \<Rightarrow> t \<noteq> [] \<and> \<not> parse_proxy_url t) [http, https]
      then Err ''proxy URL must be a valid http:// or https:// URL''
      else
        and_then (nonempty_secret http) (\<lambda>http.
        and_then (nonempty_secret https) (\<lambda>https.
        let has_values = (http \<noteq> None \<or> https \<noteq> None);
            (source, application_state) =
              (if \<not> has_values \<and> application_state = ProxyLaunchApplied then (ProxySource_Off, ProxyOff)
               else (source, application_state))
        in Ok \<lparr>px_http = http, px_https = https, px_source = source, px_application_state = application_state\<rparr>)))"

definition find_variable :: "(string \<times> string) list \<Rightarrow> (string \<times> string) list \<Rightarrow> string \<Rightarrow> string option" where
  "find_variable environment vars name =
     (case find (\<lambda>(candidate, _). eq_ignore_ascii_case candidate name) (rev environment) of
        Some (_, v) \<Rightarrow> Some v
      | None \<Rightarrow> map_option snd (find (\<lambda>(candidate, _). eq_ignore_ascii_case candidate name) vars))"

definition ProxyState_from_environment ::
  "(string \<times> string) list \<Rightarrow> (string \<times> string) list \<Rightarrow> string + ProxyState" where
  "ProxyState_from_environment vars environment =
     ProxyState_new (find_variable environment vars ''HTTP_PROXY'') (find_variable environment vars ''HTTPS_PROXY'')
       ProxySource_Launch ProxyLaunchApplied"

definition proxy_has_values :: "ProxyState \<Rightarrow> bool" where
  "proxy_has_values s \<longleftrightarrow> px_http s \<noteq> None \<or> px_https s \<noteq> None"

definition proxy_configured :: "ProxyState \<Rightarrow> bool" where
  "proxy_configured s \<longleftrightarrow> proxy_has_values s
     \<and> (case px_application_state s of ProxyLaunchApplied \<Rightarrow> True | ProxyApplied \<Rightarrow> True | _ \<Rightarrow> False)"

definition proxy_request_pending :: "ProxyState \<Rightarrow> bool" where
  "proxy_request_pending s =
     (case px_application_state s of ProxyPrepared \<Rightarrow> True | ProxySubmitted \<Rightarrow> True | _ \<Rightarrow> False)"

definition proxy_facts :: "ProxyState \<Rightarrow> ProxyFacts" where
  "proxy_facts s = \<lparr>pf_configured = proxy_configured s, pf_source = px_source s,
     pf_application_state = px_application_state s, pf_request_pending = proxy_request_pending s\<rparr>"

definition proxy_transition ::
  "ProxyState \<Rightarrow> ProxyApplicationState \<Rightarrow> ProxyApplicationState \<Rightarrow> (string + unit) \<times> ProxyState" where
  "proxy_transition s expected next =
     (if px_application_state s \<noteq> expected
      then (Err (''proxy transition from '' @ ProxyApplicationState_as_str (px_application_state s) @ '' to ''
              @ ProxyApplicationState_as_str next @ '' is invalid''), s)
      else (Ok (), s\<lparr>px_application_state := next\<rparr>))"

definition mark_submitted :: "ProxyState \<Rightarrow> (string + unit) \<times> ProxyState" where
  "mark_submitted s = proxy_transition s ProxyPrepared ProxySubmitted"

definition mark_applied :: "ProxyState \<Rightarrow> (string + unit) \<times> ProxyState" where
  "mark_applied s = proxy_transition s ProxySubmitted ProxyApplied"

definition mark_failed :: "ProxyState \<Rightarrow> (string + unit) \<times> ProxyState" where
  "mark_failed s =
     (if px_application_state s = ProxyPrepared \<or> px_application_state s = ProxySubmitted
      then (Ok (), s\<lparr>px_application_state := ProxyFailed\<rparr>)
      else (Err (''proxy transition from '' @ ProxyApplicationState_as_str (px_application_state s)
              @ '' to failed is invalid''), s))"

section \<open>Working directories\<close>

datatype CwdSource = CwdLaunch | CwdOsc7 | CwdUserRequested | CwdUnknown

fun CwdSource_as_str :: "CwdSource \<Rightarrow> string" where
  "CwdSource_as_str CwdLaunch = ''launch''"
| "CwdSource_as_str CwdOsc7 = ''osc7''"
| "CwdSource_as_str CwdUserRequested = ''user_requested''"
| "CwdSource_as_str CwdUnknown = ''unknown''"

record CwdTracker =
  cw_path :: "string option"
  cw_confirmed_path :: "string option"
  cw_source :: CwdSource
  cw_pending :: bool

definition valid_display_path :: "string \<Rightarrow> bool" where
  "valid_display_path p \<longleftrightarrow> p \<noteq> [] \<and> char_count p \<le> CWD_MAX_CHARS \<and> \<not> has_control p"

definition validate_path :: "string \<Rightarrow> string + unit" where
  "validate_path p =
     (if p = [] then Err ''working directory cannot be empty''
      else if CWD_MAX_CHARS < char_count p
      then Err (''working directory exceeds '' @ show_nat CWD_MAX_CHARS @ '' characters'')
      else if \<not> valid_display_path p then Err ''working directory contains a control character''
      else Ok ())"

definition cwd_unknown :: CwdTracker where
  "cwd_unknown = \<lparr>cw_path = None, cw_confirmed_path = None, cw_source = CwdUnknown, cw_pending = False\<rparr>"

definition cwd_launch :: "string option \<Rightarrow> CwdTracker" where
  "cwd_launch p =
     (case p of
        None \<Rightarrow> cwd_unknown
      | Some q \<Rightarrow>
          if valid_display_path q
          then \<lparr>cw_path = Some q, cw_confirmed_path = Some q, cw_source = CwdLaunch, cw_pending = False\<rparr>
          else cwd_unknown)"

definition cwd_request :: "CwdTracker \<Rightarrow> string \<Rightarrow> (string + unit) \<times> CwdTracker" where
  "cwd_request t p =
     (case validate_path p of
        Inl e \<Rightarrow> (Err e, t)
      | Inr _ \<Rightarrow> (Ok (), t\<lparr>cw_path := Some p, cw_source := CwdUserRequested, cw_pending := True\<rparr>))"

definition confirm_osc7 :: "CwdTracker \<Rightarrow> string \<Rightarrow> CwdTracker" where
  "confirm_osc7 t p =
     t\<lparr>cw_path := Some p, cw_confirmed_path := Some p, cw_source := CwdOsc7, cw_pending := False\<rparr>"

section \<open>Shell commands\<close>

datatype ShellKind = ShellCmd | ShellPowerShell | ShellBash | ShellUnknown

definition ShellKind_from_program :: "string \<Rightarrow> ShellKind" where
  "ShellKind_from_program program =
     (let name = to_ascii_lowercase (after_last {CHR ''/'', CHR 0x5C} program) in
      if name \<in> {''cmd'', ''cmd.exe''} then ShellCmd
      else if name \<in> {''powershell'', ''powershell.exe'', ''pwsh'', ''pwsh.exe''} then ShellPowerShell
      else if name \<in> {''bash'', ''bash.exe'', ''sh'', ''sh.exe'', ''zsh'', ''zsh.exe''} then ShellBash
      else ShellUnknown)"

fun ShellKind_as_str :: "ShellKind \<Rightarrow> string" where
  "ShellKind_as_str ShellCmd = ''cmd''"
| "ShellKind_as_str ShellPowerShell = ''powershell''"
| "ShellKind_as_str ShellBash = ''bash''"
| "ShellKind_as_str ShellUnknown = ''unknown''"

abbreviation quote_char :: char where
  "quote_char \<equiv> CHR 0x27"

abbreviation double_quote_char :: char where
  "double_quote_char \<equiv> CHR 0x22"

abbreviation backslash_char :: char where
  "backslash_char \<equiv> CHR 0x5C"

definition quote_for_bash :: "string \<Rightarrow> string" where
  "quote_for_bash v =
     [quote_char] @ replace_char quote_char [quote_char, backslash_char, quote_char, quote_char] v @ [quote_char]"

definition quote_for_powershell :: "string \<Rightarrow> string" where
  "quote_for_powershell v = [quote_char] @ replace_char quote_char [quote_char, quote_char] v @ [quote_char]"

definition cmd_unsafe :: "string \<Rightarrow> bool" where
  "cmd_unsafe v \<longleftrightarrow> (\<exists>c \<in> set v. c \<in> {double_quote_char, CHR ''%'', CHR ''!''})"

definition cwd_command :: "ShellKind \<Rightarrow> string \<Rightarrow> string + string" where
  "cwd_command shell p =
     and_then (validate_path p) (\<lambda>_.
       case shell of
         ShellCmd \<Rightarrow>
           if cmd_unsafe p then Err ''cmd working directory contains a character that cannot be quoted safely''
           else Ok (''cd /d '' @ [double_quote_char] @ p @ [double_quote_char])
       | ShellPowerShell \<Rightarrow>
           Ok (''Set-Location -LiteralPath '' @ [quote_char]
               @ replace_char quote_char [quote_char, quote_char] p @ [quote_char])
       | ShellBash \<Rightarrow>
           Ok (''cd -- '' @ [quote_char]
               @ replace_char quote_char [quote_char, backslash_char, quote_char, quote_char] p @ [quote_char])
       | ShellUnknown \<Rightarrow> Err ''the active shell is unknown'')"

definition shell_command_for_child :: "string \<Rightarrow> string \<Rightarrow> string list \<Rightarrow> string + string list" where
  "shell_command_for_child shell_program command arguments =
     (if command = [] then Err ''shell command cannot be empty''
      else (case ShellKind_from_program shell_program of
          ShellCmd \<Rightarrow>
            if cmd_unsafe command \<or> list_ex cmd_unsafe (command # arguments)
            then Err ''cmd shell argument contains a character that cannot be quoted safely''
            else Ok ([shell_program, ''/d'', ''/s'', ''/c'', command] @ arguments)
        | ShellPowerShell \<Rightarrow>
            Ok [shell_program, ''-NoLogo'', ''-NoProfile'', ''-Command'',
                join '' '' (command # map quote_for_powershell arguments)]
        | ShellBash \<Rightarrow> Ok [shell_program, ''-lc'', join '' '' (command # map quote_for_bash arguments)]
        | ShellUnknown \<Rightarrow> Ok [shell_program, ''-lc'', join '' '' (command # map quote_for_bash arguments)]))"

section \<open>OSC 7 reports\<close>

definition hex_digit_value :: "char \<Rightarrow> nat option" where
  "hex_digit_value c =
     (if is_ascii_digit c then Some (of_char c - 48)
      else if (97 :: nat) \<le> of_char c \<and> of_char c \<le> (102 :: nat) then Some (of_char c - 97 + 10)
      else if (65 :: nat) \<le> of_char c \<and> of_char c \<le> (70 :: nat) then Some (of_char c - 65 + 10)
      else None)"

fun percent_bytes :: "string \<Rightarrow> string option" where
  "percent_bytes [] = Some []"
| "percent_bytes (c # cs) =
     (if c = CHR ''%'' then
        (case cs of
           high # low # rest \<Rightarrow>
             (case (hex_digit_value high, hex_digit_value low) of
                (Some h, Some l) \<Rightarrow> map_option (\<lambda>out. char_of (h * 16 + l) # out) (percent_bytes rest)
              | _ \<Rightarrow> None)
         | _ \<Rightarrow> None)
      else map_option (\<lambda>out. c # out) (percent_bytes cs))"

definition percent_decode :: "string \<Rightarrow> string option" where
  "percent_decode input =
     (case percent_bytes input of
        None \<Rightarrow> None
      | Some output \<Rightarrow> if list_ex is_ascii_control output then None else Some output)"

definition is_drive_path :: "string \<Rightarrow> bool" where
  "is_drive_path p \<longleftrightarrow> 3 \<le> length p \<and> p ! 0 = CHR ''/''
     \<and> ((65 :: nat) \<le> of_char (p ! 1) \<and> of_char (p ! 1) \<le> (90 :: nat)
        \<or> (97 :: nat) \<le> of_char (p ! 1) \<and> of_char (p ! 1) \<le> (122 :: nat))
     \<and> p ! 2 = CHR '':''"

definition parse_file_uri :: "string \<Rightarrow> string option \<Rightarrow> string option" where
  "parse_file_uri uri local_hostname =
     (if CHR ''?'' \<in> set uri \<or> CHR ''#'' \<in> set uri then None
      else (case strip_prefix ''file://'' uri of
          None \<Rightarrow> None
        | Some rest \<Rightarrow>
            if list_ex (\<lambda>c. (128 :: nat) \<le> of_char c) rest then None
            else (case position (\<lambda>c. c = CHR ''/'') rest of
                None \<Rightarrow> None
              | Some slash \<Rightarrow>
                  let authority = take slash rest in
                  if \<not> list_all (\<lambda>c. is_ascii_alphanumeric c \<or> c \<in> {CHR ''.'', CHR ''-'', CHR ''_''}) authority
                  then None
                  else if \<not> (authority = [] \<or> eq_ignore_ascii_case authority ''localhost''
                             \<or> (case local_hostname of None \<Rightarrow> False | Some host \<Rightarrow> eq_ignore_ascii_case authority host))
                  then None
                  else (case percent_decode (drop slash rest) of
                      None \<Rightarrow> None
                    | Some decoded \<Rightarrow>
                        if \<not> from_utf8 decoded then None
                        else
                          let p = (if is_drive_path decoded
                                   then replace_char CHR ''/'' [backslash_char] (tl decoded) else decoded)
                          in if valid_display_path p then Some p else None))))"

definition parse_osc7 :: "string list \<Rightarrow> string option \<Rightarrow> string option" where
  "parse_osc7 params local_hostname =
     (if length params \<noteq> 2 \<or> params ! 0 \<noteq> ''7'' \<or> OSC7_MAX_BYTES < length (params ! 1) then None
      else parse_file_uri (params ! 1) local_hostname)"

section \<open>Quoting\<close>

text \<open>
  Words of a POSIX shell command line as far as the built commands use them: single quotes keep
  every byte, a backslash outside quotes keeps the next byte, a space separates words, and plain
  bytes stand for themselves.  Every other byte outside quotes is an operator, an expansion or a
  comment, for which no words are defined.
\<close>

definition sh_plain :: "char \<Rightarrow> bool" where
  "sh_plain c \<longleftrightarrow> is_ascii_alphanumeric c \<or> c \<in> {CHR ''-'', CHR ''_'', CHR ''.'', CHR ''/''}"

fun sh_lex :: "bool \<Rightarrow> string option \<Rightarrow> string \<Rightarrow> string list option" where
  "sh_lex quoted word [] = (if quoted then None else Some (case word of None \<Rightarrow> [] | Some w \<Rightarrow> [w]))"
| "sh_lex quoted word (c # cs) =
     (let sofar = (case word of None \<Rightarrow> [] | Some w \<Rightarrow> w) in
      if quoted then
        (if c = quote_char then sh_lex False (Some sofar) cs else sh_lex True (Some (sofar @ [c])) cs)
      else if c = quote_char then sh_lex True (Some sofar) cs
      else if c = backslash_char then
        (case cs of [] \<Rightarrow> None | d # ds \<Rightarrow> sh_lex False (Some (sofar @ [d])) ds)
      else if c = CHR '' '' then
        map_option (\<lambda>ws. (case word of None \<Rightarrow> [] | Some w \<Rightarrow> [w]) @ ws) (sh_lex False None cs)
      else if sh_plain c then sh_lex False (Some (sofar @ [c])) cs
      else None)"

definition sh_words :: "string \<Rightarrow> string list option" where
  "sh_words line = sh_lex False None line"

lemma sh_lex_quoted:
  "sh_lex True (Some w) (replace_char quote_char [quote_char, backslash_char, quote_char, quote_char] v @ quote_char # rest)
     = sh_lex False (Some (w @ v)) rest"
  by (induction v arbitrary: w) (auto simp: replace_char_def)

lemma sh_lex_quote_for_bash: "sh_lex False None (quote_for_bash v @ rest) = sh_lex False (Some v) rest"
  using sh_lex_quoted [of "[]" v rest] by (simp add: quote_for_bash_def)

lemma sh_words_join: "sh_words (join '' '' (map quote_for_bash vs)) = Some vs"
proof (induction vs rule: induct_list012)
  case (2 v)
  show ?case using sh_lex_quote_for_bash [of v "[]"] by (simp add: sh_words_def)
next
  case (3 v w vs)
  have "sh_lex False None (quote_for_bash v @ '' '' @ join '' '' (map quote_for_bash (w # vs))) = Some (v # w # vs)"
    unfolding sh_lex_quote_for_bash using "3.IH"(2) by (simp add: sh_words_def)
  then show ?case by (simp add: sh_words_def)
qed (simp add: sh_words_def)

lemma join_Cons: "join sep (x # xs) = x @ (if xs = [] then [] else sep @ join sep xs)"
  by (cases xs) simp_all

text \<open>
  C27. No argument can break out of the command line of a POSIX shell: the line handed to \<open>-lc\<close> is
  the command followed by a text whose words are exactly the given arguments, and the command that
  changes the directory consists of exactly the words \<open>cd\<close>, \<open>--\<close> and the path, whatever quotes,
  spaces or operators the arguments and the path contain.
\<close>

theorem shell_words_survive:
  assumes shell: "ShellKind_from_program program \<in> {ShellBash, ShellUnknown}" and command: "command \<noteq> []"
    and p: "validate_path p = Ok ()"
  shows "(\<exists>rest. shell_command_for_child program command arguments = Ok [program, ''-lc'', command @ rest]
            \<and> sh_words rest = Some arguments)
       \<and> (\<exists>line. cwd_command ShellBash p = Ok line \<and> sh_words line = Some [''cd'', ''--'', p])"
proof
  let ?rest = "if arguments = [] then [] else '' '' @ join '' '' (map quote_for_bash arguments)"
  have "sh_words ?rest = Some arguments"
    using sh_words_join [of arguments] by (simp add: sh_words_def)
  moreover have "shell_command_for_child program command arguments = Ok [program, ''-lc'', command @ ?rest]"
    using shell command by (auto simp: shell_command_for_child_def join_Cons)
  ultimately show "\<exists>rest. shell_command_for_child program command arguments = Ok [program, ''-lc'', command @ rest]
      \<and> sh_words rest = Some arguments" by blast
next
  have "cwd_command ShellBash p = Ok (''cd -- '' @ quote_for_bash p)"
    using p by (simp add: cwd_command_def quote_for_bash_def)
  moreover have "sh_words (''cd -- '' @ quote_for_bash p) = Some [''cd'', ''--'', p]"
    using sh_lex_quote_for_bash [of p "[]"]
    by (simp add: sh_words_def sh_plain_def is_ascii_alphanumeric_def is_ascii_digit_def)
  ultimately show "\<exists>line. cwd_command ShellBash p = Ok line \<and> sh_words line = Some [''cd'', ''--'', p]" by blast
qed

lemma shell_words_survive_witness:
  "\<exists>rest. shell_command_for_child ''/bin/bash'' ''echo'' [''; rm -rf /''] = Ok [''/bin/bash'', ''-lc'', ''echo'' @ rest]
     \<and> sh_words rest = Some [''; rm -rf /'']"
proof -
  have s: "ShellKind_from_program ''/bin/bash'' \<in> {ShellBash, ShellUnknown}"
    by (simp add: ShellKind_from_program_def after_last_def to_ascii_lowercase_def)
  have p: "validate_path ''/'' = Ok ()"
    by (simp add: validate_path_def valid_display_path_def char_count_def is_continuation_def CWD_MAX_CHARS_def
        is_ascii_control_def)
  show ?thesis using shell_words_survive [OF s _ p, of "''echo''" "[''; rm -rf /'']"] by simp
qed

section \<open>The tracked directory\<close>

datatype cwd_op = CwdRequest string | CwdReport "string list" "string option"

text \<open>What the tab does with a user's request and with an OSC 7 sequence of the shell.\<close>

fun cwd_step :: "cwd_op \<Rightarrow> CwdTracker \<Rightarrow> CwdTracker" where
  "cwd_step (CwdRequest p) t = snd (cwd_request t p)"
| "cwd_step (CwdReport params host) t =
     (case parse_osc7 params host of None \<Rightarrow> t | Some p \<Rightarrow> confirm_osc7 t p)"

definition cwd_ok :: "CwdTracker \<Rightarrow> bool" where
  "cwd_ok t \<longleftrightarrow>
     (\<forall>p. cw_path t = Some p \<longrightarrow> valid_display_path p)
     \<and> (\<forall>p. cw_confirmed_path t = Some p \<longrightarrow> valid_display_path p)
     \<and> (cw_pending t \<longleftrightarrow> cw_source t = CwdUserRequested)
     \<and> (\<not> cw_pending t \<longrightarrow> cw_path t = cw_confirmed_path t)
     \<and> (cw_source t = CwdUnknown \<longleftrightarrow> cw_path t = None)"

lemma validate_path_Ok_iff: "validate_path p = Ok () \<longleftrightarrow> valid_display_path p"
  by (auto simp: validate_path_def valid_display_path_def)

lemma parse_osc7_valid: "parse_osc7 params host = Some p \<Longrightarrow> valid_display_path p"
  by (auto simp: parse_osc7_def parse_file_uri_def Let_def split: if_splits option.splits)

lemma cwd_ok_step: "cwd_ok t \<Longrightarrow> cwd_ok (cwd_step op t)"
  by (cases op)
     (auto simp: cwd_ok_def cwd_request_def confirm_osc7_def validate_path_Ok_iff parse_osc7_valid
       split: sum.splits option.splits)

text \<open>
  C29. The tracked directory is well formed after every sequence of requests and OSC 7 reports: a
  shown or confirmed path is a valid display path, a request is pending exactly while the shown
  path is the user's, and otherwise the shown path is the confirmed one.
\<close>

theorem cwd_tracker_well_formed: "cwd_ok (fold cwd_step ops (cwd_launch p))"
proof (rule fold_invariant [where Q = "\<lambda>_. True"])
  show "cwd_ok (cwd_launch p)" by (auto simp: cwd_launch_def cwd_ok_def cwd_unknown_def split: option.splits)
qed (simp_all add: cwd_ok_step)

section \<open>Reported directories\<close>

text \<open>
  The percent encoding of a path as shells report it: unreserved bytes and slashes stand for
  themselves, every other byte is a percent sign and two hexadecimal digits.
\<close>

definition unreserved :: "char \<Rightarrow> bool" where
  "unreserved c \<longleftrightarrow> is_ascii_alphanumeric c \<or> c \<in> {CHR ''-'', CHR ''.'', CHR ''_'', CHR ''~'', CHR ''/''}"

definition percent_encode_byte :: "char \<Rightarrow> string" where
  "percent_encode_byte c =
     (if unreserved c then [c]
      else [CHR ''%'', digit_char (of_char c div 16), digit_char (of_char c mod 16)])"

definition percent_encode :: "string \<Rightarrow> string" where
  "percent_encode p = concat (map percent_encode_byte p)"

lemma hex_digit_value_digit_char: "d < 16 \<Longrightarrow> hex_digit_value (digit_char d) = Some d"
  by (auto simp: hex_digit_value_def digit_char_def is_ascii_digit_def of_char_of)

lemma unreserved_not_percent: "unreserved c \<Longrightarrow> c \<noteq> CHR ''%''"
  by (auto simp: unreserved_def is_ascii_alphanumeric_def is_ascii_digit_def)

lemma of_char_less: "of_char c < (256 :: nat)"
  using nat_of_char_less_256 [of c] by simp

lemma percent_bytes_encode_byte:
  "percent_bytes (percent_encode_byte c @ s) = map_option (\<lambda>out. c # out) (percent_bytes s)"
proof (cases "unreserved c")
  case True
  with unreserved_not_percent show ?thesis by (simp add: percent_encode_byte_def)
next
  case False
  have lt: "of_char c div 16 < (16 :: nat)" using of_char_less [of c] by (simp add: div_less_iff_less_mult)
  have "hex_digit_value (digit_char (of_char c mod 16)) = Some (of_char c mod 16)"
    by (rule hex_digit_value_digit_char) simp
  moreover have "char_of (of_char c div 16 * 16 + of_char c mod 16 :: nat) = c"
    by (simp only: div_mult_mod_eq char_of_char)
  ultimately show ?thesis
    using False hex_digit_value_digit_char [OF lt] by (simp add: percent_encode_byte_def)
qed

lemma percent_bytes_encode: "percent_bytes (percent_encode p) = Some p"
  by (induction p) (simp_all add: percent_encode_def percent_bytes_encode_byte)

lemma has_control_ascii: "c \<in> set p \<Longrightarrow> is_ascii_control c \<Longrightarrow> has_control p"
  by (induction p) auto

lemma percent_decode_encode: "\<not> has_control p \<Longrightarrow> percent_decode (percent_encode p) = Some p"
  using has_control_ascii by (auto simp: percent_decode_def percent_bytes_encode list_ex_iff)

lemma digit_char_alphanumeric: "d < 16 \<Longrightarrow> is_ascii_alphanumeric (digit_char d)"
  by (auto simp: digit_char_def is_ascii_alphanumeric_def is_ascii_digit_def of_char_of)

lemma percent_encode_chars: "c \<in> set (percent_encode p) \<Longrightarrow> unreserved c \<or> c = CHR ''%''"
proof -
  assume "c \<in> set (percent_encode p)"
  then obtain x where "c \<in> set (percent_encode_byte x)" by (auto simp: percent_encode_def)
  moreover have "of_char x div 16 < (16 :: nat)" "of_char x mod 16 < (16 :: nat)"
    using of_char_less [of x] by (simp_all add: div_less_iff_less_mult)
  then have "unreserved (digit_char (of_char x div 16))" "unreserved (digit_char (of_char x mod 16))"
    by (simp_all only: unreserved_def digit_char_alphanumeric simp_thms)
  ultimately show ?thesis by (auto simp: percent_encode_byte_def split: if_splits)
qed

definition host_char :: "char \<Rightarrow> bool" where
  "host_char c \<longleftrightarrow> is_ascii_alphanumeric c \<or> c \<in> {CHR ''.'', CHR ''-'', CHR ''_''}"

lemma host_char_plain: "host_char c \<Longrightarrow> c \<notin> {CHR ''/'', CHR ''?'', CHR ''#''} \<and> of_char c < (128 :: nat)"
  by (auto simp: host_char_def is_ascii_alphanumeric_def is_ascii_digit_def)

lemma unreserved_plain: "unreserved c \<or> c = CHR ''%'' \<Longrightarrow> c \<notin> {CHR ''?'', CHR ''#''} \<and> of_char c < (128 :: nat)"
  by (auto simp: unreserved_def is_ascii_alphanumeric_def is_ascii_digit_def)

lemma position_first: "\<forall>c \<in> set a. \<not> P c \<Longrightarrow> P x \<Longrightarrow> position P (a @ x # b) = Some (length a)"
  by (induction a) auto

definition local_authority :: "string option \<Rightarrow> string \<Rightarrow> bool" where
  "local_authority local_hostname host \<longleftrightarrow> host = [] \<or> eq_ignore_ascii_case host ''localhost''
     \<or> (\<exists>own. local_hostname = Some own \<and> eq_ignore_ascii_case host own)"

text \<open>
  C28. A directory reported by the local shell is shown as it is: the percent-encoded file URI of
  every valid absolute path that is no drive path, under the own host name, \<open>localhost\<close> or no
  host, decodes to exactly that path.
\<close>

theorem osc7_roundtrip:
  assumes host: "list_all host_char host" "local_authority local_hostname host"
    and p: "valid_display_path (CHR ''/'' # p)" "from_utf8 (CHR ''/'' # p)" "\<not> is_drive_path (CHR ''/'' # p)"
    and len: "length (''file://'' @ host @ percent_encode (CHR ''/'' # p)) \<le> OSC7_MAX_BYTES"
  shows "parse_osc7 [''7'', ''file://'' @ host @ percent_encode (CHR ''/'' # p)] local_hostname = Some (CHR ''/'' # p)"
proof -
  let ?p = "CHR ''/'' # p"
  let ?rest = "host @ percent_encode ?p"
  have enc: "percent_encode ?p = CHR ''/'' # percent_encode p"
    by (simp add: percent_encode_def percent_encode_byte_def unreserved_def)
  have hc: "c \<notin> {CHR ''/'', CHR ''?'', CHR ''#''} \<and> of_char c < (128 :: nat)" if "c \<in> set host" for c
    using host(1) that host_char_plain by (auto simp: list_all_iff)
  have pc: "c \<notin> {CHR ''?'', CHR ''#''} \<and> of_char c < (128 :: nat)" if "c \<in> set (percent_encode ?p)" for c
    using percent_encode_chars [OF that] unreserved_plain by blast
  have no: "CHR ''?'' \<notin> set (''file://'' @ ?rest)" "CHR ''#'' \<notin> set (''file://'' @ ?rest)"
    using hc pc by auto
  have ascii: "\<not> list_ex (\<lambda>c. (128 :: nat) \<le> of_char c) ?rest"
    using hc pc by (auto simp: list_ex_iff not_le)
  have slash: "position (\<lambda>c. c = CHR ''/'') ?rest = Some (length host)"
    unfolding enc using hc by (intro position_first) auto
  have dec: "percent_decode (percent_encode ?p) = Some ?p"
    using p(1) by (intro percent_decode_encode) (simp add: valid_display_path_def)
  have strip: "strip_prefix ''file://'' (''file://'' @ ?rest) = Some ?rest" by (simp add: strip_prefix_def)
  have auth: "list_all (\<lambda>c. is_ascii_alphanumeric c \<or> c \<in> {CHR ''.'', CHR ''-'', CHR ''_''}) host"
    using host(1) by (simp add: list_all_iff host_char_def)
  have own: "host = [] \<or> eq_ignore_ascii_case host ''localhost''
      \<or> (case local_hostname of None \<Rightarrow> False | Some h \<Rightarrow> eq_ignore_ascii_case host h)"
    using host(2) by (auto simp: local_authority_def)
  have "parse_file_uri (''file://'' @ ?rest) local_hostname = Some ?p"
    unfolding parse_file_uri_def using no ascii strip slash dec auth own p by (simp add: Let_def)
  with len show ?thesis by (simp add: parse_osc7_def)
qed

lemma osc7_roundtrip_witness:
  "parse_osc7 [''7'', ''file://'' @ ''box'' @ percent_encode ''/a b''] (Some ''BOX'') = Some ''/a b''"
proof -
  have "list_all host_char ''box''" by (simp add: host_char_def is_ascii_alphanumeric_def)
  moreover have "eq_ignore_ascii_case ''box'' ''BOX''" by code_simp
  then have "local_authority (Some ''BOX'') ''box''" by (simp add: local_authority_def)
  moreover have "valid_display_path ''/a b''"
    by (simp add: valid_display_path_def char_count_def is_continuation_def CWD_MAX_CHARS_def is_ascii_control_def)
  moreover have "from_utf8 ''/a b''" by (rule from_utf8_ascii) auto
  moreover have "\<not> is_drive_path ''/a b''" by (simp add: is_drive_path_def)
  moreover have "length (''file://'' @ ''box'' @ percent_encode ''/a b'') \<le> OSC7_MAX_BYTES"
    by (simp add: percent_encode_def percent_encode_byte_def OSC7_MAX_BYTES_def unreserved_def)
  ultimately show ?thesis by (rule osc7_roundtrip)
qed

end
