(* ===== verification/Terminal_Runtime.thy ===== *)
theory Terminal_Runtime
  imports Proxy_Redaction Terminal_Cursor Working_Context
begin

text \<open>
  A terminal tab (\<open>src/terminal_runtime.rs\<close>): the state that polling its process, sending input and
  submitting a composer text change.  The screen is the third-party \<open>vt100\<close> parser: its state is a
  type parameter, \<open>process\<close> feeds it bytes and \<open>take_cwd\<close> takes the directory its callbacks stored.
  Writing to the pseudoterminal is the argument \<open>written\<close> (an error text, or none), the clock is the
  argument \<open>now\<close> (one reading of it per poll), and the events drained from the channel are the argument of \<open>poll\<close>.  Threads and
  native handles are left out.
\<close>

section \<open>Model\<close>

definition COMPOSER_SUBMIT_DELAY :: duration where
  "COMPOSER_SUBMIT_DELAY = 500000000"

definition RAW_OUTPUT_LIMIT :: nat where
  "RAW_OUTPUT_LIMIT = 1024 * 1024"

definition PROXY_CONFIRMATION_TIMEOUT :: duration where
  "PROXY_CONFIRMATION_TIMEOUT = 10000000000"

record PendingProxyConfirmation =
  pc_marker :: string
  pc_tail :: bytes
  pc_deadline :: instant

datatype PtyEvent =
    PtyOutput bytes
  | PtyReaderClosed
  | PtyReaderError string
  | PtyExited u32
  | PtyProcessError string

text \<open>A launch without its native handles: the window, the wake signal and the session name of the child.\<close>

record TerminalLaunch =
  tlc_id :: u64
  tlc_index :: u32
  tlc_parent_id :: "u64 option"
  tlc_title :: "string option"
  tlc_command_line :: "string list"
  tlc_tab_environment :: "(string \<times> string) list"
  tlc_initial_size :: "u16 \<times> u16"

record 'p TerminalTab =
  tb_id :: u64
  tb_index :: u32
  tb_parent_id :: "u64 option"
  tb_title :: string
  tb_note :: string
  tb_command_name :: string
  tb_command_line :: "string list"
  tb_environment_names :: "string list"
  tb_process_id :: "u32 option"
  tb_shell_kind :: ShellKind
  tb_cwd :: CwdTracker
  tb_proxy :: ProxyState
  tb_composer :: string
  tb_sensitive_composer :: "SecretValue option"
  tb_sensitive_proxy_marker :: "string option"
  tb_pending_proxy_confirmation :: "PendingProxyConfirmation option"
  tb_proxy_redaction_needles :: "SecretValue list"
  tb_proxy_redaction_pending :: bytes
  tb_parser :: 'p
  tb_cursor_tracker :: DecscusrTracker
  tb_exited :: "u32 option"
  tb_error :: "string option"
  tb_last_size :: "u16 \<times> u16"
  tb_input_bytes :: nat
  tb_input_writes :: nat
  tb_submission :: SubmissionState
  tb_submission_enter_written :: "bool option"
  tb_lifecycle :: TerminalLifecycle
  tb_output_bytes :: nat
  tb_raw_output :: BoundedByteRing

text \<open>The needles of a launch: the proxy values, each once.\<close>

definition redaction_needles :: "ProxyState \<Rightarrow> string + SecretValue list" where
  "redaction_needles proxy =
     fold (\<lambda>v acc. and_then acc (\<lambda>needles.
             if list_ex (\<lambda>needle. expose needle = v) needles then Ok needles
             else and_then (SecretValue_new v) (\<lambda>secret. Ok (needles @ [secret]))))
       (List.map_filter (map_option expose) [px_http proxy, px_https proxy]) (Ok [])"

text \<open>
  The tab a launch creates, given the resolved program with its file name, the process, the
  directory and the fresh screen.
\<close>

definition initial_tab ::
  "TerminalLaunch \<Rightarrow> string \<Rightarrow> string \<Rightarrow> u32 option \<Rightarrow> string option \<Rightarrow> ProxyState \<Rightarrow> SecretValue list \<Rightarrow> 'p
   \<Rightarrow> 'p TerminalTab" where
  "initial_tab launch program command_name process_id launch_cwd proxy needles parser =
     \<lparr>tb_id = tlc_id launch,
      tb_index = tlc_index launch,
      tb_parent_id = tlc_parent_id launch,
      tb_title = (case tlc_title launch of Some title \<Rightarrow> title | None \<Rightarrow> command_name),
      tb_note = [],
      tb_command_name = command_name,
      tb_command_line =
        (if tlc_command_line launch = [] then [program] else tlc_command_line launch),
      tb_environment_names = map fst (tlc_tab_environment launch),
      tb_process_id = process_id,
      tb_shell_kind = ShellKind_from_program program,
      tb_cwd = cwd_launch launch_cwd,
      tb_proxy = proxy,
      tb_composer = [],
      tb_sensitive_composer = None,
      tb_sensitive_proxy_marker = None,
      tb_pending_proxy_confirmation = None,
      tb_proxy_redaction_needles = needles,
      tb_proxy_redaction_pending = [],
      tb_parser = parser,
      tb_cursor_tracker = DecscusrTracker_default,
      tb_exited = None,
      tb_error = None,
      tb_last_size = tlc_initial_size launch,
      tb_input_bytes = 0,
      tb_input_writes = 0,
      tb_submission = SubmissionIdle,
      tb_submission_enter_written = None,
      tb_lifecycle = TerminalLifecycle_default,
      tb_output_bytes = 0,
      tb_raw_output = ring_new RAW_OUTPUT_LIMIT\<rparr>"

text \<open>
  \<open>spawn\<close>, with what it asks of the operating system: the default shell, the working directory, the
  endpoint and the variables of the process, the start of the child (its process id, or the error
  with its context) and the fresh screen.  \<open>Path::file_name\<close> is the one of Unix.
\<close>

record 'p native_start =
  ns_default_shell :: string
  ns_launch_cwd :: "string option"
  ns_endpoint_error :: "string option"
  ns_vars :: "(string \<times> string) list"
  ns_started :: "string + u32"
  ns_parser :: "u16 \<times> u16 \<Rightarrow> 'p"

definition file_name :: "string \<Rightarrow> string option" where
  "file_name p =
     (let components = filter (\<lambda>c. c \<noteq> [] \<and> c \<noteq> ''.'') (split_on CHR ''/'' p)
      in if components = [] \<or> last components = ''..'' then None else Some (last components))"

definition spawn :: "'p native_start \<Rightarrow> TerminalLaunch \<Rightarrow> string + 'p TerminalTab" where
  "spawn native launch =
     (let program = (case tlc_command_line launch of [] \<Rightarrow> ns_default_shell native | first # _ \<Rightarrow> first)
      in (case ns_endpoint_error native of
            Some e \<Rightarrow> Err e
          | None \<Rightarrow>
              and_then (ProxyState_from_environment (ns_vars native) (tlc_tab_environment launch)) (\<lambda>proxy.
              and_then (redaction_needles proxy) (\<lambda>needles.
              and_then (ns_started native) (\<lambda>process_id.
              let command_name = (case file_name program of Some name \<Rightarrow> name | None \<Rightarrow> program)
              in Ok (initial_tab launch program command_name (Some process_id) (ns_launch_cwd native) proxy needles
                       (ns_parser native (tlc_initial_size launch))))))))"

definition observation :: "'p TerminalTab \<Rightarrow> TerminalObservation" where
  "observation tab =
     (let process_finished = (tb_exited tab \<noteq> None \<or> tb_error tab \<noteq> None) in
      \<lparr>ob_process_id = tb_process_id tab,
       ob_exit_code = tb_exited tab,
       ob_error = tb_error tab,
       ob_input_bytes = tb_input_bytes tab,
       ob_input_writes = tb_input_writes tab,
       ob_output_bytes = tb_output_bytes tab,
       ob_submit_pending = submission_is_pending (tb_submission tab),
       ob_submission_enter_written = tb_submission_enter_written tab,
       ob_reader_closed = tl_reader_closed (tb_lifecycle tab),
       ob_parser_drained = tl_parser_drained (tb_lifecycle tab),
       ob_finalized = lifecycle_finalized (tb_lifecycle tab) process_finished\<rparr>)"

definition begin_proxy_confirmation :: "instant \<Rightarrow> string \<Rightarrow> 'p TerminalTab \<Rightarrow> 'p TerminalTab" where
  "begin_proxy_confirmation now marker tab =
     tab\<lparr>tb_pending_proxy_confirmation :=
       Some \<lparr>pc_marker = marker, pc_tail = [], pc_deadline = now + PROXY_CONFIRMATION_TIMEOUT\<rparr>\<rparr>"

text \<open>\<open>windows(marker.len()).any(|window| window == marker)\<close>, for a nonempty marker.\<close>

definition has_window :: "bytes \<Rightarrow> bytes \<Rightarrow> bool" where
  "has_window marker tail \<longleftrightarrow>
     list_ex (\<lambda>i. take (length marker) (drop i tail) = marker) [0 ..< length tail + 1 - length marker]"

definition observe_proxy_confirmation :: "bytes \<Rightarrow> 'p TerminalTab \<Rightarrow> 'p TerminalTab" where
  "observe_proxy_confirmation bytes tab =
     (case tb_pending_proxy_confirmation tab of
        None \<Rightarrow> tab
      | Some pending \<Rightarrow>
          let marker = pc_marker pending;
              tail = pc_tail pending @ bytes
          in if has_window marker tail
             then tab\<lparr>tb_pending_proxy_confirmation := None, tb_proxy := snd (mark_applied (tb_proxy tab))\<rparr>
             else
               let retained = length marker - 1;
                   tail' = (if retained < length tail then drop (length tail - retained) tail else tail)
               in tab\<lparr>tb_pending_proxy_confirmation := Some (pending\<lparr>pc_tail := tail'\<rparr>)\<rparr>)"

abbreviation needle_bytes :: "'p TerminalTab \<Rightarrow> bytes list" where
  "needle_bytes tab \<equiv> map expose (tb_proxy_redaction_needles tab)"

definition redact_proxy_output :: "bytes \<Rightarrow> bool \<Rightarrow> 'p TerminalTab \<Rightarrow> bytes \<times> 'p TerminalTab" where
  "redact_proxy_output bytes flush tab =
     (case redact_proxy_stream_chunk (tb_proxy_redaction_pending tab) (needle_bytes tab) bytes flush of
        (output, pending) \<Rightarrow> (output, tab\<lparr>tb_proxy_redaction_pending := pending\<rparr>))"

text \<open>The counter, the cursor tracker, the screen and the ring see the same redacted bytes.\<close>

definition record_output :: "('p \<Rightarrow> bytes \<Rightarrow> 'p) \<Rightarrow> bytes \<Rightarrow> 'p TerminalTab \<Rightarrow> 'p TerminalTab" where
  "record_output process bytes tab =
     tab\<lparr>tb_output_bytes := tb_output_bytes tab + length bytes,
         tb_cursor_tracker := feed bytes (tb_cursor_tracker tab),
         tb_parser := process (tb_parser tab) bytes,
         tb_raw_output := ring_extend (tb_raw_output tab) bytes\<rparr>"

definition finish_output_stream :: "('p \<Rightarrow> bytes \<Rightarrow> 'p) \<Rightarrow> 'p TerminalTab \<Rightarrow> 'p TerminalTab" where
  "finish_output_stream process tab =
     (if tl_reader_closed (tb_lifecycle tab) then tab
      else (case redact_proxy_output [] True tab of
          (tail, tab') \<Rightarrow>
            let tab'' = record_output process tail tab'
            in tab''\<lparr>tb_lifecycle := close_reader_after_parser_drain (tb_lifecycle tab'')\<rparr>))"

text \<open>One event of the loop of \<open>poll\<close>.\<close>

fun poll_event ::
  "('p \<Rightarrow> bytes \<Rightarrow> 'p) \<Rightarrow> ('p \<Rightarrow> string option \<times> 'p) \<Rightarrow> PtyEvent \<Rightarrow> 'p TerminalTab \<Rightarrow> 'p TerminalTab" where
  "poll_event process take_cwd (PtyOutput bytes) tab =
     (if tl_reader_closed (tb_lifecycle tab)
      then tab\<lparr>tb_error := Some ''terminal output arrived after the reader was finalized''\<rparr>
      else (case redact_proxy_output bytes False tab of
          (bytes, tab) \<Rightarrow>
            let tab = observe_proxy_confirmation bytes tab;
                tab = record_output process bytes tab
            in (case take_cwd (tb_parser tab) of
                (None, parser) \<Rightarrow> tab\<lparr>tb_parser := parser\<rparr>
              | (Some p, parser) \<Rightarrow> tab\<lparr>tb_parser := parser, tb_cwd := confirm_osc7 (tb_cwd tab) p\<rparr>)))"
| "poll_event process take_cwd PtyReaderClosed tab = finish_output_stream process tab"
| "poll_event process take_cwd (PtyReaderError e) tab =
     (finish_output_stream process tab)\<lparr>tb_error := Some (''terminal output failed: '' @ e)\<rparr>"
| "poll_event process take_cwd (PtyExited code) tab = tab\<lparr>tb_exited := Some code\<rparr>"
| "poll_event process take_cwd (PtyProcessError e) tab = tab\<lparr>tb_error := Some e\<rparr>"

definition tab_send :: "string option \<Rightarrow> bytes \<Rightarrow> 'p TerminalTab \<Rightarrow> bool \<times> 'p TerminalTab" where
  "tab_send written bytes tab =
     (if tb_exited tab \<noteq> None \<or> tb_error tab \<noteq> None \<or> tl_reader_closed (tb_lifecycle tab) then (False, tab)
      else (case written of
          Some e \<Rightarrow> (False, tab\<lparr>tb_error := Some (''input failed: '' @ e)\<rparr>)
        | None \<Rightarrow> (True, tab\<lparr>tb_input_bytes := tb_input_bytes tab + length bytes,
                            tb_input_writes := tb_input_writes tab + 1\<rparr>)))"

definition poll ::
  "('p \<Rightarrow> bytes \<Rightarrow> 'p) \<Rightarrow> ('p \<Rightarrow> string option \<times> 'p) \<Rightarrow> PtyEvent list \<Rightarrow> instant \<Rightarrow> string option
   \<Rightarrow> 'p TerminalTab \<Rightarrow> bool \<times> 'p TerminalTab" where
  "poll process take_cwd events now written tab =
     (let tab = fold (poll_event process take_cwd) events tab;
          changed = (events \<noteq> []);
          (due, submission) = take_if_due (tb_submission tab) now;
          tab = tab\<lparr>tb_submission := submission\<rparr>;
          (changed, tab) =
            (if due then
               let (sent, tab) = tab_send written [CHR 0x0D] tab
               in (True, tab\<lparr>tb_submission_enter_written := Some sent\<rparr>)
             else (changed, tab))
      in (case tb_pending_proxy_confirmation tab of
            Some pending \<Rightarrow>
              if pc_deadline pending \<le> now \<or> tb_exited tab \<noteq> None \<or> tb_error tab \<noteq> None
              then (True, tab\<lparr>tb_pending_proxy_confirmation := None, tb_proxy := snd (mark_failed (tb_proxy tab))\<rparr>)
              else (changed, tab)
          | None \<Rightarrow> (changed, tab)))"

definition tab_submit :: "string option \<Rightarrow> instant \<Rightarrow> bytes \<Rightarrow> 'p TerminalTab \<Rightarrow> bool \<times> 'p TerminalTab" where
  "tab_submit written now input tab =
     (if submission_is_pending (tb_submission tab) then (False, tab)
      else (case tab_send written input tab of
          (False, tab) \<Rightarrow> (False, tab)
        | (True, tab) \<Rightarrow>
            (case schedule (tb_submission tab) now COMPOSER_SUBMIT_DELAY of
               (ok, submission) \<Rightarrow> (ok, tab\<lparr>tb_submission_enter_written := None, tb_submission := submission\<rparr>))))"

definition tab_submit_sensitive :: "string option \<Rightarrow> instant \<Rightarrow> bytes \<Rightarrow> 'p TerminalTab \<Rightarrow> bool \<times> 'p TerminalTab" where
  "tab_submit_sensitive written now input tab =
     (if submission_is_pending (tb_submission tab) \<or> tb_exited tab \<noteq> None \<or> tb_error tab \<noteq> None
         \<or> tl_reader_closed (tb_lifecycle tab) then (False, tab)
      else (case written of
          Some e \<Rightarrow> (False, tab\<lparr>tb_error := Some (''sensitive input failed: '' @ e)\<rparr>)
        | None \<Rightarrow>
            (case schedule (tb_submission tab) now COMPOSER_SUBMIT_DELAY of
               (ok, submission) \<Rightarrow>
                 (ok, tab\<lparr>tb_input_bytes := tb_input_bytes tab + length PROXY_REDACTION_MARKER,
                          tb_input_writes := tb_input_writes tab + 1,
                          tb_submission_enter_written := None, tb_submission := submission\<rparr>))))"

text \<open>\<open>resize\<close>: the screen and the remembered size change only after the native resize succeeded.\<close>

definition tab_resize ::
  "('p \<Rightarrow> u16 \<times> u16 \<Rightarrow> 'p) \<Rightarrow> 'e option \<Rightarrow> u16 \<times> u16 \<Rightarrow> 'p TerminalTab \<Rightarrow> ('e + bool) \<times> 'p TerminalTab" where
  "tab_resize set_size native_error rows_cols tab =
     (if tb_last_size tab = rows_cols then (Ok False, tab)
      else (case native_error of
          Some e \<Rightarrow> (Err e, tab)
        | None \<Rightarrow> (Ok True, tab\<lparr>tb_parser := set_size (tb_parser tab) rows_cols, tb_last_size := rows_cols\<rparr>)))"

text \<open>The scrollback row a \<open>scroll-pane\<close> action asks for.\<close>

definition scroll_request :: "u16 \<Rightarrow> nat \<Rightarrow> string \<Rightarrow> nat option \<Rightarrow> string + nat" where
  "scroll_request rows current action count =
     (let page = max (unat rows - 1) 1;
          n = (case count of Some k \<Rightarrow> k | None \<Rightarrow> 1);
          m = (case count of Some k \<Rightarrow> k | None \<Rightarrow> page)
      in if action = ''up'' then Ok (usize_saturating_add current n)
         else if action = ''down'' then Ok (current - n)
         else if action = ''page-up'' then Ok (usize_saturating_add current m)
         else if action = ''page-down'' then Ok (current - m)
         else if action = ''top'' \<and> count = None then Ok usize_max
         else if action = ''bottom'' \<and> count = None then Ok 0
         else if action = ''top'' \<or> action = ''bottom'' then Err (action @ '' does not accept a row count'')
         else Err ''usage: scroll-pane [-t target] up|down|page-up|page-down|top|bottom [rows]'')"

section \<open>Runs of a tab\<close>

datatype tab_op =
    Poll "PtyEvent list" instant "string option"
  | Send bytes "string option"
  | Submit bytes instant "string option"
  | SubmitSensitive bytes instant "string option"
  | BeginConfirmation string instant

fun tab_step ::
  "('p \<Rightarrow> bytes \<Rightarrow> 'p) \<Rightarrow> ('p \<Rightarrow> string option \<times> 'p) \<Rightarrow> tab_op \<Rightarrow> 'p TerminalTab \<Rightarrow> 'p TerminalTab" where
  "tab_step process take_cwd (Poll events now written) tab = snd (poll process take_cwd events now written tab)"
| "tab_step process take_cwd (Send input written) tab = snd (tab_send written input tab)"
| "tab_step process take_cwd (Submit input now written) tab = snd (tab_submit written now input tab)"
| "tab_step process take_cwd (SubmitSensitive input now written) tab = snd (tab_submit_sensitive written now input tab)"
| "tab_step process take_cwd (BeginConfirmation marker now) tab = begin_proxy_confirmation now marker tab"

fun op_events :: "tab_op \<Rightarrow> PtyEvent list" where
  "op_events (Poll events _ _) = events"
| "op_events _ = []"

text \<open>The bytes received before the reader closed, and whether it did.\<close>

fun receive :: "PtyEvent \<Rightarrow> bytes \<times> bool \<Rightarrow> bytes \<times> bool" where
  "receive (PtyOutput bytes) (raw, closed) = (if closed then raw else raw @ bytes, closed)"
| "receive PtyReaderClosed (raw, closed) = (raw, True)"
| "receive (PtyReaderError e) (raw, closed) = (raw, True)"
| "receive _ st = st"

section \<open>The recorded output is the redacted stream\<close>

text \<open>The part of a tab that only output changes.\<close>

definition output_ok :: "bytes list \<Rightarrow> bytes \<times> bool \<Rightarrow> bytes \<Rightarrow> 'p TerminalTab \<Rightarrow> bool" where
  "output_ok needles received shown tab \<longleftrightarrow>
     needle_bytes tab = needles
     \<and> tl_reader_closed (tb_lifecycle tab) = snd received
     \<and> tb_output_bytes tab = length shown
     \<and> tb_cursor_tracker tab = feed shown DecscusrTracker_default
     \<and> rg_capacity (tb_raw_output tab) = RAW_OUTPUT_LIMIT
     \<and> (length shown \<le> isize_max \<longrightarrow> rg_bytes (tb_raw_output tab) = last_n RAW_OUTPUT_LIMIT shown)
     \<and> (if snd received then redacted needles (fst received) shown
        else redaction_ok needles (fst received) shown (tb_proxy_redaction_pending tab))"

lemma output_ok_initial:
  "output_ok (map expose needles) ([], False) [] (initial_tab launch program command_name process_id launch_cwd proxy needles parser)"
  by (simp add: output_ok_def initial_tab_def TerminalLifecycle_default_def redaction_ok_init ring_new_def feed_def)

text \<open>Recording more bytes keeps counter, cursor and ring in step with the stream.\<close>

lemma record_output_fields [simp]:
  "tb_output_bytes (record_output process bytes tab) = tb_output_bytes tab + length bytes"
  "tb_cursor_tracker (record_output process bytes tab) = feed bytes (tb_cursor_tracker tab)"
  "tb_raw_output (record_output process bytes tab) = ring_extend (tb_raw_output tab) bytes"
  "tb_lifecycle (record_output process bytes tab) = tb_lifecycle tab"
  "tb_proxy_redaction_needles (record_output process bytes tab) = tb_proxy_redaction_needles tab"
  "tb_proxy_redaction_pending (record_output process bytes tab) = tb_proxy_redaction_pending tab"
  "tb_submission (record_output process bytes tab) = tb_submission tab"
  "tb_submission_enter_written (record_output process bytes tab) = tb_submission_enter_written tab"
  "tb_pending_proxy_confirmation (record_output process bytes tab) = tb_pending_proxy_confirmation tab"
  "tb_proxy (record_output process bytes tab) = tb_proxy tab"
  by (simp_all add: record_output_def)

lemma observe_fields [simp]:
  "tb_output_bytes (observe_proxy_confirmation bytes tab) = tb_output_bytes tab"
  "tb_cursor_tracker (observe_proxy_confirmation bytes tab) = tb_cursor_tracker tab"
  "tb_raw_output (observe_proxy_confirmation bytes tab) = tb_raw_output tab"
  "tb_lifecycle (observe_proxy_confirmation bytes tab) = tb_lifecycle tab"
  "tb_proxy_redaction_needles (observe_proxy_confirmation bytes tab) = tb_proxy_redaction_needles tab"
  "tb_proxy_redaction_pending (observe_proxy_confirmation bytes tab) = tb_proxy_redaction_pending tab"
  "tb_submission (observe_proxy_confirmation bytes tab) = tb_submission tab"
  "tb_submission_enter_written (observe_proxy_confirmation bytes tab) = tb_submission_enter_written tab"
  by (simp_all add: observe_proxy_confirmation_def Let_def split: option.splits)

lemma ring_extend_shown:
  assumes "length shown \<le> isize_max \<longrightarrow> rg_bytes r = last_n RAW_OUTPUT_LIMIT shown" and "rg_capacity r = RAW_OUTPUT_LIMIT"
    and "length (shown @ bytes) \<le> isize_max"
  shows "rg_bytes (ring_extend r bytes) = last_n RAW_OUTPUT_LIMIT (shown @ bytes)"
proof -
  have r: "rg_bytes r = last_n RAW_OUTPUT_LIMIT shown" using assms(1,3) by simp
  then have "ring_ok r" using assms(2) by (simp add: ring_ok_def RAW_OUTPUT_LIMIT_def isize_max_def)
  then have "rg_bytes (ring_extend r bytes) = last_n (rg_capacity r) (rg_bytes r @ bytes)"
    using assms(3) by (intro ring_extend_last_n) simp_all
  then show ?thesis by (simp add: r assms(2) last_n_append_last_n)
qed

lemma output_ok_output:
  assumes ok: "output_ok needles (raw, False) shown tab"
    and red: "redact_proxy_stream_chunk (tb_proxy_redaction_pending tab) needles bytes False = (out, pending)"
  shows "output_ok needles (raw @ bytes, False) (shown @ out) (poll_event process take_cwd (PtyOutput bytes) tab)"
proof -
  have open_reader: "\<not> tl_reader_closed (tb_lifecycle tab)" and n: "needle_bytes tab = needles"
    using ok by (simp_all add: output_ok_def)
  have "redaction_ok needles (raw @ bytes) (shown @ out) pending"
    using ok by (intro redaction_ok_chunk [OF _ red]) (simp add: output_ok_def)
  moreover have "length (shown @ out) \<le> isize_max \<longrightarrow>
      rg_bytes (ring_extend (tb_raw_output tab) out) = last_n RAW_OUTPUT_LIMIT (shown @ out)"
    using ok by (intro impI ring_extend_shown) (simp_all add: output_ok_def)
  ultimately show ?thesis
    using ok open_reader n red
    by (auto simp: output_ok_def redact_proxy_output_def Let_def feed_append split: prod.splits option.splits)
qed

lemma output_ok_finish:
  assumes ok: "output_ok needles (raw, closed) shown tab"
  shows "\<exists>shown'. output_ok needles (raw, True) shown' (finish_output_stream process tab)"
proof (cases closed)
  case True
  with ok have "finish_output_stream process tab = tab" by (simp add: finish_output_stream_def output_ok_def)
  with True ok show ?thesis by auto
next
  case False
  let ?tail = "flush_pending needles (tb_proxy_redaction_pending tab)"
  obtain out pending where red:
    "redact_proxy_stream_chunk (tb_proxy_redaction_pending tab) needles [] True = (out, pending)"
    by (cases "redact_proxy_stream_chunk (tb_proxy_redaction_pending tab) needles [] True")
  have "redacted needles raw (shown @ out)"
    using ok False redaction_ok_flush [of needles raw shown "tb_proxy_redaction_pending tab"] red
    by (simp add: output_ok_def flush_pending_def)
  moreover have "length (shown @ out) \<le> isize_max \<longrightarrow>
      rg_bytes (ring_extend (tb_raw_output tab) out) = last_n RAW_OUTPUT_LIMIT (shown @ out)"
    using ok by (intro impI ring_extend_shown) (simp_all add: output_ok_def)
  ultimately have "output_ok needles (raw, True) (shown @ out) (finish_output_stream process tab)"
    using ok False red
    by (auto simp: output_ok_def finish_output_stream_def redact_proxy_output_def Let_def feed_append
        close_reader_after_parser_drain_def split: prod.splits)
  then show ?thesis by blast
qed

lemma output_ok_cong:
  "\<lbrakk> output_ok needles received shown tab;
     tb_proxy_redaction_needles tab' = tb_proxy_redaction_needles tab; tb_lifecycle tab' = tb_lifecycle tab;
     tb_output_bytes tab' = tb_output_bytes tab; tb_cursor_tracker tab' = tb_cursor_tracker tab;
     tb_raw_output tab' = tb_raw_output tab; tb_proxy_redaction_pending tab' = tb_proxy_redaction_pending tab \<rbrakk>
   \<Longrightarrow> output_ok needles received shown tab'"
  by (simp add: output_ok_def)

lemma output_ok_event:
  assumes ok: "output_ok needles received shown tab"
  shows "\<exists>shown'. output_ok needles (receive ev received) shown' (poll_event process take_cwd ev tab)"
proof -
  obtain raw closed where r: "received = (raw, closed)" by (cases received)
  show ?thesis
  proof (cases ev)
    case (PtyOutput bytes)
    show ?thesis
    proof (cases closed)
      case True
      with PtyOutput ok r show ?thesis
        by (intro exI [of _ shown]) (auto simp: output_ok_def)
    next
      case False
      obtain out pending where "redact_proxy_stream_chunk (tb_proxy_redaction_pending tab) needles bytes False = (out, pending)"
        by (cases "redact_proxy_stream_chunk (tb_proxy_redaction_pending tab) needles bytes False")
      from output_ok_output [OF _ this, of raw shown process take_cwd] ok r False PtyOutput show ?thesis by auto
    qed
  next
    case PtyReaderClosed
    with ok r show ?thesis using output_ok_finish [of needles raw closed shown tab process] by simp
  next
    case (PtyReaderError e)
    obtain shown' where "output_ok needles (raw, True) shown' (finish_output_stream process tab)"
      using output_ok_finish ok r by blast
    with PtyReaderError r show ?thesis by (auto intro!: exI [of _ shown'] elim: output_ok_cong)
  qed (use ok in \<open>auto intro!: exI [of _ shown] elim: output_ok_cong\<close>)
qed

lemma output_ok_events:
  "output_ok needles received shown tab \<Longrightarrow>
   \<exists>shown'. output_ok needles (fold receive evs received) shown' (fold (poll_event process take_cwd) evs tab)"
proof (induction evs arbitrary: received shown tab)
  case (Cons ev evs)
  from output_ok_event [OF Cons.prems] obtain shown'
    where "output_ok needles (receive ev received) shown' (poll_event process take_cwd ev tab)" by blast
  from Cons.IH [OF this] show ?case by simp
qed auto

lemma tab_send_output [simp]:
  "tb_output_bytes (snd (tab_send written bytes tab)) = tb_output_bytes tab"
  "tb_cursor_tracker (snd (tab_send written bytes tab)) = tb_cursor_tracker tab"
  "tb_raw_output (snd (tab_send written bytes tab)) = tb_raw_output tab"
  "tb_lifecycle (snd (tab_send written bytes tab)) = tb_lifecycle tab"
  "tb_proxy_redaction_needles (snd (tab_send written bytes tab)) = tb_proxy_redaction_needles tab"
  "tb_proxy_redaction_pending (snd (tab_send written bytes tab)) = tb_proxy_redaction_pending tab"
  "tb_submission (snd (tab_send written bytes tab)) = tb_submission tab"
  "tb_submission_enter_written (snd (tab_send written bytes tab)) = tb_submission_enter_written tab"
  by (simp_all add: tab_send_def split: option.splits)

text \<open>After its events a poll changes only the submission, the input counters and the proxy.\<close>

lemma output_ok_poll:
  assumes "output_ok needles received shown (fold (poll_event process take_cwd) events tab)"
  shows "output_ok needles received shown (snd (poll process take_cwd events now written tab))"
proof -
  let ?tab = "fold (poll_event process take_cwd) events tab"
  obtain due submission where due: "take_if_due (tb_submission ?tab) now = (due, submission)"
    by (cases "take_if_due (tb_submission ?tab) now")
  let ?tab1 = "?tab\<lparr>tb_submission := submission\<rparr>"
  let ?tab2 = "if due then (snd (tab_send written [CHR 0x0D] ?tab1))
      \<lparr>tb_submission_enter_written := Some (fst (tab_send written [CHR 0x0D] ?tab1))\<rparr> else ?tab1"
  have ok2: "output_ok needles received shown ?tab2"
    by (rule output_ok_cong [OF assms]) simp_all
  have "snd (poll process take_cwd events now written tab) = ?tab2
      \<or> snd (poll process take_cwd events now written tab) =
          ?tab2\<lparr>tb_pending_proxy_confirmation := None, tb_proxy := snd (mark_failed (tb_proxy ?tab2))\<rparr>"
    using due by (simp add: poll_def Let_def split: option.splits prod.splits) auto
  then show ?thesis
  proof
    assume "snd (poll process take_cwd events now written tab) = ?tab2"
    then show ?thesis using ok2 by (simp only:)
  next
    assume eq: "snd (poll process take_cwd events now written tab) =
        ?tab2\<lparr>tb_pending_proxy_confirmation := None, tb_proxy := snd (mark_failed (tb_proxy ?tab2))\<rparr>"
    show ?thesis unfolding eq by (rule output_ok_cong [OF ok2]) simp_all
  qed
qed

lemma output_ok_step:
  assumes ok: "output_ok needles received shown tab"
  shows "\<exists>shown'. output_ok needles (fold receive (op_events op) received) shown' (tab_step process take_cwd op tab)"
proof (cases op)
  case (Poll events now written)
  with output_ok_events [OF ok, of events process take_cwd] show ?thesis using output_ok_poll by fastforce
next
  case (Send input written)
  have "output_ok needles received shown (snd (tab_send written input tab))"
    by (rule output_ok_cong [OF ok]) simp_all
  with Send show ?thesis by auto
next
  case (Submit input now written)
  have "output_ok needles received shown (snd (tab_submit written now input tab))"
    using ok by (auto simp: tab_submit_def tab_send_def split: prod.splits bool.splits option.splits elim!: output_ok_cong)
  with Submit show ?thesis by auto
next
  case (SubmitSensitive input now written)
  have "output_ok needles received shown (snd (tab_submit_sensitive written now input tab))"
    using ok by (auto simp: tab_submit_sensitive_def split: prod.splits option.splits elim!: output_ok_cong)
  with SubmitSensitive show ?thesis by auto
next
  case (BeginConfirmation marker now)
  have "output_ok needles received shown (begin_proxy_confirmation now marker tab)"
    by (rule output_ok_cong [OF ok]) (simp_all add: begin_proxy_confirmation_def)
  with BeginConfirmation show ?thesis by auto
qed

lemma output_ok_run:
  "output_ok needles received shown tab \<Longrightarrow>
   \<exists>shown'. output_ok needles (fold receive (concat (map op_events ops)) received) shown'
     (fold (tab_step process take_cwd) ops tab)"
proof (induction ops arbitrary: received shown tab)
  case (Cons op ops)
  from output_ok_step [OF Cons.prems] obtain shown' where
    "output_ok needles (fold receive (op_events op) received) shown' (tab_step process take_cwd op tab)" by blast
  from Cons.IH [OF this] show ?case by simp
qed auto

text \<open>
  C8. What a tab records of its process is one stream. After every sequence of polls, inputs,
  submissions and confirmations there is one text -- the redaction of the bytes received so far,
  less the beginning of a possible secret while the reader is open, and exactly the redaction of
  everything received before the reader closed afterwards -- such that the output counter is its
  length, the cursor tracker has seen exactly it, and every read at a cursor returns the bytes of
  that text at that position, or reports precisely that they were overwritten or are not there yet
  (for streams within the \<open>isize\<close> limit of a vector).
\<close>

theorem output_reads_the_redacted_stream:
  assumes run: "tab = fold (tab_step process take_cwd) ops
      (initial_tab launch program command_name process_id launch_cwd proxy needles parser)"
    and received: "fold receive (concat (map op_events ops)) ([], False) = (raw, closed)"
  shows "\<exists>shown. redacted (map expose needles) raw
        (if closed then shown else shown @ flush_pending (map expose needles) (tb_proxy_redaction_pending tab))
    \<and> tl_reader_closed (tb_lifecycle tab) = closed
    \<and> tb_output_bytes tab = length shown
    \<and> tb_cursor_tracker tab = feed shown DecscusrTracker_default
    \<and> (length shown \<le> isize_max \<longrightarrow>
         read_terminal_output (tb_raw_output tab) (tb_output_bytes tab) cursor maximum =
         (let earliest = length shown - RAW_OUTPUT_LIMIT;
              requested = (case cursor of
                  CursorEarliest \<Rightarrow> earliest | CursorCurrent \<Rightarrow> length shown | CursorAbsolute v \<Rightarrow> v)
          in if requested < earliest then OutputGap requested earliest (length shown)
             else if length shown < requested then OutputFuture requested (length shown)
             else OutputData earliest (length shown) requested (min (requested + maximum) (length shown))
                    (take maximum (drop requested shown))))"
proof -
  obtain shown where ok: "output_ok (map expose needles) (raw, closed) shown tab"
    using output_ok_run [OF output_ok_initial, of needles ops process take_cwd launch program command_name process_id
        launch_cwd proxy parser] received run by auto
  have "redacted (map expose needles) raw
      (if closed then shown else shown @ flush_pending (map expose needles) (tb_proxy_redaction_pending tab))"
    using ok redaction_ok_flush by (auto simp: output_ok_def split: if_splits)
  moreover have "read_terminal_output (tb_raw_output tab) (length shown) cursor maximum =
         (let earliest = length shown - RAW_OUTPUT_LIMIT;
              requested = (case cursor of
                  CursorEarliest \<Rightarrow> earliest | CursorCurrent \<Rightarrow> length shown | CursorAbsolute v \<Rightarrow> v)
          in if requested < earliest then OutputGap requested earliest (length shown)
             else if length shown < requested then OutputFuture requested (length shown)
             else OutputData earliest (length shown) requested (min (requested + maximum) (length shown))
                    (take maximum (drop requested shown)))" if "length shown \<le> isize_max"
    using ok that isize_usize by (intro read_terminal_output_stream) (simp_all add: output_ok_def)
  ultimately show ?thesis using ok by (intro exI [of _ shown]) (auto simp: output_ok_def)
qed

definition sample_launch :: TerminalLaunch where
  "sample_launch = \<lparr>tlc_id = 1, tlc_index = 0, tlc_parent_id = None, tlc_title = None,
     tlc_command_line = [], tlc_tab_environment = [], tlc_initial_size = (24, 80)\<rparr>"

lemma output_reads_the_redacted_stream_witness:
  "\<exists>tab. tab = fold (tab_step (\<lambda>p _. p) (\<lambda>p. (None, p))) [Poll [PtyOutput ''hi'', PtyReaderClosed] 0 None]
       (initial_tab sample_launch ''bash'' ''bash'' None None
          \<lparr>px_http = None, px_https = None, px_source = ProxySource_Off, px_application_state = ProxyOff\<rparr> [] ())
     \<and> tb_output_bytes tab = 2
     \<and> read_terminal_output (tb_raw_output tab) 2 (CursorAbsolute 1) 10 = OutputData 0 2 1 2 ''i''"
proof -
  let ?proxy = "\<lparr>px_http = None, px_https = None, px_source = ProxySource_Off, px_application_state = ProxyOff\<rparr>"
  let ?ops = "[Poll [PtyOutput ''hi'', PtyReaderClosed] 0 None]"
  define tab where "tab = fold (tab_step (\<lambda>p _. p) (\<lambda>p. (None, p))) ?ops (initial_tab sample_launch ''bash'' ''bash'' None None ?proxy [] ())"
  have "fold receive (concat (map op_events ?ops)) ([], False) = (''hi'', True)" by simp
  from output_reads_the_redacted_stream [OF tab_def this, of "CursorAbsolute 1" 10] obtain shown where
    s: "redacted [] ''hi'' shown" "tb_output_bytes tab = length shown"
    and read: "length shown \<le> isize_max \<longrightarrow> read_terminal_output (tb_raw_output tab) (tb_output_bytes tab) (CursorAbsolute 1) 10 =
      (let earliest = length shown - RAW_OUTPUT_LIMIT
       in if 1 < earliest then OutputGap 1 earliest (length shown)
          else if length shown < 1 then OutputFuture 1 (length shown)
          else OutputData earliest (length shown) 1 (min (1 + 10) (length shown)) (take 10 (drop 1 shown)))"
    by (auto simp: Let_def)
  have "redacted [] ''hi'' ''hi''" by (intro redacted_byte redacted_end) simp_all
  with s(1) have hi: "shown = ''hi''" using redacted_unique by blast
  have "length ''hi'' \<le> isize_max" by (simp add: isize_max_def)
  with hi read have "read_terminal_output (tb_raw_output tab) (tb_output_bytes tab) (CursorAbsolute 1) 10 =
      OutputData 0 (Suc (Suc 0)) 1 (Suc (Suc 0)) ''i''"
    by (simp add: RAW_OUTPUT_LIMIT_def)
  with s(2) hi have "tb_output_bytes tab = 2"
    "read_terminal_output (tb_raw_output tab) 2 (CursorAbsolute 1) 10 = OutputData 0 2 1 2 ''i''"
    by (simp_all add: numeral_2_eq_2)
  then show ?thesis unfolding tab_def by blast
qed

section \<open>Confirmation markers across reads\<close>

definition occurs :: "bytes \<Rightarrow> bytes \<Rightarrow> bool" where
  "occurs marker s \<longleftrightarrow> (\<exists>a b. s = a @ marker @ b)"

lemma has_window_iff: "marker \<noteq> [] \<Longrightarrow> has_window marker s \<longleftrightarrow> occurs marker s"
proof
  assume "has_window marker s"
  then obtain i where "take (length marker) (drop i s) = marker" by (auto simp: has_window_def list_ex_iff)
  then have "s = take i s @ marker @ drop (length marker) (drop i s)"
    by (metis append_take_drop_id)
  then show "occurs marker s" unfolding occurs_def by blast
next
  assume m: "marker \<noteq> []" and "occurs marker s"
  then obtain a b where s: "s = a @ marker @ b" by (auto simp: occurs_def)
  then have "take (length marker) (drop (length a) s) = marker" "length a < length s + 1 - length marker" by simp_all
  then show "has_window marker s" by (auto simp: has_window_def list_ex_iff)
qed

text \<open>Only the last bytes, one fewer than the marker has, matter for an occurrence that is not complete yet.\<close>

lemma occurs_last_n:
  assumes no: "\<not> occurs marker h" and m: "marker \<noteq> []"
  shows "occurs marker (last_n (length marker - 1) h @ c) \<longleftrightarrow> occurs marker (h @ c)"
proof
  let ?k = "length h - (length marker - 1)"
  have split: "h = take ?k h @ last_n (length marker - 1) h" by (simp add: last_n_def)
  assume "occurs marker (last_n (length marker - 1) h @ c)"
  then obtain a b where ab: "last_n (length marker - 1) h @ c = a @ marker @ b" by (auto simp: occurs_def)
  have "h @ c = take ?k h @ (last_n (length marker - 1) h @ c)" using split by (metis append_assoc)
  then have "h @ c = (take ?k h @ a) @ marker @ b" unfolding ab by (simp only: append_assoc)
  then show "occurs marker (h @ c)" unfolding occurs_def by blast
next
  let ?k = "length h - (length marker - 1)"
  assume "occurs marker (h @ c)"
  then obtain a b where ab: "h @ c = a @ marker @ b" by (auto simp: occurs_def)
  have "\<not> length (a @ marker) \<le> length h"
  proof
    assume le: "length (a @ marker) \<le> length h"
    have "take (length h) (h @ c) = take (length h) ((a @ marker) @ b)" using ab by simp
    then have "h = a @ marker @ take (length h - length (a @ marker)) b" using le by simp
    with no show False unfolding occurs_def by blast
  qed
  then have k: "?k \<le> length a" using m by (cases marker) auto
  have "last_n (length marker - 1) h @ c = drop ?k (h @ c)" by (simp add: last_n_def)
  also have "\<dots> = drop ?k a @ marker @ b" unfolding ab using k by simp
  finally show "occurs marker (last_n (length marker - 1) h @ c)" unfolding occurs_def by blast
qed

lemma observe_step:
  assumes p: "tb_pending_proxy_confirmation tab = Some \<lparr>pc_marker = marker, pc_tail = last_n (length marker - 1) h, pc_deadline = d\<rparr>"
    and m: "marker \<noteq> []" and no: "\<not> occurs marker h"
  shows "observe_proxy_confirmation c tab =
    (if occurs marker (h @ c)
     then tab\<lparr>tb_pending_proxy_confirmation := None, tb_proxy := snd (mark_applied (tb_proxy tab))\<rparr>
     else tab\<lparr>tb_pending_proxy_confirmation :=
       Some \<lparr>pc_marker = marker, pc_tail = last_n (length marker - 1) (h @ c), pc_deadline = d\<rparr>\<rparr>)"
proof -
  have tail: "(if length marker - 1 < length t then drop (length t - (length marker - 1)) t else t)
      = last_n (length marker - 1) t" for t :: bytes
    by (simp add: last_n_def)
  have "observe_proxy_confirmation c tab =
      (let t = last_n (length marker - 1) h @ c in
       if has_window marker t
       then tab\<lparr>tb_pending_proxy_confirmation := None, tb_proxy := snd (mark_applied (tb_proxy tab))\<rparr>
       else tab\<lparr>tb_pending_proxy_confirmation := Some \<lparr>pc_marker = marker,
              pc_tail = (if length marker - 1 < length t then drop (length t - (length marker - 1)) t else t),
              pc_deadline = d\<rparr>\<rparr>)"
    by (simp add: observe_proxy_confirmation_def p Let_def)
  then show ?thesis
    unfolding Let_def tail has_window_iff [OF m] occurs_last_n [OF no m] last_n_append_last_n .
qed

lemma observe_none: "tb_pending_proxy_confirmation tab = None \<Longrightarrow> fold observe_proxy_confirmation chunks tab = tab"
  by (induction chunks) (simp_all add: observe_proxy_confirmation_def)

lemma observe_chunks:
  assumes m: "marker \<noteq> []"
  shows "\<lbrakk> tb_pending_proxy_confirmation tab = Some \<lparr>pc_marker = marker, pc_tail = last_n (length marker - 1) h, pc_deadline = d\<rparr>;
     \<not> occurs marker h \<rbrakk> \<Longrightarrow>
   fold observe_proxy_confirmation chunks tab =
    (if occurs marker (h @ concat chunks)
     then tab\<lparr>tb_pending_proxy_confirmation := None, tb_proxy := snd (mark_applied (tb_proxy tab))\<rparr>
     else tab\<lparr>tb_pending_proxy_confirmation :=
       Some \<lparr>pc_marker = marker, pc_tail = last_n (length marker - 1) (h @ concat chunks), pc_deadline = d\<rparr>\<rparr>)"
proof (induction chunks arbitrary: tab h)
  case (Cons c chunks)
  show ?case
  proof (cases "occurs marker (h @ c)")
    case True
    then have "occurs marker (h @ concat (c # chunks))" unfolding occurs_def by (metis append.assoc concat.simps(2))
    with True show ?thesis using observe_step [OF Cons.prems(1) m Cons.prems(2)] by (simp add: observe_none)
  next
    case False
    let ?tab = "tab\<lparr>tb_pending_proxy_confirmation :=
       Some \<lparr>pc_marker = marker, pc_tail = last_n (length marker - 1) (h @ c), pc_deadline = d\<rparr>\<rparr>"
    have "fold observe_proxy_confirmation (c # chunks) tab = fold observe_proxy_confirmation chunks ?tab"
      using observe_step [OF Cons.prems(1) m Cons.prems(2)] False by simp
    with Cons.IH [of ?tab "h @ c"] False show ?thesis by simp
  qed
next
  case Nil
  then show ?case by (cases tab) simp
qed

text \<open>
  C30. A proxy confirmation is recognised however the output is cut: after the marker was announced,
  the confirmation is completed and the proxy marked as applied exactly when the marker occurs in
  the bytes received since, and until then at most one byte less than the marker is kept.
\<close>

theorem confirmation_found_across_reads:
  assumes "marker \<noteq> []"
  shows "fold observe_proxy_confirmation chunks (begin_proxy_confirmation now marker tab) =
    (if \<exists>a b. concat chunks = a @ marker @ b
     then tab\<lparr>tb_pending_proxy_confirmation := None, tb_proxy := snd (mark_applied (tb_proxy tab))\<rparr>
     else tab\<lparr>tb_pending_proxy_confirmation := Some \<lparr>pc_marker = marker,
            pc_tail = last_n (length marker - 1) (concat chunks), pc_deadline = now + PROXY_CONFIRMATION_TIMEOUT\<rparr>\<rparr>)"
proof -
  have "\<not> occurs marker []" using assms by (simp add: occurs_def)
  from observe_chunks [OF assms _ this, of "begin_proxy_confirmation now marker tab" "now + PROXY_CONFIRMATION_TIMEOUT" chunks]
  show ?thesis by (simp add: begin_proxy_confirmation_def occurs_def)
qed

definition sample_tab :: "unit TerminalTab" where
  "sample_tab = initial_tab sample_launch ''bash'' ''bash'' None None
     \<lparr>px_http = None, px_https = None, px_source = ProxySource_Launch, px_application_state = ProxySubmitted\<rparr> [] ()"

lemma confirmation_found_across_reads_witness:
  "tb_proxy (fold observe_proxy_confirmation [''a__O'', ''K__b''] (begin_proxy_confirmation 5 ''__OK__'' sample_tab)) =
     (tb_proxy sample_tab)\<lparr>px_application_state := ProxyApplied\<rparr>"
proof -
  have "concat [''a__O'', ''K__b''] = ''a'' @ ''__OK__'' @ ''b''" by simp
  then have "\<exists>a b. concat [''a__O'', ''K__b''] = a @ ''__OK__'' @ b" by blast
  with confirmation_found_across_reads [of "''__OK__''" "[''a__O'', ''K__b'']" 5 sample_tab] show ?thesis
    by (simp add: mark_applied_def proxy_transition_def sample_tab_def initial_tab_def)
qed

section \<open>The delayed Enter\<close>

fun op_time :: "tab_op \<Rightarrow> instant option" where
  "op_time (Poll _ now _) = Some now"
| "op_time _ = None"

lemma poll_event_submission [simp]: "tb_submission (poll_event process take_cwd ev tab) = tb_submission tab"
  by (cases ev)
     (auto simp: Let_def finish_output_stream_def redact_proxy_output_def split: prod.splits option.splits)

lemma poll_events_submission [simp]:
  "tb_submission (fold (poll_event process take_cwd) evs tab) = tb_submission tab"
  by (induction evs arbitrary: tab) simp_all

lemma poll_not_due:
  assumes "take_if_due (tb_submission tab) now = (False, s)"
  shows "tb_submission (snd (poll process take_cwd events now written tab)) = tb_submission tab"
  using assms by (cases "tb_submission tab") (auto simp: poll_def Let_def split: option.splits if_splits)

lemma poll_due:
  assumes "tb_submission tab = SubmissionPending t" and "t \<le> now"
  shows "tb_submission (snd (poll process take_cwd events now written tab)) = SubmissionIdle
     \<and> tb_submission_enter_written (snd (poll process take_cwd events now written tab)) =
         Some (fst (tab_send written [CHR 0x0D] ((fold (poll_event process take_cwd) events tab)\<lparr>tb_submission := SubmissionIdle\<rparr>)))"
proof -
  let ?tab = "(fold (poll_event process take_cwd) events tab)\<lparr>tb_submission := SubmissionIdle\<rparr>"
  obtain sent tab2 where send: "tab_send written [CHR 0x0D] ?tab = (sent, tab2)"
    by (cases "tab_send written [CHR 0x0D] ?tab")
  have "tb_submission tab2 = SubmissionIdle" using tab_send_output(7) [of written "[CHR 0x0D]" ?tab] by (simp add: send)
  with assms send show ?thesis by (simp add: poll_def Let_def split: option.splits)
qed

lemma tab_send_fst:
  "fst (tab_send written bytes tab) \<longleftrightarrow>
     tb_exited tab = None \<and> tb_error tab = None \<and> \<not> tl_reader_closed (tb_lifecycle tab) \<and> written = None"
  by (auto simp: tab_send_def split: option.splits)

lemma pending_step:
  assumes p: "tb_submission tab = SubmissionPending t" and early: "\<And>now. op_time op = Some now \<Longrightarrow> now < t"
  shows "tb_submission (tab_step process take_cwd op tab) = SubmissionPending t"
proof (cases op)
  case (Poll events now written)
  have "take_if_due (tb_submission tab) now = (False, SubmissionPending t)" using early Poll by (simp add: p)
  from poll_not_due [OF this] Poll p show ?thesis by simp
qed (simp_all add: p tab_submit_def tab_submit_sensitive_def begin_proxy_confirmation_def)

lemma pending_run:
  "\<lbrakk> tb_submission tab = SubmissionPending t; \<forall>op \<in> set ops. \<forall>now. op_time op = Some now \<longrightarrow> now < t \<rbrakk> \<Longrightarrow>
   tb_submission (fold (tab_step process take_cwd) ops tab) = SubmissionPending t"
proof (induction ops arbitrary: tab)
  case (Cons op ops)
  have "tb_submission (tab_step process take_cwd op tab) = SubmissionPending t"
    using Cons.prems by (intro pending_step) auto
  with Cons show ?case by simp
qed simp



end
