(* ===== verification/Control_Contract.thy ===== *)
theory Control_Contract
  imports Prelude Json_Value
begin

text \<open>
  The control contract (\<open>src/control_contract.rs\<close>): validated identifiers, payload
  fingerprints, requests and receipts, and the bounded replay window that makes a control
  request execute at most once while the server remembers it.  The window is a state
  machine with three operations (\<open>admit\<close>, \<open>complete\<close>, \<open>update_accepted\<close>); its safety is
  proved over every sequence of them.
\<close>

section \<open>Identifiers and fingerprints\<close>

definition CONTROL_CONTRACT_SCHEMA_VERSION :: u32 where
  "CONTROL_CONTRACT_SCHEMA_VERSION = 1"

definition contract_schema_version :: u32 where
  "contract_schema_version = CONTROL_CONTRACT_SCHEMA_VERSION"

datatype RequestId = RequestId string

datatype OperationId = OperationId string

datatype PayloadFingerprint = PayloadFingerprint string

record IdentifierError =
  ie_field :: string
  ie_reason :: string

definition IdentifierError_fmt :: "IdentifierError \<Rightarrow> string" where
  "IdentifierError_fmt e = ie_field e @ '' '' @ ie_reason e"

definition identifier_byte :: "char \<Rightarrow> bool" where
  "identifier_byte c = (is_ascii_alphanumeric c \<or> c \<in> {CHR ''.'', CHR ''_'', CHR ''-'', CHR '':''})"

definition validate_identifier :: "string \<Rightarrow> string \<Rightarrow> IdentifierError + unit" where
  "validate_identifier field v =
     (if v = [] then Err \<lparr>ie_field = field, ie_reason = ''cannot be empty''\<rparr>
      else if 128 < length v then Err \<lparr>ie_field = field, ie_reason = ''cannot exceed 128 bytes''\<rparr>
      else if \<not> list_all identifier_byte v
        then Err \<lparr>ie_field = field, ie_reason = ''contains unsupported characters''\<rparr>
      else Ok ())"

definition RequestId_new :: "string \<Rightarrow> IdentifierError + RequestId" where
  "RequestId_new v = and_then (validate_identifier ''request_id'' v) (\<lambda>_. Ok (RequestId v))"

fun RequestId_as_str :: "RequestId \<Rightarrow> string" where
  "RequestId_as_str (RequestId v) = v"

definition OperationId_new :: "string \<Rightarrow> IdentifierError + OperationId" where
  "OperationId_new v = and_then (validate_identifier ''operation_id'' v) (\<lambda>_. Ok (OperationId v))"

fun OperationId_as_str :: "OperationId \<Rightarrow> string" where
  "OperationId_as_str (OperationId v) = v"

unbundle bit_operations_syntax

definition FNV_OFFSET_BASIS :: u64 where
  "FNV_OFFSET_BASIS = 0xcbf29ce484222325"

definition FNV_PRIME :: u64 where
  "FNV_PRIME = 0x00000100000001b3"

definition fnv1a :: "u8 list \<Rightarrow> u64" where
  "fnv1a payload = fold (\<lambda>byte hash. (hash XOR ucast byte) * FNV_PRIME) payload FNV_OFFSET_BASIS"

text \<open>\<open>{hash:016x}\<close>: hexadecimal, filled with zeros to sixteen digits.\<close>

definition hex16 :: "u64 \<Rightarrow> string" where
  "hex16 w = (let digits = show_hex (unat w) in replicate (16 - length digits) (CHR ''0'') @ digits)"

definition fingerprint_from_bytes :: "u8 list \<Rightarrow> PayloadFingerprint" where
  "fingerprint_from_bytes payload = PayloadFingerprint (''fnv1a64:'' @ hex16 (fnv1a payload))"

section \<open>Requests\<close>

datatype RequestIntent = Query | Mutation

record ControlRequest =
  rq_schema_version :: u32
  rq_request_id :: RequestId
  rq_operation_id :: OperationId
  rq_payload_fingerprint :: PayloadFingerprint
  rq_intent :: RequestIntent
  rq_deadline_unix_ms :: "u64 option"

definition ControlRequest_new ::
  "RequestId \<Rightarrow> OperationId \<Rightarrow> PayloadFingerprint \<Rightarrow> RequestIntent \<Rightarrow> u64 option \<Rightarrow> ControlRequest" where
  "ControlRequest_new request_id operation_id payload_fingerprint intent deadline_unix_ms =
     \<lparr>rq_schema_version = CONTROL_CONTRACT_SCHEMA_VERSION, rq_request_id = request_id,
      rq_operation_id = operation_id, rq_payload_fingerprint = payload_fingerprint,
      rq_intent = intent, rq_deadline_unix_ms = deadline_unix_ms\<rparr>"

definition mutation_is_expired :: "ControlRequest \<Rightarrow> u64 \<Rightarrow> bool" where
  "mutation_is_expired request now_unix_ms =
     (rq_intent request = Mutation
      \<and> (case rq_deadline_unix_ms request of None \<Rightarrow> False | Some deadline \<Rightarrow> deadline \<le> now_unix_ms))"

record DedupeKey =
  dk_operation_id :: OperationId
  dk_payload_fingerprint :: PayloadFingerprint

definition dedupe_key :: "ControlRequest \<Rightarrow> DedupeKey" where
  "dedupe_key request =
     \<lparr>dk_operation_id = rq_operation_id request, dk_payload_fingerprint = rq_payload_fingerprint request\<rparr>"

section \<open>Receipts\<close>

record EventPosition =
  cp_epoch :: string
  cp_sequence :: u64

record ResolvedTarget =
  rt_server_pid :: u32
  rt_server_address :: string
  rt_server_epoch :: string
  rt_session :: string
  rt_tab_id :: "u64 option"

datatype ReceiptOutcome = Committed | Accepted | NoOp | OutcomeUnknown

datatype ErrorCategory =
    Validation
  | Conflict
  | NotFound
  | Precondition
  | Availability
  | Timeout
  | Policy
  | Unsupported
  | Internal

fun ErrorCategory_as_str :: "ErrorCategory \<Rightarrow> string" where
  "ErrorCategory_as_str Validation = ''validation''"
| "ErrorCategory_as_str Conflict = ''conflict''"
| "ErrorCategory_as_str NotFound = ''not_found''"
| "ErrorCategory_as_str Precondition = ''precondition''"
| "ErrorCategory_as_str Availability = ''availability''"
| "ErrorCategory_as_str Timeout = ''timeout''"
| "ErrorCategory_as_str Policy = ''policy''"
| "ErrorCategory_as_str Unsupported = ''unsupported''"
| "ErrorCategory_as_str Internal = ''internal''"

record ControlError =
  ce_code :: string
  ce_category :: ErrorCategory
  ce_message :: string
  ce_retryable :: bool
  ce_details :: "json option"

definition ControlError_new :: "string \<Rightarrow> ErrorCategory \<Rightarrow> string \<Rightarrow> bool \<Rightarrow> ControlError" where
  "ControlError_new code category message retryable =
     \<lparr>ce_code = code, ce_category = category, ce_message = message, ce_retryable = retryable,
      ce_details = None\<rparr>"

datatype WaitCondition = Event | PaneContains | ProcessExited | SubmissionComplete | TargetClosed

record WaitDescriptor =
  wd_condition :: WaitCondition
  wd_target :: ResolvedTarget
  wd_minimum_position :: EventPosition
  wd_event_kind :: "string option"
  wd_deadline_unix_ms :: "u64 option"

record ControlReceipt =
  rc_schema_version :: u32
  rc_request_id :: RequestId
  rc_operation_id :: OperationId
  rc_payload_fingerprint :: PayloadFingerprint
  rc_outcome :: ReceiptOutcome
  rc_resolved :: "ResolvedTarget option"
  rc_before_position :: "EventPosition option"
  rc_after_position :: "EventPosition option"
  rc_result :: "json option"
  rc_error :: "ControlError option"
  rc_wait :: "WaitDescriptor option"

definition receipt_accepted :: "ControlRequest \<Rightarrow> ControlReceipt" where
  "receipt_accepted request =
     \<lparr>rc_schema_version = CONTROL_CONTRACT_SCHEMA_VERSION, rc_request_id = rq_request_id request,
      rc_operation_id = rq_operation_id request,
      rc_payload_fingerprint = rq_payload_fingerprint request, rc_outcome = Accepted,
      rc_resolved = None, rc_before_position = None, rc_after_position = None, rc_result = None,
      rc_error = None, rc_wait = None\<rparr>"

definition receipt_rejected :: "ControlRequest \<Rightarrow> ControlError \<Rightarrow> ControlReceipt" where
  "receipt_rejected request error =
     (receipt_accepted request)\<lparr>rc_error := Some error, rc_outcome := NoOp\<rparr>"

section \<open>The replay window\<close>

record ReplayEntry =
  re_request_id :: RequestId
  re_key :: DedupeKey
  re_receipt :: ControlReceipt
  re_finalized :: bool

datatype Admission =
    Execute ControlReceipt
  | Replay ControlReceipt
  | Reject ControlReceipt

datatype CompletionError =
    UnknownRequest
  | RequestMismatch
  | AlreadyFinalized
  | NonFinalOutcome
  | ExpectedAcceptedOutcome

fun CompletionError_fmt :: "CompletionError \<Rightarrow> string" where
  "CompletionError_fmt UnknownRequest = ''request is not present in the replay window''"
| "CompletionError_fmt RequestMismatch = ''receipt does not match the admitted request''"
| "CompletionError_fmt AlreadyFinalized = ''request already has a final receipt''"
| "CompletionError_fmt NonFinalOutcome = ''completion receipt cannot remain accepted''"
| "CompletionError_fmt ExpectedAcceptedOutcome = ''in-flight receipt must remain accepted''"

record ReplayWindow =
  rw_capacity :: nat
  rw_entries :: "ReplayEntry list"

definition ReplayWindow_new :: "nat \<Rightarrow> ReplayWindow" where
  "ReplayWindow_new capacity = \<lparr>rw_capacity = max capacity 1, rw_entries = []\<rparr>"

definition conflict_error :: ControlError where
  "conflict_error = ControlError_new ''request_id_conflict'' Conflict
     ''request_id was already used for a different request'' False"

definition expired_error :: ControlError where
  "expired_error = ControlError_new ''request_deadline_expired'' Timeout
     ''mutation deadline expired before execution'' False"

definition saturated_error :: ControlError where
  "saturated_error = ControlError_new ''replay_window_saturated'' Availability
     ''replay window is full of requests still being processed'' True"

definition push_entry :: "ControlRequest \<Rightarrow> ReplayWindow \<Rightarrow> Admission \<times> ReplayWindow" where
  "push_entry request w =
     (let accepted = receipt_accepted request in
      (Execute accepted,
       w\<lparr>rw_entries := rw_entries w @ [\<lparr>re_request_id = rq_request_id request,
            re_key = dedupe_key request, re_receipt = accepted, re_finalized = False\<rparr>]\<rparr>))"

definition admit :: "ReplayWindow \<Rightarrow> ControlRequest \<Rightarrow> u64 \<Rightarrow> Admission \<times> ReplayWindow" where
  "admit w request now_unix_ms =
     (case find (\<lambda>entry. re_request_id entry = rq_request_id request) (rw_entries w) of
        Some entry \<Rightarrow>
          if re_key entry = dedupe_key request then (Replay (re_receipt entry), w)
          else (Reject (receipt_rejected request conflict_error), w)
      | None \<Rightarrow>
          if mutation_is_expired request now_unix_ms
            then (Reject (receipt_rejected request expired_error), w)
          else if length (rw_entries w) = rw_capacity w then
            (case position re_finalized (rw_entries w) of
               Some i \<Rightarrow> push_entry request (w\<lparr>rw_entries := remove_at i (rw_entries w)\<rparr>)
             | None \<Rightarrow> (Reject (receipt_rejected request saturated_error), w))
          else push_entry request w)"

definition receipt_matches :: "ControlRequest \<Rightarrow> ReplayEntry \<Rightarrow> ControlReceipt \<Rightarrow> bool" where
  "receipt_matches request entry receipt \<longleftrightarrow>
     re_key entry = dedupe_key request \<and> rc_request_id receipt = rq_request_id request
     \<and> rc_operation_id receipt = rq_operation_id request
     \<and> rc_payload_fingerprint receipt = rq_payload_fingerprint request"

definition complete ::
  "ReplayWindow \<Rightarrow> ControlRequest \<Rightarrow> ControlReceipt \<Rightarrow> (CompletionError + unit) \<times> ReplayWindow" where
  "complete w request receipt =
     (case position (\<lambda>entry. re_request_id entry = rq_request_id request) (rw_entries w) of
        None \<Rightarrow> (Err UnknownRequest, w)
      | Some i \<Rightarrow>
          let entry = rw_entries w ! i in
          if \<not> receipt_matches request entry receipt then (Err RequestMismatch, w)
          else if re_finalized entry then (Err AlreadyFinalized, w)
          else if rc_outcome receipt = Accepted then (Err NonFinalOutcome, w)
          else (Ok (), w\<lparr>rw_entries := (rw_entries w)[i := entry\<lparr>re_receipt := receipt, re_finalized := True\<rparr>]\<rparr>))"

definition update_accepted ::
  "ReplayWindow \<Rightarrow> ControlRequest \<Rightarrow> ControlReceipt \<Rightarrow> (CompletionError + unit) \<times> ReplayWindow" where
  "update_accepted w request receipt =
     (case position (\<lambda>entry. re_request_id entry = rq_request_id request) (rw_entries w) of
        None \<Rightarrow> (Err UnknownRequest, w)
      | Some i \<Rightarrow>
          let entry = rw_entries w ! i in
          if \<not> receipt_matches request entry receipt then (Err RequestMismatch, w)
          else if re_finalized entry then (Err AlreadyFinalized, w)
          else if rc_outcome receipt \<noteq> Accepted then (Err ExpectedAcceptedOutcome, w)
          else (Ok (), w\<lparr>rw_entries := (rw_entries w)[i := entry\<lparr>re_receipt := receipt\<rparr>]\<rparr>))"

section \<open>The window as a map of remembered requests\<close>

abbreviation remembered :: "ReplayWindow \<Rightarrow> RequestId \<Rightarrow> ReplayEntry option" where
  "remembered w \<equiv> lookup_by re_request_id (rw_entries w)"

text \<open>
  An entry's receipt speaks about the entry's own request, and it is the accepted receipt
  exactly while the request is in flight.
\<close>

definition entry_ok :: "ReplayEntry \<Rightarrow> bool" where
  "entry_ok e \<longleftrightarrow>
     rc_request_id (re_receipt e) = re_request_id e
     \<and> rc_operation_id (re_receipt e) = dk_operation_id (re_key e)
     \<and> rc_payload_fingerprint (re_receipt e) = dk_payload_fingerprint (re_key e)
     \<and> (re_finalized e \<longleftrightarrow> rc_outcome (re_receipt e) \<noteq> Accepted)"

definition window_ok :: "ReplayWindow \<Rightarrow> bool" where
  "window_ok w \<longleftrightarrow>
     length (rw_entries w) \<le> rw_capacity w \<and> 1 \<le> rw_capacity w
     \<and> distinct (map re_request_id (rw_entries w)) \<and> list_all entry_ok (rw_entries w)"

definition fresh_entry :: "ControlRequest \<Rightarrow> ReplayEntry" where
  "fresh_entry request = \<lparr>re_request_id = rq_request_id request, re_key = dedupe_key request,
     re_receipt = receipt_accepted request, re_finalized = False\<rparr>"

lemma fresh_entry_simps [simp]:
  "re_request_id (fresh_entry request) = rq_request_id request"
  "re_finalized (fresh_entry request) = False" "entry_ok (fresh_entry request)"
  by (simp_all add: fresh_entry_def entry_ok_def receipt_accepted_def dedupe_key_def)

lemma push_entry_eq:
  "push_entry request w =
     (Execute (receipt_accepted request), w\<lparr>rw_entries := rw_entries w @ [fresh_entry request]\<rparr>)"
  by (simp add: push_entry_def fresh_entry_def Let_def)

lemma find_remembered:
  "find (\<lambda>entry. re_request_id entry = i) (rw_entries w) = remembered w i"
  by (simp add: lookup_by_def)

lemma window_ok_new [simp]: "window_ok (ReplayWindow_new capacity)"
  by (simp add: window_ok_def ReplayWindow_new_def)

text \<open>The three shapes a step gives the window: unchanged, one entry rewritten, one entry added.\<close>

lemma admit_cases:
  assumes ok: "window_ok w" and adm: "admit w request now = (a, w')"
  obtains (same) "w' = w" "\<And>r. a \<noteq> Execute r"
  | (added) "a = Execute (receipt_accepted request)" "remembered w (rq_request_id request) = None"
      "\<not> mutation_is_expired request now" "length (rw_entries w) < rw_capacity w"
      "w' = w\<lparr>rw_entries := rw_entries w @ [fresh_entry request]\<rparr>"
  | (evicted) i where "a = Execute (receipt_accepted request)"
      "remembered w (rq_request_id request) = None" "\<not> mutation_is_expired request now"
      "length (rw_entries w) = rw_capacity w" "position re_finalized (rw_entries w) = Some i"
      "w' = w\<lparr>rw_entries := remove_at i (rw_entries w) @ [fresh_entry request]\<rparr>"
proof (cases "remembered w (rq_request_id request)")
  case (Some e)
  with adm same show ?thesis by (auto simp: admit_def find_remembered split: if_splits)
next
  case None
  show ?thesis
  proof (cases "mutation_is_expired request now")
    case True
    with None adm same show ?thesis by (auto simp: admit_def find_remembered)
  next
    case False
    show ?thesis
    proof (cases "length (rw_entries w) = rw_capacity w")
      case True
      with None False adm same evicted show ?thesis
        by (auto simp: admit_def find_remembered push_entry_eq split: option.splits)
    next
      case nfull: False
      with ok have "length (rw_entries w) < rw_capacity w" by (simp add: window_ok_def)
      with None False nfull adm added show ?thesis
        by (auto simp: admit_def find_remembered push_entry_eq)
    qed
  qed
qed

lemma rewrite_cases:
  assumes "complete w request receipt = (r, w') \<or> update_accepted w request receipt = (r, w')"
    and "window_ok w"
  obtains (same) "w' = w" "\<exists>e. r = Err e"
  | (rewritten) i e where "r = Ok ()" "i < length (rw_entries w)" "rw_entries w ! i = e"
      "re_request_id e = rq_request_id request" "\<not> re_finalized e" "receipt_matches request e receipt"
      "w' = w\<lparr>rw_entries := (rw_entries w)[i := e\<lparr>re_receipt := receipt,
         re_finalized := rc_outcome receipt \<noteq> Accepted\<rparr>]\<rparr>"
      "complete w request receipt = (r, w') \<longleftrightarrow> rc_outcome receipt \<noteq> Accepted"
proof (cases "position (\<lambda>entry. re_request_id entry = rq_request_id request) (rw_entries w)")
  case None
  with assms(1) same show ?thesis by (auto simp: complete_def update_accepted_def)
next
  case (Some i)
  note pos = position_SomeD [OF Some]
  let ?e = "rw_entries w ! i"
  have keep: "?e\<lparr>re_receipt := receipt, re_finalized := False\<rparr> = ?e\<lparr>re_receipt := receipt\<rparr>"
    if "\<not> re_finalized ?e" using that by simp
  show ?thesis
  proof (cases "receipt_matches request ?e receipt \<and> \<not> re_finalized ?e")
    case False
    with Some assms(1) same show ?thesis
      by (auto simp: complete_def update_accepted_def Let_def split: if_splits)
  next
    case True
    then show ?thesis
      using Some assms(1) pos same rewritten [OF _ _ refl, of i]
      by (auto simp: complete_def update_accepted_def Let_def keep split: if_splits)
  qed
qed

section \<open>Invariant and effect of every operation\<close>

lemma remembered_rewrite:
  assumes "window_ok w" and "i < length (rw_entries w)" and "re_request_id e = re_request_id (rw_entries w ! i)"
  shows "remembered (w\<lparr>rw_entries := (rw_entries w)[i := e]\<rparr>) = (remembered w)(re_request_id e \<mapsto> e)"
  using assms by (simp add: lookup_by_update window_ok_def)

lemma window_ok_rewrite:
  assumes "window_ok w" and "i < length (rw_entries w)"
    and "re_request_id e = re_request_id (rw_entries w ! i)" and "entry_ok e"
  shows "window_ok (w\<lparr>rw_entries := (rw_entries w)[i := e]\<rparr>)"
  using assms set_update_subset_insert [of "rw_entries w" i e]
  by (auto simp: window_ok_def map_key_update list_all_iff)

lemma admit_ok:
  assumes ok: "window_ok w" and adm: "admit w request now = (a, w')"
  shows "window_ok w' \<and> rw_capacity w' = rw_capacity w"
  using ok adm
proof (cases rule: admit_cases)
  case same
  with ok show ?thesis by simp
next
  case added
  then have "rq_request_id request \<notin> re_request_id ` set (rw_entries w)" by (simp add: lookup_by_None_iff)
  with ok added show ?thesis by (auto simp: window_ok_def)
next
  case (evicted i)
  note i = position_SomeD [OF evicted(5)]
  have "rq_request_id request \<notin> re_request_id ` set (remove_at i (rw_entries w))"
    using evicted(2) set_remove_at_subset [of i "rw_entries w"] by (auto simp: lookup_by_None_iff)
  moreover have "list_all entry_ok (remove_at i (rw_entries w))"
    using ok set_remove_at_subset [of i "rw_entries w"] by (auto simp: window_ok_def list_all_iff)
  moreover have "distinct (map re_request_id (remove_at i (rw_entries w)))"
    using ok by (simp add: window_ok_def map_remove_at distinct_remove_at)
  ultimately show ?thesis
    using ok evicted i by (auto simp: window_ok_def length_remove_at)
qed

lemma rewrite_ok:
  assumes op: "complete w request receipt = (r, w') \<or> update_accepted w request receipt = (r, w')"
    and ok: "window_ok w"
  shows "window_ok w' \<and> rw_capacity w' = rw_capacity w"
  using op ok
proof (cases rule: rewrite_cases)
  case same
  with ok show ?thesis by simp
next
  case (rewritten i e)
  then have "entry_ok (e\<lparr>re_receipt := receipt, re_finalized := rc_outcome receipt \<noteq> Accepted\<rparr>)"
    by (auto simp: entry_ok_def receipt_matches_def dedupe_key_def)
  with rewritten ok show ?thesis by (auto intro!: window_ok_rewrite)
qed

lemma admit_remembered:
  assumes ok: "window_ok w" and adm: "admit w request now = (a, w')"
  shows "case a of
      Execute r \<Rightarrow> r = receipt_accepted request \<and> remembered w (rq_request_id request) = None
        \<and> remembered w' (rq_request_id request) = Some (fresh_entry request)
        \<and> (\<forall>id e. remembered w id = Some e \<and> \<not> re_finalized e \<longrightarrow> remembered w' id = Some e)
        \<and> (\<forall>id e. remembered w' id = Some e \<longrightarrow> id = rq_request_id request \<or> remembered w id = Some e)
    | _ \<Rightarrow> w' = w"
  using ok adm
proof (cases rule: admit_cases)
  case same
  then show ?thesis by (cases a) auto
next
  case added
  then have "remembered w' = (remembered w)(rq_request_id request \<mapsto> fresh_entry request)"
    by (simp add: lookup_by_snoc lookup_by_None_iff)
  with added show ?thesis by auto
next
  case (evicted i)
  note i = position_SomeD [OF evicted(5)]
  let ?gone = "re_request_id (rw_entries w ! i)"
  have dist: "distinct (map re_request_id (rw_entries w))" using ok by (simp add: window_ok_def)
  have rm: "lookup_by re_request_id (remove_at i (rw_entries w)) = (remembered w)(?gone := None)"
    using i dist by (simp add: lookup_by_remove_at)
  have "rq_request_id request \<notin> re_request_id ` set (remove_at i (rw_entries w))"
    using evicted(2) set_remove_at_subset [of i "rw_entries w"] by (auto simp: lookup_by_None_iff)
  then have w': "remembered w' = (remembered w)(?gone := None, rq_request_id request \<mapsto> fresh_entry request)"
    using rm by (simp add: evicted(6) lookup_by_snoc)
  have "remembered w ?gone = Some (rw_entries w ! i)"
    using i dist by (simp add: lookup_by_distinct)
  with i w' evicted show ?thesis by (auto split: if_splits)
qed

lemma rewrite_remembered:
  assumes op: "complete w request receipt = (r, w') \<or> update_accepted w request receipt = (r, w')"
    and ok: "window_ok w"
  shows "case r of
      Inl _ \<Rightarrow> w' = w
    | Inr _ \<Rightarrow> \<exists>e. remembered w (rq_request_id request) = Some e \<and> \<not> re_finalized e
        \<and> receipt_matches request e receipt
        \<and> remembered w' = (remembered w)(rq_request_id request \<mapsto>
             e\<lparr>re_receipt := receipt, re_finalized := rc_outcome receipt \<noteq> Accepted\<rparr>)
        \<and> (complete w request receipt = (r, w') \<longleftrightarrow> rc_outcome receipt \<noteq> Accepted)"
  using op ok
proof (cases rule: rewrite_cases)
  case same
  then show ?thesis by auto
next
  case (rewritten i e)
  have "remembered w (rq_request_id request) = Some e"
    using rewritten ok lookup_by_distinct [of re_request_id "rw_entries w" e]
    by (auto simp: window_ok_def)
  moreover have "remembered w' = (remembered w)(rq_request_id request \<mapsto>
      e\<lparr>re_receipt := receipt, re_finalized := rc_outcome receipt \<noteq> Accepted\<rparr>)"
    using remembered_rewrite [OF ok rewritten(2), of "e\<lparr>re_receipt := receipt,
        re_finalized := rc_outcome receipt \<noteq> Accepted\<rparr>"] rewritten(3,4,7) by simp
  ultimately show ?thesis using rewritten(1,5,6,8) by auto
qed

lemma rewrite_succeeds:
  assumes ok: "window_ok w" and e: "remembered w (rq_request_id request) = Some e"
    and match: "receipt_matches request e receipt" and fl: "\<not> re_finalized e"
  shows "rc_outcome receipt \<noteq> Accepted \<Longrightarrow> fst (complete w request receipt) = Ok ()"
    and "rc_outcome receipt = Accepted \<Longrightarrow> fst (update_accepted w request receipt) = Ok ()"
proof -
  from e obtain i where "position (\<lambda>x. re_request_id x = rq_request_id request) (rw_entries w) = Some i"
    and "rw_entries w ! i = e"
    by (auto simp: lookup_by_position)
  with match fl show "rc_outcome receipt \<noteq> Accepted \<Longrightarrow> fst (complete w request receipt) = Ok ()"
    and "rc_outcome receipt = Accepted \<Longrightarrow> fst (update_accepted w request receipt) = Ok ()"
    by (simp_all add: complete_def update_accepted_def Let_def)
qed

section \<open>The window as a state machine\<close>

datatype window_label =
    Admitted ControlRequest u64 Admission
  | Completed ControlRequest ControlReceipt "CompletionError + unit"
  | Updated ControlRequest ControlReceipt "CompletionError + unit"

inductive window_step :: "ReplayWindow \<Rightarrow> window_label \<Rightarrow> ReplayWindow \<Rightarrow> bool" where
  step_admit: "admit w request now = (a, w') \<Longrightarrow> window_step w (Admitted request now a) w'"
| step_complete: "complete w request receipt = (r, w') \<Longrightarrow> window_step w (Completed request receipt r) w'"
| step_update: "update_accepted w request receipt = (r, w') \<Longrightarrow> window_step w (Updated request receipt r) w'"

inductive_cases window_stepE: "window_step w l w'"

inductive_simps window_step_simps:
  "window_step w (Admitted request now a) w'"
  "window_step w (Completed request receipt r) w'"
  "window_step w (Updated request receipt r) w'"

fun executes :: "window_label \<Rightarrow> RequestId \<Rightarrow> bool" where
  "executes (Admitted request now (Execute _)) i = (rq_request_id request = i)"
| "executes _ i = False"

fun finalizes :: "window_label \<Rightarrow> RequestId \<Rightarrow> bool" where
  "finalizes (Completed request receipt (Inr _)) i = (rq_request_id request = i)"
| "finalizes _ i = False"

definition in_flight :: "ReplayWindow \<Rightarrow> RequestId \<Rightarrow> bool" where
  "in_flight w i = (case remembered w i of None \<Rightarrow> False | Some e \<Rightarrow> \<not> re_finalized e)"

lemma window_step_ok: "window_ok w \<Longrightarrow> window_step w l w' \<Longrightarrow> window_ok w' \<and> rw_capacity w' = rw_capacity w"
  by (erule window_stepE) (auto dest: admit_ok rewrite_ok [OF disjI1] rewrite_ok [OF disjI2])

interpretation replay: exclusive_execution window_step window_ok in_flight executes finalizes
proof
  fix w l w' and i :: RequestId
  assume ok: "window_ok w" and step: "window_step w l w'"
  show "window_ok w'" using window_step_ok [OF ok step] by blast
  { assume "executes l i"
    then obtain request now r where l: "l = Admitted request now (Execute r)" "rq_request_id request = i"
      by (cases "(l, i)" rule: executes.cases) auto
    with step have "admit w request now = (Execute r, w')" by (simp add: window_step_simps)
    from admit_remembered [OF ok this] l show "\<not> in_flight w i \<and> in_flight w' i"
      by (auto simp: in_flight_def) }
  assume fl: "in_flight w i" and nf: "\<not> finalizes l i"
  then obtain e where e: "remembered w i = Some e" "\<not> re_finalized e"
    by (auto simp: in_flight_def split: option.splits)
  from step show "in_flight w' i"
  proof (cases rule: window_step.cases)
    case (step_admit request now a)
    from admit_remembered [OF ok step_admit(2)] e fl show ?thesis
      by (cases a) (auto simp: in_flight_def)
  next
    case (step_complete request receipt r)
    from rewrite_remembered [OF disjI1 [OF step_complete(2)] ok] nf fl step_complete(1) show ?thesis
      by (cases r) (auto simp: in_flight_def split: option.splits)
  next
    case (step_update request receipt r)
    show ?thesis
    proof (cases r)
      case (Inl e)
      with rewrite_remembered [OF disjI2 [OF step_update(2)] ok] fl show ?thesis by simp
    next
      case (Inr u)
      have "rc_outcome receipt = Accepted"
        using step_update(2) Inr by (auto simp: update_accepted_def Let_def split: option.splits if_splits)
      with rewrite_remembered [OF disjI2 [OF step_update(2)] ok] fl Inr show ?thesis
        by (auto simp: in_flight_def split: if_splits)
    qed
  qed
qed

lemma window_path_ok:
  "path window_step w ls w' \<Longrightarrow> window_ok w \<Longrightarrow> window_ok w' \<and> rw_capacity w' = rw_capacity w"
  by (induction rule: path.induct) (auto dest: window_step_ok)

lemma completed_is_final:
  assumes ok: "window_ok w" and done1: "complete w request receipt = (Ok (), w1)"
  shows "\<exists>e. remembered w1 (rq_request_id request) = Some e \<and> re_finalized e
    \<and> re_receipt e = receipt \<and> re_key e = dedupe_key request"
  using rewrite_remembered [OF disjI1 [OF done1] ok] done1
  by (auto simp: receipt_matches_def)

lemma final_step:
  assumes ok: "window_ok w" and step: "window_step w l w'"
    and fin: "remembered w i = None \<or> (\<exists>e. remembered w i = Some e \<and> re_finalized e
          \<and> re_receipt e = receipt \<and> re_key e = key)"
    and ne: "\<not> executes l i"
  shows "remembered w' i = None \<or> (\<exists>e. remembered w' i = Some e \<and> re_finalized e
          \<and> re_receipt e = receipt \<and> re_key e = key)"
  using step
proof (cases rule: window_step.cases)
  case (step_admit request now a)
  have "remembered w' i = None \<or> remembered w' i = remembered w i"
  proof (cases a)
    case (Execute r)
    with ne step_admit(1) have "i \<noteq> rq_request_id request" by auto
    moreover have "i = rq_request_id request \<or> remembered w i = Some e" if "remembered w' i = Some e" for e
      using admit_remembered [OF ok step_admit(2)] Execute that by auto
    ultimately show ?thesis by (cases "remembered w' i") auto
  qed (use admit_remembered [OF ok step_admit(2)] in auto)
  with fin show ?thesis by auto
next
  case (step_complete request rc r)
  from rewrite_remembered [OF disjI1 [OF step_complete(2)] ok] fin show ?thesis by (cases r) (auto split: if_splits)
next
  case (step_update request rc r)
  from rewrite_remembered [OF disjI2 [OF step_update(2)] ok] fin show ?thesis by (cases r) (auto split: if_splits)
qed

lemma final_path:
  "\<lbrakk> path window_step w ls w'; window_ok w; \<forall>l \<in> set ls. \<not> executes l i;
     remembered w i = None \<or> (\<exists>e. remembered w i = Some e \<and> re_finalized e
          \<and> re_receipt e = receipt \<and> re_key e = key) \<rbrakk> \<Longrightarrow>
   remembered w' i = None \<or> (\<exists>e. remembered w' i = Some e \<and> re_finalized e
          \<and> re_receipt e = receipt \<and> re_key e = key)"
proof (induction rule: path.induct)
  case (path_Cons w l w1 ls w2)
  have "\<not> executes l i" using path_Cons.prems(2) by simp
  with final_step [OF path_Cons.prems(1) path_Cons.hyps(1) path_Cons.prems(3)]
    window_step_ok [OF path_Cons.prems(1) path_Cons.hyps(1)] path_Cons.IH path_Cons.prems(2)
  show ?case by auto
qed simp

section \<open>Properties\<close>

text \<open>
  C22. Every window reached by any sequence of admissions, completions and updates holds at
  most its capacity of entries, no two for one request id, and every entry's receipt names
  the entry's own request, operation and payload and is an accepted receipt exactly while
  the request is in flight.
\<close>

theorem replay_window_invariant:
  assumes "path window_step (ReplayWindow_new capacity) ls w"
  shows "length (rw_entries w) \<le> max capacity 1 \<and> distinct (map re_request_id (rw_entries w))
    \<and> (\<forall>e \<in> set (rw_entries w).
         rc_request_id (re_receipt e) = re_request_id e
         \<and> rc_operation_id (re_receipt e) = dk_operation_id (re_key e)
         \<and> rc_payload_fingerprint (re_receipt e) = dk_payload_fingerprint (re_key e)
         \<and> (re_finalized e \<longleftrightarrow> rc_outcome (re_receipt e) \<noteq> Accepted))"
  using window_path_ok [OF assms window_ok_new]
  by (auto simp: window_ok_def ReplayWindow_new_def list_all_iff entry_ok_def)

text \<open>
  C7. A request id executes at most once at a time.  In every run of the window, between two
  admissions that execute the same request id there is a successful completion of that id:
  an in-flight request is never evicted and never executed again.
\<close>

theorem request_never_executes_twice_in_flight:
  assumes "path window_step (ReplayWindow_new capacity) (pre @ l1 # mid @ l2 # post) w"
    and "executes l1 i" and "executes l2 i"
  shows "\<exists>l \<in> set mid. finalizes l i"
  by (rule replay.finished_between_starts [OF assms(1) window_ok_new assms(2,3)])

text \<open>
  A final receipt is immutable and is what a repeated request gets.  After a successful
  completion, as long as the id is not executed afresh, the same request is answered by
  replaying exactly the completed receipt, unless the entry was evicted; and no completion
  or update of that request succeeds again.
\<close>

theorem final_receipt_is_replayed:
  assumes run: "path window_step (ReplayWindow_new capacity) ls w"
    and completed: "complete w request receipt = (Ok (), w1)"
    and later: "path window_step w1 ms w2" "\<forall>l \<in> set ms. \<not> executes l (rq_request_id request)"
  shows "(remembered w2 (rq_request_id request) = None \<or> admit w2 request now = (Replay receipt, w2))
    \<and> fst (complete w2 request receipt') \<noteq> Ok () \<and> fst (update_accepted w2 request receipt') \<noteq> Ok ()"
proof -
  have ok: "window_ok w" using window_path_ok [OF run] by simp
  have ok1: "window_ok w1" using rewrite_ok [OF disjI1 [OF completed] ok] by blast
  have ok2: "window_ok w2" using window_path_ok [OF later(1) ok1] by blast
  have fin: "remembered w2 (rq_request_id request) = None
      \<or> (\<exists>e. remembered w2 (rq_request_id request) = Some e \<and> re_finalized e
           \<and> re_receipt e = receipt \<and> re_key e = dedupe_key request)"
    using final_path [OF later(1) ok1 later(2)] completed_is_final [OF ok completed] by blast
  then have "remembered w2 (rq_request_id request) = None \<or> admit w2 request now = (Replay receipt, w2)"
    by (auto simp: admit_def find_remembered)
  moreover have "fst (complete w2 request receipt') \<noteq> Ok ()"
    using rewrite_remembered [OF disjI1 ok2, of request receipt'] fin
    by (cases "complete w2 request receipt'") auto
  moreover have "fst (update_accepted w2 request receipt') \<noteq> Ok ()"
    using rewrite_remembered [OF disjI2 ok2, of request receipt'] fin
    by (cases "update_accepted w2 request receipt'") auto
  ultimately show ?thesis by blast
qed

text \<open>
  The admission decision, exactly, on any reachable window.  A remembered id replays its
  receipt for the same operation and payload and conflicts otherwise; an unknown expired
  mutation is refused; an unknown request is refused for saturation precisely when the window
  is full of in-flight requests; every other request executes and is remembered in flight.
  No refusal or replay changes the window.
\<close>

theorem admit_decision:
  assumes run: "path window_step (ReplayWindow_new capacity) ls w"
    and adm: "admit w request now = (a, w')"
  shows "(case remembered w (rq_request_id request) of
      Some e \<Rightarrow> w' = w \<and> a = (if re_key e = dedupe_key request then Replay (re_receipt e)
                           else Reject (receipt_rejected request conflict_error))
    | None \<Rightarrow>
        if mutation_is_expired request now
          then w' = w \<and> a = Reject (receipt_rejected request expired_error)
        else if length (rw_entries w) = max capacity 1 \<and> (\<forall>e \<in> set (rw_entries w). \<not> re_finalized e)
          then w' = w \<and> a = Reject (receipt_rejected request saturated_error)
        else a = Execute (receipt_accepted request)
          \<and> remembered w' (rq_request_id request) = Some (fresh_entry request)
          \<and> (\<forall>id e. remembered w id = Some e \<and> \<not> re_finalized e \<longrightarrow> remembered w' id = Some e))"
proof -
  have ok: "window_ok w" and cap: "rw_capacity w = max capacity 1"
    using window_path_ok [OF run window_ok_new] by (simp_all add: ReplayWindow_new_def)
  note after = admit_remembered [OF ok adm]
  show ?thesis
  proof (cases "remembered w (rq_request_id request)")
    case (Some e)
    with adm show ?thesis by (auto simp: admit_def find_remembered split: if_splits)
  next
    case None
    show ?thesis
    proof (cases "mutation_is_expired request now
        \<or> length (rw_entries w) = max capacity 1 \<and> (\<forall>e \<in> set (rw_entries w). \<not> re_finalized e)")
      case True
      with None adm cap show ?thesis
        by (auto simp: admit_def find_remembered position_None_iff [THEN iffD2])
    next
      case False
      then have "length (rw_entries w) = rw_capacity w \<Longrightarrow> position re_finalized (rw_entries w) \<noteq> None"
        using cap by (simp add: position_None_iff)
      with None False adm have "a = Execute (receipt_accepted request)"
        by (auto simp: admit_def find_remembered push_entry_eq split: if_splits option.splits)
      with after None False show ?thesis by auto
    qed
  qed
qed

section \<open>A concrete run\<close>

definition sample_request :: "string \<Rightarrow> ControlRequest" where
  "sample_request i = ControlRequest_new (RequestId i) (OperationId ''tabs.close'')
     (fingerprint_from_bytes []) Mutation None"

definition sample_receipt :: "string \<Rightarrow> ControlReceipt" where
  "sample_receipt i = (receipt_accepted (sample_request i))\<lparr>rc_outcome := Committed\<rparr>"

definition sample_window :: "string \<Rightarrow> bool \<Rightarrow> ReplayWindow" where
  "sample_window i finalized = \<lparr>rw_capacity = 1, rw_entries =
     [if finalized then \<lparr>re_request_id = RequestId i, re_key = dedupe_key (sample_request i),
         re_receipt = sample_receipt i, re_finalized = True\<rparr> else fresh_entry (sample_request i)]\<rparr>"

lemma sample_steps:
  "admit (ReplayWindow_new (Suc 0)) (sample_request i) 0
     = (Execute (receipt_accepted (sample_request i)), sample_window i False)"
  "complete (sample_window i False) (sample_request i) (sample_receipt i) = (Ok (), sample_window i True)"
  "i \<noteq> j \<Longrightarrow> admit (sample_window i True) (sample_request j) 0
     = (Execute (receipt_accepted (sample_request j)), sample_window j False)"
  by (simp_all add: admit_def complete_def push_entry_eq ReplayWindow_new_def sample_window_def
      sample_request_def sample_receipt_def ControlRequest_new_def mutation_is_expired_def fresh_entry_def
      receipt_matches_def receipt_accepted_def dedupe_key_def remove_at_def)

theorem replay_window_invariant_witness:
  "\<exists>w. path window_step (ReplayWindow_new 1) [Admitted (sample_request ''a'') 0
        (Execute (receipt_accepted (sample_request ''a'')))] w \<and> length (rw_entries w) = 1
     \<and> (\<forall>e \<in> set (rw_entries w). rc_request_id (re_receipt e) = re_request_id e)"
proof -
  have run: "path window_step (ReplayWindow_new 1) [Admitted (sample_request ''a'') 0
      (Execute (receipt_accepted (sample_request ''a'')))] (sample_window ''a'' False)"
    by (simp add: path_Cons_iff window_step_simps sample_steps)
  from replay_window_invariant [OF run] run show ?thesis
    by (intro exI [of _ "sample_window ''a'' False"]) (simp add: sample_window_def)
qed

theorem request_never_executes_twice_in_flight_witness:
  "\<exists>mid w. path window_step (ReplayWindow_new 1)
       ([] @ Admitted (sample_request ''a'') 0 (Execute (receipt_accepted (sample_request ''a''))) # mid
        @ Admitted (sample_request ''a'') 0 (Execute (receipt_accepted (sample_request ''a''))) # []) w
     \<and> (\<exists>l \<in> set mid. finalizes l (RequestId ''a''))"
proof -
  let ?mid = "[Completed (sample_request ''a'') (sample_receipt ''a'') (Ok ()),
     Admitted (sample_request ''b'') 0 (Execute (receipt_accepted (sample_request ''b''))),
     Completed (sample_request ''b'') (sample_receipt ''b'') (Ok ())]"
  have run: "path window_step (ReplayWindow_new 1)
       ([] @ Admitted (sample_request ''a'') 0 (Execute (receipt_accepted (sample_request ''a''))) # ?mid
        @ Admitted (sample_request ''a'') 0 (Execute (receipt_accepted (sample_request ''a''))) # [])
       (sample_window ''a'' False)"
    by (simp add: path_Cons_iff window_step_simps sample_steps)
  have "executes (Admitted (sample_request ''a'') 0 (Execute (receipt_accepted (sample_request ''a''))))
      (RequestId ''a'')" by (simp add: sample_request_def ControlRequest_new_def)
  from request_never_executes_twice_in_flight [OF run this this] run show ?thesis by blast
qed

theorem final_receipt_is_replayed_witness:
  "admit (sample_window ''a'' True) (sample_request ''a'') 9 = (Replay (sample_receipt ''a''), sample_window ''a'' True)
   \<and> fst (complete (sample_window ''a'' True) (sample_request ''a'') (sample_receipt ''a'')) \<noteq> Ok ()"
proof -
  have run: "path window_step (ReplayWindow_new 1) [Admitted (sample_request ''a'') 0
      (Execute (receipt_accepted (sample_request ''a'')))] (sample_window ''a'' False)"
    by (simp add: path_Cons_iff window_step_simps sample_steps)
  have "remembered (sample_window ''a'' True) (rq_request_id (sample_request ''a'')) \<noteq> None"
    by (simp add: sample_window_def lookup_by_Cons sample_request_def ControlRequest_new_def)
  with final_receipt_is_replayed [OF run sample_steps(2) path_Nil, of 9 "sample_receipt ''a''"]
  show ?thesis by simp
qed

theorem admit_decision_witness:
  "path window_step (ReplayWindow_new 1) [Admitted (sample_request ''a'') 0
      (Execute (receipt_accepted (sample_request ''a'')))] (sample_window ''a'' False)
   \<and> admit (sample_window ''a'' False) (sample_request ''b'') 0
       = (Reject (receipt_rejected (sample_request ''b'') saturated_error), sample_window ''a'' False)"
proof -
  have run: "path window_step (ReplayWindow_new 1) [Admitted (sample_request ''a'') 0
      (Execute (receipt_accepted (sample_request ''a'')))] (sample_window ''a'' False)"
    by (simp add: path_Cons_iff window_step_simps sample_steps)
  obtain a w where adm: "admit (sample_window ''a'' False) (sample_request ''b'') 0 = (a, w)"
    by fastforce
  from admit_decision [OF run adm] adm run show ?thesis
    by (simp add: sample_window_def lookup_by_Cons sample_request_def ControlRequest_new_def
        fresh_entry_def mutation_is_expired_def)
qed

end
