(* ===== verification/Control_Commands.thy ===== *)
theory Control_Commands
  imports Prelude
begin

text \<open>
  The control command catalogue and option lookup (\<open>src/commands.rs\<close>): stable command names
  with their aliases, the canonical name of a spelling, and options read from an argument
  list up to the \<open>--\<close> terminator.
\<close>

record CommandIdentity =
  ci_id :: string
  ci_aliases :: "string list"

definition command :: "string \<Rightarrow> string list \<Rightarrow> CommandIdentity" where
  "command name aliases = \<lparr>ci_id = name, ci_aliases = aliases\<rparr>"

definition COMMAND_CATALOG :: "CommandIdentity list" where
  "COMMAND_CATALOG =
    [command ''acu'' [],
     command ''agent-tools'' [],
     command ''attach-session'' [''attach''],
     command ''active-window'' [''active-tab''],
     command ''capture-pane'' [''capturep''],
     command ''capture-output'' [],
     command ''control-center'' [],
     command ''display-message'' [''display''],
     command ''dump-cells'' [],
     command ''get-settings'' [],
     command ''has-session'' [''has''],
     command ''inspect'' [],
     command ''focus'' [],
     command ''kill-server'' [''server-kill''],
     command ''kill-session'' [],
     command ''kill-window'' [''killw''],
     command ''list-tab-tree'' [],
     command ''list-commands'' [''lscm''],
     command ''list-instances'' [],
     command ''list-panes'' [''lsp''],
     command ''list-sessions'' [''ls''],
     command ''list-windows'' [''lsw''],
     command ''new-session'' [''new''],
     command ''new-agent'' [],
     command ''new-window'' [''neww''],
     command ''next-window'' [''next''],
     command ''pane-snapshot'' [],
     command ''protocol-info'' [],
     command ''rh-pack'' [],
     command ''previous-window'' [''prev''],
     command ''read-events'' [],
     command ''rename-session'' [''rename''],
     command ''rename-window'' [''renamew''],
     command ''screenshot'' [],
     command ''screenshot-pane'' [''screenshot-tab''],
     command ''save-workspace'' [],
     command ''script'' [],
     command ''scroll-pane'' [],
     command ''select-window'' [''selectw''],
     command ''send-keys'' [''send''],
     command ''send-composer'' [],
     command ''send-mouse'' [],
     command ''signal-terminal-foreground'' [],
     command ''server-list'' [],
     command ''set-buffer'' [''setb''],
     command ''set-setting'' [],
     command ''set-composer'' [],
     command ''set-tab-parent'' [],
     command ''set-tab-note'' [],
     command ''show-buffer'' [''showb''],
     command ''show-composer'' [],
     command ''show-tab-parent'' [],
     command ''show-tab-note'' [],
     command ''show-options'' [''show''],
     command ''load-buffer'' [''loadb''],
     command ''list-buffers'' [''lsb''],
     command ''delete-buffer'' [''deleteb''],
     command ''paste-buffer'' [''pasteb''],
     command ''shutdown'' [],
     command ''start-server'' [],
     command ''ui-action'' [],
     command ''ui-bootstrap'' [],
     command ''ui-client-state'' [],
     command ''ui-client-command'' [],
     command ''ui-deltas'' [],
     command ''ui-input'' [],
     command ''ui-hello'' [],
     command ''ui-interact'' [],
     command ''ui-lease'' [],
     command ''ui-snapshot'' [],
     command ''wait-pane'' [''expect-pane''],
     command ''wait-events'' [],
     command ''wait-ui'' [],
     command ''workspace-info'' []]"

definition command_identity :: "string \<Rightarrow> CommandIdentity option" where
  "command_identity name =
     find (\<lambda>identity. ci_id identity = name \<or> name \<in> set (ci_aliases identity)) COMMAND_CATALOG"

definition canonical_control_command :: "string \<Rightarrow> string" where
  "canonical_control_command name =
     (case command_identity name of None \<Rightarrow> name | Some identity \<Rightarrow> ci_id identity)"

definition has_option :: "string list \<Rightarrow> string \<Rightarrow> bool" where
  "has_option args opt = (\<exists>argument \<in> set (takeWhile (\<lambda>a. a \<noteq> ''--'') args). argument = opt)"

definition option_value :: "string list \<Rightarrow> string \<Rightarrow> string option" where
  "option_value args opt =
     (case position (\<lambda>argument. argument = opt) (takeWhile (\<lambda>a. a \<noteq> ''--'') args) of
        None \<Rightarrow> None
      | Some i \<Rightarrow>
          if i + 1 < length args then
            (if args ! (i + 1) = ''--'' then None else Some (args ! (i + 1)))
          else None)"

section \<open>Option lookup\<close>

text \<open>Nothing at or after the terminator is ever seen as an option or as its value.\<close>

lemma option_value_before_terminator:
  "option_value (args @ ''--'' # rest) opt = option_value (args @ [''--'']) opt"
proof -
  let ?seen = "takeWhile (\<lambda>a. a \<noteq> ''--'') (args @ [''--''])"
  have seen: "takeWhile (\<lambda>a. a \<noteq> ''--'') (args @ ''--'' # rest) = ?seen"
    by (induction args) auto
  have len: "length ?seen \<le> length args" by (induction args) auto
  show ?thesis
  proof (cases "position (\<lambda>argument. argument = opt) ?seen")
    case None
    then show ?thesis by (simp add: option_value_def seen)
  next
    case (Some i)
    with position_SomeD [OF Some] len have "i < length args" by simp
    with Some show ?thesis by (simp add: option_value_def seen nth_append)
  qed
qed

definition all_spellings :: "string list" where
  "all_spellings = concat (map (\<lambda>identity. ci_id identity # ci_aliases identity) COMMAND_CATALOG)"

lemma distinct_spellings: "distinct all_spellings"
  by (simp add: all_spellings_def COMMAND_CATALOG_def command_def)

lemma find_identity:
  "\<lbrakk> distinct (concat (map (\<lambda>i. ci_id i # ci_aliases i) catalog)); identity \<in> set catalog;
     name = ci_id identity \<or> name \<in> set (ci_aliases identity) \<rbrakk> \<Longrightarrow>
   find (\<lambda>i. ci_id i = name \<or> name \<in> set (ci_aliases i)) catalog = Some identity"
proof (induction catalog)
  case (Cons i catalog)
  show ?case
  proof (cases "identity = i")
    case False
    with Cons.prems have "identity \<in> set catalog" by simp
    moreover have "name \<in> set (concat (map (\<lambda>i. ci_id i # ci_aliases i) catalog))"
      using Cons.prems(3) calculation by fastforce
    ultimately show ?thesis using Cons by auto
  qed (use Cons.prems in auto)
qed simp

section \<open>Properties\<close>

text \<open>
  The command catalogue is unambiguous: no spelling (a name or an alias) occurs twice, so
  every spelling of a command resolves to that command and to no other, and taking the
  canonical name of a canonical name changes nothing.
\<close>

theorem command_catalog_unambiguous:
  "distinct all_spellings
   \<and> (\<forall>identity \<in> set COMMAND_CATALOG. \<forall>name \<in> set (ci_id identity # ci_aliases identity).
        command_identity name = Some identity \<and> canonical_control_command name = ci_id identity)
   \<and> (\<forall>name. canonical_control_command (canonical_control_command name) = canonical_control_command name)"
proof -
  have found: "command_identity name = Some identity"
    if "identity \<in> set COMMAND_CATALOG" "name \<in> set (ci_id identity # ci_aliases identity)" for identity name
    unfolding command_identity_def
    by (rule find_identity) (use that distinct_spellings in \<open>auto simp: all_spellings_def\<close>)
  have "canonical_control_command (canonical_control_command name) = canonical_control_command name" for name
  proof (cases "command_identity name")
    case (Some identity)
    then have "identity \<in> set COMMAND_CATALOG" by (auto simp: command_identity_def find_Some_iff)
    with found [of identity "ci_id identity"] Some show ?thesis by (simp add: canonical_control_command_def)
  qed (simp add: canonical_control_command_def)
  with found distinct_spellings show ?thesis by (simp add: canonical_control_command_def)
qed

theorem command_catalog_unambiguous_witness:
  "canonical_control_command ''ls'' = ''list-sessions'' \<and> canonical_control_command ''nonsense'' = ''nonsense''"
proof -
  have "command ''list-sessions'' [''ls''] \<in> set COMMAND_CATALOG" by (simp add: COMMAND_CATALOG_def)
  with command_catalog_unambiguous have "canonical_control_command ''ls'' = ''list-sessions''"
    by (fastforce simp: command_def)
  moreover have "canonical_control_command ''nonsense'' = ''nonsense''"
    by (simp add: canonical_control_command_def command_identity_def COMMAND_CATALOG_def command_def)
  ultimately show ?thesis by blast
qed

end
