(* ===== verification/Control_Authority.thy ===== *)
theory Control_Authority
  imports Control_Contract Control_Commands Event_Journal
begin

text \<open>
  The server's control authority (\<open>src/control_authority.rs\<close>) with the wire response it
  produces (\<open>src/protocol.rs\<close>) and the request identity it checks (\<open>src/client/mod.rs\<close>).  The
  authority admits a request through the replay window, records the receipt of an executed
  request, and finalises submissions that were accepted but still pending in a terminal.

  \<open>operation_for_args\<close> (the operation catalogue lookup) and the JSON encoder of the argument
  vector are arguments of the definitions that use them.
\<close>

section \<open>Wire responses\<close>

record IpcRequest =
  iq_args :: "string list"
  iq_control :: "ControlRequest option"

record IpcResponse =
  ir_ok :: bool
  ir_output :: string
  ir_error :: string
  ir_error_code :: string
  ir_error_category :: string
  ir_retryable :: bool
  ir_receipt :: "ControlReceipt option"

definition IPC_ERROR_CODE_COMMAND_FAILED :: string where
  "IPC_ERROR_CODE_COMMAND_FAILED = ''ipc.command_failed''"

definition IPC_ERROR_CATEGORY_COMMAND :: string where
  "IPC_ERROR_CATEGORY_COMMAND = ''command''"

definition IpcResponse_success :: "string \<Rightarrow> IpcResponse" where
  "IpcResponse_success output =
     \<lparr>ir_ok = True, ir_output = output, ir_error = [], ir_error_code = [], ir_error_category = [],
      ir_retryable = False, ir_receipt = None\<rparr>"

definition IpcResponse_failure :: "string \<Rightarrow> IpcResponse" where
  "IpcResponse_failure error =
     \<lparr>ir_ok = False, ir_output = [], ir_error = error, ir_error_code = IPC_ERROR_CODE_COMMAND_FAILED,
      ir_error_category = IPC_ERROR_CATEGORY_COMMAND, ir_retryable = False, ir_receipt = None\<rparr>"

definition typed_failure :: "string \<Rightarrow> string \<Rightarrow> string \<Rightarrow> bool \<Rightarrow> IpcResponse" where
  "typed_failure error code category retryable =
     \<lparr>ir_ok = False, ir_output = [], ir_error = error, ir_error_code = code,
      ir_error_category = category, ir_retryable = retryable, ir_receipt = None\<rparr>"

definition with_receipt :: "IpcResponse \<Rightarrow> ControlReceipt \<Rightarrow> IpcResponse" where
  "with_receipt response receipt = response\<lparr>ir_receipt := Some receipt\<rparr>"

section \<open>The identity a request must have\<close>

text \<open>What \<open>operation_for_args\<close> reports of an operation: its id and whether it only observes.\<close>

type_synonym operation_lookup = "string list \<Rightarrow> string + (string \<times> bool) option"

definition query_commands :: "string list" where
  "query_commands =
     [''active-window'', ''capture-output'', ''capture-pane'', ''display-message'', ''dump-cells'',
      ''get-settings'', ''has-session'', ''inspect'', ''list-panes'', ''list-sessions'',
      ''list-tab-tree'', ''list-windows'', ''read-events'', ''show-composer'', ''show-options'',
      ''show-tab-note'', ''show-tab-parent'', ''workspace-info'']"

definition replace_dash :: "string \<Rightarrow> string" where
  "replace_dash s = map (\<lambda>c. if c = CHR ''-'' then CHR ''.'' else c) s"

definition control_request_identity ::
  "operation_lookup \<Rightarrow> string list \<Rightarrow> string + OperationId \<times> RequestIntent" where
  "control_request_identity operation_for_args args =
     (case operation_for_args args of
        Inl e \<Rightarrow> Err e
      | Inr (Some (operation, observes)) \<Rightarrow>
          (case OperationId_new operation of
             Inl e \<Rightarrow> Err (IdentifierError_fmt e)
           | Inr oid \<Rightarrow> Ok (oid, if observes then Query else Mutation))
      | Inr None \<Rightarrow>
          let command = (case args of [] \<Rightarrow> ''unknown'' | a # _ \<Rightarrow> a);
              intent = (if canonical_control_command command \<in> set query_commands then Query else Mutation);
              identity = ''command.'' @ replace_dash (canonical_control_command command)
          in (case OperationId_new identity of
                Inl e \<Rightarrow> Err (IdentifierError_fmt e)
              | Inr oid \<Rightarrow> Ok (oid, intent)))"

definition control_payload_fingerprint ::
  "(string list \<Rightarrow> string + u8 list) \<Rightarrow> string list \<Rightarrow> string + PayloadFingerprint" where
  "control_payload_fingerprint to_vec args =
     and_then (to_vec args) (\<lambda>bytes. Ok (fingerprint_from_bytes bytes))"

definition error_category_from_wire :: "string \<Rightarrow> ErrorCategory" where
  "error_category_from_wire category =
     (if category = ''validation'' then Validation
      else if category = ''conflict'' then Conflict
      else if category = ''not_found'' then NotFound
      else if category = ''precondition'' then Precondition
      else if category = ''availability'' then Availability
      else if category = ''timeout'' then Timeout
      else if category = ''policy'' then Policy
      else if category = ''unsupported'' then Unsupported
      else Internal)"

section \<open>The authority\<close>

definition CONTROL_REPLAY_CAPACITY :: nat where
  "CONTROL_REPLAY_CAPACITY = 512"

record PendingControlReceipt =
  pr_request :: ControlRequest
  pr_receipt :: ControlReceipt

datatype ControlAdmission =
    Uncontrolled
  | ExecuteControl ControlRequest
  | Respond IpcResponse

record ControlAuthority =
  ca_replay_window :: ReplayWindow
  ca_pending_submissions :: "u64 \<Rightarrow> PendingControlReceipt option"

definition ControlAuthority_default :: ControlAuthority where
  "ControlAuthority_default =
     \<lparr>ca_replay_window = ReplayWindow_new CONTROL_REPLAY_CAPACITY, ca_pending_submissions = Map.empty\<rparr>"

definition response_from_receipt :: "ControlReceipt \<Rightarrow> IpcResponse" where
  "response_from_receipt receipt =
     (case rc_error receipt of
        Some error \<Rightarrow>
          with_receipt (typed_failure (ce_message error) (ce_code error)
            (ErrorCategory_as_str (ce_category error)) (ce_retryable error)) receipt
      | None \<Rightarrow>
          let output = (case Option.bind (rc_result receipt) (\<lambda>result. as_str (json_index result ''output'')) of
                          None \<Rightarrow> [] | Some text \<Rightarrow> text)
          in with_receipt (IpcResponse_success output) receipt)"

definition mismatch_error :: ControlError where
  "mismatch_error = ControlError_new ''control_request_mismatch'' Validation
     ''control metadata does not match the command payload'' False"

definition identity_matches :: "operation_lookup \<Rightarrow> string list \<Rightarrow> ControlRequest \<Rightarrow> bool" where
  "identity_matches operation_for_args args control =
     (control_request_identity operation_for_args args
        = Ok (rq_operation_id control, rq_intent control))"

definition fingerprint_matches ::
  "(string list \<Rightarrow> string + u8 list) \<Rightarrow> string list \<Rightarrow> ControlRequest \<Rightarrow> bool" where
  "fingerprint_matches to_vec args control =
     (control_payload_fingerprint to_vec args = Ok (rq_payload_fingerprint control))"

definition authority_admit ::
  "operation_lookup \<Rightarrow> (string list \<Rightarrow> string + u8 list) \<Rightarrow> ControlAuthority \<Rightarrow> ControlRequest option
   \<Rightarrow> string list \<Rightarrow> u64 \<Rightarrow> ControlAdmission \<times> ControlAuthority" where
  "authority_admit operation_for_args to_vec a control args now_unix_ms =
     (case control of
        None \<Rightarrow> (Uncontrolled, a)
      | Some control \<Rightarrow>
          if rq_schema_version control \<noteq> CONTROL_CONTRACT_SCHEMA_VERSION then
            (Respond (typed_failure ''unsupported control contract schema version''
               ''control_schema_unsupported'' ''unsupported'' False), a)
          else if \<not> identity_matches operation_for_args args control
                  \<or> \<not> fingerprint_matches to_vec args control then
            (Respond (with_receipt
               (typed_failure (ce_message mismatch_error) (ce_code mismatch_error)
                  (ErrorCategory_as_str (ce_category mismatch_error)) (ce_retryable mismatch_error))
               (receipt_rejected control mismatch_error)), a)
          else
            (case admit (ca_replay_window a) control now_unix_ms of
               (Replay receipt, w) \<Rightarrow> (Respond (response_from_receipt receipt), a\<lparr>ca_replay_window := w\<rparr>)
             | (Reject receipt, w) \<Rightarrow> (Respond (response_from_receipt receipt), a\<lparr>ca_replay_window := w\<rparr>)
             | (Execute _, w) \<Rightarrow> (ExecuteControl control, a\<lparr>ca_replay_window := w\<rparr>)))"

definition response_error :: "IpcResponse \<Rightarrow> ControlError option" where
  "response_error response =
     (if ir_ok response then None
      else Some (ControlError_new
             (if ir_error_code response = [] then ''command_outcome_unknown'' else ir_error_code response)
             (error_category_from_wire (ir_error_category response))
             (ir_error response) (ir_retryable response)))"

definition response_outcome :: "IpcResponse \<Rightarrow> WaitDescriptor option \<Rightarrow> ReceiptOutcome" where
  "response_outcome response wait =
     (if wait \<noteq> None then Accepted
      else if ir_ok response then Committed
      else if error_category_from_wire (ir_error_category response)
                \<in> {Validation, Conflict, NotFound, Precondition, Policy, Unsupported} then NoOp
      else OutcomeUnknown)"

definition response_receipt ::
  "ControlRequest \<Rightarrow> IpcResponse \<Rightarrow> ResolvedTarget \<Rightarrow> Control_Contract.EventPosition \<Rightarrow> Control_Contract.EventPosition
   \<Rightarrow> WaitDescriptor option \<Rightarrow> ControlReceipt" where
  "response_receipt control response resolved before_position after_position wait =
     \<lparr>rc_schema_version = CONTROL_CONTRACT_SCHEMA_VERSION, rc_request_id = rq_request_id control,
      rc_operation_id = rq_operation_id control,
      rc_payload_fingerprint = rq_payload_fingerprint control,
      rc_outcome = response_outcome response wait, rc_resolved = Some resolved,
      rc_before_position = Some before_position, rc_after_position = Some after_position,
      rc_result = (if ir_ok response then Some (JObj [(''output'', JStr (ir_output response))]) else None),
      rc_error = response_error response, rc_wait = wait\<rparr>"

definition authority_complete ::
  "ControlAuthority \<Rightarrow> ControlRequest \<Rightarrow> IpcResponse \<Rightarrow> ResolvedTarget \<Rightarrow> Control_Contract.EventPosition \<Rightarrow> Control_Contract.EventPosition
   \<Rightarrow> WaitDescriptor option \<Rightarrow> IpcResponse \<times> ControlAuthority" where
  "authority_complete a control response resolved before_position after_position wait =
     (let receipt = response_receipt control response resolved before_position after_position wait;
          (completion, w) =
            (if rc_outcome receipt = Accepted then update_accepted (ca_replay_window a) control receipt
             else complete (ca_replay_window a) control receipt);
          a1 = a\<lparr>ca_replay_window := w\<rparr>
      in (case completion of
            Inl error \<Rightarrow>
              (typed_failure (''failed to finalize control receipt: '' @ CompletionError_fmt error)
                 ''control_receipt_internal'' ''internal'' False, a1)
          | Inr _ \<Rightarrow>
              if rc_outcome receipt = Accepted then
                (case rt_tab_id resolved of
                   None \<Rightarrow>
                     (typed_failure ''accepted control request did not resolve a terminal''
                        ''control_receipt_internal'' ''internal'' False, a1)
                 | Some tab_id \<Rightarrow>
                     (with_receipt response receipt,
                      a1\<lparr>ca_pending_submissions := (ca_pending_submissions a1)(tab_id \<mapsto>
                            \<lparr>pr_request = control, pr_receipt = receipt\<rparr>)\<rparr>))
              else (with_receipt response receipt, a1)))"

definition finished_receipt :: "ControlReceipt \<Rightarrow> EventEnvelope \<Rightarrow> bool \<Rightarrow> ControlReceipt" where
  "finished_receipt receipt event enter_written =
     (let receipt = receipt\<lparr>rc_after_position := Some \<lparr>cp_epoch = ev_epoch event, cp_sequence = ev_sequence event\<rparr>,
                            rc_wait := None\<rparr>
      in if enter_written then receipt\<lparr>rc_outcome := Committed\<rparr>
         else receipt\<lparr>rc_outcome := OutcomeUnknown, rc_result := None,
                      rc_error := Some (ControlError_new ''terminal_submission_incomplete'' Precondition
                        ''composer text was written, but the terminal did not accept the final Enter'' False)\<rparr>)"

text \<open>\<open>finish_submission\<close>; \<open>None\<close> is the journal's panic on an exhausted sequence.\<close>

definition finish_submission ::
  "ControlAuthority \<Rightarrow> EventJournal \<Rightarrow> u64 \<Rightarrow> bool \<Rightarrow> bool
   \<Rightarrow> ((CompletionError + bool) \<times> ControlAuthority \<times> EventJournal) option" where
  "finish_submission a journal tab_id enter_written terminal_finalized =
     (case ca_pending_submissions a tab_id of
        None \<Rightarrow> Some (Ok False, a, journal)
      | Some pending \<Rightarrow>
          let a1 = a\<lparr>ca_pending_submissions := (ca_pending_submissions a)(tab_id := None)\<rparr> in
          (case commit_correlated journal ComposerSubmissionFinished (Some tab_id)
                  (Some (RequestId_as_str (rq_request_id (pr_request pending))))
                  (Some (OperationId_as_str (rq_operation_id (pr_request pending))))
                  (JObj [(''enter_written'', JBool enter_written),
                         (''terminal_finalized'', JBool terminal_finalized)]) of
             None \<Rightarrow> None
           | Some (event, journal1) \<Rightarrow>
               (case complete (ca_replay_window a1) (pr_request pending)
                       (finished_receipt (pr_receipt pending) event enter_written) of
                  (Inl e, w) \<Rightarrow> Some (Err e, a1\<lparr>ca_replay_window := w\<rparr>, journal1)
                | (Inr _, w) \<Rightarrow> Some (Ok True, a1\<lparr>ca_replay_window := w\<rparr>, journal1))))"

section \<open>The authority as a state machine\<close>

text \<open>
  The server handles one control request at a time: it is answered at once, or executed and
  then completed.  Terminals finish pending submissions in between, with whatever journal the
  server then has.
\<close>

datatype authority_label =
    Answered ControlAdmission
  | Ran ControlRequest IpcResponse
  | Finished u64 "CompletionError + bool"

inductive authority_step ::
  "operation_lookup \<Rightarrow> (string list \<Rightarrow> string + u8 list) \<Rightarrow> ControlAuthority \<Rightarrow> authority_label
   \<Rightarrow> ControlAuthority \<Rightarrow> bool"
  for ofa to_vec where
  answered: "\<lbrakk> authority_admit ofa to_vec a control args now = (r, a'); \<And>c. r \<noteq> ExecuteControl c \<rbrakk>
    \<Longrightarrow> authority_step ofa to_vec a (Answered r) a'"
| ran: "\<lbrakk> authority_admit ofa to_vec a (Some control) args now = (ExecuteControl control, a1);
      authority_complete a1 control response resolved before_position after_position wait = (r, a') \<rbrakk>
    \<Longrightarrow> authority_step ofa to_vec a (Ran control r) a'"
| finished: "finish_submission a journal tab_id enter_written terminal_finalized = Some (r, a', journal')
    \<Longrightarrow> authority_step ofa to_vec a (Finished tab_id r) a'"

text \<open>Every pending submission is an in-flight entry of the window with the same receipt.\<close>

definition pending_ok :: "ReplayWindow \<Rightarrow> PendingControlReceipt \<Rightarrow> bool" where
  "pending_ok w p \<longleftrightarrow>
     (\<exists>e. remembered w (rq_request_id (pr_request p)) = Some e \<and> \<not> re_finalized e
        \<and> re_key e = dedupe_key (pr_request p) \<and> re_receipt e = pr_receipt p)"

definition authority_ok :: "ControlAuthority \<Rightarrow> bool" where
  "authority_ok a \<longleftrightarrow>
     window_ok (ca_replay_window a)
     \<and> (\<forall>tab p. ca_pending_submissions a tab = Some p \<longrightarrow> pending_ok (ca_replay_window a) p)
     \<and> (\<forall>tab tab' p p'. ca_pending_submissions a tab = Some p \<and> ca_pending_submissions a tab' = Some p'
          \<and> rq_request_id (pr_request p) = rq_request_id (pr_request p') \<longrightarrow> tab = tab')"

lemma authority_ok_default [simp]: "authority_ok ControlAuthority_default"
  by (simp add: authority_ok_def ControlAuthority_default_def)

lemma authority_admit_cases:
  assumes "authority_admit ofa to_vec a control args now = (r, a')" and "authority_ok a"
  obtains (answered) "a' = a" "\<And>c. r \<noteq> ExecuteControl c"
  | (execute) c w where "r = ExecuteControl c" "control = Some c"
      "rq_schema_version c = CONTROL_CONTRACT_SCHEMA_VERSION" "identity_matches ofa args c"
      "fingerprint_matches to_vec args c"
      "admit (ca_replay_window a) c now = (Execute (receipt_accepted c), w)"
      "a' = a\<lparr>ca_replay_window := w\<rparr>"
proof (cases "\<exists>c. r = ExecuteControl c")
  case True
  with assms execute admit_remembered [of "ca_replay_window a"] show ?thesis
    by (fastforce simp: authority_admit_def authority_ok_def split: option.splits if_splits prod.splits
        Admission.splits)
next
  case False
  have same: "w = ca_replay_window a"
    if "admit (ca_replay_window a) c now = (adm, w)" "\<And>rc. adm \<noteq> Execute rc" for c adm w
    using admit_remembered [OF _ that(1)] that(2) assms(2)
    by (cases adm) (auto simp: authority_ok_def)
  have "a\<lparr>ca_replay_window := ca_replay_window a\<rparr> = a" by simp
  with False assms(1) same have "a' = a"
    by (auto simp: authority_admit_def split: option.splits if_splits prod.splits Admission.splits)
  with False answered show ?thesis by blast
qed

lemma pending_ok_execute:
  assumes "pending_ok w p" and "window_ok w" and "admit w c now = (Execute rc, w')"
  shows "pending_ok w' p \<and> rq_request_id (pr_request p) \<noteq> rq_request_id c"
  using admit_remembered [OF assms(2,3)] assms(1) by (auto simp: pending_ok_def)

lemma pending_ok_rewrite:
  assumes "pending_ok w p" and "window_ok w"
    and "complete w c rc = (r, w') \<or> update_accepted w c rc = (r, w')"
    and "rq_request_id (pr_request p) \<noteq> rq_request_id c"
  shows "pending_ok w' p"
  using rewrite_remembered [OF assms(3,2)] assms(1,4)
  by (cases r) (auto simp: pending_ok_def)

lemma response_receipt_matches:
  "re_key e = dedupe_key c \<Longrightarrow> receipt_matches c e (response_receipt c response resolved b af wait)"
  by (simp add: receipt_matches_def response_receipt_def)

text \<open>Completing a freshly executed request always succeeds.\<close>

lemma authority_complete_fresh:
  assumes ok: "window_ok (ca_replay_window a)"
    and fresh: "remembered (ca_replay_window a) (rq_request_id c) = Some (fresh_entry c)"
    and comp: "authority_complete a c response resolved b af wait = (r, a')"
  defines "receipt \<equiv> response_receipt c response resolved b af wait"
  shows "\<exists>w op. (op = complete \<or> op = update_accepted) \<and> op (ca_replay_window a) c receipt = (Ok (), w)
    \<and> (op = complete \<longleftrightarrow> rc_outcome receipt \<noteq> Accepted)
    \<and> a' = (if rc_outcome receipt = Accepted \<and> rt_tab_id resolved \<noteq> None
            then a\<lparr>ca_replay_window := w, ca_pending_submissions := (ca_pending_submissions a)
                     (the (rt_tab_id resolved) \<mapsto> \<lparr>pr_request = c, pr_receipt = receipt\<rparr>)\<rparr>
            else a\<lparr>ca_replay_window := w\<rparr>)
    \<and> (rc_outcome receipt \<noteq> Accepted \<longrightarrow> r = with_receipt response receipt)"
proof -
  have m: "receipt_matches c (fresh_entry c) receipt"
    by (simp add: receipt_def response_receipt_matches fresh_entry_def)
  note good = rewrite_succeeds [OF ok fresh m, simplified]
  show ?thesis
  proof (cases "rc_outcome receipt = Accepted")
    case True
    obtain w where w: "update_accepted (ca_replay_window a) c receipt = (Ok (), w)"
      using good(2) True by (cases "update_accepted (ca_replay_window a) c receipt") auto
    moreover have "update_accepted \<noteq> complete"
    proof
      assume "update_accepted = complete"
      with w have "complete (ca_replay_window a) c receipt = (Ok (), w)" by simp
      with True show False by (auto simp: complete_def Let_def split: option.splits if_splits)
    qed
    ultimately show ?thesis
      using True comp by (auto simp: authority_complete_def Let_def receipt_def [symmetric] split: option.splits)
  next
    case False
    obtain w where "complete (ca_replay_window a) c receipt = (Ok (), w)"
      using good(1) False by (cases "complete (ca_replay_window a) c receipt") auto
    with False comp show ?thesis
      by (auto simp: authority_complete_def Let_def receipt_def [symmetric])
  qed
qed

lemma authority_complete_window:
  assumes "window_ok (ca_replay_window a)"
    and "remembered (ca_replay_window a) (rq_request_id c) = Some (fresh_entry c)"
    and "authority_complete a c response resolved b af wait = (r, a')"
  shows "complete (ca_replay_window a) c (response_receipt c response resolved b af wait)
           = (Ok (), ca_replay_window a')
    \<or> update_accepted (ca_replay_window a) c (response_receipt c response resolved b af wait)
           = (Ok (), ca_replay_window a')"
  using authority_complete_fresh [OF assms] by (auto split: if_splits)

lemma authority_ok_ran:
  assumes ok: "authority_ok a"
    and adm: "admit (ca_replay_window a) c now = (Execute (receipt_accepted c), w)"
    and comp: "authority_complete (a\<lparr>ca_replay_window := w\<rparr>) c response resolved b af wait = (r, a')"
  shows "authority_ok a'"
proof -
  let ?receipt = "response_receipt c response resolved b af wait"
  have win: "window_ok (ca_replay_window a)" using ok by (simp add: authority_ok_def)
  note adm' = admit_ok [OF win adm] admit_remembered [OF win adm]
  have pend: "pending_ok w p \<and> rq_request_id (pr_request p) \<noteq> rq_request_id c"
    if "ca_pending_submissions a tab = Some p" for tab p
    using pending_ok_execute [OF _ win adm] ok that by (auto simp: authority_ok_def)
  have wok: "window_ok w" and fresh: "remembered w (rq_request_id c) = Some (fresh_entry c)"
    using adm' by auto
  obtain w' op where op: "op = complete \<or> op = update_accepted" "op w c ?receipt = (Ok (), w')"
    and a': "a' = (if rc_outcome ?receipt = Accepted \<and> rt_tab_id resolved \<noteq> None
            then a\<lparr>ca_replay_window := w', ca_pending_submissions := (ca_pending_submissions a)
                     (the (rt_tab_id resolved) \<mapsto> \<lparr>pr_request = c, pr_receipt = ?receipt\<rparr>)\<rparr>
            else a\<lparr>ca_replay_window := w'\<rparr>)"
    using authority_complete_fresh [OF _ _ comp] wok fresh by (auto cong: if_cong)
  have step: "complete w c ?receipt = (Ok (), w') \<or> update_accepted w c ?receipt = (Ok (), w')"
    using op by auto
  have w'ok: "window_ok w'" using rewrite_ok [OF step wok] by blast
  have kept: "pending_ok w' p \<and> rq_request_id (pr_request p) \<noteq> rq_request_id c"
    if "ca_pending_submissions a tab = Some p" for tab p
    using pend [OF that] pending_ok_rewrite [OF _ wok step] by blast
  have new: "pending_ok w' \<lparr>pr_request = c, pr_receipt = ?receipt\<rparr>" if "rc_outcome ?receipt = Accepted"
    using rewrite_remembered [OF step wok] fresh that by (auto simp: pending_ok_def fresh_entry_def)
  show ?thesis
    using w'ok new ok kept by (auto simp: a' authority_ok_def split: if_splits) (metis kept)+
qed

lemma finish_submission_pending:
  assumes ok: "authority_ok a" and p: "ca_pending_submissions a tab = Some p"
    and seq: "jr_sequence journal \<noteq> - 1"
  shows "\<exists>event journal' w.
    commit_correlated journal ComposerSubmissionFinished (Some tab)
      (Some (RequestId_as_str (rq_request_id (pr_request p))))
      (Some (OperationId_as_str (rq_operation_id (pr_request p))))
      (JObj [(''enter_written'', JBool ew), (''terminal_finalized'', JBool tf)]) = Some (event, journal')
    \<and> complete (ca_replay_window a) (pr_request p) (finished_receipt (pr_receipt p) event ew) = (Ok (), w)
    \<and> finish_submission a journal tab ew tf = Some (Ok True,
        a\<lparr>ca_pending_submissions := (ca_pending_submissions a)(tab := None), ca_replay_window := w\<rparr>, journal')"
proof -
  obtain event journal' where ev: "commit_correlated journal ComposerSubmissionFinished (Some tab)
      (Some (RequestId_as_str (rq_request_id (pr_request p))))
      (Some (OperationId_as_str (rq_operation_id (pr_request p))))
      (JObj [(''enter_written'', JBool ew), (''terminal_finalized'', JBool tf)]) = Some (event, journal')"
    using seq checked_add_one_None_iff [of "jr_sequence journal"]
    by (auto simp: commit_correlated_def Let_def split: option.splits)
  have win: "window_ok (ca_replay_window a)" using ok by (simp add: authority_ok_def)
  from ok p obtain e where e: "remembered (ca_replay_window a) (rq_request_id (pr_request p)) = Some e"
    "\<not> re_finalized e" "re_key e = dedupe_key (pr_request p)" "re_receipt e = pr_receipt p"
    by (fastforce simp: authority_ok_def pending_ok_def)
  then have "entry_ok e" "re_request_id e = rq_request_id (pr_request p)"
    using win lookup_by_SomeD [OF e(1)] by (auto simp: window_ok_def list_all_iff)
  with e have "receipt_matches (pr_request p) e (finished_receipt (pr_receipt p) event ew)"
    by (auto simp: receipt_matches_def finished_receipt_def entry_ok_def dedupe_key_def Let_def)
  from rewrite_succeeds(1) [OF win e(1) this e(2)]
  obtain w where "complete (ca_replay_window a) (pr_request p) (finished_receipt (pr_receipt p) event ew) = (Ok (), w)"
    by (cases "complete (ca_replay_window a) (pr_request p) (finished_receipt (pr_receipt p) event ew)")
      (auto simp: finished_receipt_def Let_def split: if_splits)
  with ev p show ?thesis by (simp add: finish_submission_def Let_def)
qed

lemma authority_ok_finish:
  assumes ok: "authority_ok a"
    and fin: "finish_submission a journal tab ew tf = Some (r, a', journal')"
  shows "authority_ok a'"
proof (cases "ca_pending_submissions a tab")
  case None
  with fin ok show ?thesis by (simp add: finish_submission_def)
next
  case (Some p)
  have win: "window_ok (ca_replay_window a)" using ok by (simp add: authority_ok_def)
  have "jr_sequence journal \<noteq> - 1"
    using fin Some checked_add_one_None_iff [of "jr_sequence journal"]
    by (auto simp: finish_submission_def commit_correlated_def Let_def)
  from finish_submission_pending [OF ok Some this, of ew tf] fin obtain event w where
    step: "complete (ca_replay_window a) (pr_request p) (finished_receipt (pr_receipt p) event ew) = (Ok (), w)"
    and a': "a' = a\<lparr>ca_pending_submissions := (ca_pending_submissions a)(tab := None), ca_replay_window := w\<rparr>"
    by auto
  have "pending_ok w q" if "ca_pending_submissions a t = Some q" "t \<noteq> tab" for t q
  proof -
    have "rq_request_id (pr_request q) \<noteq> rq_request_id (pr_request p)" "pending_ok (ca_replay_window a) q"
      using that ok Some unfolding authority_ok_def by blast+
    then show ?thesis by (intro pending_ok_rewrite [OF _ win disjI1 [OF step]])
  qed
  with rewrite_ok [OF disjI1 [OF step] win] ok show ?thesis
    by (auto simp: a' authority_ok_def split: if_splits)
qed

lemma authority_step_ok: "authority_step ofa to_vec a l a' \<Longrightarrow> authority_ok a \<Longrightarrow> authority_ok a'"
proof (induction rule: authority_step.induct)
  case (answered a control args now r a')
  then show ?case by (auto elim: authority_admit_cases)
next
  case (ran a control args now a1 response resolved b af wait r a')
  from ran.hyps(1) ran.prems show ?case
  proof (cases rule: authority_admit_cases)
    case (execute c w)
    with ran authority_ok_ran [of a control now w] show ?thesis by auto
  qed auto
next
  case (finished a journal tab ew tf r a' journal')
  then show ?case by (blast intro: authority_ok_finish)
qed

lemma authority_path_ok: "path (authority_step ofa to_vec) a ls a' \<Longrightarrow> authority_ok a \<Longrightarrow> authority_ok a'"
  by (induction rule: path.induct) (auto dest: authority_step_ok)

section \<open>Properties\<close>



lemma category_roundtrip: "error_category_from_wire (ErrorCategory_as_str category) = category"
  by (cases category) (simp_all add: error_category_from_wire_def)

lemma response_from_response_receipt:
  assumes "response = IpcResponse_success output
      \<or> response = typed_failure message code (ErrorCategory_as_str category) retryable \<and> code \<noteq> []"
  shows "response_from_receipt (response_receipt c response resolved b af None)
    = with_receipt response (response_receipt c response resolved b af None)"
  using assms
  by (auto simp: response_from_receipt_def response_receipt_def response_error_def IpcResponse_success_def
      typed_failure_def with_receipt_def ControlError_new_def category_roundtrip)

abbreviation final_with :: "ReplayWindow \<Rightarrow> ControlRequest \<Rightarrow> ControlReceipt \<Rightarrow> bool" where
  "final_with w c receipt \<equiv>
     remembered w (rq_request_id c) = None
     \<or> (\<exists>e. remembered w (rq_request_id c) = Some e \<and> re_finalized e
          \<and> re_receipt e = receipt \<and> re_key e = dedupe_key c)"

lemma authority_step_final:
  assumes "authority_step ofa to_vec a l a'" and ok: "authority_ok a"
    and fin: "final_with (ca_replay_window a) c receipt"
    and other: "\<And>c' r. l = Ran c' r \<Longrightarrow> rq_request_id c' \<noteq> rq_request_id c"
  shows "final_with (ca_replay_window a') c receipt"
  using assms(1)
proof (cases rule: authority_step.cases)
  case (answered control args now r)
  from answered(2) ok have "a' = a" by (cases rule: authority_admit_cases) (use answered(3) in auto)
  with fin show ?thesis by simp
next
  case (ran control args now a1 response resolved b af wait r)
  have win: "window_ok (ca_replay_window a)" using ok by (simp add: authority_ok_def)
  from ran(2) ok obtain w where adm: "admit (ca_replay_window a) control now = (Execute (receipt_accepted control), w)"
    and a1: "a1 = a\<lparr>ca_replay_window := w\<rparr>"
    by (cases rule: authority_admit_cases) auto
  have fin1: "final_with w c receipt"
    using final_step [OF win step_admit [OF adm] fin] other [OF ran(1)] by simp
  have w: "window_ok w" and fresh: "remembered w (rq_request_id control) = Some (fresh_entry control)"
    using admit_ok [OF win adm] admit_remembered [OF win adm] by auto
  from authority_complete_window [OF _ _ ran(3)] w fresh a1
  show ?thesis
    using final_step [OF w step_complete fin1] final_step [OF w step_update fin1] by fastforce
next
  case (finished journal tab ew tf r journal')
  have win: "window_ok (ca_replay_window a)" using ok by (simp add: authority_ok_def)
  have "ca_replay_window a' = ca_replay_window a
      \<or> (\<exists>req rc res. complete (ca_replay_window a) req rc = (res, ca_replay_window a'))"
    using finished(2)
    by (auto simp: finish_submission_def Let_def split: option.splits prod.splits sum.splits)
  then show ?thesis
    using fin final_step [OF win step_complete fin] by fastforce
qed

lemma authority_path_final:
  "\<lbrakk> path (authority_step ofa to_vec) a ls a'; authority_ok a; final_with (ca_replay_window a) c receipt;
     \<forall>c' r. Ran c' r \<in> set ls \<longrightarrow> rq_request_id c' \<noteq> rq_request_id c \<rbrakk> \<Longrightarrow>
   final_with (ca_replay_window a') c receipt"
proof (induction rule: path.induct)
  case (path_Cons a l a1 ls a2)
  have "final_with (ca_replay_window a1) c receipt"
    by (rule authority_step_final [OF path_Cons.hyps(1) path_Cons.prems(1,2)]) (use path_Cons.prems(3) in auto)
  moreover have "\<forall>c' r. Ran c' r \<in> set ls \<longrightarrow> rq_request_id c' \<noteq> rq_request_id c"
    using path_Cons.prems(3) by auto
  ultimately show ?case
    using path_Cons.IH authority_step_ok [OF path_Cons.hyps(1) path_Cons.prems(1)] by blast
qed simp

lemma retry_answered:
  assumes ok: "authority_ok a"
    and exec: "authority_admit ofa to_vec a (Some c) args now = (ExecuteControl c, a1)"
    and comp: "authority_complete a1 c response resolved b af None = (r, a2)"
    and response: "response = IpcResponse_success output
      \<or> response = typed_failure message code (ErrorCategory_as_str category) retryable \<and> code \<noteq> []"
    and later: "path (authority_step ofa to_vec) a2 ms a3"
      "\<forall>c' r. Ran c' r \<in> set ms \<longrightarrow> rq_request_id c' \<noteq> rq_request_id c"
    and kept: "remembered (ca_replay_window a3) (rq_request_id c) \<noteq> None"
  shows "authority_admit ofa to_vec a3 (Some c) args now' = (Respond r, a3)"
proof -
  let ?receipt = "response_receipt c response resolved b af None"
  from exec ok obtain w where adm: "admit (ca_replay_window a) c now = (Execute (receipt_accepted c), w)"
    and a1: "a1 = a\<lparr>ca_replay_window := w\<rparr>"
    and valid: "rq_schema_version c = CONTROL_CONTRACT_SCHEMA_VERSION" "identity_matches ofa args c"
      "fingerprint_matches to_vec args c"
    by (cases rule: authority_admit_cases) auto
  have ok2: "authority_ok a2" using authority_ok_ran [OF ok adm] comp a1 by blast
  have win: "window_ok (ca_replay_window a)" using ok by (simp add: authority_ok_def)
  have w: "window_ok w" and fresh: "remembered w (rq_request_id c) = Some (fresh_entry c)"
    using admit_ok [OF win adm] admit_remembered [OF win adm] by auto
  have out: "rc_outcome ?receipt \<noteq> Accepted"
    by (simp add: response_receipt_def response_outcome_def)
  obtain w' where w': "complete w c ?receipt = (Ok (), w')" "ca_replay_window a2 = w'"
    and r: "r = with_receipt response ?receipt"
    using authority_complete_fresh [OF _ _ comp] w fresh a1 out by auto
  have "final_with (ca_replay_window a2) c ?receipt"
    using completed_is_final [OF w w'(1)] w'(2) by blast
  from authority_path_final [OF later(1) ok2 this later(2)] kept
  have "admit (ca_replay_window a3) c now' = (Replay ?receipt, ca_replay_window a3)"
    by (auto simp: admit_def find_remembered)
  with valid r response_from_response_receipt [OF response] show ?thesis
    by (simp add: authority_admit_def)
qed

text \<open>
  A retry receives the response of the first execution.  When an executed request is
  completed with a success, or with a failure that carries a code and one of the contract's
  categories, repeating the same request at any time before the entry is evicted is answered
  with the very same response (output, error text, code, category, retryability and receipt),
  and executes nothing.
\<close>

theorem retry_receives_first_response:
  assumes run: "path (authority_step ofa to_vec) ControlAuthority_default ls a"
    and exec: "authority_admit ofa to_vec a (Some c) args now = (ExecuteControl c, a1)"
    and comp: "authority_complete a1 c response resolved b af None = (r, a2)"
    and response: "response = IpcResponse_success output
      \<or> response = typed_failure message code (ErrorCategory_as_str category) retryable \<and> code \<noteq> []"
    and later: "path (authority_step ofa to_vec) a2 ms a3"
      "\<forall>c' r. Ran c' r \<in> set ms \<longrightarrow> rq_request_id c' \<noteq> rq_request_id c"
    and kept: "remembered (ca_replay_window a3) (rq_request_id c) \<noteq> None"
  shows "authority_admit ofa to_vec a3 (Some c) args now' = (Respond r, a3)"
  by (rule retry_answered [OF _ exec comp response later kept]) (use authority_path_ok [OF run] in simp)

section \<open>A concrete session\<close>

definition sample_control :: ControlRequest where
  "sample_control = ControlRequest_new (RequestId ''r1'') (OperationId ''command.kill.window'')
     (fingerprint_from_bytes []) Mutation None"

definition sample_target :: ResolvedTarget where
  "sample_target = \<lparr>rt_server_pid = 1, rt_server_address = ''a'', rt_server_epoch = ''e'',
     rt_session = ''s'', rt_tab_id = Some 7\<rparr>"

definition sample_position :: Control_Contract.EventPosition where
  "sample_position = \<lparr>cp_epoch = ''e'', cp_sequence = 3\<rparr>"

definition sample_wait :: WaitDescriptor where
  "sample_wait = \<lparr>wd_condition = SubmissionComplete, wd_target = sample_target,
     wd_minimum_position = sample_position, wd_event_kind = None, wd_deadline_unix_ms = None\<rparr>"

abbreviation sample_lookup :: operation_lookup where
  "sample_lookup \<equiv> \<lambda>_. Ok None"

abbreviation sample_to_vec :: "string list \<Rightarrow> string + u8 list" where
  "sample_to_vec \<equiv> \<lambda>_. Ok []"

lemma sample_identity:
  "control_request_identity sample_lookup [''kill-window''] = Ok (OperationId ''command.kill.window'', Mutation)"
proof -
  have "canonical_control_command ''kill-window'' = ''kill-window''" by code_simp
  moreover have "''kill-window'' \<notin> set query_commands" by code_simp
  moreover have "OperationId_new (''command.'' @ replace_dash ''kill-window'')
      = Ok (OperationId ''command.kill.window'')" by code_simp
  ultimately show ?thesis by (simp add: control_request_identity_def Let_def)
qed

definition sample_admitted :: ControlAuthority where
  "sample_admitted = ControlAuthority_default\<lparr>ca_replay_window :=
     \<lparr>rw_capacity = 512, rw_entries = [fresh_entry sample_control]\<rparr>\<rparr>"

lemma sample_execute:
  "authority_admit sample_lookup sample_to_vec ControlAuthority_default (Some sample_control)
     [''kill-window''] 0 = (ExecuteControl sample_control, sample_admitted)"
  by (simp add: authority_admit_def identity_matches_def sample_identity fingerprint_matches_def
      control_payload_fingerprint_def admit_def push_entry_eq mutation_is_expired_def sample_admitted_def
      ControlAuthority_default_def ReplayWindow_new_def CONTROL_REPLAY_CAPACITY_def
      sample_control_def ControlRequest_new_def)

lemma sample_remembered:
  "remembered (ca_replay_window sample_admitted) (rq_request_id sample_control) = Some (fresh_entry sample_control)"
  "window_ok (ca_replay_window sample_admitted)"
  by (simp_all add: sample_admitted_def lookup_by_Cons window_ok_def)



theorem retry_receives_first_response_witness:
  "\<exists>r a2. authority_complete sample_admitted sample_control (IpcResponse_success ''done'') sample_target
       sample_position sample_position None = (r, a2)
     \<and> authority_admit sample_lookup sample_to_vec a2 (Some sample_control) [''kill-window''] 99 = (Respond r, a2)"
proof -
  let ?response = "IpcResponse_success ''done''"
  obtain r a2 where comp: "authority_complete sample_admitted sample_control ?response sample_target
      sample_position sample_position None = (r, a2)" by fastforce
  have "remembered (ca_replay_window a2) (rq_request_id sample_control) \<noteq> None"
    using authority_complete_window [OF sample_remembered(2,1) comp]
      rewrite_remembered [OF _ sample_remembered(2), of sample_control _ "Ok ()" "ca_replay_window a2"]
    by fastforce
  from retry_receives_first_response [OF path_Nil sample_execute comp disjI1 [OF refl] path_Nil _ this,
      where now' = 99] comp
  show ?thesis by auto
qed

section \<open>Where a replay differs\<close>

text \<open>
  The condition on the category in the theorem above is needed: the plain failure of a command has the
  wire category \<open>command\<close>, which is none of the contract's categories, so the receipt remembers it as
  internal and a retry is answered with another category than the first response.
\<close>

lemma replayed_command_failure_category:
  "ir_error_category (IpcResponse_failure e) = ''command''
   \<and> ir_error_category (response_from_receipt (response_receipt c (IpcResponse_failure e) resolved b af None)) = ''internal''"
  by (simp add: IpcResponse_failure_def IPC_ERROR_CATEGORY_COMMAND_def IPC_ERROR_CODE_COMMAND_FAILED_def
      response_from_receipt_def response_receipt_def response_error_def typed_failure_def with_receipt_def
      ControlError_new_def error_category_from_wire_def)

end
