(* ===== verification/Server_Core.thy ===== *)
theory Server_Core
  imports Tab_Tree Terminal_Runtime Control_Authority
begin

text \<open>
  The headless server's state (\<open>src/server_app.rs\<close>), where the tabs, the tab tree, the event journal
  and the control authority meet: creating, restoring, selecting, moving, collapsing and closing
  tabs, preparing and sending a directory change, polling the terminals and saving the workspace,
  with the target resolution, the depth and the composer submission of \<open>src/control_dispatch.rs\<close>.
  An operation returns \<open>None\<close> where the journal panics on an exhausted sequence.  The operating
  system's part of starting and closing a process is an argument.
\<close>

section \<open>State\<close>

definition INITIAL_ROWS :: u16 where
  "INITIAL_ROWS = 30"

definition INITIAL_COLUMNS :: u16 where
  "INITIAL_COLUMNS = 100"

text \<open>The fields the operations below use; the sockets, the lease, the buffers and the clock are left out.\<close>

record 'p ServerState =
  sv_tabs :: "'p TerminalTab list"
  sv_collapsed_tabs :: "u64 set"
  sv_active :: "u64 option"
  sv_next_id :: u64
  sv_session_name :: string
  sv_event_journal :: EventJournal
  sv_control_authority :: ControlAuthority

text \<open>A commit whose event nobody reads.\<close>

definition server_commit ::
  "EventKind \<Rightarrow> u64 option \<Rightarrow> json \<Rightarrow> 'p ServerState \<Rightarrow> 'p ServerState option" where
  "server_commit kind tab_id payload s =
     map_option (\<lambda>(_, journal). s\<lparr>sv_event_journal := journal\<rparr>)
       (journal_commit (sv_event_journal s) kind tab_id payload)"

section \<open>Looking tabs up\<close>

definition tree_nodes :: "'p TerminalTab list \<Rightarrow> TabTreeNode list" where
  "tree_nodes tabs = map (\<lambda>tab. \<lparr>tn_id = tb_id tab, tn_parent_id = tb_parent_id tab, tn_sort_key = tb_index tab\<rparr>) tabs"

definition resolve_target_position ::
  "'p TerminalTab list \<Rightarrow> u64 option \<Rightarrow> string option \<Rightarrow> nat option" where
  "resolve_target_position tabs active target =
     (case target of
        None \<Rightarrow> Option.bind active (\<lambda>active. position (\<lambda>tab. tb_id tab = active) tabs)
      | Some target \<Rightarrow>
          let target = dropWhile (\<lambda>c. c \<in> {CHR ''='', CHR ''%''}) (after_last {CHR '':''} target)
          in (case Option.bind (strip_prefix ''@'' target) (parse_unsigned (2 ^ 64 - 1)) of
                Some i \<Rightarrow> position (\<lambda>tab. unat (tb_id tab) = i) tabs
              | None \<Rightarrow>
                  (case parse_unsigned (2 ^ 32 - 1) target of
                     Some index \<Rightarrow> position (\<lambda>tab. unat (tb_index tab) = index) tabs
                   | None \<Rightarrow> position (\<lambda>tab. tb_title tab = target) tabs)))"

definition resolve_parent_id :: "'p ServerState \<Rightarrow> string \<Rightarrow> string + u64 option" where
  "resolve_parent_id s target =
     (if target \<in> {''root'', ''none'', ''-''} then Ok None
      else (case resolve_target_position (sv_tabs s) (sv_active s) (Some target) of
          None \<Rightarrow> Err (''can't find parent tab: '' @ target)
        | Some k \<Rightarrow> Ok (Some (tb_id (sv_tabs s ! k)))))"

text \<open>The loop of \<open>tab_depth\<close>: the depth so far and the ancestor to count next.\<close>

function depth_loop :: "'p TerminalTab list \<Rightarrow> nat \<Rightarrow> u64 option \<Rightarrow> nat" where
  "depth_loop tabs depth current_parent =
     (case current_parent of
        None \<Rightarrow> depth
      | Some parent_id \<Rightarrow>
          let depth = depth + 1;
              current_parent = Option.bind (find (\<lambda>tab. tb_id tab = parent_id) tabs) tb_parent_id
          in if length tabs < depth then depth else depth_loop tabs depth current_parent)"
  by pat_completeness auto
termination by (relation "measure (\<lambda>(tabs, depth, _). length tabs - depth + (if depth \<le> length tabs then 1 else 0))") auto

declare depth_loop.simps [simp del]

definition tab_depth :: "'p TerminalTab list \<Rightarrow> u64 \<Rightarrow> nat" where
  "tab_depth tabs i =
     (case find (\<lambda>tab. tb_id tab = i) tabs of
        None \<Rightarrow> 0
      | Some tab \<Rightarrow> depth_loop tabs 0 (tb_parent_id tab))"

section \<open>Creating and restoring tabs\<close>

text \<open>
  The first index no tab has.  Among one more candidate than there are tabs one is free, so the
  search of \<open>(0..)\<close> ends there.
\<close>

definition free_index :: "'p TerminalTab list \<Rightarrow> u32" where
  "free_index tabs =
     (case find (\<lambda>candidate. \<not> list_ex (\<lambda>tab. tb_index tab = candidate) tabs) (map of_nat [0 ..< length tabs + 1]) of
        Some index \<Rightarrow> index
      | None \<Rightarrow> of_nat (length tabs))"

definition launch_size :: "'p ServerState \<Rightarrow> u16 \<times> u16" where
  "launch_size s =
     (case (case Option.bind (sv_active s) (\<lambda>active. find (\<lambda>tab. tb_id tab = active) (sv_tabs s)) of
              Some tab \<Rightarrow> Some tab
            | None \<Rightarrow> (case sv_tabs s of [] \<Rightarrow> None | tab # _ \<Rightarrow> Some tab)) of
        Some tab \<Rightarrow> tb_last_size tab
      | None \<Rightarrow> (INITIAL_ROWS, INITIAL_COLUMNS))"

text \<open>\<open>push\<close>, then the stable \<open>sort_by_key\<close>.\<close>

definition push_tab :: "'p TerminalTab \<Rightarrow> 'p TerminalTab list \<Rightarrow> 'p TerminalTab list" where
  "push_tab tab tabs = sort_key tb_index (tabs @ [tab])"

definition create_tab ::
  "'p native_start \<Rightarrow> string option \<Rightarrow> string list \<Rightarrow> (string \<times> string) list \<Rightarrow> bool \<Rightarrow> u64 option
   \<Rightarrow> 'p ServerState \<Rightarrow> ((string + u32) \<times> 'p ServerState) option" where
  "create_tab native title command_line tab_environment select parent_id s =
     (case find (\<lambda>parent. \<not> list_ex (\<lambda>tab. tb_id tab = parent) (sv_tabs s)) (case parent_id of None \<Rightarrow> [] | Some p \<Rightarrow> [p]) of
        Some p \<Rightarrow> Some (Err (''can't find parent tab: @'' @ show_nat (unat p)), s)
      | None \<Rightarrow>
          let new_id = sv_next_id s;
              s = s\<lparr>sv_next_id := saturating_add new_id 1\<rparr>;
              index = free_index (sv_tabs s)
          in (case spawn native \<lparr>tlc_id = new_id, tlc_index = index, tlc_parent_id = parent_id, tlc_title = title,
                     tlc_command_line = command_line, tlc_tab_environment = tab_environment,
                     tlc_initial_size = launch_size s\<rparr> of
                Inl e \<Rightarrow> Some (Err e, s)
              | Inr tab \<Rightarrow>
                  let s = s\<lparr>sv_tabs := push_tab tab (sv_tabs s)\<rparr> in
                  Option.bind
                    (case parent_id of
                       Some p \<Rightarrow>
                         if p \<in> sv_collapsed_tabs s
                         then server_commit LayoutTreeCollapse (Some p) (JObj [(''collapsed'', JBool False)])
                                (s\<lparr>sv_collapsed_tabs := sv_collapsed_tabs s - {p}\<rparr>)
                         else Some s
                     | None \<Rightarrow> Some s) (\<lambda>s.
                  Option.bind
                    (server_commit TabCreated (Some new_id)
                       (JObj [(''index'', json_of_u64 (ucast index)),
                              (''parent_id'', json_of_option json_of_u64 parent_id),
                              (''selected'', JBool select)]) s) (\<lambda>s.
                  if select
                  then map_option (\<lambda>s. (Ok index, s))
                         (server_commit TabSelected (Some new_id) (JObj []) (s\<lparr>sv_active := Some new_id\<rparr>))
                  else Some (Ok index, s)))))"

text \<open>The saved workspace (\<open>src/workspace.rs\<close>).\<close>

record SavedTab =
  st_id :: u64
  st_index :: u32
  st_parent_id :: "u64 option"
  st_title :: string
  st_note :: string
  st_composer :: string
  st_command_line :: "string list"

record SavedWorkspace =
  sw_version :: u32
  sw_session_name :: string
  sw_active_id :: "u64 option"
  sw_collapsed_ids :: "u64 list"
  sw_tabs :: "SavedTab list"

text \<open>\<open>load_workspace\<close> after the file was read and parsed.\<close>

definition load_workspace :: "SavedWorkspace option \<Rightarrow> SavedWorkspace option" where
  "load_workspace parsed =
     Option.bind parsed (\<lambda>workspace. if sw_version workspace = 1 \<and> sw_tabs workspace \<noteq> [] then Some workspace else None)"

definition restore_tab ::
  "'p native_start \<Rightarrow> SavedTab \<Rightarrow> 'p ServerState \<Rightarrow> ((string + unit) \<times> 'p ServerState) option" where
  "restore_tab native saved s =
     (let i = st_id saved; index = st_index saved in
      case spawn native \<lparr>tlc_id = i, tlc_index = index, tlc_parent_id = st_parent_id saved,
             tlc_title = (if st_title saved \<noteq> [] then Some (st_title saved) else None),
             tlc_command_line = st_command_line saved, tlc_tab_environment = [],
             tlc_initial_size = (INITIAL_ROWS, INITIAL_COLUMNS)\<rparr> of
        Inl e \<Rightarrow> Some (Err (''failed to restore terminal @'' @ show_nat (unat i)), s)
      | Inr tab \<Rightarrow>
          let tab = tab\<lparr>tb_note := st_note saved, tb_composer := st_composer saved\<rparr>;
              s = s\<lparr>sv_tabs := push_tab tab (sv_tabs s)\<rparr>
          in map_option (\<lambda>s. (Ok (), s))
               (server_commit TabCreated (Some i)
                  (JObj [(''index'', json_of_u64 (ucast index)), (''restored'', JBool True),
                         (''selected'', JBool (sv_active s = Some i))]) s))"

text \<open>The loop over the restored tabs ends at the first failure.\<close>

fun restore_tabs ::
  "'p native_start \<Rightarrow> SavedTab list \<Rightarrow> 'p ServerState \<Rightarrow> ((string + unit) \<times> 'p ServerState) option" where
  "restore_tabs native [] s = Some (Ok (), s)"
| "restore_tabs native (saved # rest) s =
     (case restore_tab native saved s of
        None \<Rightarrow> None
      | Some (Inl e, s) \<Rightarrow> Some (Err e, s)
      | Some (Inr _, s) \<Rightarrow> restore_tabs native rest s)"

text \<open>
  \<open>ServerState::new\<close> from the workspace to restore; the epoch is the one of the fresh journal.
  Starting the socket and the registration is left out.
\<close>

definition initial_server :: "string \<Rightarrow> SavedWorkspace \<Rightarrow> 'p ServerState" where
  "initial_server epoch restored =
     \<lparr>sv_tabs = [], sv_collapsed_tabs = set (sw_collapsed_ids restored), sv_active = sw_active_id restored,
      sv_next_id = saturating_add (fold max (map st_id (sw_tabs restored)) 0) 1,
      sv_session_name = (if sw_session_name restored = [] then ''agenterm'' else sw_session_name restored),
      sv_event_journal = EventJournal_new epoch, sv_control_authority = ControlAuthority_default\<rparr>"

definition server_new ::
  "'p native_start \<Rightarrow> string \<Rightarrow> bool \<Rightarrow> SavedWorkspace \<Rightarrow> (string + 'p ServerState) option" where
  "server_new native epoch start_empty restored =
     (case restore_tabs native (sw_tabs restored) (initial_server epoch restored) of
        None \<Rightarrow> None
      | Some (Inl e, _) \<Rightarrow> Some (Err e)
      | Some (Inr _, s) \<Rightarrow>
          if sv_tabs s = [] \<and> \<not> start_empty then
            (case create_tab native None [] [] True None s of
               None \<Rightarrow> None
             | Some (Inl e, _) \<Rightarrow> Some (Err e)
             | Some (Inr _, s) \<Rightarrow> Some (Ok s))
          else if (case sv_active s of None \<Rightarrow> True | Some i \<Rightarrow> \<not> list_ex (\<lambda>tab. tb_id tab = i) (sv_tabs s))
          then Some (Ok (s\<lparr>sv_active := (case sv_tabs s of [] \<Rightarrow> None | tab # _ \<Rightarrow> Some (tb_id tab))\<rparr>))
          else Some (Ok s))"

definition saved_tab :: "'p TerminalTab \<Rightarrow> SavedTab" where
  "saved_tab tab = \<lparr>st_id = tb_id tab, st_index = tb_index tab, st_parent_id = tb_parent_id tab, st_title = tb_title tab,
     st_note = tb_note tab, st_composer = tb_composer tab, st_command_line = tb_command_line tab\<rparr>"

text \<open>The order in which a hash set yields its elements is the argument \<open>iter\<close>.\<close>

definition saved_workspace :: "(u64 set \<Rightarrow> u64 list) \<Rightarrow> 'p ServerState \<Rightarrow> SavedWorkspace" where
  "saved_workspace iter s =
     \<lparr>sw_version = 1, sw_session_name = sv_session_name s, sw_active_id = sv_active s,
      sw_collapsed_ids = iter (sv_collapsed_tabs s), sw_tabs = map saved_tab (sv_tabs s)\<rparr>"

section \<open>Selecting, moving, collapsing and closing\<close>

definition select_tab_at :: "nat \<Rightarrow> 'p ServerState \<Rightarrow> ((string + unit) \<times> 'p ServerState) option" where
  "select_tab_at k s =
     (if length (sv_tabs s) \<le> k then Some (Err ''can't find window'', s)
      else let i = tb_id (sv_tabs s ! k)
           in map_option (\<lambda>s. (Ok (), s)) (server_commit TabSelected (Some i) (JObj []) (s\<lparr>sv_active := Some i\<rparr>)))"

text \<open>\<open>set_tab_parent_on_host\<close> on this host: the tabs' parents become those of the nodes.\<close>

definition set_tab_parent ::
  "u64 \<Rightarrow> u64 option \<Rightarrow> 'p ServerState \<Rightarrow> ((string + unit) \<times> 'p ServerState) option" where
  "set_tab_parent child_id parent_id s =
     map_option (\<lambda>(r, nodes, journal).
         (r, s\<lparr>sv_tabs := map2 (\<lambda>tab node. tab\<lparr>tb_parent_id := tn_parent_id node\<rparr>) (sv_tabs s) nodes,
               sv_event_journal := journal\<rparr>))
       (set_tab_parent_on_host (tree_nodes (sv_tabs s)) (sv_event_journal s) child_id parent_id)"

definition toggle_tab_collapsed :: "u64 \<Rightarrow> 'p ServerState \<Rightarrow> ((string + unit) \<times> 'p ServerState) option" where
  "toggle_tab_collapsed tab_id s =
     (if \<not> list_ex (\<lambda>tab. tb_id tab = tab_id) (sv_tabs s)
      then Some (Err (''can't find tab: @'' @ show_nat (unat tab_id)), s)
      else if \<not> list_ex (\<lambda>tab. tb_parent_id tab = Some tab_id) (sv_tabs s)
      then Some (Err ''tab has no child nodes'', s)
      else
        let collapsed = (tab_id \<notin> sv_collapsed_tabs s);
            ids = (if collapsed then insert tab_id (sv_collapsed_tabs s) else sv_collapsed_tabs s - {tab_id})
        in map_option (\<lambda>s. (Ok (), s))
             (server_commit LayoutTreeCollapse (Some tab_id) (JObj [(''collapsed'', JBool collapsed)])
                (s\<lparr>sv_collapsed_tabs := ids\<rparr>)))"

text \<open>
  \<open>TerminalShutdownReceipt\<close>.  The native cleanup receipt belongs to the pseudoterminal library; it is
  seen through the four fields read here, three of them as they serialise.
\<close>

record PtyCleanupReceipt =
  cr_containment :: json
  cr_members_observed :: json
  cr_members_terminated :: json
  cr_verified_empty :: bool

record TerminalShutdownReceipt =
  sr_native_cleanup :: "PtyCleanupReceipt option"
  sr_workers_complete :: bool

definition shutdown_verified :: "TerminalShutdownReceipt \<Rightarrow> bool" where
  "shutdown_verified r \<longleftrightarrow>
     (case sr_native_cleanup r of None \<Rightarrow> False | Some receipt \<Rightarrow> cr_verified_empty receipt) \<and> sr_workers_complete r"

definition shutdown_json :: "TerminalShutdownReceipt \<Rightarrow> json" where
  "shutdown_json r =
     JObj [(''native_cleanup'', json_of_option (\<lambda>receipt. JObj
              [(''containment'', cr_containment receipt),
               (''members_observed'', cr_members_observed receipt),
               (''members_terminated'', cr_members_terminated receipt),
               (''verified_empty'', JBool (cr_verified_empty receipt))]) (sr_native_cleanup r)),
           (''workers_complete'', JBool (sr_workers_complete r)),
           (''verified'', JBool (shutdown_verified r))]"

definition promote :: "u64 \<Rightarrow> u64 option \<Rightarrow> 'p TerminalTab \<Rightarrow> 'p TerminalTab" where
  "promote i parent_id tab = (if tb_parent_id tab = Some i then tab\<lparr>tb_parent_id := parent_id\<rparr> else tab)"

definition close_tab ::
  "TerminalShutdownReceipt \<Rightarrow> u64 \<Rightarrow> 'p ServerState \<Rightarrow> ((string + TerminalShutdownReceipt) \<times> 'p ServerState) option" where
  "close_tab receipt i s =
     (case position (\<lambda>tab. tb_id tab = i) (sv_tabs s) of
        None \<Rightarrow> Some (Err (''can't find tab: @'' @ show_nat (unat i)), s)
      | Some k \<Rightarrow>
          let tab = sv_tabs s ! k;
              promoted_children = map tb_id (filter (\<lambda>tab. tb_parent_id tab = Some i) (sv_tabs s));
              tabs = map (promote i (tb_parent_id tab)) (sv_tabs s);
              tabs = take k tabs @ drop (Suc k) tabs;
              active =
                (if sv_active s = Some i then
                   (if k < length tabs then Some (tb_id (tabs ! k))
                    else if 1 \<le> k \<and> k - 1 < length tabs then Some (tb_id (tabs ! (k - 1)))
                    else None)
                 else sv_active s)
          in map_option (\<lambda>s. (Ok receipt, s))
               (server_commit TabClosed (Some i)
                  (JObj [(''index'', json_of_u64 (ucast (tb_index tab))),
                         (''parent_id'', json_of_option json_of_u64 (tb_parent_id tab)),
                         (''exit_code'', json_of_option (\<lambda>code. json_of_u64 (ucast code)) (tb_exited tab)),
                         (''promoted_children'', JArr (map json_of_u64 promoted_children)),
                         (''active_id'', json_of_option json_of_u64 active),
                         (''terminal_shutdown_complete'', JBool (shutdown_verified receipt)),
                         (''terminal_shutdown'', shutdown_json receipt)])
                  (s\<lparr>sv_tabs := tabs, sv_collapsed_tabs := sv_collapsed_tabs s - {i}, sv_active := active\<rparr>)))"

section \<open>Directory changes and composer submissions\<close>

definition update_tab :: "nat \<Rightarrow> ('p TerminalTab \<Rightarrow> 'p TerminalTab) \<Rightarrow> 'p ServerState \<Rightarrow> 'p ServerState" where
  "update_tab k f s = s\<lparr>sv_tabs := (sv_tabs s)[k := f (sv_tabs s ! k)]\<rparr>"

definition prepared_composer :: "string \<Rightarrow> string \<Rightarrow> string \<Rightarrow> string + string" where
  "prepared_composer mode previous cmd =
     (if mode = ''empty-only'' \<and> previous \<noteq> []
      then Err ''Composer already has a draft; explicitly choose append or replace''
      else if mode = ''empty-only'' \<or> mode = ''replace'' then Ok cmd
      else if mode = ''append'' \<and> previous = [] then Ok cmd
      else if mode = ''append'' then Ok (previous @ [CHR 0x0D, CHR 0x0A] @ cmd)
      else Err (''unknown CWD composer mode: '' @ mode))"

definition prepare_cwd ::
  "u64 \<Rightarrow> string \<Rightarrow> string \<Rightarrow> 'p ServerState \<Rightarrow> ((string + unit) \<times> 'p ServerState) option" where
  "prepare_cwd tab_id dir mode s =
     (case validate_path dir of
        Inl e \<Rightarrow> Some (Err e, s)
      | Inr _ \<Rightarrow>
     (case position (\<lambda>tab. tb_id tab = tab_id) (sv_tabs s) of
        None \<Rightarrow> Some (Err (''can't find tab: @'' @ show_nat (unat tab_id)), s)
      | Some k \<Rightarrow>
     (case and_then (cwd_command (tb_shell_kind (sv_tabs s ! k)) dir)
             (prepared_composer mode (tb_composer (sv_tabs s ! k))) of
        Inl e \<Rightarrow> Some (Err e, s)
      | Inr next_text \<Rightarrow>
          let s = update_tab k (\<lambda>tab. tab\<lparr>tb_composer := next_text\<rparr>) s
          in (case cwd_request (tb_cwd (sv_tabs s ! k)) dir of
                (Inl e, _) \<Rightarrow> Some (Err e, s)
              | (Inr _, cwd) \<Rightarrow>
                  Option.bind
                    (server_commit WorkingContextCwdRequested (Some tab_id)
                       (JObj [(''path'', JStr dir), (''source'', JStr (CwdSource_as_str CwdUserRequested)),
                              (''pending'', JBool True), (''disposition'', JStr ''prepared''),
                              (''composer_mode'', JStr mode)])
                       (update_tab k (\<lambda>tab. tab\<lparr>tb_cwd := cwd\<rparr>) s)) (\<lambda>s.
                  map_option (\<lambda>s. (Ok (), s))
                    (server_commit ComposerDraft (Some tab_id)
                       (JObj [(''length'', json_of_u64 (of_nat (char_count (tb_composer (sv_tabs s ! k)))))]) s))))))"

definition send_cwd_now ::
  "string option \<Rightarrow> instant \<Rightarrow> u64 \<Rightarrow> string \<Rightarrow> 'p ServerState \<Rightarrow> ((string + unit) \<times> 'p ServerState) option" where
  "send_cwd_now written now tab_id dir s =
     (case validate_path dir of
        Inl e \<Rightarrow> Some (Err e, s)
      | Inr _ \<Rightarrow>
     (case position (\<lambda>tab. tb_id tab = tab_id) (sv_tabs s) of
        None \<Rightarrow> Some (Err (''can't find tab: @'' @ show_nat (unat tab_id)), s)
      | Some k \<Rightarrow>
          let shell = tb_shell_kind (sv_tabs s ! k) in
     (case cwd_command shell dir of
        Inl e \<Rightarrow> Some (Err e, s)
      | Inr cmd \<Rightarrow>
     (case tab_submit written now cmd (sv_tabs s ! k) of
        (False, tab) \<Rightarrow>
          Some (Err ''terminal is unavailable or already has a pending submission'', update_tab k (\<lambda>_. tab) s)
      | (True, tab) \<Rightarrow>
     (case cwd_request (tb_cwd tab) dir of
        (Inl e, _) \<Rightarrow> Some (Err e, update_tab k (\<lambda>_. tab) s)
      | (Inr _, cwd) \<Rightarrow>
          map_option (\<lambda>s. (Ok (), s))
            (server_commit WorkingContextCwdRequested (Some tab_id)
               (JObj [(''path'', JStr dir), (''source'', JStr (CwdSource_as_str CwdUserRequested)),
                      (''pending'', JBool True), (''disposition'', JStr ''sent''),
                      (''shell'', JStr (ShellKind_as_str shell))])
               (update_tab k (\<lambda>_. tab\<lparr>tb_cwd := cwd\<rparr>) s)))))))"

text \<open>Sending the composer of the tab at a position that exists; a refused text stays in the composer.\<close>

definition send_composer_at_position ::
  "string option \<Rightarrow> instant \<Rightarrow> nat \<Rightarrow> 'p ServerState \<Rightarrow> (IpcResponse \<times> 'p ServerState) option" where
  "send_composer_at_position written now k s =
     (let tab = sv_tabs s ! k; i = tb_id tab in
      case tb_sensitive_composer tab of
        Some secret \<Rightarrow>
          let marker = tb_sensitive_proxy_marker tab;
              taken = tab\<lparr>tb_sensitive_composer := None, tb_sensitive_proxy_marker := None\<rparr>
          in (case tab_submit_sensitive written now (expose secret) taken of
                (False, tab) \<Rightarrow>
                  Some (IpcResponse_failure ''a composer submission is already pending'',
                        update_tab k (\<lambda>_. tab\<lparr>tb_sensitive_composer := Some secret, tb_sensitive_proxy_marker := marker\<rparr>) s)
              | (True, tab) \<Rightarrow>
                  (case marker of
                     None \<Rightarrow>
                       Some (IpcResponse_failure ''sensitive proxy draft lost its confirmation identity'',
                             update_tab k (\<lambda>_. tab\<lparr>tb_proxy := snd (mark_failed (tb_proxy tab))\<rparr>) s)
                   | Some marker \<Rightarrow>
                       (case mark_submitted (tb_proxy tab) of
                          (Inl e, proxy) \<Rightarrow>
                            Some (IpcResponse_failure e, update_tab k (\<lambda>_. tab\<lparr>tb_proxy := proxy\<rparr>) s)
                        | (Inr _, proxy) \<Rightarrow>
                            map_option (\<lambda>s. (IpcResponse_success [], s))
                              (server_commit WorkingContextProxySubmitted (Some i)
                                 (JObj [(''sensitive'', JBool True), (''application_state'', JStr ''submitted'')])
                                 (update_tab k (\<lambda>_. begin_proxy_confirmation now marker (tab\<lparr>tb_proxy := proxy\<rparr>)) s)))))
      | None \<Rightarrow>
          let text_sent = tb_composer tab; emptied = tab\<lparr>tb_composer := []\<rparr> in
          if text_sent = [] then Some (IpcResponse_success [], s)
          else (case tab_submit written now text_sent emptied of
                  (False, tab) \<Rightarrow>
                    Some (IpcResponse_failure ''a composer submission is already pending'',
                          update_tab k (\<lambda>_. tab\<lparr>tb_composer := text_sent\<rparr>) s)
                | (True, tab) \<Rightarrow>
                    map_option (\<lambda>s. (IpcResponse_success [], s))
                      (server_commit ComposerSubmitted (Some i)
                         (JObj [(''length'', json_of_u64 (of_nat (char_count text_sent)))])
                         (update_tab k (\<lambda>_. tab) s))))"

section \<open>Polling the terminals\<close>

type_synonym tab_event = "EventKind \<times> u64 \<times> json"

fun process_state_text :: "TerminalProcessState \<Rightarrow> string" where
  "process_state_text ProcessRunning = ''running''"
| "process_state_text (TerminalProcessState.ProcessExited _) = ''dead''"
| "process_state_text (ProcessError _) = ''error''"

abbreviation json_of_usize :: "nat \<Rightarrow> json" where
  "json_of_usize n \<equiv> json_of_u64 (of_nat n)"

text \<open>The events of one tab between two observations, and the tab with a regressed counter reported.\<close>

definition output_events :: "u64 \<Rightarrow> TerminalObservation \<Rightarrow> TerminalObservationDelta \<Rightarrow> tab_event list" where
  "output_events i after delta =
     (if 0 < dl_output_advanced_by delta
      then [(TerminalOutput, i, JObj [(''output_bytes'', json_of_usize (ob_output_bytes after)),
                                     (''advanced_by'', json_of_usize (dl_output_advanced_by delta))])]
      else [])"

definition state_events :: "u64 \<Rightarrow> TerminalObservation \<Rightarrow> TerminalObservationDelta \<Rightarrow> tab_event list" where
  "state_events i after delta =
     (if dl_process_state_changed delta \<or> dl_lifecycle_changed delta
      then [(TabState, i, JObj [(''state'', JStr (process_state_text (process_state after))),
              (''exit_code'', json_of_option (\<lambda>code. json_of_u64 (ucast code)) (ob_exit_code after)),
              (''error'', json_of_option JStr (ob_error after)),
              (''reader_closed'', JBool (ob_reader_closed after)),
              (''parser_drained'', JBool (ob_parser_drained after)),
              (''finalized'', JBool (ob_finalized after)),
              (''became_finalized'', JBool (dl_became_finalized delta))])]
      else [])"

definition cwd_events :: "u64 \<Rightarrow> CwdTracker \<Rightarrow> CwdTracker \<Rightarrow> tab_event list" where
  "cwd_events i before after =
     (if after \<noteq> before
      then [(WorkingContextCwd, i, JObj [(''path'', json_of_option JStr (cw_path after)),
              (''source'', JStr (CwdSource_as_str (cw_source after))), (''pending'', JBool (cw_pending after))])]
      else [])"

definition proxy_events :: "u64 \<Rightarrow> ProxyFacts \<Rightarrow> ProxyFacts \<Rightarrow> tab_event list" where
  "proxy_events i before after =
     (if after \<noteq> before
      then [(WorkingContextProxyResolved, i, JObj [(''configured'', JBool (pf_configured after)),
              (''source'', JStr (ProxySource_as_str (pf_source after))),
              (''application_state'', JStr (ProxyApplicationState_as_str (pf_application_state after))),
              (''request_pending'', JBool (pf_request_pending after))])]
      else [])"

text \<open>What the channel, the clock and the pseudoterminal give one tab's poll.\<close>

type_synonym poll_input = "PtyEvent list \<times> instant \<times> string option"

type_synonym completed = "u64 \<times> bool \<times> bool"

definition poll_tab ::
  "('p \<Rightarrow> bytes \<Rightarrow> 'p) \<Rightarrow> ('p \<Rightarrow> string option \<times> 'p) \<Rightarrow> poll_input \<Rightarrow> 'p TerminalTab
   \<Rightarrow> 'p TerminalTab \<times> tab_event list \<times> completed list" where
  "poll_tab process take_cwd input tab =
     (case input of (events, now, written) \<Rightarrow>
      let before = observation tab;
          polled = snd (poll process take_cwd events now written tab);
          after = observation polled;
          i = tb_id polled;
          (polled, observed, completed) =
            (case delta_to before after of
               Inr delta \<Rightarrow>
                 (polled, output_events i after delta @ state_events i after delta,
                  if dl_submission_finished delta
                  then [(i, (case ob_submission_enter_written after of None \<Rightarrow> False | Some b \<Rightarrow> b), ob_finalized after)]
                  else [])
             | Inl e \<Rightarrow>
                 let e = TerminalObservationInvariantError_fmt e
                 in (polled\<lparr>tb_error := Some e\<rparr>,
                     [(TabState, i, JObj [(''state'', JStr ''error''), (''error'', JStr e),
                                         (''became_finalized'', JBool False)])], []))
      in (polled,
          observed @ cwd_events i (tb_cwd tab) (tb_cwd polled)
            @ proxy_events i (proxy_facts (tb_proxy tab)) (proxy_facts (tb_proxy polled)),
          completed))"

definition tab_request :: "tab_event \<Rightarrow> commit_request" where
  "tab_request e = (case e of (kind, i, payload) \<Rightarrow> (kind, Some i, None, None, payload))"

text \<open>One completed submission: its receipt is finished, a failure becomes the tab's error.\<close>

definition finish_completed :: "'p ServerState \<Rightarrow> completed \<Rightarrow> 'p ServerState option" where
  "finish_completed s c =
     (case c of (i, enter_written, terminal_finalized) \<Rightarrow>
      map_option (\<lambda>(r, authority, journal).
          let s = s\<lparr>sv_control_authority := authority, sv_event_journal := journal\<rparr>
          in (case r of
                Inr _ \<Rightarrow> s
              | Inl e \<Rightarrow>
                  (case position (\<lambda>tab. tb_id tab = i) (sv_tabs s) of
                     None \<Rightarrow> s
                   | Some k \<Rightarrow> update_tab k (\<lambda>tab. tab\<lparr>tb_error :=
                       Some (''failed to finalize control receipt: '' @ CompletionError_fmt e)\<rparr>) s)))
        (finish_submission (sv_control_authority s) (sv_event_journal s) i enter_written terminal_finalized))"

text \<open>The inputs of the tabs are given by their identifiers.\<close>

definition poll_terminals ::
  "('p \<Rightarrow> bytes \<Rightarrow> 'p) \<Rightarrow> ('p \<Rightarrow> string option \<times> 'p) \<Rightarrow> (u64 \<Rightarrow> poll_input) \<Rightarrow> 'p ServerState
   \<Rightarrow> 'p ServerState option" where
  "poll_terminals process take_cwd inputs s =
     (let polled = map (\<lambda>tab. poll_tab process take_cwd (inputs (tb_id tab)) tab) (sv_tabs s);
          events = concat (map (\<lambda>(_, events, _). events) polled);
          completed = concat (map (\<lambda>(_, _, completed). completed) polled)
      in Option.bind (journal_run (sv_event_journal s) (map tab_request events)) (\<lambda>journal.
         run_steps finish_completed (s\<lparr>sv_tabs := map fst polled, sv_event_journal := journal\<rparr>) completed))"

end
