(* ===== verification/Server_Invariant.thy ===== *)
theory Server_Invariant
  imports Server_Core
begin

text \<open>
  The invariant of the server's state and that every operation of it keeps it: identifiers and
  indices are unique, the tabs are in index order, parents exist and form a forest, the active tab
  exists, and the journal and the control authority keep their own invariants.
\<close>

section \<open>Forests by rank\<close>

lemma parent_of_iff:
  assumes "distinct (map tn_id nodes)"
  shows "parent_of nodes i = Some p \<longleftrightarrow> (\<exists>node \<in> set nodes. tn_id node = i \<and> tn_parent_id node = Some p)"
proof
  assume "parent_of nodes i = Some p"
  then show "\<exists>node \<in> set nodes. tn_id node = i \<and> tn_parent_id node = Some p"
    by (auto simp: parent_of_def find_Some_iff Option.bind_eq_Some_conv)
next
  assume "\<exists>node \<in> set nodes. tn_id node = i \<and> tn_parent_id node = Some p"
  then obtain node where node: "node \<in> set nodes" "tn_id node = i" "tn_parent_id node = Some p" by blast
  then obtain other where other: "find (\<lambda>node. tn_id node = i) nodes = Some other"
    by (cases "find (\<lambda>node. tn_id node = i) nodes") (auto simp: find_None_iff)
  then have "other \<in> set nodes" "tn_id other = i" by (auto simp: find_Some_iff)
  with node assms have "other = node" by (auto simp: distinct_map dest: inj_onD)
  with other node show "parent_of nodes i = Some p" by (simp add: parent_of_def)
qed

lemma chain_of_rank:
  assumes "\<And>i p. parent_of nodes i = Some p \<Longrightarrow> (r p :: nat) < r i"
  shows "\<exists>n. chain nodes n (Some i) = None"
proof (induction "r i" arbitrary: i rule: less_induct)
  case less
  show ?case
  proof (cases "parent_of nodes i")
    case None
    then have "chain nodes (Suc 0) (Some i) = None" by simp
    then show ?thesis by blast
  next
    case (Some p)
    from less [OF assms [OF Some]] obtain n where "chain nodes n (Some p) = None" by blast
    with Some have "chain nodes (Suc n) (Some i) = None" by simp
    then show ?thesis by blast
  qed
qed

lemma forest_rank:
  "forest nodes \<longleftrightarrow> (\<exists>r :: u64 \<Rightarrow> nat. \<forall>i p. parent_of nodes i = Some p \<longrightarrow> r p < r i)"
proof
  assume f: "forest nodes"
  let ?r = "\<lambda>i. LEAST n. chain nodes n (Some i) = None"
  have "?r p < ?r i" if "parent_of nodes i = Some p" for i p
  proof -
    obtain n where "chain nodes n (Some i) = None" using f by (auto simp: forest_def)
    then have least: "chain nodes (?r i) (Some i) = None" by (rule LeastI)
    then obtain m where m: "?r i = Suc m" by (cases "?r i") auto
    with least that have "chain nodes m (Some p) = None" by simp
    then have "?r p \<le> m" by (rule Least_le)
    with m show ?thesis by simp
  qed
  then show "\<exists>r :: u64 \<Rightarrow> nat. \<forall>i p. parent_of nodes i = Some p \<longrightarrow> r p < r i" by (intro exI [of _ ?r]) simp
next
  assume "\<exists>r :: u64 \<Rightarrow> nat. \<forall>i p. parent_of nodes i = Some p \<longrightarrow> r p < r i"
  then show "forest nodes" unfolding forest_def using chain_of_rank by metis
qed

lemma forest_nodes_rank:
  assumes "distinct (map tn_id nodes)"
  shows "forest nodes \<longleftrightarrow>
    (\<exists>r :: u64 \<Rightarrow> nat. \<forall>node \<in> set nodes. \<forall>p. tn_parent_id node = Some p \<longrightarrow> r p < r (tn_id node))"
  unfolding forest_rank parent_of_iff [OF assms] by blast

section \<open>The invariant\<close>

definition parents_known :: "TabTreeNode list \<Rightarrow> bool" where
  "parents_known nodes \<longleftrightarrow> (\<forall>node \<in> set nodes. \<forall>p. tn_parent_id node = Some p \<longrightarrow> p \<in> node_ids nodes)"

definition nodes_ok :: "TabTreeNode list \<Rightarrow> bool" where
  "nodes_ok nodes \<longleftrightarrow> distinct (map tn_id nodes) \<and> sorted_wrt (<) (map tn_sort_key nodes)
     \<and> parents_known nodes \<and> forest nodes"

definition server_ok :: "'p ServerState \<Rightarrow> bool" where
  "server_ok s \<longleftrightarrow>
     nodes_ok (tree_nodes (sv_tabs s))
     \<and> (\<forall>i \<in> node_ids (tree_nodes (sv_tabs s)). i < sv_next_id s)
     \<and> (\<forall>i. sv_active s = Some i \<longrightarrow> i \<in> node_ids (tree_nodes (sv_tabs s)))
     \<and> journal_ok (sv_event_journal s) \<and> authority_ok (sv_control_authority s)"

lemma tree_nodes_simps [simp]:
  "map tn_id (tree_nodes tabs) = map tb_id tabs" "map tn_sort_key (tree_nodes tabs) = map tb_index tabs"
  "length (tree_nodes tabs) = length tabs" "tree_nodes [] = []"
  "tn_id ` set (tree_nodes tabs) = tb_id ` set tabs"
  by (simp_all add: tree_nodes_def image_image)

lemma strict_sorted_sort_key:
  assumes "distinct (map f xs)"
  shows "sorted_wrt (<) (map f (sort_key f xs))"
proof -
  have "distinct (map f (sort_key f xs))" using assms by (simp add: distinct_map)
  then show ?thesis by (simp add: strict_sorted_iff)
qed

text \<open>A node under a known parent, or none, keeps the tree in order.\<close>

lemma nodes_ok_insert:
  assumes ok: "nodes_ok nodes" and new: "tn_id node \<notin> node_ids nodes" "tn_sort_key node \<notin> tn_sort_key ` set nodes"
    and parent: "\<And>p. tn_parent_id node = Some p \<Longrightarrow> p \<in> node_ids nodes"
  shows "nodes_ok (sort_key tn_sort_key (nodes @ [node]))" (is "nodes_ok ?nodes")
proof -
  have set: "set ?nodes = insert node (set nodes)" by simp
  have dist: "distinct (map tn_id ?nodes)"
    using ok new by (simp add: nodes_ok_def distinct_map image_iff) metis
  have keys: "sorted_wrt (<) (map tn_sort_key ?nodes)"
    using ok new by (intro strict_sorted_sort_key) (auto simp: nodes_ok_def strict_sorted_iff)
  from ok have "distinct (map tn_id nodes)" "forest nodes" by (simp_all add: nodes_ok_def)
  then obtain r :: "u64 \<Rightarrow> nat" where
    r: "\<And>n p. n \<in> set nodes \<Longrightarrow> tn_parent_id n = Some p \<Longrightarrow> r p < r (tn_id n)"
    using forest_nodes_rank by metis
  let ?r = "\<lambda>i. if i = tn_id node then Suc (case tn_parent_id node of None \<Rightarrow> 0 | Some p \<Rightarrow> r p) else r i"
  have "?r p < ?r (tn_id n)" if "n \<in> set ?nodes" "tn_parent_id n = Some p" for n p
  proof -
    have "p \<in> node_ids nodes" using that parent ok by (auto simp: nodes_ok_def parents_known_def)
    then have "p \<noteq> tn_id node" using new(1) by blast
    moreover have "tn_id n \<noteq> tn_id node" if "n \<in> set nodes" using new(1) that by (metis image_eqI set_map)
    ultimately show ?thesis using that r by auto
  qed
  then have "forest ?nodes" unfolding forest_nodes_rank [OF dist] by (intro exI [of _ ?r]) blast
  moreover have "parents_known ?nodes" using ok parent set by (auto simp: parents_known_def nodes_ok_def)
  ultimately show ?thesis using dist keys by (simp add: nodes_ok_def)
qed

text \<open>Removing a node and giving its children its own parent does, too.\<close>

definition promote_node :: "u64 \<Rightarrow> u64 option \<Rightarrow> TabTreeNode \<Rightarrow> TabTreeNode" where
  "promote_node i p node = (if tn_parent_id node = Some i then node\<lparr>tn_parent_id := p\<rparr> else node)"

lemma nodes_ok_remove:
  assumes ok: "nodes_ok (pre @ node # post)"
  shows "nodes_ok (map (promote_node (tn_id node) (tn_parent_id node)) (pre @ post))" (is "nodes_ok (map ?f _)")
proof -
  have f [simp]: "tn_id (?f n) = tn_id n" "tn_sort_key (?f n) = tn_sort_key n" for n by (simp_all add: promote_node_def)
  then have same: "tn_id \<circ> ?f = tn_id" "tn_sort_key \<circ> ?f = tn_sort_key" by auto
  have dist: "distinct (map tn_id (map ?f (pre @ post)))" and
    keys: "sorted_wrt (<) (map tn_sort_key (map ?f (pre @ post)))"
    using ok unfolding nodes_ok_def map_map same by (auto simp: sorted_wrt_append)
  from ok have "distinct (map tn_id (pre @ node # post))" "forest (pre @ node # post)" by (simp_all add: nodes_ok_def)
  then obtain r :: "u64 \<Rightarrow> nat" where
    r: "\<And>n p. n \<in> set (pre @ node # post) \<Longrightarrow> tn_parent_id n = Some p \<Longrightarrow> r p < r (tn_id n)"
    using forest_nodes_rank by metis
  have old: "p \<noteq> tn_id node \<and> p \<in> node_ids (pre @ post) \<and> r p < r (tn_id n)"
    if n: "n \<in> set (pre @ post)" "tn_parent_id (?f n) = Some p" for n p
  proof -
    have "\<exists>m \<in> set (pre @ node # post). tn_parent_id m = Some p \<and> p \<noteq> tn_id node \<and> r (tn_id m) \<le> r (tn_id n)"
    proof (cases "tn_parent_id n = Some (tn_id node)")
      case True
      then have "r (tn_id node) < r (tn_id n)" "tn_parent_id node = Some p" using n r by (auto simp: promote_node_def)
      moreover from this(2) have "r p < r (tn_id node)" using r by simp
      ultimately show ?thesis by (intro bexI [of _ node]) auto
    next
      case False
      with n show ?thesis by (intro bexI [of _ n]) (auto simp: promote_node_def)
    qed
    then obtain m where m: "m \<in> set (pre @ node # post)" "tn_parent_id m = Some p" "p \<noteq> tn_id node"
      "r (tn_id m) \<le> r (tn_id n)" by blast
    with ok have "p \<in> node_ids (pre @ node # post)" unfolding nodes_ok_def parents_known_def by blast
    with m r show ?thesis by fastforce
  qed
  have "forest (map ?f (pre @ post))"
    unfolding forest_nodes_rank [OF dist] using old by (intro exI [of _ r]) auto
  moreover have "parents_known (map ?f (pre @ post))" using old by (fastforce simp: parents_known_def)
  ultimately show ?thesis using dist keys by (simp add: nodes_ok_def)
qed

section \<open>Operations that leave the tree alone\<close>

lemma server_commitD:
  assumes "server_commit kind tab_id payload s = Some s'"
  shows "\<exists>journal. s' = s\<lparr>sv_event_journal := journal\<rparr>
    \<and> (\<exists>e. commit_correlated (sv_event_journal s) kind tab_id None None payload = Some (e, journal))
    \<and> (journal_ok (sv_event_journal s) \<longrightarrow> journal_ok journal)"
  using assms journal_ok_commit [of "sv_event_journal s" "(kind, tab_id, None, None, payload)"]
  by (auto simp: server_commit_def journal_commit_def commit_with_def)

lemma server_ok_commit: "server_commit kind tab_id payload s = Some s' \<Longrightarrow> server_ok s \<Longrightarrow> server_ok s'"
  by (auto dest!: server_commitD simp: server_ok_def)

lemma server_commit_fields:
  assumes "server_commit kind tab_id payload s = Some s'"
  shows "sv_tabs s' = sv_tabs s" "sv_next_id s' = sv_next_id s" "sv_active s' = sv_active s"
    "sv_collapsed_tabs s' = sv_collapsed_tabs s" "sv_session_name s' = sv_session_name s"
    "sv_control_authority s' = sv_control_authority s"
  using server_commitD [OF assms] by auto

lemma server_ok_tabs: "tree_nodes tabs = tree_nodes (sv_tabs s) \<Longrightarrow> server_ok (s\<lparr>sv_tabs := tabs\<rparr>) \<longleftrightarrow> server_ok s"
  by (simp add: server_ok_def)

text \<open>What the tree sees of a tab; updates of the other fields do not change it.\<close>

definition tab_node :: "'p TerminalTab \<Rightarrow> TabTreeNode" where
  "tab_node tab = \<lparr>tn_id = tb_id tab, tn_parent_id = tb_parent_id tab, tn_sort_key = tb_index tab\<rparr>"

lemma tree_nodes_map: "tree_nodes tabs = map tab_node tabs"
  by (simp add: tree_nodes_def tab_node_def)

lemma tab_node_sel [simp]:
  "tn_id (tab_node tab) = tb_id tab" "tn_parent_id (tab_node tab) = tb_parent_id tab" "tn_sort_key (tab_node tab) = tb_index tab"
  by (simp_all add: tab_node_def)

lemma tab_node_updates [simp]:
  "tab_node (tab\<lparr>tb_title := a\<rparr>) = tab_node tab" "tab_node (tab\<lparr>tb_note := b\<rparr>) = tab_node tab" "tab_node (tab\<lparr>tb_cwd := c\<rparr>) = tab_node tab"
  "tab_node (tab\<lparr>tb_proxy := d\<rparr>) = tab_node tab" "tab_node (tab\<lparr>tb_composer := e\<rparr>) = tab_node tab" "tab_node (tab\<lparr>tb_sensitive_composer := f\<rparr>) = tab_node tab"
  "tab_node (tab\<lparr>tb_sensitive_proxy_marker := g\<rparr>) = tab_node tab" "tab_node (tab\<lparr>tb_pending_proxy_confirmation := h\<rparr>) = tab_node tab" "tab_node (tab\<lparr>tb_proxy_redaction_pending := i\<rparr>) = tab_node tab"
  "tab_node (tab\<lparr>tb_parser := j\<rparr>) = tab_node tab" "tab_node (tab\<lparr>tb_cursor_tracker := k\<rparr>) = tab_node tab" "tab_node (tab\<lparr>tb_exited := l\<rparr>) = tab_node tab"
  "tab_node (tab\<lparr>tb_error := m\<rparr>) = tab_node tab" "tab_node (tab\<lparr>tb_last_size := n\<rparr>) = tab_node tab" "tab_node (tab\<lparr>tb_input_bytes := o1\<rparr>) = tab_node tab"
  "tab_node (tab\<lparr>tb_input_writes := p\<rparr>) = tab_node tab" "tab_node (tab\<lparr>tb_submission := q\<rparr>) = tab_node tab" "tab_node (tab\<lparr>tb_submission_enter_written := r\<rparr>) = tab_node tab"
  "tab_node (tab\<lparr>tb_lifecycle := s\<rparr>) = tab_node tab" "tab_node (tab\<lparr>tb_output_bytes := t\<rparr>) = tab_node tab" "tab_node (tab\<lparr>tb_raw_output := u\<rparr>) = tab_node tab"
  by (simp_all add: tab_node_def)

lemma tree_nodes_update:
  "tab_node tab = tab_node (tabs ! k) \<Longrightarrow> tree_nodes (tabs[k := tab]) = tree_nodes tabs"
  by (cases "k < length tabs") (simp_all add: tree_nodes_map map_update list_update_same_conv list_update_beyond)

lemma server_ok_update_tab:
  "tab_node (f (sv_tabs s ! k)) = tab_node (sv_tabs s ! k) \<Longrightarrow> server_ok (update_tab k f s) \<longleftrightarrow> server_ok s"
  unfolding update_tab_def by (intro server_ok_tabs tree_nodes_update)

lemma tab_node_record_output [simp]: "tab_node (record_output process bytes tab) = tab_node tab"
  by (simp add: record_output_def)

lemma tab_node_observe [simp]: "tab_node (observe_proxy_confirmation bytes tab) = tab_node tab"
  by (simp add: observe_proxy_confirmation_def Let_def split: option.splits)

lemma tab_node_redact: "redact_proxy_output bytes flush tab = (out, tab') \<Longrightarrow> tab_node tab' = tab_node tab"
  by (auto simp: redact_proxy_output_def split: prod.splits)

lemma tab_node_finish [simp]: "tab_node (finish_output_stream process tab) = tab_node tab"
  by (auto simp: finish_output_stream_def Let_def dest: tab_node_redact split: prod.splits)

lemma tab_node_event [simp]: "tab_node (poll_event process take_cwd ev tab) = tab_node tab"
  by (cases ev) (auto simp: Let_def dest: tab_node_redact split: prod.splits option.splits)

lemma tab_node_events [simp]: "tab_node (fold (poll_event process take_cwd) evs tab) = tab_node tab"
  by (induction evs arbitrary: tab) simp_all

lemma tab_node_send [simp]: "tab_node (snd (tab_send written bytes tab)) = tab_node tab"
  by (simp add: tab_send_def split: option.splits)

lemma tab_node_sendD: "tab_send written bytes tab = (r, tab') \<Longrightarrow> tab_node tab' = tab_node tab"
  by (metis snd_conv tab_node_send)

lemma tab_node_submitD:
  "tab_submit written now input tab = (r, tab') \<Longrightarrow> tab_node tab' = tab_node tab"
  "tab_submit_sensitive written now input tab = (r, tab') \<Longrightarrow> tab_node tab' = tab_node tab"
  by (auto simp: tab_submit_def tab_submit_sensitive_def dest!: tab_node_sendD
      split: option.splits prod.splits bool.splits if_splits)

lemma tab_node_poll [simp]: "tab_node (snd (poll process take_cwd events now written tab)) = tab_node tab"
  by (auto simp: poll_def Let_def dest!: tab_node_sendD split: prod.splits option.splits if_splits)

lemma tab_node_poll_tab [simp]: "tab_node (fst (poll_tab process take_cwd input tab)) = tab_node tab"
  by (cases input) (simp add: poll_tab_def Let_def split: sum.splits)

section \<open>Creating a tab\<close>

lemma map_insort_key: "map f (insort_key (\<lambda>x. g (f x)) x xs) = insort_key g (f x) (map f xs)"
  by (induction xs) simp_all

lemma map_sort_key: "map f (sort_key (\<lambda>x. g (f x)) xs) = sort_key g (map f xs)"
  by (induction xs) (simp_all add: map_insort_key)

lemma tree_nodes_push: "tree_nodes (push_tab tab tabs) = sort_key tn_sort_key (tree_nodes tabs @ [tab_node tab])"
  using map_sort_key [of tab_node tn_sort_key "tabs @ [tab]"] by (simp add: tree_nodes_map push_tab_def)

lemma spawn_node:
  assumes "spawn native launch = Ok tab"
  shows "tab_node tab = \<lparr>tn_id = tlc_id launch, tn_parent_id = tlc_parent_id launch, tn_sort_key = tlc_index launch\<rparr>"
  using assms by (auto simp: spawn_def Let_def result_iffs initial_tab_def tab_node_def split: option.splits)

lemma free_index_fresh:
  assumes "length tabs < 2 ^ 32"
  shows "free_index tabs \<notin> tb_index ` set tabs"
proof (cases "find (\<lambda>candidate. \<not> list_ex (\<lambda>tab. tb_index tab = candidate) tabs) (map of_nat [0 ..< length tabs + 1])")
  case (Some index)
  then have "\<not> list_ex (\<lambda>tab. tb_index tab = index) tabs" by (auto simp: find_Some_iff)
  with Some show ?thesis by (auto simp: free_index_def list_ex_iff)
next
  case None
  let ?c = "of_nat ` {0 ..< length tabs + 1} :: u32 set"
  have "inj_on (of_nat :: nat \<Rightarrow> u32) {0 ..< length tabs + 1}"
    using assms by (intro inj_onI) (simp add: word_of_nat_eq_iff take_bit_nat_eq_self)
  then have "card ?c = length tabs + 1" by (simp add: card_image)
  moreover have "?c \<subseteq> tb_index ` set tabs"
  proof
    fix c :: u32
    assume "c \<in> ?c"
    then have "c \<in> set (map of_nat [0 ..< length tabs + 1])" by (simp del: upt_Suc)
    with None have "list_ex (\<lambda>tab. tb_index tab = c) tabs" unfolding find_None_iff by blast
    then show "c \<in> tb_index ` set tabs" by (auto simp: list_ex_iff)
  qed
  then have "card ?c \<le> card (tb_index ` set tabs)" by (intro card_mono) auto
  moreover have "card (tb_index ` set tabs) \<le> length tabs"
    using card_image_le [of "set tabs" tb_index] card_length [of tabs] by simp
  ultimately show ?thesis by simp
qed

text \<open>The state once the tab is pushed, before its events.\<close>

lemma server_ok_push:
  assumes ok: "server_ok s" and len: "length (sv_tabs s) < 2 ^ 32" and last: "sv_next_id s \<noteq> - 1"
    and parent: "\<And>p. parent_id = Some p \<Longrightarrow> p \<in> tb_id ` set (sv_tabs s)"
    and tab: "tab_node tab = \<lparr>tn_id = sv_next_id s, tn_parent_id = parent_id, tn_sort_key = free_index (sv_tabs s)\<rparr>"
  shows "server_ok (s\<lparr>sv_next_id := saturating_add (sv_next_id s) 1, sv_tabs := push_tab tab (sv_tabs s)\<rparr>)"
proof -
  let ?nodes = "tree_nodes (sv_tabs s)"
  have new: "sv_next_id s \<notin> node_ids ?nodes" using ok by (auto simp: server_ok_def simp del: tree_nodes_simps)
  have fresh: "free_index (sv_tabs s) \<notin> tn_sort_key ` set ?nodes"
    using free_index_fresh [OF len] by (auto simp: tree_nodes_map)
  have "nodes_ok (sort_key tn_sort_key (?nodes @ [tab_node tab]))"
    by (rule nodes_ok_insert) (use ok new fresh parent tab in \<open>auto simp: server_ok_def\<close>)
  moreover have "i < sv_next_id s + 1" if "i \<in> node_ids ?nodes" for i
    using ok that saturating_succ [OF last] by (auto simp: server_ok_def intro: less_trans)
  ultimately show ?thesis
    using ok saturating_succ [OF last] tab by (auto simp: server_ok_def tree_nodes_push)
qed

definition step_bound :: "'p ServerState \<Rightarrow> 'p ServerState \<Rightarrow> bool" where
  "step_bound s s' \<longleftrightarrow> length (sv_tabs s') \<le> Suc (length (sv_tabs s)) \<and> unat (sv_next_id s') \<le> Suc (unat (sv_next_id s))"

lemma step_bound_refl [simp]: "step_bound s s"
  by (simp add: step_bound_def)

lemma server_ok_collapsed [simp]: "server_ok (s\<lparr>sv_collapsed_tabs := c\<rparr>) \<longleftrightarrow> server_ok s"
  by (simp add: server_ok_def)

lemma server_ok_active: "i \<in> tb_id ` set (sv_tabs s) \<Longrightarrow> server_ok s \<Longrightarrow> server_ok (s\<lparr>sv_active := Some i\<rparr>)"
  by (simp add: server_ok_def)

text \<open>The commits of a successful creation, in order.\<close>

lemma create_tab_stages:
  fixes s :: "'p ServerState"
  defines "s1 \<equiv> s\<lparr>sv_next_id := saturating_add (sv_next_id s) 1\<rparr>"
  assumes c: "create_tab native title command_line env select parent_id s = Some (r, s')"
    and found: "find (\<lambda>parent. \<not> list_ex (\<lambda>tab. tb_id tab = parent) (sv_tabs s)) (case parent_id of None \<Rightarrow> [] | Some p \<Rightarrow> [p]) = None"
    and tab: "spawn native \<lparr>tlc_id = sv_next_id s, tlc_index = free_index (sv_tabs s), tlc_parent_id = parent_id, tlc_title = title,
      tlc_command_line = command_line, tlc_tab_environment = env, tlc_initial_size = launch_size s1\<rparr> = Ok tab"
  obtains s3 s4 where
    "s3 = s1\<lparr>sv_tabs := push_tab tab (sv_tabs s)\<rparr>
      \<or> (\<exists>p c. server_commit LayoutTreeCollapse (Some p) c (s1\<lparr>sv_tabs := push_tab tab (sv_tabs s), sv_collapsed_tabs := sv_collapsed_tabs s - {p}\<rparr>) = Some s3)"
    "\<exists>payload. server_commit TabCreated (Some (sv_next_id s)) payload s3 = Some s4"
    "s' = s4 \<or> (\<exists>payload. server_commit TabSelected (Some (sv_next_id s)) payload (s4\<lparr>sv_active := Some (sv_next_id s)\<rparr>) = Some s')"
  using c found tab unfolding s1_def
  by (auto simp: create_tab_def Let_def Option.bind_eq_Some_conv split: option.splits if_splits)

lemma create_tab_ok:
  assumes ok: "server_ok s" and len: "length (sv_tabs s) < 2 ^ 32" and last: "sv_next_id s \<noteq> - 1"
    and c: "create_tab native title command_line env select parent_id s = Some (r, s')"
  shows "server_ok s' \<and> step_bound s s'"
proof (cases "\<exists>p. parent_id = Some p \<and> p \<notin> tb_id ` set (sv_tabs s)")
  case True
  with c have "s' = s" by (auto simp: create_tab_def list_ex_iff split: if_splits)
  with ok show ?thesis by simp
next
  case known: False
  let ?s1 = "s\<lparr>sv_next_id := saturating_add (sv_next_id s) 1\<rparr>"
  let ?launch = "\<lparr>tlc_id = sv_next_id s, tlc_index = free_index (sv_tabs s), tlc_parent_id = parent_id, tlc_title = title,
      tlc_command_line = command_line, tlc_tab_environment = env, tlc_initial_size = launch_size ?s1\<rparr>"
  have found: "find (\<lambda>parent. \<not> list_ex (\<lambda>tab. tb_id tab = parent) (sv_tabs s)) (case parent_id of None \<Rightarrow> [] | Some p \<Rightarrow> [p]) = None"
    using known by (auto simp: find_None_iff list_ex_iff split: option.splits)
  have bound: "unat (saturating_add (sv_next_id s) 1) \<le> Suc (unat (sv_next_id s))" using saturating_succ [OF last] by simp
  have lt: "i < saturating_add (sv_next_id s) 1" if "i < sv_next_id s" for i
    using that saturating_succ [OF last] by auto
  show ?thesis
  proof (cases "spawn native ?launch")
    case (Inl e)
    with c found have "s' = ?s1" by (simp add: create_tab_def Let_def)
    with ok bound lt show ?thesis by (auto simp: server_ok_def step_bound_def)
  next
    case (Inr tab)
    let ?s2 = "?s1\<lparr>sv_tabs := push_tab tab (sv_tabs s)\<rparr>"
    have node: "tab_node tab = \<lparr>tn_id = sv_next_id s, tn_parent_id = parent_id, tn_sort_key = free_index (sv_tabs s)\<rparr>"
      using spawn_node [OF Inr] by simp
    have ok2: "server_ok ?s2" using server_ok_push [OF ok len last _ node] known by simp
    from create_tab_stages [OF c found Inr] obtain s3 s4 where s3: "s3 = ?s2 \<or> (\<exists>p c. server_commit LayoutTreeCollapse (Some p) c (?s2\<lparr>sv_collapsed_tabs := sv_collapsed_tabs s - {p}\<rparr>) = Some s3)"
      and s4: "\<exists>payload. server_commit TabCreated (Some (sv_next_id s)) payload s3 = Some s4"
      and s': "s' = s4 \<or> (\<exists>payload. server_commit TabSelected (Some (sv_next_id s)) payload (s4\<lparr>sv_active := Some (sv_next_id s)\<rparr>) = Some s')" .
    have s3_ok: "server_ok s3" and tabs3: "sv_tabs s3 = push_tab tab (sv_tabs s)" "sv_next_id s3 = saturating_add (sv_next_id s) 1"
      using s3 ok2 by (auto dest: server_ok_commit server_commit_fields)
    have s4_ok: "server_ok s4" and tabs4: "sv_tabs s4 = push_tab tab (sv_tabs s)" "sv_next_id s4 = saturating_add (sv_next_id s) 1"
      using s4 s3_ok tabs3 by (auto dest: server_ok_commit server_commit_fields)
    have "tb_id tab = sv_next_id s" using node by (simp add: tab_node_def)
    then have "sv_next_id s \<in> tb_id ` set (sv_tabs s4)" by (auto simp: tabs4 push_tab_def)
    from server_ok_active [OF this s4_ok] s' s4_ok tabs4
    have "server_ok s'" "sv_tabs s' = push_tab tab (sv_tabs s)" "sv_next_id s' = saturating_add (sv_next_id s) 1"
      by (auto dest: server_ok_commit server_commit_fields)
    with bound show ?thesis by (simp add: step_bound_def push_tab_def)
  qed
qed

section \<open>Closing and moving a tab\<close>

lemma promote_id [simp]: "tb_id (promote i p tab) = tb_id tab"
  by (simp add: promote_def)

lemma close_tab_split:
  assumes "close_tab receipt i s = Some (r, s')" and "position (\<lambda>tab. tb_id tab = i) (sv_tabs s) = Some k"
  obtains pre tab post active payload where "sv_tabs s = pre @ tab # post" "tb_id tab = i" "length pre = k"
    "r = Ok receipt"
    "active = (if sv_active s = Some i then map_option tb_id (case post of t # _ \<Rightarrow> Some t | [] \<Rightarrow> if pre = [] then None else Some (last pre))
               else sv_active s)"
    "server_commit TabClosed (Some i) payload
       (s\<lparr>sv_tabs := map (promote i (tb_parent_id tab)) (pre @ post), sv_collapsed_tabs := sv_collapsed_tabs s - {i}, sv_active := active\<rparr>) = Some s'"
proof -
  let ?tabs = "sv_tabs s"
  define pre tab post where "pre = take k ?tabs" and "tab = ?tabs ! k" and "post = drop (Suc k) ?tabs"
  from position_SomeD [OF assms(2)] have k: "k < length ?tabs" "tb_id (?tabs ! k) = i" by simp_all
  have split: "?tabs = pre @ tab # post" using k(1) by (simp add: pre_def tab_def post_def id_take_nth_drop)
  have len: "length pre = k" using k(1) by (simp add: pre_def)
  let ?f = "promote i (tb_parent_id tab)"
  have new: "take k (map ?f ?tabs) @ drop (Suc k) (map ?f ?tabs) = map ?f (pre @ post)"
    by (simp add: pre_def post_def take_map drop_map)
  let ?t = "map ?f (pre @ post)"
  have act: "(if k < length ?t then Some (tb_id (?t ! k)) else if 1 \<le> k \<and> k - 1 < length ?t then Some (tb_id (?t ! (k - 1))) else None)
     = map_option tb_id (case post of t # _ \<Rightarrow> Some t | [] \<Rightarrow> if pre = [] then None else Some (last pre))"
    using len by (cases post) (auto simp: nth_append last_conv_nth Suc_le_eq)
  let ?a = "if sv_active s = Some i then map_option tb_id (case post of t # _ \<Rightarrow> Some t | [] \<Rightarrow> if pre = [] then None else Some (last pre))
     else sv_active s"
  have "\<exists>payload. close_tab receipt i s = map_option (\<lambda>s. (Ok receipt, s)) (server_commit TabClosed (Some i) payload
      (s\<lparr>sv_tabs := ?t, sv_collapsed_tabs := sv_collapsed_tabs s - {i}, sv_active := ?a\<rparr>))"
    unfolding close_tab_def Let_def assms(2) option.case tab_def [symmetric] new act by blast
  then obtain payload where "map_option (\<lambda>s. (Ok receipt, s)) (server_commit TabClosed (Some i) payload
      (s\<lparr>sv_tabs := ?t, sv_collapsed_tabs := sv_collapsed_tabs s - {i}, sv_active := ?a\<rparr>)) = Some (r, s')"
    using assms(1) by metis
  then have "r = Ok receipt" "server_commit TabClosed (Some i) payload
      (s\<lparr>sv_tabs := ?t, sv_collapsed_tabs := sv_collapsed_tabs s - {i}, sv_active := ?a\<rparr>) = Some s'"
    by (auto simp only: map_option_eq_Some prod.inject)
  with that [OF split _ len _ refl] k(2) show thesis by (simp only: tab_def)
qed

lemma close_tab_ok:
  assumes ok: "server_ok s" and c: "close_tab receipt i s = Some (r, s')"
  shows "server_ok s' \<and> step_bound s s'"
proof (cases "position (\<lambda>tab. tb_id tab = i) (sv_tabs s)")
  case None
  with c ok show ?thesis by (simp add: close_tab_def)
next
  case (Some k)
  from close_tab_split [OF c Some] obtain pre tab post active payload where
    tabs: "sv_tabs s = pre @ tab # post" and i: "tb_id tab = i"
    and active: "active = (if sv_active s = Some i then map_option tb_id (case post of t # _ \<Rightarrow> Some t | [] \<Rightarrow> if pre = [] then None else Some (last pre))
               else sv_active s)"
    and commit: "server_commit TabClosed (Some i) payload
       (s\<lparr>sv_tabs := map (promote i (tb_parent_id tab)) (pre @ post), sv_collapsed_tabs := sv_collapsed_tabs s - {i}, sv_active := active\<rparr>) = Some s'"
    by metis
  let ?s1 = "s\<lparr>sv_tabs := map (promote i (tb_parent_id tab)) (pre @ post), sv_collapsed_tabs := sv_collapsed_tabs s - {i}, sv_active := active\<rparr>"
  have node: "tab_node (promote i p t) = promote_node i p (tab_node t)" for p and t :: "'a TerminalTab"
    by (simp add: promote_def promote_node_def tab_node_def)
  have "nodes_ok (map (promote_node i (tb_parent_id tab)) (map tab_node (pre @ post)))"
    using ok nodes_ok_remove [of "map tab_node pre" "tab_node tab" "map tab_node post"]
    by (simp add: server_ok_def tabs tree_nodes_map i)
  then have "nodes_ok (tree_nodes (sv_tabs ?s1))" by (simp add: tree_nodes_map node comp_def)
  moreover have ids: "tb_id ` set (sv_tabs ?s1) = tb_id ` set (pre @ post)"
    by (simp add: image_Un image_image)
  moreover have "j \<in> tb_id ` set (pre @ post)" if "active = Some j" for j
  proof (cases "sv_active s = Some i")
    case True
    with that active show ?thesis by (auto split: list.splits if_splits)
  next
    case False
    with that active have "sv_active s = Some j" "j \<noteq> i" by auto
    with ok i show ?thesis by (auto simp: server_ok_def tabs)
  qed
  ultimately have "server_ok ?s1" using ok by (auto simp: server_ok_def tabs)
  from server_ok_commit [OF commit this] server_commit_fields(1,2) [OF commit] show ?thesis
    by (simp add: step_bound_def tabs)
qed

lemma tree_nodes_map2:
  assumes "map tn_id nodes = map tb_id tabs" "map tn_sort_key nodes = map tb_index tabs"
  shows "tree_nodes (map2 (\<lambda>tab node. tab\<lparr>tb_parent_id := tn_parent_id node\<rparr>) tabs nodes) = nodes"
proof -
  have "length nodes = length tabs" using assms(1) map_eq_imp_length_eq by blast
  then show ?thesis using assms
    by (induction nodes tabs rule: list_induct2) (simp_all add: tree_nodes_def)
qed

lemma set_tab_parent_ok:
  assumes ok: "server_ok s" and c: "set_tab_parent child_id parent_id s = Some (r, s')"
  shows "server_ok s' \<and> step_bound s s'"
proof -
  let ?nodes = "tree_nodes (sv_tabs s)"
  from c obtain nodes journal where host: "set_tab_parent_on_host ?nodes (sv_event_journal s) child_id parent_id = Some (r, nodes, journal)"
    and s': "s' = s\<lparr>sv_tabs := map2 (\<lambda>tab node. tab\<lparr>tb_parent_id := tn_parent_id node\<rparr>) (sv_tabs s) nodes, sv_event_journal := journal\<rparr>"
    by (auto simp: set_tab_parent_def)
  have "map tn_id nodes = map tn_id ?nodes \<and> map tn_sort_key nodes = map tn_sort_key ?nodes
      \<and> nodes_ok nodes \<and> journal_ok journal"
  proof (cases r)
    case (Inl e)
    with host ok show ?thesis
      by (auto simp: set_tab_parent_on_host_def Let_def server_ok_def split: option.splits if_splits)
  next
    case (Inr u)
    from host Inr obtain k e where k: "position (\<lambda>tab. tn_id tab = child_id) ?nodes = Some k"
      and nodes: "nodes = ?nodes[k := (?nodes ! k)\<lparr>tn_parent_id := parent_id\<rparr>]"
      and parent: "\<And>q. parent_id = Some q \<Longrightarrow> q \<in> node_ids ?nodes \<and> \<not> would_create_cycle ?nodes child_id q"
      and commit: "\<exists>payload. journal_commit (sv_event_journal s) TabParent (Some child_id) payload = Some (e, journal)"
      by (auto simp: set_tab_parent_on_host_def Let_def list_ex_iff simp del: tree_nodes_simps split: option.splits if_splits)
    have ids: "map tn_id nodes = map tn_id ?nodes" "map tn_sort_key nodes = map tn_sort_key ?nodes"
      using position_SomeD [OF k] by (simp_all add: nodes map_update list_update_same_conv del: tree_nodes_simps)
    have "forest nodes" unfolding nodes using ok parent k by (intro forest_update) (auto simp: server_ok_def nodes_ok_def)
    moreover have "p \<in> node_ids nodes" if "n \<in> set nodes" "tn_parent_id n = Some p" for n p
    proof -
      from that(1) have "n \<in> set ?nodes \<or> tn_parent_id n = parent_id"
        using set_update_subset_insert [of ?nodes k] unfolding nodes by fastforce
      with that(2) parent ok show ?thesis unfolding ids by (auto simp: server_ok_def nodes_ok_def parents_known_def)
    qed
    ultimately have "nodes_ok nodes" using ok ids unfolding nodes_ok_def parents_known_def server_ok_def by simp
    moreover have "journal_ok journal"
      using commit ok journal_ok_commit [of "sv_event_journal s" "(TabParent, Some child_id, None, None, payload)" for payload]
      by (auto simp: journal_commit_def commit_with_def server_ok_def)
    ultimately show ?thesis using ids by simp
  qed
  moreover from this have "tree_nodes (sv_tabs s') = nodes" by (simp add: s' tree_nodes_map2)
  ultimately show ?thesis using ok by (auto simp: server_ok_def step_bound_def s')
qed

section \<open>The other operations\<close>

lemma select_tab_at_ok:
  "select_tab_at k s = Some (r, s') \<Longrightarrow> server_ok s \<Longrightarrow> server_ok s' \<and> step_bound s s'"
  using server_ok_active [of "tb_id (sv_tabs s ! k)" s]
  by (auto simp: select_tab_at_def Let_def step_bound_def dest: server_ok_commit server_commit_fields split: if_splits)

lemma toggle_tab_collapsed_ok:
  "toggle_tab_collapsed i s = Some (r, s') \<Longrightarrow> server_ok s \<Longrightarrow> server_ok s' \<and> step_bound s s'"
  by (auto simp: toggle_tab_collapsed_def Let_def step_bound_def dest: server_ok_commit server_commit_fields split: if_splits)

lemma update_tab_fields [simp]:
  "length (sv_tabs (update_tab k f s)) = length (sv_tabs s)" "sv_next_id (update_tab k f s) = sv_next_id s"
  by (simp_all add: update_tab_def)

lemma commit_update_ok:
  assumes "server_commit kind i payload (update_tab k f s) = Some s'" and "server_ok s"
    and "tab_node (f (sv_tabs s ! k)) = tab_node (sv_tabs s ! k)"
  shows "server_ok s' \<and> step_bound s s'"
  using assms server_ok_update_tab [of f s k] server_commit_fields [OF assms(1)]
  by (auto dest: server_ok_commit simp: step_bound_def)

lemma update_ok:
  "\<lbrakk> server_ok s; tab_node (f (sv_tabs s ! k)) = tab_node (sv_tabs s ! k) \<rbrakk> \<Longrightarrow>
   server_ok (update_tab k f s) \<and> step_bound s (update_tab k f s)"
  by (simp add: server_ok_update_tab step_bound_def)

lemma step_bound_same: "step_bound s t \<Longrightarrow> sv_tabs u = sv_tabs t \<Longrightarrow> sv_next_id u = sv_next_id t \<Longrightarrow> step_bound s u"
  by (simp add: step_bound_def)

lemma send_cwd_now_ok:
  "send_cwd_now written now i dir s = Some (r, s') \<Longrightarrow> server_ok s \<Longrightarrow> server_ok s' \<and> step_bound s s'"
  by (auto simp: send_cwd_now_def Let_def dest!: tab_node_submitD
      intro: commit_update_ok [THEN conjunct1] commit_update_ok [THEN conjunct2] update_ok [THEN conjunct1] update_ok [THEN conjunct2]
      split: option.splits sum.splits prod.splits bool.splits)

lemma send_composer_ok:
  "send_composer_at_position written now k s = Some (r, s') \<Longrightarrow> server_ok s \<Longrightarrow> server_ok s' \<and> step_bound s s'"
  by (auto simp: send_composer_at_position_def Let_def begin_proxy_confirmation_def dest!: tab_node_submitD
      intro: commit_update_ok [THEN conjunct1] commit_update_ok [THEN conjunct2] update_ok [THEN conjunct1] update_ok [THEN conjunct2]
      split: option.splits sum.splits prod.splits bool.splits if_splits)

lemma prepare_cwd_ok:
  assumes p: "prepare_cwd i dir mode s = Some (r, s')" and ok: "server_ok s"
  shows "server_ok s' \<and> step_bound s s'"
proof (cases "s' = s")
  case True
  with ok show ?thesis by simp
next
  case False
  from p False obtain k new where
    s': "(\<exists>e cwd. cwd_request (tb_cwd (sv_tabs (update_tab k (\<lambda>tab. tab\<lparr>tb_composer := new\<rparr>) s) ! k)) dir = (Inl e, cwd)
            \<and> s' = update_tab k (\<lambda>tab. tab\<lparr>tb_composer := new\<rparr>) s)
      \<or> (\<exists>cwd t payload payload'.
            server_commit WorkingContextCwdRequested (Some i) payload
              (update_tab k (\<lambda>tab. tab\<lparr>tb_cwd := cwd\<rparr>) (update_tab k (\<lambda>tab. tab\<lparr>tb_composer := new\<rparr>) s)) = Some t
            \<and> server_commit ComposerDraft (Some i) payload' t = Some s')"
    by (auto simp: prepare_cwd_def Let_def Option.bind_eq_Some_conv split: option.splits sum.splits prod.splits) blast+
  let ?s1 = "update_tab k (\<lambda>tab. tab\<lparr>tb_composer := new\<rparr>) s"
  have s1: "server_ok ?s1 \<and> step_bound s ?s1" using ok by (intro update_ok) simp_all
  from s' show ?thesis
  proof (elim disjE exE conjE)
    assume "s' = ?s1"
    with s1 show ?thesis by simp
  next
    fix cwd t payload payload'
    assume c: "server_commit WorkingContextCwdRequested (Some i) payload (update_tab k (\<lambda>tab. tab\<lparr>tb_cwd := cwd\<rparr>) ?s1) = Some t"
      and d: "server_commit ComposerDraft (Some i) payload' t = Some s'"
    have "server_ok t" using commit_update_ok [OF c] s1 by simp
    then show ?thesis using server_ok_commit [OF d] server_commit_fields [OF d] server_commit_fields [OF c]
      by (simp add: step_bound_def)
  qed
qed

lemma tree_nodes_poll [simp]:
  "tree_nodes (map (fst \<circ> (\<lambda>tab. poll_tab process take_cwd (inputs (tb_id tab)) tab)) tabs) = tree_nodes tabs"
  by (simp add: tree_nodes_map)

lemma finish_completed_ok:
  assumes f: "finish_completed s c = Some s'" and ok: "server_ok s"
  shows "server_ok s' \<and> tree_nodes (sv_tabs s') = tree_nodes (sv_tabs s) \<and> sv_next_id s' = sv_next_id s"
proof -
  obtain i enter final where c: "c = (i, enter, final)" by (cases c)
  let ?s1 = "\<lambda>authority journal. s\<lparr>sv_control_authority := authority, sv_event_journal := journal\<rparr>"
  from f obtain res authority journal where fin: "finish_submission (sv_control_authority s) (sv_event_journal s) i enter final = Some (res, authority, journal)"
    by (auto simp: finish_completed_def c)
  have s': "s' = ?s1 authority journal \<or> (\<exists>k e. s' = update_tab k (\<lambda>tab. tab\<lparr>tb_error := e\<rparr>) (?s1 authority journal))"
    using f fin by (cases res; cases "position (\<lambda>tab. tb_id tab = i) (sv_tabs s)") (auto simp: finish_completed_def c)
  have "authority_ok authority" using authority_ok_finish [OF _ fin] ok by (simp add: server_ok_def)
  moreover have "journal_ok journal"
  proof (cases "ca_pending_submissions (sv_control_authority s) i")
    case None
    with fin ok show ?thesis by (simp add: finish_submission_def server_ok_def)
  next
    case (Some p)
    with fin obtain rid oid payload e where
      "commit_correlated (sv_event_journal s) ComposerSubmissionFinished (Some i) rid oid payload = Some (e, journal)"
      by (auto simp: finish_submission_def Let_def split: option.splits prod.splits sum.splits)
    then show ?thesis using ok journal_ok_commit [of "sv_event_journal s" "(ComposerSubmissionFinished, Some i, rid, oid, payload)" e journal]
      by (simp add: commit_with_def server_ok_def)
  qed
  ultimately have "server_ok (s\<lparr>sv_control_authority := authority, sv_event_journal := journal\<rparr>)"
    using ok by (simp add: server_ok_def)
  with s' show ?thesis
    by (auto simp: server_ok_update_tab) (simp_all add: update_tab_def tree_nodes_update)
qed

lemma finish_all_ok:
  "\<lbrakk> run_steps finish_completed s cs = Some s'; server_ok s \<rbrakk> \<Longrightarrow>
   server_ok s' \<and> tree_nodes (sv_tabs s') = tree_nodes (sv_tabs s) \<and> sv_next_id s' = sv_next_id s"
proof (induction cs arbitrary: s)
  case (Cons c cs)
  then obtain t where t: "finish_completed s c = Some t" "run_steps finish_completed t cs = Some s'"
    by (auto split: option.splits)
  with finish_completed_ok [OF t(1) Cons.prems(2)] Cons.IH [OF t(2)] show ?case by simp
qed simp

lemma poll_terminals_ok:
  assumes p: "poll_terminals process take_cwd inputs s = Some s'" and ok: "server_ok s"
  shows "server_ok s' \<and> tree_nodes (sv_tabs s') = tree_nodes (sv_tabs s) \<and> sv_next_id s' = sv_next_id s"
proof -
  from p obtain tabs journal events completed where j: "journal_run (sv_event_journal s) events = Some journal"
    and tabs: "tree_nodes tabs = tree_nodes (sv_tabs s)"
    and run: "run_steps finish_completed (s\<lparr>sv_tabs := tabs, sv_event_journal := journal\<rparr>) completed = Some s'"
    by (auto simp: poll_terminals_def Let_def Option.bind_eq_Some_conv intro: that tree_nodes_poll)
  have "server_ok (s\<lparr>sv_tabs := tabs, sv_event_journal := journal\<rparr>)"
    using ok journal_run_ok [OF j] tabs by (simp add: server_ok_def)
  from finish_all_ok [OF run this] tabs show ?thesis by simp
qed

section \<open>Runs of the server\<close>

datatype 'p server_op =
    CreateTab "'p native_start" "string option" "string list" "(string \<times> string) list" bool "u64 option"
  | SelectTab nat
  | MoveTab u64 "u64 option"
  | ToggleCollapsed u64
  | CloseTab TerminalShutdownReceipt u64
  | PrepareCwd u64 string string
  | SendCwd "string option" instant u64 string
  | SendComposer "string option" instant nat
  | PollTerminals "u64 \<Rightarrow> poll_input"

text \<open>Sending the composer is only asked for at a position that was resolved.\<close>

fun server_step ::
  "('p \<Rightarrow> bytes \<Rightarrow> 'p) \<Rightarrow> ('p \<Rightarrow> string option \<times> 'p) \<Rightarrow> 'p ServerState \<Rightarrow> 'p server_op \<Rightarrow> 'p ServerState option" where
  "server_step process take_cwd s (CreateTab native title command_line env select parent_id) =
     map_option snd (create_tab native title command_line env select parent_id s)"
| "server_step process take_cwd s (SelectTab k) = map_option snd (select_tab_at k s)"
| "server_step process take_cwd s (MoveTab i p) = map_option snd (set_tab_parent i p s)"
| "server_step process take_cwd s (ToggleCollapsed i) = map_option snd (toggle_tab_collapsed i s)"
| "server_step process take_cwd s (CloseTab receipt i) = map_option snd (close_tab receipt i s)"
| "server_step process take_cwd s (PrepareCwd i dir mode) = map_option snd (prepare_cwd i dir mode s)"
| "server_step process take_cwd s (SendCwd written now i dir) = map_option snd (send_cwd_now written now i dir s)"
| "server_step process take_cwd s (SendComposer written now k) =
     (if k < length (sv_tabs s) then map_option snd (send_composer_at_position written now k s) else Some s)"
| "server_step process take_cwd s (PollTerminals inputs) = poll_terminals process take_cwd inputs s"

lemma server_step_ok:
  assumes ok: "server_ok s" and len: "length (sv_tabs s) < 2 ^ 32" and last: "sv_next_id s \<noteq> - 1"
    and step: "server_step process take_cwd s op = Some s'"
  shows "server_ok s' \<and> step_bound s s'"
proof (cases op)
  case (CreateTab native title command_line env select parent_id)
  with step create_tab_ok [OF ok len last] show ?thesis by auto
next
  case (PollTerminals inputs)
  with step poll_terminals_ok [OF _ ok] have "server_ok s' \<and> tree_nodes (sv_tabs s') = tree_nodes (sv_tabs s) \<and> sv_next_id s' = sv_next_id s"
    by simp
  moreover from this have "length (sv_tabs s') = length (sv_tabs s)" by (metis tree_nodes_simps(3))
  ultimately show ?thesis by (simp add: step_bound_def)
next
  case (SelectTab k)
  with step ok show ?thesis by (auto dest: select_tab_at_ok)
next
  case (MoveTab i p)
  with step ok show ?thesis by (auto dest: set_tab_parent_ok)
next
  case (ToggleCollapsed i)
  with step ok show ?thesis by (auto dest: toggle_tab_collapsed_ok)
next
  case (CloseTab receipt i)
  with step ok show ?thesis by (auto dest: close_tab_ok)
next
  case (PrepareCwd i dir mode)
  with step ok show ?thesis by (auto dest: prepare_cwd_ok)
next
  case (SendCwd written now i dir)
  with step ok show ?thesis by (auto dest: send_cwd_now_ok)
next
  case (SendComposer written now k)
  with step ok show ?thesis by (auto dest: send_composer_ok split: if_splits)
qed

lemma server_run_ok:
  "\<lbrakk> run_steps (server_step process take_cwd) s ops = Some s'; server_ok s;
     length (sv_tabs s) + length ops \<le> 2 ^ 32; unat (sv_next_id s) + length ops < 2 ^ 64 \<rbrakk> \<Longrightarrow> server_ok s'"
proof (induction ops arbitrary: s)
  case (Cons op ops)
  from Cons.prems(1) obtain t where t: "server_step process take_cwd s op = Some t" "run_steps (server_step process take_cwd) t ops = Some s'"
    by (auto split: option.splits)
  have "sv_next_id s \<noteq> - 1" using Cons.prems(4) by (auto simp: unsigned_minus_1_eq_mask mask_eq_exp_minus_1)
  from server_step_ok [OF Cons.prems(2) _ this t(1)] Cons.prems(3) have "server_ok t" "step_bound s t" by simp_all
  with Cons.IH [OF t(2)] Cons.prems(3,4) show ?case by (simp add: step_bound_def)
qed simp

text \<open>
  The server keeps its invariant. Whatever tabs are created, selected, moved, collapsed,
  closed and polled, and whichever requests fail, identifiers and indices stay unique and the tabs
  in index order, every parent is an existing tab and no tab is its own ancestor, the active tab
  exists, and the journal and the control authority stay consistent -- for as long as neither the
  32-bit indices nor the 64-bit identifiers are exhausted.
\<close>

theorem server_keeps_invariant:
  assumes "run_steps (server_step process take_cwd) s ops = Some s'" and "server_ok s"
    and "length (sv_tabs s) + length ops \<le> 2 ^ 32" and "unat (sv_next_id s) + length ops < 2 ^ 64"
  shows "distinct (map tb_id (sv_tabs s')) \<and> sorted_wrt (<) (map tb_index (sv_tabs s'))
    \<and> (\<forall>tab \<in> set (sv_tabs s'). tb_parent_id tab = None \<or> tb_parent_id tab \<in> Some ` tb_id ` set (sv_tabs s'))
    \<and> forest (tree_nodes (sv_tabs s'))
    \<and> (sv_active s' = None \<or> sv_active s' \<in> Some ` tb_id ` set (sv_tabs s'))
    \<and> journal_ok (sv_event_journal s') \<and> authority_ok (sv_control_authority s')"
proof -
  have ok: "server_ok s'" using assms by (rule server_run_ok)
  then have "parents_known (tree_nodes (sv_tabs s'))" by (simp add: server_ok_def nodes_ok_def)
  then have "tb_parent_id tab = None \<or> tb_parent_id tab \<in> Some ` tb_id ` set (sv_tabs s')" if "tab \<in> set (sv_tabs s')" for tab
    using that by (cases "tb_parent_id tab") (auto simp: parents_known_def tree_nodes_map)
  with ok show ?thesis by (cases "sv_active s'") (auto simp: server_ok_def nodes_ok_def)
qed

definition sample_native :: "unit native_start" where
  "sample_native = \<lparr>ns_default_shell = ''/bin/bash'', ns_launch_cwd = Some ''/work'', ns_endpoint_error = None, ns_vars = [],
     ns_started = Ok 7, ns_parser = (\<lambda>_. ())\<rparr>"

definition empty_server :: "unit ServerState" where
  "empty_server = initial_server ''e'' \<lparr>sw_version = 1, sw_session_name = ''main'', sw_active_id = None, sw_collapsed_ids = [], sw_tabs = []\<rparr>"

definition sample_receipt :: TerminalShutdownReceipt where
  "sample_receipt = \<lparr>sr_native_cleanup = None, sr_workers_complete = True\<rparr>"

lemma sample_spawn:
  "tlc_command_line launch = [] \<Longrightarrow> tlc_tab_environment launch = [] \<Longrightarrow>
   spawn sample_native launch = Ok (initial_tab launch ''/bin/bash'' ''bash'' (Some 7) (Some ''/work'')
     \<lparr>px_http = None, px_https = None, px_source = ProxySource_Off, px_application_state = ProxyOff\<rparr> [] ())"
  by (simp add: spawn_def sample_native_def ProxyState_from_environment_def ProxyState_new_def find_variable_def nonempty_secret_def
      redaction_needles_def file_name_def map_filter_def Let_def)

definition sample_ops :: "unit server_op list" where
  "sample_ops = [CreateTab sample_native None [] [] True None, CreateTab sample_native None [] [] False (Some 1),
     CloseTab sample_receipt 1]"

lemma server_sample_run:
  "\<exists>s. run_steps (server_step (\<lambda>p _. p) (\<lambda>p. (None, p))) empty_server sample_ops = Some s
    \<and> map (\<lambda>tab. (tb_id tab, tb_index tab, tb_parent_id tab)) (sv_tabs s) = [(2, 1, None)] \<and> sv_active s = Some 2"
  by (simp add: sample_ops_def create_tab_def sample_spawn Let_def empty_server_def initial_server_def saturating_add_def free_index_def
      push_tab_def initial_tab_def server_commit_def journal_commit_def commit_correlated_def EventJournal_new_def with_epoch_def
      checked_add_def close_tab_def promote_def)

lemma forest_Nil [simp]: "forest []"
  unfolding forest_rank by (simp add: parent_of_def)

lemma empty_server_ok: "server_ok empty_server"
  by (simp add: server_ok_def empty_server_def initial_server_def nodes_ok_def parents_known_def
      EventJournal_new_def journal_ok_with_epoch)

lemma server_keeps_invariant_witness:
  "\<exists>s. run_steps (server_step (\<lambda>p _. p) (\<lambda>p. (None, p))) empty_server sample_ops = Some s
    \<and> map (\<lambda>tab. (tb_id tab, tb_index tab, tb_parent_id tab)) (sv_tabs s) = [(2, 1, None)] \<and> forest (tree_nodes (sv_tabs s))"
proof -
  from server_sample_run obtain s where run: "run_steps (server_step (\<lambda>p _. p) (\<lambda>p. (None, p))) empty_server sample_ops = Some s"
    and tabs: "map (\<lambda>tab. (tb_id tab, tb_index tab, tb_parent_id tab)) (sv_tabs s) = [(2, 1, None)]" by (elim exE conjE)
  have "length (sv_tabs empty_server) + length sample_ops \<le> 2 ^ 32" "unat (sv_next_id empty_server) + length sample_ops < 2 ^ 64"
    by (simp_all add: empty_server_def initial_server_def saturating_add_def sample_ops_def)
  from server_keeps_invariant [OF run empty_server_ok this] have "forest (tree_nodes (sv_tabs s))" by (elim conjE)
  with run tabs show ?thesis by (intro exI [of _ s] conjI)
qed

section \<open>What closing a tab does\<close>

lemma tree_nodes_append [simp]: "tree_nodes (a @ b) = tree_nodes a @ tree_nodes b" "tree_nodes (t # b) = tab_node t # tree_nodes b"
  by (simp_all add: tree_nodes_map)

lemma parent_of_tabs:
  "parent_of (tree_nodes tabs) j = Option.bind (find (\<lambda>tab. tb_id tab = j) tabs) tb_parent_id"
  by (induction tabs) (simp_all add: parent_of_def)

lemma find_promote:
  "find (\<lambda>tab. tb_id tab = j) (map (promote i p) tabs) = map_option (promote i p) (find (\<lambda>tab. tb_id tab = j) tabs)"
  by (induction tabs) simp_all

lemma find_remove: "tb_id tab \<noteq> j \<Longrightarrow> find (\<lambda>tab. tb_id tab = j) (pre @ tab # post) = find (\<lambda>tab. tb_id tab = j) (pre @ post)"
  by (induction pre) simp_all

text \<open>
  C34. Closing a tab removes exactly that tab. Its children become children of its parent and every
  other tab keeps its parent, so no tab refers to the closed one; the collapsed set forgets it; if
  it was active, the tab that followed it, or else the one before it, or none, becomes active. An
  unknown identifier changes nothing.
\<close>

theorem close_tab_effect:
  assumes ok: "server_ok s" and c: "close_tab receipt i s = Some (r, s')"
  shows "case r of
      Inl _ \<Rightarrow> i \<notin> tb_id ` set (sv_tabs s) \<and> s' = s
    | Inr _ \<Rightarrow> \<exists>pre tab post. sv_tabs s = pre @ tab # post \<and> tb_id tab = i
        \<and> map tb_id (sv_tabs s') = map tb_id (pre @ post) \<and> i \<notin> tb_id ` set (sv_tabs s')
        \<and> (\<forall>j. j = i \<or> parent_of (tree_nodes (sv_tabs s')) j =
              (if parent_of (tree_nodes (sv_tabs s)) j = Some i then tb_parent_id tab
               else parent_of (tree_nodes (sv_tabs s)) j))
        \<and> sv_collapsed_tabs s' = sv_collapsed_tabs s - {i}
        \<and> sv_active s' = (if sv_active s = Some i
             then (if post \<noteq> [] then Some (tb_id (hd post)) else if pre \<noteq> [] then Some (tb_id (last pre)) else None)
             else sv_active s)"
proof (cases "position (\<lambda>tab. tb_id tab = i) (sv_tabs s)")
  case None
  with c show ?thesis by (auto simp: close_tab_def position_None_iff)
next
  case (Some k)
  from close_tab_split [OF c Some] obtain pre tab post active payload where
    tabs: "sv_tabs s = pre @ tab # post" and i: "tb_id tab = i" and r: "r = Ok receipt"
    and active: "active = (if sv_active s = Some i then map_option tb_id (case post of t # _ \<Rightarrow> Some t | [] \<Rightarrow> if pre = [] then None else Some (last pre))
               else sv_active s)"
    and commit: "server_commit TabClosed (Some i) payload
       (s\<lparr>sv_tabs := map (promote i (tb_parent_id tab)) (pre @ post), sv_collapsed_tabs := sv_collapsed_tabs s - {i}, sv_active := active\<rparr>) = Some s'"
    by metis
  note s' = server_commit_fields [OF commit]
  have ids: "map tb_id (sv_tabs s') = map tb_id (pre @ post)" by (simp add: s' comp_def)
  have "i \<notin> set (map tb_id (pre @ post))"
    using ok i by (auto simp: server_ok_def nodes_ok_def tabs)
  then have gone: "i \<notin> tb_id ` set (sv_tabs s')" using ids by (metis set_map)
  have "parent_of (tree_nodes (sv_tabs s')) j =
      (if parent_of (tree_nodes (sv_tabs s)) j = Some i then tb_parent_id tab else parent_of (tree_nodes (sv_tabs s)) j)" if "j \<noteq> i" for j
    using that i find_remove [of tab j pre post] find_promote [of j i "tb_parent_id tab" "pre @ post"]
    by (cases "find (\<lambda>tab. tb_id tab = j) (pre @ post)") (auto simp: parent_of_tabs s'(1) tabs promote_def simp del: tree_nodes_append)
  moreover have "sv_active s' = (if sv_active s = Some i
             then (if post \<noteq> [] then Some (tb_id (hd post)) else if pre \<noteq> [] then Some (tb_id (last pre)) else None)
             else sv_active s)"
    by (simp add: s' active split: list.splits)
  moreover have "sv_collapsed_tabs s' = sv_collapsed_tabs s - {i}" by (simp add: s')
  ultimately show ?thesis
    unfolding r sum.case using tabs i ids gone by blast
qed

lemma sample_close:
  "\<exists>s s'. run_steps (server_step (\<lambda>p _. p) (\<lambda>p. (None, p))) empty_server (take 2 sample_ops) = Some s
    \<and> close_tab sample_receipt 1 s = Some (Ok sample_receipt, s') \<and> sv_active s = Some 1"
  by (simp add: sample_ops_def create_tab_def sample_spawn Let_def empty_server_def initial_server_def saturating_add_def free_index_def
      push_tab_def initial_tab_def server_commit_def journal_commit_def commit_correlated_def EventJournal_new_def with_epoch_def
      checked_add_def close_tab_def promote_def)

lemma close_tab_effect_witness:
  "\<exists>s s' pre tab post. run_steps (server_step (\<lambda>p _. p) (\<lambda>p. (None, p))) empty_server (take 2 sample_ops) = Some s
    \<and> close_tab sample_receipt 1 s = Some (Ok sample_receipt, s') \<and> sv_tabs s = pre @ tab # post \<and> tb_id tab = 1
    \<and> map tb_id (sv_tabs s') = map tb_id (pre @ post) \<and> sv_active s = Some 1 \<and> sv_active s' \<noteq> Some 1"
proof -
  from sample_close obtain s s' where run: "run_steps (server_step (\<lambda>p _. p) (\<lambda>p. (None, p))) empty_server (take 2 sample_ops) = Some s"
    and close: "close_tab sample_receipt 1 s = Some (Ok sample_receipt, s')" and active: "sv_active s = Some 1"
    by (elim exE conjE)
  have "length (sv_tabs empty_server) + length (take 2 sample_ops) \<le> 2 ^ 32" "unat (sv_next_id empty_server) + length (take 2 sample_ops) < 2 ^ 64"
    by (simp_all add: empty_server_def initial_server_def saturating_add_def sample_ops_def)
  from server_run_ok [OF run empty_server_ok this] have ok: "server_ok s" .
  have "server_ok s'" using close_tab_ok [OF ok close] by (elim conjE)
  then have alive: "sv_active s' = Some 1 \<Longrightarrow> 1 \<in> tb_id ` set (sv_tabs s')" by (simp add: server_ok_def)
  from close_tab_effect [OF ok close] obtain pre tab post where "sv_tabs s = pre @ tab # post" "tb_id tab = 1"
    "map tb_id (sv_tabs s') = map tb_id (pre @ post)" "1 \<notin> tb_id ` set (sv_tabs s')"
    unfolding sum.case by (elim exE conjE)
  moreover from this(4) alive have "sv_active s' \<noteq> Some 1" by (rule contrapos_nn)
  ultimately show ?thesis using run close active by (intro exI [of _ s] exI [of _ s'] exI [of _ pre] exI [of _ tab] exI [of _ post] conjI)
qed

end
