(* ===== verification/Server_Output.thy ===== *)
theory Server_Output
  imports Server_Invariant
begin

text \<open>
  What the journal says about terminal output is what the tabs hold: over every run of the server,
  the bytes announced for a tab add up to its output counter.
\<close>

section \<open>Announcements\<close>

fun json_nat :: "json \<Rightarrow> nat" where
  "json_nat (JNum (PosInt n)) = unat n"
| "json_nat _ = 0"

text \<open>The bytes a commit announces for a tab.\<close>

definition announced :: "u64 \<Rightarrow> commit_request \<Rightarrow> nat" where
  "announced i r = (case r of (kind, tab_id, _, _, payload) \<Rightarrow>
     if kind = TerminalOutput \<and> tab_id = Some i then json_nat (json_index payload ''advanced_by'') else 0)"

definition total_announced :: "u64 \<Rightarrow> commit_request list \<Rightarrow> nat" where
  "total_announced i rs = sum_list (map (announced i) rs)"

lemma total_announced_append [simp]: "total_announced i (a @ b) = total_announced i a + total_announced i b"
  "total_announced i [] = 0"
  by (simp_all add: total_announced_def)

definition silent :: "commit_request list \<Rightarrow> bool" where
  "silent rs \<longleftrightarrow> (\<forall>r \<in> set rs. fst r \<noteq> TerminalOutput)"

lemma silent_total: "silent rs \<Longrightarrow> total_announced i rs = 0"
  unfolding silent_def total_announced_def by (induction rs) (auto simp: announced_def split: prod.splits)

lemma journal_run_append:
  "journal_run j a = Some j' \<Longrightarrow> journal_run j (a @ b) = journal_run j' b"
  unfolding journal_run_def by (induction a arbitrary: j) (auto split: option.splits)

lemma journal_run_commit:
  "commit_correlated j kind tab_id rid oid payload = Some (e, j') \<Longrightarrow> journal_run j [(kind, tab_id, rid, oid, payload)] = Some j'"
  by (simp add: journal_run_def commit_step_def commit_with_def)

section \<open>Operations that announce no output\<close>

definition outputs :: "'p ServerState \<Rightarrow> (u64 \<times> nat) set" where
  "outputs s = (\<lambda>tab. (tb_id tab, tb_output_bytes tab)) ` set (sv_tabs s)"

text \<open>Counters are kept or tabs are removed; the commits announce nothing.\<close>

definition quiet :: "'p ServerState \<Rightarrow> 'p ServerState \<Rightarrow> bool" where
  "quiet s s' \<longleftrightarrow> outputs s' \<subseteq> outputs s \<and> sv_next_id s' = sv_next_id s
     \<and> (\<exists>rs. journal_run (sv_event_journal s) rs = Some (sv_event_journal s') \<and> silent rs)"

lemma quietI:
  "\<lbrakk> outputs s' \<subseteq> outputs s; sv_next_id s' = sv_next_id s; sv_event_journal s' = sv_event_journal s \<rbrakk> \<Longrightarrow> quiet s s'"
  unfolding quiet_def by (intro conjI exI [of _ "[]"]) (simp_all add: journal_run_def silent_def)

lemma quiet_refl [simp]: "quiet s s"
  by (rule quietI) simp_all

lemma quiet_trans: "quiet a b \<Longrightarrow> quiet b c \<Longrightarrow> quiet a c"
  unfolding quiet_def
proof (elim conjE exE, intro conjI)
  fix r t
  assume "journal_run (sv_event_journal a) r = Some (sv_event_journal b)" "silent r"
    "journal_run (sv_event_journal b) t = Some (sv_event_journal c)" "silent t"
  then show "\<exists>rs. journal_run (sv_event_journal a) rs = Some (sv_event_journal c) \<and> silent rs"
    by (intro exI [of _ "r @ t"]) (auto simp: journal_run_append silent_def)
qed auto

lemma quiet_commit:
  assumes "server_commit kind i payload t = Some s'" and "kind \<noteq> TerminalOutput" and "quiet s t"
  shows "quiet s s'"
proof -
  from server_commitD [OF assms(1)] obtain journal e where
    s': "s' = t\<lparr>sv_event_journal := journal\<rparr>"
    and c: "commit_correlated (sv_event_journal t) kind i None None payload = Some (e, journal)" by blast
  have "quiet t s'"
    unfolding quiet_def using journal_run_commit [OF c] assms(2)
    by (intro conjI exI [of _ "[(kind, i, None, None, payload)]"]) (simp_all add: s' silent_def outputs_def)
  with assms(3) show ?thesis by (rule quiet_trans)
qed

lemma quiet_update:
  assumes "quiet s t" and "tb_id (f (sv_tabs t ! k)) = tb_id (sv_tabs t ! k)" "tb_output_bytes (f (sv_tabs t ! k)) = tb_output_bytes (sv_tabs t ! k)"
  shows "quiet s (update_tab k f t)"
proof -
  let ?g = "\<lambda>tab. (tb_id tab, tb_output_bytes tab)"
  have "map ?g (sv_tabs (update_tab k f t)) = map ?g (sv_tabs t)"
    unfolding update_tab_def using assms(2,3)
    by (cases "k < length (sv_tabs t)") (simp_all add: map_update list_update_same_conv list_update_beyond)
  from arg_cong [OF this, of set] have "outputs (update_tab k f t) = outputs t" by (simp add: outputs_def)
  then have "quiet t (update_tab k f t)" by (intro quietI) (simp_all add: update_tab_def)
  with assms(1) show ?thesis by (rule quiet_trans)
qed

lemma quiet_fields:
  assumes "quiet s t"
  shows "quiet s (t\<lparr>sv_active := a\<rparr>)" "quiet s (t\<lparr>sv_collapsed_tabs := c\<rparr>)"
  using assms by (simp_all add: quiet_def outputs_def)

lemma tab_submit_keeps:
  "tab_submit written now input tab = (r, tab') \<Longrightarrow> tb_id tab' = tb_id tab \<and> tb_output_bytes tab' = tb_output_bytes tab"
  "tab_submit_sensitive written now input tab = (r, tab') \<Longrightarrow> tb_id tab' = tb_id tab \<and> tb_output_bytes tab' = tb_output_bytes tab"
  by (auto simp: tab_submit_def tab_submit_sensitive_def tab_send_def split: option.splits prod.splits bool.splits if_splits)

lemma quiet_close: "close_tab receipt i s = Some (r, s') \<Longrightarrow> quiet s s'"
proof (cases "position (\<lambda>tab. tb_id tab = i) (sv_tabs s)")
  case None
  moreover assume "close_tab receipt i s = Some (r, s')"
  ultimately show ?thesis by (simp add: close_tab_def)
next
  case (Some k)
  assume "close_tab receipt i s = Some (r, s')"
  from close_tab_split [OF this Some] obtain pre tab post active payload where
    tabs: "sv_tabs s = pre @ tab # post"
    and commit: "server_commit TabClosed (Some i) payload
       (s\<lparr>sv_tabs := map (promote i (tb_parent_id tab)) (pre @ post), sv_collapsed_tabs := sv_collapsed_tabs s - {i}, sv_active := active\<rparr>) = Some s'"
    by metis
  have "tb_output_bytes (promote i p t) = tb_output_bytes t" for p and t :: "'a TerminalTab" by (simp add: promote_def)
  then have "quiet s (s\<lparr>sv_tabs := map (promote i (tb_parent_id tab)) (pre @ post), sv_collapsed_tabs := sv_collapsed_tabs s - {i}, sv_active := active\<rparr>)"
    by (intro quietI) (auto simp: outputs_def tabs)
  from quiet_commit [OF commit _ this] show ?thesis by simp
qed

lemma quiet_set_parent:
  assumes "set_tab_parent child_id parent_id s = Some (r, s')"
  shows "quiet s s'"
proof -
  let ?f = "\<lambda>tab node. tab\<lparr>tb_parent_id := tn_parent_id node\<rparr>"
  from assms obtain nodes journal where
    host: "set_tab_parent_on_host (tree_nodes (sv_tabs s)) (sv_event_journal s) child_id parent_id = Some (r, nodes, journal)"
    and s': "s' = s\<lparr>sv_tabs := map2 ?f (sv_tabs s) nodes, sv_event_journal := journal\<rparr>"
    by (auto simp: set_tab_parent_def)
  have "outputs s' \<subseteq> outputs s" unfolding outputs_def s' by (auto dest: set_zip_leftD)
  moreover have "journal = sv_event_journal s
      \<or> (\<exists>payload e. commit_correlated (sv_event_journal s) TabParent (Some child_id) None None payload = Some (e, journal))"
    using host by (auto simp: set_tab_parent_on_host_def Let_def journal_commit_def split: option.splits if_splits)
  then have "\<exists>rs. journal_run (sv_event_journal s) rs = Some journal \<and> silent rs"
  proof (elim disjE exE)
    assume "journal = sv_event_journal s"
    then show ?thesis by (intro exI [of _ "[]"]) (simp add: journal_run_def silent_def)
  next
    fix payload e
    assume "commit_correlated (sv_event_journal s) TabParent (Some child_id) None None payload = Some (e, journal)"
    from journal_run_commit [OF this] show ?thesis by (intro exI conjI) (assumption, simp add: silent_def)
  qed
  ultimately show ?thesis by (simp add: quiet_def s')
qed

lemma quiet_finish_completed:
  assumes f: "finish_completed s c = Some s'"
  shows "quiet s s'"
proof -
  obtain i enter final where c: "c = (i, enter, final)" by (cases c)
  let ?s1 = "\<lambda>authority journal. s\<lparr>sv_control_authority := authority, sv_event_journal := journal\<rparr>"
  from f obtain res authority journal where fin: "finish_submission (sv_control_authority s) (sv_event_journal s) i enter final = Some (res, authority, journal)"
    by (auto simp: finish_completed_def c)
  have s': "s' = ?s1 authority journal \<or> (\<exists>k e. s' = update_tab k (\<lambda>tab. tab\<lparr>tb_error := e\<rparr>) (?s1 authority journal))"
    using f fin by (cases res; cases "position (\<lambda>tab. tb_id tab = i) (sv_tabs s)") (auto simp: finish_completed_def c)
  have "\<exists>rs. journal_run (sv_event_journal s) rs = Some journal \<and> silent rs"
  proof (cases "ca_pending_submissions (sv_control_authority s) i")
    case None
    with fin show ?thesis by (intro exI [of _ "[]"]) (simp add: finish_submission_def journal_run_def silent_def)
  next
    case (Some p)
    with fin obtain rid oid payload e where
      "commit_correlated (sv_event_journal s) ComposerSubmissionFinished (Some i) rid oid payload = Some (e, journal)"
      by (auto simp: finish_submission_def Let_def split: option.splits prod.splits sum.splits)
    from journal_run_commit [OF this] show ?thesis by (intro exI conjI) (assumption, simp add: silent_def)
  qed
  then have "quiet s (?s1 authority journal)" by (simp add: quiet_def outputs_def)
  with s' show ?thesis by (auto intro: quiet_update)
qed

lemma quiet_finish_all: "run_steps finish_completed s cs = Some s' \<Longrightarrow> quiet s s'"
  by (induction cs arbitrary: s) (auto split: option.splits intro: quiet_trans quiet_finish_completed)

lemma quiet_send_cwd: "send_cwd_now written now i dir s = Some (r, s') \<Longrightarrow> quiet s s'"
  by (auto simp: send_cwd_now_def Let_def dest!: tab_submit_keeps
      intro!: quiet_update dest: quiet_commit [OF _ _ quiet_update [OF quiet_refl]]
      split: option.splits sum.splits prod.splits bool.splits)

lemma quiet_send_composer: "send_composer_at_position written now k s = Some (r, s') \<Longrightarrow> quiet s s'"
  by (auto simp: send_composer_at_position_def Let_def begin_proxy_confirmation_def dest!: tab_submit_keeps
      intro!: quiet_update dest: quiet_commit [OF _ _ quiet_update [OF quiet_refl]]
      split: option.splits sum.splits prod.splits bool.splits if_splits)

lemma quiet_prepare_cwd: "prepare_cwd i dir mode s = Some (r, s') \<Longrightarrow> quiet s s'"
  by (auto simp: prepare_cwd_def Let_def Option.bind_eq_Some_conv
      intro!: quiet_update dest!: quiet_commit [OF _ _ quiet_update [OF quiet_update [OF quiet_refl]]] quiet_commit
      split: option.splits sum.splits prod.splits)

lemma quiet_select: "select_tab_at k s = Some (r, s') \<Longrightarrow> quiet s s'"
  by (auto simp: select_tab_at_def Let_def dest: quiet_commit [OF _ _ quiet_fields(1) [OF quiet_refl]] split: if_splits)

lemma quiet_toggle: "toggle_tab_collapsed i s = Some (r, s') \<Longrightarrow> quiet s s'"
  by (auto simp: toggle_tab_collapsed_def Let_def dest: quiet_commit [OF _ _ quiet_fields(2) [OF quiet_refl]] split: if_splits)

section \<open>Polling announces exactly what arrived\<close>

lemma record_output_bytes [simp]: "tb_output_bytes (record_output process bytes tab) = tb_output_bytes tab + length bytes"
  by (simp add: record_output_def)

lemma redact_output_bytes: "redact_proxy_output bytes flush tab = (out, tab') \<Longrightarrow> tb_output_bytes tab' = tb_output_bytes tab"
  by (auto simp: redact_proxy_output_def split: prod.splits)

lemma observe_output_bytes [simp]: "tb_output_bytes (observe_proxy_confirmation bytes tab) = tb_output_bytes tab"
  by (simp add: observe_proxy_confirmation_def Let_def split: option.splits)

lemma poll_event_output_mono: "tb_output_bytes tab \<le> tb_output_bytes (poll_event process take_cwd ev tab)"
  by (cases ev) (auto simp: Let_def finish_output_stream_def dest: redact_output_bytes split: prod.splits option.splits)

lemma poll_events_output_mono: "tb_output_bytes tab \<le> tb_output_bytes (fold (poll_event process take_cwd) evs tab)"
  by (induction evs arbitrary: tab) (auto intro: order_trans [OF poll_event_output_mono])

lemma tab_send_bytes: "tab_send written bytes tab = (r, tab') \<Longrightarrow> tb_output_bytes tab' = tb_output_bytes tab"
  by (auto simp: tab_send_def split: option.splits if_splits)

lemma poll_output_mono: "tb_output_bytes tab \<le> tb_output_bytes (snd (poll process take_cwd events now written tab))"
  using poll_events_output_mono [of tab process take_cwd events]
  by (auto simp: poll_def Let_def dest!: tab_send_bytes split: prod.splits option.splits if_splits)

text \<open>A poll never takes the branch of a regressed counter.\<close>

lemma poll_tab_output:
  assumes "poll_tab process take_cwd (events, now, written) tab = (tab', evs, completed)"
  shows "tab' = snd (poll process take_cwd events now written tab)
    \<and> tb_output_bytes tab \<le> tb_output_bytes tab'
    \<and> (\<exists>delta rest. dl_output_advanced_by delta = tb_output_bytes tab' - tb_output_bytes tab
        \<and> evs = output_events (tb_id tab) (observation tab') delta @ rest
        \<and> (\<forall>e \<in> set rest. fst e \<noteq> TerminalOutput))"
proof -
  let ?tab = "snd (poll process take_cwd events now written tab)"
  have i: "tb_id ?tab = tb_id tab" using tab_node_poll [of process take_cwd events now written tab] by (metis tab_node_sel(1))
  have le: "ob_output_bytes (observation tab) \<le> ob_output_bytes (observation ?tab)"
    using poll_output_mono [of tab process take_cwd events now written] by (simp add: observation_def Let_def)
  then obtain delta where d: "delta_to (observation tab) (observation ?tab) = Ok delta"
    and by_eq: "dl_output_advanced_by delta = tb_output_bytes ?tab - tb_output_bytes tab"
    by (simp add: delta_to_def observation_def Let_def)
  have "tab' = ?tab" using assms d by (simp add: poll_tab_def Let_def)
  moreover have "evs = output_events (tb_id tab) (observation ?tab) delta @ (state_events (tb_id tab) (observation ?tab) delta
      @ cwd_events (tb_id tab) (tb_cwd tab) (tb_cwd ?tab) @ proxy_events (tb_id tab) (proxy_facts (tb_proxy tab)) (proxy_facts (tb_proxy ?tab)))"
    using assms d i by (auto simp: poll_tab_def Let_def)
  moreover have "\<forall>e \<in> set (state_events (tb_id tab) (observation ?tab) delta
      @ cwd_events (tb_id tab) (tb_cwd tab) (tb_cwd ?tab) @ proxy_events (tb_id tab) (proxy_facts (tb_proxy tab)) (proxy_facts (tb_proxy ?tab))). fst e \<noteq> TerminalOutput"
    by (auto simp: state_events_def cwd_events_def proxy_events_def)
  ultimately show ?thesis using by_eq poll_output_mono [of tab process take_cwd events now written] by blast
qed

lemma poll_tab_mono: "tb_output_bytes tab \<le> tb_output_bytes (fst (poll_tab process take_cwd input tab))"
proof -
  obtain events now written where input: "input = (events, now, written)" by (cases input)
  obtain tab' evs completed where p: "poll_tab process take_cwd (events, now, written) tab = (tab', evs, completed)" by (metis prod_cases3)
  from poll_tab_output [OF p] have "tb_output_bytes tab \<le> tb_output_bytes tab'" by (elim conjE)
  then show ?thesis by (simp add: input p)
qed

lemma silent_tab_requests: "\<forall>e \<in> set es. fst e \<noteq> TerminalOutput \<Longrightarrow> silent (map tab_request es)"
  by (auto simp: silent_def tab_request_def split: prod.splits)

lemma poll_tab_announced:
  assumes "poll_tab process take_cwd input tab = (tab', evs, completed)" and "i = tb_id tab \<longrightarrow> tb_output_bytes tab' < 2 ^ 64"
  shows "total_announced i (map tab_request evs) = (if i = tb_id tab then tb_output_bytes tab' - tb_output_bytes tab else 0)"
proof -
  obtain events now written where input: "input = (events, now, written)" by (cases input)
  from poll_tab_output [OF assms(1) [unfolded input]] obtain delta rest where
    d: "dl_output_advanced_by delta = tb_output_bytes tab' - tb_output_bytes tab"
    and evs: "evs = output_events (tb_id tab) (observation tab') delta @ rest" and rest: "\<forall>e \<in> set rest. fst e \<noteq> TerminalOutput" by blast
  have n: "unat (of_nat (tb_output_bytes tab' - tb_output_bytes tab) :: u64) = tb_output_bytes tab' - tb_output_bytes tab" if "i = tb_id tab"
    using that assms(2) by (simp add: unsigned_of_nat take_bit_nat_eq_self)
  have "total_announced i (map tab_request (output_events (tb_id tab) (observation tab') delta)) =
      (if i = tb_id tab then tb_output_bytes tab' - tb_output_bytes tab else 0)"
    using n by (auto simp: output_events_def d total_announced_def announced_def tab_request_def json_of_u64_def)
  with silent_total [OF silent_tab_requests [OF rest]] show ?thesis by (simp add: evs)
qed

section \<open>Runs\<close>

definition accounts :: "'p ServerState \<Rightarrow> commit_request list \<Rightarrow> bool" where
  "accounts s rs \<longleftrightarrow>
     (\<forall>(i, n) \<in> outputs s. n < 2 ^ 64 \<longrightarrow> n = total_announced i rs) \<and> (\<forall>i. sv_next_id s \<le> i \<longrightarrow> total_announced i rs = 0)"

definition accounted_step :: "'p ServerState \<Rightarrow> commit_request list \<Rightarrow> 'p ServerState \<Rightarrow> bool" where
  "accounted_step s rs s' \<longleftrightarrow> (\<exists>rs'. journal_run (sv_event_journal s) rs' = Some (sv_event_journal s') \<and> accounts s' (rs @ rs'))"

lemma quiet_accounts:
  assumes "quiet s s'" and "accounts s rs"
  shows "accounted_step s rs s'"
proof -
  from assms(1) obtain rs' where run: "journal_run (sv_event_journal s) rs' = Some (sv_event_journal s')" and "silent rs'"
    and same: "outputs s' \<subseteq> outputs s" "sv_next_id s' = sv_next_id s" by (auto simp: quiet_def)
  then have "accounts s' (rs @ rs')" using assms(2) unfolding accounts_def by (auto simp: silent_total)
  with run show ?thesis unfolding accounted_step_def by blast
qed

lemma create_tab_quiet:
  assumes "create_tab native title command_line env select parent_id s = Some (r, s')"
  obtains t where "quiet t s'" "sv_event_journal t = sv_event_journal s"
    "(sv_next_id t = sv_next_id s \<or> sv_next_id t = saturating_add (sv_next_id s) 1) \<and> outputs t = outputs s
     \<or> sv_next_id t = saturating_add (sv_next_id s) 1 \<and> outputs t = insert (sv_next_id s, 0) (outputs s)"
proof -
  let ?s1 = "s\<lparr>sv_next_id := saturating_add (sv_next_id s) 1\<rparr>"
  let ?launch = "\<lparr>tlc_id = sv_next_id s, tlc_index = free_index (sv_tabs s), tlc_parent_id = parent_id, tlc_title = title,
      tlc_command_line = command_line, tlc_tab_environment = env, tlc_initial_size = launch_size ?s1\<rparr>"
  let ?unknown = "find (\<lambda>parent. \<not> list_ex (\<lambda>tab. tb_id tab = parent) (sv_tabs s)) (case parent_id of None \<Rightarrow> [] | Some p \<Rightarrow> [p])"
  show thesis
  proof (cases "?unknown")
    case (Some p)
    with assms have "s' = s" by (simp add: create_tab_def)
    then show thesis using that [of s] by simp
  next
    case None
    show thesis
    proof (cases "spawn native ?launch")
      case (Inl e)
      with assms None have "s' = ?s1" by (simp add: create_tab_def Let_def)
      then show thesis using that [of ?s1] by (simp add: outputs_def)
    next
      case (Inr tab)
      let ?s2 = "?s1\<lparr>sv_tabs := push_tab tab (sv_tabs s)\<rparr>"
      have tab: "tb_id tab = sv_next_id s" "tb_output_bytes tab = 0"
        using Inr by (auto simp: spawn_def Let_def result_iffs initial_tab_def split: option.splits)
      from create_tab_stages [OF assms None Inr] obtain s3 s4 where
        "s3 = ?s2 \<or> (\<exists>p c. server_commit LayoutTreeCollapse (Some p) c (?s2\<lparr>sv_collapsed_tabs := sv_collapsed_tabs s - {p}\<rparr>) = Some s3)"
        "\<exists>payload. server_commit TabCreated (Some (sv_next_id s)) payload s3 = Some s4"
        "s' = s4 \<or> (\<exists>payload. server_commit TabSelected (Some (sv_next_id s)) payload (s4\<lparr>sv_active := Some (sv_next_id s)\<rparr>) = Some s')" .
      then have "quiet ?s2 s3" "quiet s3 s4" "quiet s4 s'"
        by (auto intro: quiet_commit quiet_fields quiet_refl)
      then have "quiet ?s2 s'" by (blast intro: quiet_trans)
      moreover have "outputs ?s2 = insert (sv_next_id s, 0) (outputs s)" by (auto simp: outputs_def push_tab_def tab)
      ultimately show thesis using that [of ?s2] by simp
    qed
  qed
qed

lemma create_tab_accounts:
  assumes c: "create_tab native title command_line env select parent_id s = Some (r, s')" and acc: "accounts s rs"
    and last: "sv_next_id s \<noteq> - 1"
  shows "accounted_step s rs s'"
proof -
  from create_tab_quiet [OF c] obtain t where t: "quiet t s'" "sv_event_journal t = sv_event_journal s"
    "sv_next_id t = sv_next_id s \<or> sv_next_id t = saturating_add (sv_next_id s) 1" "outputs t \<subseteq> insert (sv_next_id s, 0) (outputs s)"
    by (metis subset_insertI subset_refl)
  have "sv_next_id s \<le> sv_next_id t" using t(3) saturating_succ [OF last] by auto
  moreover have "total_announced (sv_next_id s) rs = 0" using acc by (simp add: accounts_def)
  ultimately have "accounts t rs" using acc t(4) unfolding accounts_def by (auto intro: order_trans)
  from quiet_accounts [OF t(1) this] t(2) show ?thesis by (simp add: accounted_step_def)
qed

lemma sum_list_single:
  "\<lbrakk> distinct (map f xs); x \<in> set xs; \<And>y. y \<in> set xs \<Longrightarrow> f y \<noteq> f x \<Longrightarrow> g y = (0 :: nat) \<rbrakk> \<Longrightarrow> sum_list (map g xs) = g x"
proof (induction xs)
  case (Cons a xs)
  show ?case
  proof (cases "a = x")
    case True
    with Cons.prems have "g y = 0" if "y \<in> set xs" for y using that by (auto simp: image_iff)
    with True show ?thesis by simp
  next
    case False
    with Cons have "f a \<noteq> f x" by (auto simp: image_iff)
    with Cons False show ?thesis by simp
  qed
qed simp

lemma total_announced_concat: "total_announced i (concat rss) = sum_list (map (total_announced i) rss)"
  by (induction rss) simp_all

lemma poll_accounts:
  assumes p: "poll_terminals process take_cwd inputs s = Some s'" and ok: "server_ok s" and acc: "accounts s rs"
  shows "accounted_step s rs s'"
proof -
  let ?poll = "\<lambda>tab. poll_tab process take_cwd (inputs (tb_id tab)) tab"
  let ?ev = "\<lambda>tab. map tab_request (fst (snd (?poll tab)))"
  let ?rs = "concat (map ?ev (sv_tabs s))"
  let ?tabs = "map (fst \<circ> ?poll) (sv_tabs s)"
  have "map tab_request (concat (map (\<lambda>(_, events, _). events) (map ?poll (sv_tabs s)))) = ?rs"
    by (simp add: map_concat comp_def split_beta)
  with p obtain journal completed where j: "journal_run (sv_event_journal s) ?rs = Some journal"
    and run: "run_steps finish_completed (s\<lparr>sv_tabs := ?tabs, sv_event_journal := journal\<rparr>) completed = Some s'"
    by (auto simp: poll_terminals_def Let_def Option.bind_eq_Some_conv)
  let ?s1 = "s\<lparr>sv_tabs := ?tabs, sv_event_journal := journal\<rparr>"
  have dist: "distinct (map tb_id (sv_tabs s))" using ok by (simp add: server_ok_def nodes_ok_def)
  have other: "total_announced i (?ev tab) = 0" if "i \<noteq> tb_id tab" for i tab
    using poll_tab_announced [of process take_cwd "inputs (tb_id tab)" tab "fst (?poll tab)" "fst (snd (?poll tab))" "snd (snd (?poll tab))" i] that
    by simp
  have "n = total_announced i (rs @ ?rs)" if "(i, n) \<in> outputs ?s1" "n < 2 ^ 64" for i n
  proof -
    from that(1) obtain tab where tab: "tab \<in> set (sv_tabs s)" and i: "i = tb_id (fst (?poll tab))" and n: "n = tb_output_bytes (fst (?poll tab))"
      by (auto simp: outputs_def)
    have i': "i = tb_id tab" using tab_node_poll_tab [of process take_cwd "inputs (tb_id tab)" tab] i by (metis tab_node_sel(1))
    have "total_announced i ?rs = total_announced i (?ev tab)"
      unfolding total_announced_concat map_map
      using sum_list_single [OF dist tab, of "total_announced i \<circ> ?ev"] other i' by simp
    also have "\<dots> = n - tb_output_bytes tab"
      using poll_tab_announced [of process take_cwd "inputs (tb_id tab)" tab "fst (?poll tab)" "fst (snd (?poll tab))" "snd (snd (?poll tab))" i]
        that(2) n i' by simp
    finally have new: "total_announced i ?rs = n - tb_output_bytes tab" .
    have le: "tb_output_bytes tab \<le> n" unfolding n by (rule poll_tab_mono)
    have "(i, tb_output_bytes tab) \<in> outputs s" using tab i' by (auto simp: outputs_def)
    with acc le that(2) have "tb_output_bytes tab = total_announced i rs" unfolding accounts_def by fastforce
    with new le show ?thesis by simp
  qed
  moreover have "total_announced i (rs @ ?rs) = 0" if "sv_next_id s \<le> i" for i
  proof -
    have "i \<noteq> tb_id tab" if "tab \<in> set (sv_tabs s)" for tab
      using ok that \<open>sv_next_id s \<le> i\<close> by (auto simp: server_ok_def leD)
    then have "total_announced i ?rs = 0" using other unfolding total_announced_concat by simp
    with acc that show ?thesis by (simp add: accounts_def)
  qed
  ultimately have "accounts ?s1 (rs @ ?rs)" by (auto simp: accounts_def)
  from quiet_accounts [OF quiet_finish_all [OF run] this] obtain rs' where
    "journal_run journal rs' = Some (sv_event_journal s')" "accounts s' ((rs @ ?rs) @ rs')" by (auto simp: accounted_step_def)
  with journal_run_append [OF j, of rs'] show ?thesis unfolding accounted_step_def by (intro exI [of _ "?rs @ rs'"]) simp
qed

lemma server_step_accounts:
  assumes step: "server_step process take_cwd s op = Some s'" and ok: "server_ok s" and last: "sv_next_id s \<noteq> - 1"
    and acc: "accounts s rs"
  shows "accounted_step s rs s'"
proof (cases op)
  case (CreateTab native title command_line env select parent_id)
  with step create_tab_accounts [OF _ acc last] show ?thesis by auto
next
  case (PollTerminals inputs)
  with step poll_accounts [OF _ ok acc] show ?thesis by simp
next
  case (SelectTab k)
  with step show ?thesis by (auto dest: quiet_select intro: quiet_accounts [OF _ acc])
next
  case (MoveTab i p)
  with step show ?thesis by (auto dest: quiet_set_parent intro: quiet_accounts [OF _ acc])
next
  case (ToggleCollapsed i)
  with step show ?thesis by (auto dest: quiet_toggle intro: quiet_accounts [OF _ acc])
next
  case (CloseTab receipt i)
  with step show ?thesis by (auto dest: quiet_close intro: quiet_accounts [OF _ acc])
next
  case (PrepareCwd i dir mode)
  with step show ?thesis by (auto dest: quiet_prepare_cwd intro: quiet_accounts [OF _ acc])
next
  case (SendCwd written now i dir)
  with step show ?thesis by (auto dest: quiet_send_cwd intro: quiet_accounts [OF _ acc])
next
  case (SendComposer written now k)
  with step quiet_accounts [OF quiet_refl acc] show ?thesis
    by (auto dest: quiet_send_composer intro: quiet_accounts [OF _ acc] split: if_splits)
qed

lemma server_run_accounts:
  "\<lbrakk> run_steps (server_step process take_cwd) s ops = Some s'; server_ok s; accounts s rs;
     length (sv_tabs s) + length ops \<le> 2 ^ 32; unat (sv_next_id s) + length ops < 2 ^ 64 \<rbrakk> \<Longrightarrow> accounted_step s rs s'"
proof (induction ops arbitrary: s rs)
  case Nil
  then show ?case unfolding accounted_step_def by (intro exI [of _ "[]"]) (simp add: journal_run_def)
next
  case (Cons op ops)
  from Cons.prems(1) obtain t where t: "server_step process take_cwd s op = Some t" "run_steps (server_step process take_cwd) t ops = Some s'"
    by (auto split: option.splits)
  have last: "sv_next_id s \<noteq> - 1" using Cons.prems(5) by (auto simp: unsigned_minus_1_eq_mask mask_eq_exp_minus_1)
  from server_step_ok [OF Cons.prems(2) _ last t(1)] Cons.prems(4) have ok: "server_ok t" "step_bound s t" by simp_all
  from server_step_accounts [OF t(1) Cons.prems(2) last Cons.prems(3)] obtain r where
    r: "journal_run (sv_event_journal s) r = Some (sv_event_journal t)" "accounts t (rs @ r)" by (auto simp: accounted_step_def)
  from Cons.IH [OF t(2) ok(1) r(2)] ok(2) Cons.prems(4,5) obtain r' where
    r': "journal_run (sv_event_journal t) r' = Some (sv_event_journal s')" "accounts s' ((rs @ r) @ r')"
    by (auto simp: accounted_step_def step_bound_def)
  with journal_run_append [OF r(1), of r'] show ?case unfolding accounted_step_def by (intro exI [of _ "r @ r'"]) simp
qed

text \<open>
  C12. The journal accounts for every byte of terminal output. For every tab that is open after any
  sequence of operations on a fresh server, the sizes announced by the output events committed for
  it since the start add up to its output counter: a client that follows the events knows how much
  there is to read, whatever other tabs, closings or failures come in between.
\<close>

theorem output_events_account:
  assumes "run_steps (server_step process take_cwd) s ops = Some s'" and "server_ok s" and "sv_tabs s = []"
    and "length ops \<le> 2 ^ 32" and "unat (sv_next_id s) + length ops < 2 ^ 64"
    and "tab \<in> set (sv_tabs s')" and "tb_output_bytes tab < 2 ^ 64"
  shows "\<exists>requests. journal_run (sv_event_journal s) requests = Some (sv_event_journal s')
    \<and> tb_output_bytes tab = sum_list (map (\<lambda>(kind, tab_id, _, _, payload).
        if kind = TerminalOutput \<and> tab_id = Some (tb_id tab) then json_nat (json_index payload ''advanced_by'') else 0) requests)"
proof -
  have acc: "accounts s []" using assms(3) by (simp add: accounts_def outputs_def)
  have "length (sv_tabs s) + length ops \<le> 2 ^ 32" using assms(3,4) by simp
  from server_run_accounts [OF assms(1,2) acc this assms(5)] obtain rs where
    run: "journal_run (sv_event_journal s) rs = Some (sv_event_journal s')" and acc': "accounts s' rs" by (auto simp: accounted_step_def)
  have "(tb_id tab, tb_output_bytes tab) \<in> outputs s'" using assms(6) by (auto simp: outputs_def)
  with acc' assms(7) have "tb_output_bytes tab = total_announced (tb_id tab) rs" by (auto simp: accounts_def)
  moreover have "announced i = (\<lambda>(kind, tab_id, _, _, payload).
        if kind = TerminalOutput \<and> tab_id = Some i then json_nat (json_index payload ''advanced_by'') else 0)" for i
    by (auto simp: announced_def fun_eq_iff)
  ultimately show ?thesis using run by (auto simp: total_announced_def)
qed

lemma sample_polled:
  "\<exists>s tab. run_steps (server_step (\<lambda>p _. p) (\<lambda>p. (None, p))) empty_server
     [CreateTab sample_native None [] [] True None, PollTerminals (\<lambda>_. ([PtyOutput ''hi''], 0, None))] = Some s
   \<and> sv_tabs s = [tab] \<and> tb_output_bytes tab = 2"
  by (simp add: create_tab_def sample_spawn Let_def empty_server_def initial_server_def saturating_add_def free_index_def
      push_tab_def initial_tab_def server_commit_def journal_commit_def commit_correlated_def EventJournal_new_def with_epoch_def
      checked_add_def poll_terminals_def poll_tab_def poll_def redact_proxy_output_def redact_proxy_stream_chunk_def
      observe_proxy_confirmation_def delta_to_def observation_def journal_run_def commit_step_def commit_with_def tab_request_def
      output_events_def state_events_def cwd_events_def proxy_events_def process_state_def TerminalLifecycle_default_def
      lifecycle_finalized_def)

lemma output_events_account_witness:
  "\<exists>s tab requests. run_steps (server_step (\<lambda>p _. p) (\<lambda>p. (None, p))) empty_server
     [CreateTab sample_native None [] [] True None, PollTerminals (\<lambda>_. ([PtyOutput ''hi''], 0, None))] = Some s
   \<and> sv_tabs s = [tab] \<and> journal_run (sv_event_journal empty_server) requests = Some (sv_event_journal s)
   \<and> 2 = sum_list (map (\<lambda>(kind, tab_id, _, _, payload).
        if kind = TerminalOutput \<and> tab_id = Some (tb_id tab) then json_nat (json_index payload ''advanced_by'') else 0) requests)"
proof -
  let ?ops = "[CreateTab sample_native None [] [] True None, PollTerminals (\<lambda>_. ([PtyOutput ''hi''], 0, None))]"
  from sample_polled obtain s tab where
    run: "run_steps (server_step (\<lambda>p _. p) (\<lambda>p. (None, p))) empty_server ?ops = Some s"
    and tab: "sv_tabs s = [tab]" and n: "tb_output_bytes tab = 2" by (elim exE conjE)
  have e: "sv_tabs empty_server = []" "length ?ops \<le> 2 ^ 32" "unat (sv_next_id empty_server) + length ?ops < 2 ^ 64"
    by (simp_all add: empty_server_def initial_server_def saturating_add_def)
  have t: "tab \<in> set (sv_tabs s)" "tb_output_bytes tab < 2 ^ 64" by (simp_all add: tab n)
  from output_events_account [OF run empty_server_ok e t] run tab show ?thesis unfolding n by blast
qed

end
