(* ===== verification/Server_Workspace.thy ===== *)
theory Server_Workspace
  imports Server_Invariant
begin

text \<open>
  Restarting the server: the workspace saved from a consistent state restores to the same tabs.
  And the depth of a tab, which its loop counts exactly.
\<close>

section \<open>Depth\<close>

lemma chain_ranked:
  assumes r: "\<And>i p. parent_of nodes i = Some p \<Longrightarrow> (r p :: nat) < r i"
  shows "chain nodes (Suc m) (Some a) = Some b \<Longrightarrow> r b < r a"
proof (induction m arbitrary: a)
  case 0
  then show ?case using r by simp
next
  case (Suc m)
  then obtain p where p: "parent_of nodes a = Some p" "chain nodes (Suc m) (Some p) = Some b"
    by (cases "parent_of nodes a") auto
  from Suc.IH [OF p(2)] r [OF p(1)] show ?case by simp
qed

lemma chain_bounded:
  assumes f: "forest nodes" and n: "chain nodes n (Some i) \<noteq> None"
  shows "n \<le> length nodes"
proof -
  obtain r :: "u64 \<Rightarrow> nat" where r: "\<And>i p. parent_of nodes i = Some p \<Longrightarrow> r p < r i" using f forest_rank by metis
  have some: "\<exists>a. chain nodes k (Some i) = Some a" if "k \<le> n" for k using n chain_None_mono [OF _ that] by fastforce
  have "inj_on (\<lambda>k. chain nodes k (Some i)) {..< n}"
  proof (rule linorder_inj_onI)
    fix k l :: nat
    assume kl: "k < l" "k \<in> {..< n}" "l \<in> {..< n}"
    from kl some [of k] some [of l] obtain a b where a: "chain nodes k (Some i) = Some a" and b: "chain nodes l (Some i) = Some b" by auto
    have "chain nodes (Suc (l - Suc k)) (Some a) = Some b" using b kl(1) chain_add [of nodes k "l - k" "Some i"] a by (simp add: Suc_diff_Suc)
    from chain_ranked [OF r this] a b show "chain nodes k (Some i) \<noteq> chain nodes l (Some i)" by auto
  qed auto
  then have "n = card ((\<lambda>k. chain nodes k (Some i)) ` {..< n})" by (simp add: card_image)
  also have "\<dots> \<le> card (Some ` node_ids nodes)"
  proof (rule card_mono)
    show "(\<lambda>k. chain nodes k (Some i)) ` {..< n} \<subseteq> Some ` node_ids nodes"
    proof
      fix x
      assume "x \<in> (\<lambda>k. chain nodes k (Some i)) ` {..< n}"
      then obtain k where k: "k < n" "x = chain nodes k (Some i)" by auto
      from k(1) some [of k] obtain a where a: "chain nodes k (Some i) = Some a" by auto
      moreover from k(1) some [of "Suc k"] obtain b where "chain nodes (Suc k) (Some i) = Some b" by auto
      ultimately have "parent_of nodes a = Some b" unfolding chain_Suc by simp
      with a k(2) show "x \<in> Some ` node_ids nodes" using parent_of_SomeD by simp
    qed
  qed simp
  also have "\<dots> \<le> length nodes" using card_length [of "map tn_id nodes"] by (simp add: card_image)
  finally show ?thesis .
qed

lemma depth_loop_counts:
  assumes d: "chain (tree_nodes tabs) d (Some i) \<noteq> None" "chain (tree_nodes tabs) (Suc d) (Some i) = None" and le: "d \<le> length tabs"
  shows "k \<le> d \<Longrightarrow> depth_loop tabs k (chain (tree_nodes tabs) (Suc k) (Some i)) = d"
proof (induction "d - k" arbitrary: k)
  case 0
  then show ?case using d(2) by (simp add: depth_loop.simps)
next
  case (Suc n)
  then have k: "Suc k \<le> d" by simp
  then obtain p where p: "chain (tree_nodes tabs) (Suc k) (Some i) = Some p" by (metis chain_None_mono d(1) not_None_eq)
  have "Option.bind (find (\<lambda>tab. tb_id tab = p) tabs) tb_parent_id = chain (tree_nodes tabs) (Suc (Suc k)) (Some i)"
    unfolding chain_Suc [of _ "Suc k"] p by (simp add: parent_of_tabs)
  moreover have "\<not> length tabs < Suc k" using k le by simp
  ultimately show ?case unfolding p depth_loop.simps [of tabs k "Some p"] using Suc.hyps(1) [of "Suc k"] Suc.hyps(2) k by simp
qed

text \<open>
  The depth of a tab is the number of its ancestors. Where the parents form a forest, climbing
  \<open>tab_depth\<close> steps from a tab reaches its root and one more step leaves the tree; the depth never
  exceeds the number of tabs, so the loop's own bound cuts nothing off.
\<close>

theorem tab_depth_counts_ancestors:
  assumes f: "forest (tree_nodes tabs)" and i: "i \<in> tb_id ` set tabs"
  shows "chain (tree_nodes tabs) (tab_depth tabs i) (Some i) \<noteq> None
    \<and> chain (tree_nodes tabs) (Suc (tab_depth tabs i)) (Some i) = None \<and> tab_depth tabs i \<le> length tabs"
proof -
  let ?nodes = "tree_nodes tabs"
  let ?P = "\<lambda>n. chain ?nodes n (Some i) = None"
  from f obtain n where n: "?P n" by (auto simp: forest_def)
  have "\<not> ?P 0" by simp
  from ex_least_nat_less [of ?P, OF n this] obtain d where d: "chain ?nodes (Suc d) (Some i) = None" "chain ?nodes d (Some i) \<noteq> None"
    by auto
  have le: "d \<le> length tabs" using chain_bounded [OF f d(2)] by simp
  obtain tab where tab: "find (\<lambda>tab. tb_id tab = i) tabs = Some tab"
    using i by (cases "find (\<lambda>tab. tb_id tab = i) tabs") (auto simp: find_None_iff)
  have "tab_depth tabs i = depth_loop tabs 0 (chain ?nodes (Suc 0) (Some i))"
    by (simp add: tab_depth_def tab parent_of_tabs)
  also have "\<dots> = d" by (rule depth_loop_counts [OF d(2,1) le]) simp
  finally show ?thesis using d le by simp
qed

definition sample_family :: "unit TerminalTab list" where
  "sample_family = [sample_tab\<lparr>tb_id := 1, tb_parent_id := None\<rparr>, sample_tab\<lparr>tb_id := 2, tb_parent_id := Some 1\<rparr>]"

lemma tab_depth_counts_ancestors_witness:
  "forest (tree_nodes sample_family) \<and> tab_depth sample_family 2 = 1
   \<and> chain (tree_nodes sample_family) 2 (Some 2) = None \<and> chain (tree_nodes sample_family) 1 (Some 2) \<noteq> None"
proof -
  have f: "forest (tree_nodes sample_family)"
    unfolding forest_rank by (intro exI [of _ unat]) (auto simp: parent_of_def tree_nodes_def sample_family_def)
  have i: "2 \<in> tb_id ` set sample_family" by (simp add: sample_family_def)
  have d: "tab_depth sample_family 2 = 1" by (simp add: tab_depth_def sample_family_def depth_loop.simps)
  from tab_depth_counts_ancestors [OF f i] f d show ?thesis by (simp add: numeral_2_eq_2)
qed

section \<open>Saving and restoring\<close>

text \<open>The operating system lets every restored terminal start.\<close>

definition native_ready :: "'p native_start \<Rightarrow> bool" where
  "native_ready native \<longleftrightarrow> ns_endpoint_error native = None \<and> (\<exists>process_id. ns_started native = Ok process_id)
     \<and> (\<exists>proxy. ProxyState_from_environment (ns_vars native) [] = Ok proxy)"

lemma if_Err_Ok_iff: "(if P then Err e else r) = Ok v \<longleftrightarrow> \<not> P \<and> r = Ok v"
  by simp

lemma SecretValue_new_expose: "SecretValue_new t = Ok v \<Longrightarrow> expose v = t"
  unfolding SecretValue_new_def if_Err_Ok_iff sum.inject by (elim conjE) (erule subst, rule SecretValue.sel)

lemma nonempty_secretD:
  assumes "nonempty_secret t = Ok (Some v)"
  shows "SecretValue_new (expose v) = Ok v"
proof -
  from assms obtain u where "SecretValue_new u = Ok v"
    by (auto simp: nonempty_secret_def and_then_Ok_iff split: option.splits if_splits)
  with SecretValue_new_expose [OF this] show ?thesis by simp
qed

text \<open>The values of an accepted proxy are accepted again as needles.\<close>

lemma redaction_needles_ok:
  assumes "ProxyState_new http https source app = Ok proxy"
  shows "\<exists>needles. redaction_needles proxy = Ok needles"
proof -
  from assms have http: "nonempty_secret http = Ok (px_http proxy)" and https: "nonempty_secret https = Ok (px_https proxy)"
    by (auto simp: ProxyState_new_def result_iffs Let_def split: if_splits prod.splits)
  show ?thesis
    by (cases "px_http proxy"; cases "px_https proxy")
       (use http https in \<open>auto simp: redaction_needles_def map_filter_def dest!: nonempty_secretD\<close>)
qed

lemma spawn_ready:
  assumes "native_ready native" and "tlc_tab_environment launch = []"
  obtains program command_name process_id proxy needles where
    "spawn native launch = Ok (initial_tab launch program command_name (Some process_id) (ns_launch_cwd native) proxy needles
       (ns_parser native (tlc_initial_size launch)))"
proof -
  from assms(1) obtain process_id proxy where n: "ns_endpoint_error native = None" "ns_started native = Ok process_id"
    "ProxyState_from_environment (ns_vars native) [] = Ok proxy" by (auto simp: native_ready_def)
  from n(3) obtain needles where "redaction_needles proxy = Ok needles"
    unfolding ProxyState_from_environment_def using redaction_needles_ok by blast
  with n assms(2) show thesis by (intro that) (simp add: spawn_def Let_def)
qed

text \<open>A tab can be restored as it was when it has a title and a command line.\<close>

definition saved_ok :: "SavedTab \<Rightarrow> bool" where
  "saved_ok saved \<longleftrightarrow> st_title saved \<noteq> [] \<and> st_command_line saved \<noteq> []"

lemma restore_tab_ready:
  assumes "native_ready native" and "saved_ok saved"
  obtains tab payload where "saved_tab tab = saved"
    "restore_tab native saved s = map_option (\<lambda>s. (Ok (), s)) (server_commit TabCreated (Some (st_id saved)) payload
       (s\<lparr>sv_tabs := push_tab tab (sv_tabs s)\<rparr>))"
proof -
  let ?launch = "\<lparr>tlc_id = st_id saved, tlc_index = st_index saved, tlc_parent_id = st_parent_id saved,
             tlc_title = (if st_title saved \<noteq> [] then Some (st_title saved) else None),
             tlc_command_line = st_command_line saved, tlc_tab_environment = [],
             tlc_initial_size = (INITIAL_ROWS, INITIAL_COLUMNS)\<rparr>"
  have env: "tlc_tab_environment ?launch = []" by simp
  from spawn_ready [OF assms(1) env] obtain program command_name process_id proxy needles where
    sp: "spawn native ?launch = Ok (initial_tab ?launch program command_name (Some process_id) (ns_launch_cwd native) proxy needles
       (ns_parser native (tlc_initial_size ?launch)))" .
  let ?tab = "(initial_tab ?launch program command_name (Some process_id) (ns_launch_cwd native) proxy needles
       (ns_parser native (tlc_initial_size ?launch)))\<lparr>tb_note := st_note saved, tb_composer := st_composer saved\<rparr>"
  have "saved_tab ?tab = saved" using assms(2) by (cases saved) (simp add: saved_tab_def initial_tab_def saved_ok_def)
  moreover have "restore_tab native saved s = map_option (\<lambda>s. (Ok (), s)) (server_commit TabCreated (Some (st_id saved))
       (JObj [(''index'', json_of_u64 (ucast (st_index saved))), (''restored'', JBool True),
              (''selected'', JBool (sv_active s = Some (st_id saved)))])
       (s\<lparr>sv_tabs := push_tab ?tab (sv_tabs s)\<rparr>))"
    unfolding restore_tab_def Let_def sp sum.case by simp
  ultimately show thesis by (rule that)
qed

lemma server_commit_succeeds:
  assumes "jr_sequence (sv_event_journal s) \<noteq> - 1"
  obtains journal where "server_commit kind i payload s = Some (s\<lparr>sv_event_journal := journal\<rparr>)"
    "unat (jr_sequence journal) = Suc (unat (jr_sequence (sv_event_journal s)))"
    "journal_ok (sv_event_journal s) \<longrightarrow> journal_ok journal"
proof -
  obtain e journal where c: "commit_correlated (sv_event_journal s) kind i None None payload = Some (e, journal)"
    using assms by (cases "commit_correlated (sv_event_journal s) kind i None None payload")
       (auto simp: commit_correlated_def Let_def checked_add_one_None_iff split: option.splits)
  have "server_commit kind i payload s = Some (s\<lparr>sv_event_journal := journal\<rparr>)"
    by (simp add: server_commit_def journal_commit_def c)
  with commit_correlated_SomeD [OF c] journal_ok_commit [of "sv_event_journal s" "(kind, i, None, None, payload)"] c show thesis
    by (intro that) (auto simp: commit_with_def)
qed

lemma push_tab_last:
  assumes "sorted (map tb_index (tabs @ [tab]))"
  shows "push_tab tab tabs = tabs @ [tab]"
  using assms unfolding push_tab_def by (rule sort_key_id_if_sorted)

lemma saved_index: "saved_tab tab = saved \<Longrightarrow> tb_index tab = st_index saved"
  by (auto simp: saved_tab_def)

lemma restore_tabs_ready:
  assumes n: "native_ready native"
  shows "\<lbrakk> \<forall>saved \<in> set rest. saved_ok saved; sorted (map tb_index (sv_tabs s) @ map st_index rest);
    unat (jr_sequence (sv_event_journal s)) + length rest < 2 ^ 64; journal_ok (sv_event_journal s) \<rbrakk> \<Longrightarrow>
   \<exists>tabs journal. restore_tabs native rest s = Some (Ok (), s\<lparr>sv_tabs := sv_tabs s @ tabs, sv_event_journal := journal\<rparr>)
     \<and> map saved_tab tabs = rest \<and> journal_ok journal"
proof (induction rest arbitrary: s)
  case Nil
  then show ?case by (intro exI [of _ "[]"] exI [of _ "sv_event_journal s"]) simp
next
  case (Cons saved rest)
  have "saved_ok saved" using Cons.prems(1) by simp
  from restore_tab_ready [OF n this] obtain tab payload where tab: "saved_tab tab = saved"
    and r: "restore_tab native saved s = map_option (\<lambda>s. (Ok (), s)) (server_commit TabCreated (Some (st_id saved)) payload
       (s\<lparr>sv_tabs := push_tab tab (sv_tabs s)\<rparr>))" .
  let ?s1 = "s\<lparr>sv_tabs := sv_tabs s @ [tab]\<rparr>"
  have push: "push_tab tab (sv_tabs s) = sv_tabs s @ [tab]"
    using Cons.prems(2) by (intro push_tab_last) (simp add: saved_index [OF tab] sorted_append)
  have "jr_sequence (sv_event_journal ?s1) \<noteq> - 1"
    using Cons.prems(3) by (auto simp: unsigned_minus_1_eq_mask mask_eq_exp_minus_1)
  from server_commit_succeeds [OF this, of TabCreated "Some (st_id saved)" payload] obtain journal where
    commit: "server_commit TabCreated (Some (st_id saved)) payload ?s1 = Some (?s1\<lparr>sv_event_journal := journal\<rparr>)"
    and seq: "unat (jr_sequence journal) = Suc (unat (jr_sequence (sv_event_journal ?s1)))"
    and ok: "journal_ok (sv_event_journal ?s1) \<longrightarrow> journal_ok journal" .
  let ?s2 = "?s1\<lparr>sv_event_journal := journal\<rparr>"
  have "restore_tabs native (saved # rest) s = restore_tabs native rest ?s2" by (simp add: r push commit)
  moreover have "\<exists>tabs journal'. restore_tabs native rest ?s2 = Some (Ok (), ?s2\<lparr>sv_tabs := sv_tabs ?s2 @ tabs, sv_event_journal := journal'\<rparr>)
     \<and> map saved_tab tabs = rest \<and> journal_ok journal'"
    by (rule Cons.IH) (use Cons.prems seq ok in \<open>simp_all add: saved_index [OF tab]\<close>)
  then obtain tabs journal' where
    "restore_tabs native rest ?s2 = Some (Ok (), ?s2\<lparr>sv_tabs := sv_tabs ?s2 @ tabs, sv_event_journal := journal'\<rparr>)"
    "map saved_tab tabs = rest" "journal_ok journal'" by blast
  ultimately show ?case using tab by (intro exI [of _ "tab # tabs"] exI [of _ journal']) simp
qed

lemma tree_nodes_saved: "map saved_tab tabs = map saved_tab tabs' \<Longrightarrow> tree_nodes tabs = tree_nodes tabs'"
proof -
  have "tree_nodes ts = map (\<lambda>saved. \<lparr>tn_id = st_id saved, tn_parent_id = st_parent_id saved, tn_sort_key = st_index saved\<rparr>) (map saved_tab ts)"
    for ts :: "'a TerminalTab list" by (simp add: tree_nodes_def saved_tab_def)
  moreover have "tree_nodes ts = map (\<lambda>saved. \<lparr>tn_id = st_id saved, tn_parent_id = st_parent_id saved, tn_sort_key = st_index saved\<rparr>) (map saved_tab ts)"
    for ts :: "'b TerminalTab list" by (simp add: tree_nodes_def saved_tab_def)
  moreover assume "map saved_tab tabs = map saved_tab tabs'"
  ultimately show ?thesis by metis
qed

lemma fold_max_base: "a \<le> fold max (xs :: u64 list) a"
proof (induction xs arbitrary: a)
  case (Cons x xs)
  have "a \<le> max x a" by simp
  also have "\<dots> \<le> fold max xs (max x a)" by (rule Cons.IH)
  finally show ?case by simp
qed simp

lemma fold_max_ge: "x \<in> set (xs :: u64 list) \<Longrightarrow> x \<le> fold max xs a"
proof (induction xs arbitrary: a)
  case (Cons y xs)
  have "y \<le> max y a" by simp
  also have "\<dots> \<le> fold max xs (max y a)" by (rule fold_max_base)
  finally show ?case using Cons by auto
qed simp

lemma fold_max_less: "(\<forall>x \<in> set (xs :: u64 list). x < b) \<Longrightarrow> a < b \<Longrightarrow> fold max xs a < b"
  by (induction xs arbitrary: a) auto

text \<open>
  C13. Restarting keeps the workspace. When a consistent server with at least one tab saves its
  workspace and a new server restores it, the new server is consistent and has the same tabs in the
  same order -- identifiers, indices, parents, titles, notes, drafts and command lines --, the same
  session name and collapsed set, and the same active tab (the first one if none was active);
  what it would save is what was saved. Tabs without a title or a command line, and an empty session
  name, are given defaults instead and are excluded here.
\<close>

theorem workspace_roundtrip:
  fixes s :: "'p ServerState" and native :: "'q native_start"
  assumes ok: "server_ok s" and ready: "native_ready native" and iter: "set (iter (sv_collapsed_tabs s)) = sv_collapsed_tabs s"
    and tabs: "sv_tabs s \<noteq> []" "\<forall>tab \<in> set (sv_tabs s). tb_title tab \<noteq> [] \<and> tb_command_line tab \<noteq> []"
    and name: "sv_session_name s \<noteq> []" and len: "length (sv_tabs s) < 2 ^ 64"
  shows "load_workspace (Some (saved_workspace iter s)) = Some (saved_workspace iter s)
    \<and> (\<exists>s'. server_new native epoch False (saved_workspace iter s) = Some (Ok s') \<and> server_ok s'
        \<and> saved_workspace iter s' = (saved_workspace iter s)
            \<lparr>sw_active_id := (case sv_active s of Some i \<Rightarrow> Some i | None \<Rightarrow> Some (tb_id (hd (sv_tabs s))))\<rparr>)"
proof -
  let ?w = "saved_workspace iter s"
  let ?s0 = "initial_server epoch ?w :: 'q ServerState"
  have w: "sw_tabs ?w = map saved_tab (sv_tabs s)" "sw_version ?w = 1" by (simp_all add: saved_workspace_def)
  have sorted: "sorted (map tb_index (sv_tabs s))" using ok by (simp add: server_ok_def nodes_ok_def strict_sorted_iff)
  have fresh: "sv_tabs ?s0 = []" "jr_sequence (sv_event_journal ?s0) = 0" "journal_ok (sv_event_journal ?s0)"
    using journal_ok_with_epoch [of epoch DEFAULT_EVENT_CAPACITY] by (simp_all add: initial_server_def EventJournal_new_def with_epoch_def)
  have "\<exists>new journal. restore_tabs native (sw_tabs ?w) ?s0 = Some (Ok (), ?s0\<lparr>sv_tabs := sv_tabs ?s0 @ new, sv_event_journal := journal\<rparr>)
     \<and> map saved_tab new = sw_tabs ?w \<and> journal_ok journal"
    by (rule restore_tabs_ready [OF ready])
       (use tabs(2) sorted len fresh in \<open>auto simp: w saved_ok_def saved_tab_def comp_def\<close>)
  then obtain new journal where restored: "restore_tabs native (sw_tabs ?w) ?s0 = Some (Ok (), ?s0\<lparr>sv_tabs := new, sv_event_journal := journal\<rparr>)"
    and new: "map saved_tab new = map saved_tab (sv_tabs s)" and jok: "journal_ok journal"
    by (auto simp: w initial_server_def)
  let ?s1 = "?s0\<lparr>sv_tabs := new, sv_event_journal := journal\<rparr>"
  have nodes: "tree_nodes new = tree_nodes (sv_tabs s)" using new by (rule tree_nodes_saved)
  have ids: "map tb_id new = map tb_id (sv_tabs s)" using nodes tree_nodes_simps(1) by metis
  have ne: "new \<noteq> []" using ids tabs(1) by auto
  have idset: "tb_id ` set new = tb_id ` set (sv_tabs s)" using ids by (metis set_map)
  let ?active = "case sv_active s of Some i \<Rightarrow> Some i | None \<Rightarrow> Some (tb_id (hd (sv_tabs s)))"
  have hd: "tb_id (hd new) = tb_id (hd (sv_tabs s))" using ids ne tabs(1) by (metis hd_map)
  have "server_new native epoch False ?w = Some (Ok (?s1\<lparr>sv_active := ?active\<rparr>))"
  proof (cases "sv_active s")
    case None
    then show ?thesis using ne hd unfolding server_new_def restored
      by (cases new) (simp_all add: initial_server_def saved_workspace_def)
  next
    case (Some i)
    with ok have "i \<in> tb_id ` set new" unfolding idset by (simp add: server_ok_def)
    then have "list_ex (\<lambda>tab. tb_id tab = i) new" by (auto simp: list_ex_iff)
    with Some ne show ?thesis unfolding server_new_def restored
      by (simp add: initial_server_def saved_workspace_def)
  qed
  moreover have "server_ok (?s1\<lparr>sv_active := ?active\<rparr>)"
  proof -
    let ?top = "fold max (map st_id (map saved_tab (sv_tabs s))) 0"
    have ids_eq: "map st_id (map saved_tab (sv_tabs s)) = map tb_id (sv_tabs s)" by (simp add: saved_tab_def)
    have small: "\<forall>i \<in> set (map tb_id (sv_tabs s)). i < sv_next_id s" using ok by (simp add: server_ok_def)
    moreover have "0 < sv_next_id s" using small tabs(1) by (cases "sv_tabs s") (auto intro: le_less_trans [OF word_zero_le])
    ultimately have "?top < sv_next_id s" unfolding ids_eq by (rule fold_max_less)
    then have "?top \<noteq> - 1" by (metis word_order.not_eq_extremum word_order.extremum_strict)
    note succ = saturating_succ [OF this]
    have "i < saturating_add ?top 1" if "i \<in> set (map tb_id (sv_tabs s))" for i
      using fold_max_ge [OF that, of 0] succ unfolding ids_eq by (auto intro: le_less_trans)
    moreover have "?active = Some i \<Longrightarrow> i \<in> tb_id ` set (sv_tabs s)" for i
      using ok tabs(1) by (cases "sv_active s") (auto simp: server_ok_def)
    ultimately show ?thesis
      using ok nodes jok by (auto simp: server_ok_def initial_server_def w)
  qed
  moreover have "saved_workspace iter (?s1\<lparr>sv_active := ?active\<rparr>) = ?w\<lparr>sw_active_id := ?active\<rparr>"
    using name new iter by (simp add: saved_workspace_def initial_server_def)
  moreover have "load_workspace (Some ?w) = Some ?w" using tabs(1) by (simp add: load_workspace_def w)
  ultimately show ?thesis by blast
qed

lemma sample_one_tab:
  "\<exists>s tab. run_steps (server_step (\<lambda>p _. p) (\<lambda>p. (None, p))) empty_server [CreateTab sample_native None [] [] True None] = Some s
    \<and> sv_tabs s = [tab] \<and> tb_title tab = ''bash'' \<and> tb_command_line tab = [''/bin/bash''] \<and> sv_session_name s = ''main''
    \<and> sv_collapsed_tabs s = {} \<and> sv_active s = Some 1"
  by (simp add: create_tab_def sample_spawn Let_def empty_server_def initial_server_def saturating_add_def free_index_def
      push_tab_def initial_tab_def server_commit_def journal_commit_def commit_correlated_def EventJournal_new_def with_epoch_def
      checked_add_def)

lemma workspace_roundtrip_witness:
  "\<exists>s s'. run_steps (server_step (\<lambda>p _. p) (\<lambda>p. (None, p))) empty_server [CreateTab sample_native None [] [] True None] = Some s
    \<and> server_new sample_native ''f'' False (saved_workspace (\<lambda>_. []) s) = Some (Ok s') \<and> server_ok s'
    \<and> saved_workspace (\<lambda>_. []) s' = saved_workspace (\<lambda>_. []) s"
proof -
  from sample_one_tab obtain s tab where
    run: "run_steps (server_step (\<lambda>p _. p) (\<lambda>p. (None, p))) empty_server [CreateTab sample_native None [] [] True None] = Some s"
    and tab: "sv_tabs s = [tab]" "tb_title tab = ''bash''" "tb_command_line tab = [''/bin/bash'']"
    and s: "sv_session_name s = ''main''" "sv_collapsed_tabs s = {}" "sv_active s = Some 1" by (elim exE conjE)
  have ok: "server_ok s"
    by (rule server_run_ok [OF run empty_server_ok]) (simp_all add: empty_server_def initial_server_def saturating_add_def)
  have ready: "native_ready sample_native"
    by (simp add: native_ready_def sample_native_def ProxyState_from_environment_def ProxyState_new_def find_variable_def nonempty_secret_def)
  have "set ((\<lambda>_. []) (sv_collapsed_tabs s)) = sv_collapsed_tabs s" "sv_tabs s \<noteq> []"
    "\<forall>tab \<in> set (sv_tabs s). tb_title tab \<noteq> [] \<and> tb_command_line tab \<noteq> []" "sv_session_name s \<noteq> []" "length (sv_tabs s) < 2 ^ 64"
    by (simp_all add: s tab)
  from workspace_roundtrip [OF ok ready this, of "''f''"] obtain s' where
    "server_new sample_native ''f'' False (saved_workspace (\<lambda>_. []) s) = Some (Ok s')" "server_ok s'"
    "saved_workspace (\<lambda>_. []) s' = (saved_workspace (\<lambda>_. []) s)\<lparr>sw_active_id := (case sv_active s of Some i \<Rightarrow> Some i | None \<Rightarrow> Some (tb_id (hd (sv_tabs s))))\<rparr>"
    by (elim conjE exE)
  moreover have "(saved_workspace (\<lambda>_. []) s)\<lparr>sw_active_id := (case sv_active s of Some i \<Rightarrow> Some i | None \<Rightarrow> Some (tb_id (hd (sv_tabs s))))\<rparr>
      = saved_workspace (\<lambda>_. []) s"
    by (simp add: saved_workspace_def s)
  ultimately show ?thesis using run by (intro exI [of _ s] exI [of _ s'] conjI) simp_all
qed

end
