(* ===== verification/Json_Select.thy ===== *)
theory Json_Select
  imports Json_Value Utf8 Control_Commands "HOL-Library.Sublist"
begin

text \<open>
  Field selection over JSON answers (\<open>src/json_select.rs\<close>): the grammar of selectors with its
  limits, the tree a selector is compiled to, and the projection of a document.  The reference is a
  projection by a set of paths, without any tree, order or duplicates.
\<close>

section \<open>Model\<close>

definition SELECT_FLAG :: string where
  "SELECT_FLAG = ''--select''"

definition SELECT_REQUIRES_FLAG :: string where
  "SELECT_REQUIRES_FLAG = ''--json''"

definition SELECT_REQUIRES_JSON_CODE :: string where
  "SELECT_REQUIRES_JSON_CODE = ''selection_requires_json''"

definition SELECT_MALFORMED_CODE :: string where
  "SELECT_MALFORMED_CODE = ''selection_malformed''"

definition SELECTOR_MAX_BYTES :: nat where
  "SELECTOR_MAX_BYTES = 4096"

definition SELECTOR_MAX_PATHS :: nat where
  "SELECTOR_MAX_PATHS = 64"

definition SELECTOR_MAX_DEPTH :: nat where
  "SELECTOR_MAX_DEPTH = 8"

text \<open>A character of an error is the list of its bytes.\<close>

datatype SelectorError =
    SelectorEmpty
  | SelectorTooLong nat nat
  | SelectorTooManyPaths nat nat
  | SelectorTooDeep string nat
  | SelectorEmptySegment string
  | SelectorUnsupportedCharacter string string

record SelectionRefusal =
  sl_code :: string
  sl_message :: string

definition SelectorError_code :: "SelectorError \<Rightarrow> string" where
  "SelectorError_code e = SELECT_MALFORMED_CODE"

fun SelectorError_message :: "SelectorError \<Rightarrow> string" where
  "SelectorError_message SelectorEmpty = ''a --select list names at least one path''"
| "SelectorError_message (SelectorTooLong bytes limit) =
     ''--select is '' @ show_nat bytes @ '' bytes; the limit is '' @ show_nat limit @ ''. Shorten the path list.''"
| "SelectorError_message (SelectorTooManyPaths paths limit) =
     ''--select names '' @ show_nat paths @ '' paths; the limit is '' @ show_nat limit @ ''. Ask for fewer fields.''"
| "SelectorError_message (SelectorTooDeep p limit) =
     ''--select path `'' @ p @ ''` is deeper than '' @ show_nat limit @ '' segments.''"
| "SelectorError_message (SelectorEmptySegment p) =
     ''--select path `'' @ p @ ''` has an empty segment; a path is `key` or `key[]`, joined by single `.`''"
| "SelectorError_message (SelectorUnsupportedCharacter p c) =
     ''--select path `'' @ p @ ''` contains `'' @ c
       @ ''`, which is not part of a key (`A-Za-z0-9_-`) or of the `[]` element walk''"

datatype Segment = Key string | Elements string | RootElements

text \<open>
  A node: keep the value whole, the members by name, and the node of the elements.  The map of the
  members is only looked up by name, so it is a list of distinct names.
\<close>

datatype Node = Node (node_leaf: bool) (node_members: "(string \<times> Node) list") (node_elements: "Node option")

definition Node_default :: Node where
  "Node_default = Node False [] None"

definition Node_leaf :: Node where
  "Node_leaf = Node True [] None"

fun put_member :: "string \<Rightarrow> Node \<Rightarrow> (string \<times> Node) list \<Rightarrow> (string \<times> Node) list" where
  "put_member k n [] = [(k, n)]"
| "put_member k n ((k', m) # ms) = (if k = k' then (k, n) # ms else (k', m) # put_member k n ms)"

text \<open>\<open>entry(key).or_default()\<close>.\<close>

definition member_or_default :: "string \<Rightarrow> (string \<times> Node) list \<Rightarrow> Node" where
  "member_or_default k ms = (case map_of ms k of Some n \<Rightarrow> n | None \<Rightarrow> Node_default)"

definition element_or_default :: "Node option \<Rightarrow> Node" where
  "element_or_default e = (case e of Some n \<Rightarrow> n | None \<Rightarrow> Node_default)"

text \<open>\<open>insert\<close>, the walk of the mutable reference as a recursion along the segments.\<close>

fun insert_path :: "Segment list \<Rightarrow> Node \<Rightarrow> Node" where
  "insert_path [] node = node"
| "insert_path (Key k # rest) (Node l ms es) =
     (if rest = [] then Node l (put_member k Node_leaf ms) es
      else Node l (put_member k (insert_path rest (member_or_default k ms)) ms) es)"
| "insert_path (Elements k # rest) (Node l ms es) =
     (case member_or_default k ms of Node l' ms' es' \<Rightarrow>
        if rest = [] then Node l (put_member k (Node l' ms' (Some Node_leaf)) ms) es
        else Node l (put_member k (Node l' ms' (Some (insert_path rest (element_or_default es')))) ms) es)"
| "insert_path (RootElements # rest) (Node l ms es) =
     (if rest = [] then Node l ms (Some Node_leaf)
      else Node l ms (Some (insert_path rest (element_or_default es))))"

lemma member_size [termination_simp]: "map_of ms k = Some n \<Longrightarrow> size n < Suc (size_list (\<lambda>x. Suc (size (snd x))) ms + rest)"
  by (induction ms) (auto split: if_splits)

fun project_node :: "json \<Rightarrow> Node \<Rightarrow> json" where
  "project_node v (Node l ms es) =
     (if l then v
      else (case v of
          JArr items \<Rightarrow> (case es of Some inner \<Rightarrow> JArr (map (\<lambda>item. project_node item inner) items) | None \<Rightarrow> v)
        | JObj object \<Rightarrow>
            if ms = [] then v
            else JObj (List.map_filter (\<lambda>(key, member).
                   map_option (\<lambda>inner. (key, project_node member inner)) (map_of ms key)) object)
        | _ \<Rightarrow> v))"

section \<open>Parsing\<close>

text \<open>\<open>str::trim\<close> on the characters of a text, and \<open>strip_suffix\<close>.\<close>

definition trim :: "string \<Rightarrow> string" where
  "trim s = (case utf8_chars s of
      None \<Rightarrow> s
    | Some cs \<Rightarrow> concat (rev (dropWhile is_blank (rev (dropWhile is_blank cs)))))"

definition strip_suffix :: "string \<Rightarrow> string \<Rightarrow> string option" where
  "strip_suffix suf s =
     (if length suf \<le> length s \<and> drop (length s - length suf) s = suf
      then Some (take (length s - length suf) s) else None)"

definition key_character :: "string \<Rightarrow> bool" where
  "key_character c = (case c of [b] \<Rightarrow> is_ascii_alphanumeric b \<or> b = CHR ''_'' \<or> b = CHR ''-'' | _ \<Rightarrow> False)"

definition unsupported_character :: "string \<Rightarrow> string option" where
  "unsupported_character k = Option.bind (utf8_chars k) (find (\<lambda>c. \<not> key_character c))"

text \<open>One part between the dots of a path.\<close>

definition parse_segment :: "string \<Rightarrow> string \<Rightarrow> SelectorError + Segment" where
  "parse_segment p part =
     (if part = [] then Err (SelectorEmptySegment p)
      else
        let (key, elements) = (case strip_suffix ''[]'' part of Some head \<Rightarrow> (head, True) | None \<Rightarrow> (part, False))
        in if key = [] then (if \<not> elements then Err (SelectorEmptySegment p) else Ok RootElements)
           else (case unsupported_character key of
                   Some c \<Rightarrow> Err (SelectorUnsupportedCharacter p c)
                 | None \<Rightarrow> Ok (if elements then Elements key else Key key)))"

fun parse_parts :: "string \<Rightarrow> string list \<Rightarrow> SelectorError + Segment list" where
  "parse_parts p [] = Ok []"
| "parse_parts p (part # parts) =
     and_then (parse_segment p part) (\<lambda>segment. and_then (parse_parts p parts) (\<lambda>segments. Ok (segment # segments)))"

definition parse_path :: "string \<Rightarrow> SelectorError + Segment list" where
  "parse_path p = parse_parts p (split_on CHR ''.'' p)"

text \<open>The loop over the paths, with the list parsed so far.\<close>

fun parse_paths :: "string list \<Rightarrow> Segment list list \<Rightarrow> SelectorError + Segment list list" where
  "parse_paths [] parsed = Ok parsed"
| "parse_paths (raw # raws) parsed =
     (let p = trim raw in
      if p = [] then Err (SelectorEmptySegment raw)
      else and_then (parse_path p) (\<lambda>segments.
        if SELECTOR_MAX_DEPTH < length segments then Err (SelectorTooDeep p SELECTOR_MAX_DEPTH)
        else parse_paths raws (if segments \<in> set parsed then parsed else parsed @ [segments])))"

definition selector_of :: "Segment list list \<Rightarrow> Node" where
  "selector_of parsed = fold insert_path (sort_key length parsed) Node_default"

definition Selector_parse :: "string \<Rightarrow> SelectorError + Node" where
  "Selector_parse s =
     (if SELECTOR_MAX_BYTES < length s then Err (SelectorTooLong (length s) SELECTOR_MAX_BYTES)
      else if is_blank s then Err SelectorEmpty
      else and_then (parse_paths (split_on CHR '','' s) []) (\<lambda>parsed.
        if parsed = [] then Err SelectorEmpty
        else if SELECTOR_MAX_PATHS < length parsed then Err (SelectorTooManyPaths (length parsed) SELECTOR_MAX_PATHS)
        else Ok (selector_of parsed)))"

definition Selector_project :: "Node \<Rightarrow> json \<Rightarrow> json" where
  "Selector_project root v = project_node v root"

definition apply_selection_request_with_contract ::
  "json \<Rightarrow> string list \<Rightarrow> bool \<Rightarrow> SelectionRefusal + json option" where
  "apply_selection_request_with_contract v args requires_json_flag =
     (case option_value args SELECT_FLAG of
        None \<Rightarrow> Ok None
      | Some s \<Rightarrow>
          if requires_json_flag \<and> \<not> has_option args SELECT_REQUIRES_FLAG
          then Err \<lparr>sl_code = SELECT_REQUIRES_JSON_CODE,
                 sl_message = SELECT_FLAG @ '' requires '' @ SELECT_REQUIRES_FLAG
                   @ '': the machine-output flag is the contract that says the caller wants named fields rather than text''\<rparr>
          else (case Selector_parse s of
                  Inl e \<Rightarrow> Err \<lparr>sl_code = SelectorError_code e, sl_message = SelectorError_message e\<rparr>
                | Inr selector \<Rightarrow> Ok (Some (Selector_project selector v))))"

definition apply_selection_request :: "json \<Rightarrow> string list \<Rightarrow> SelectionRefusal + json option" where
  "apply_selection_request v args = apply_selection_request_with_contract v args True"

definition apply_inherent_json_selection_request :: "json \<Rightarrow> string list \<Rightarrow> SelectionRefusal + json option" where
  "apply_inherent_json_selection_request v args = apply_selection_request_with_contract v args False"

section \<open>Projection by a set of paths\<close>

text \<open>A path as single steps into a document.\<close>

datatype path_step = Member string | Element

fun segment_steps :: "Segment \<Rightarrow> path_step list" where
  "segment_steps (Key k) = [Member k]"
| "segment_steps (Elements k) = [Member k, Element]"
| "segment_steps RootElements = [Element]"

definition path_steps :: "Segment list \<Rightarrow> path_step list" where
  "path_steps segments = concat (map segment_steps segments)"

text \<open>The rest of every path that goes through a step.\<close>

definition after_step :: "path_step \<Rightarrow> path_step list set \<Rightarrow> path_step list set" where
  "after_step x P = {p. x # p \<in> P}"

text \<open>
  The reference: a value is kept whole where a path ends; below that, the elements of an array and
  the members of an object are those some path goes through; a value no path goes through in its
  own kind is kept whole.
\<close>

lemma object_member_size [termination_simp]: "m \<in> set object \<Longrightarrow> size (snd m) < Suc (size_list (\<lambda>x. Suc (size (snd x))) object)"
  by (induction object) auto

fun keep :: "path_step list set \<Rightarrow> json \<Rightarrow> json" where
  "keep P (JArr items) =
     (if [] \<in> P \<or> after_step Element P = {} then JArr items else JArr (map (keep (after_step Element P)) items))"
| "keep P (JObj object) =
     (if [] \<in> P \<or> (\<forall>k. after_step (Member k) P = {}) then JObj object
      else JObj (map (\<lambda>m. (fst m, keep (after_step (Member (fst m)) P) (snd m)))
             (filter (\<lambda>m. after_step (Member (fst m)) P \<noteq> {}) object)))"
| "keep P v = v"

text \<open>The paths a node stands for.\<close>

fun denotes :: "Node \<Rightarrow> path_step list \<Rightarrow> bool" where
  "denotes (Node l ms es) [] = l"
| "denotes (Node l ms es) (Member k # p) = (case map_of ms k of Some n \<Rightarrow> denotes n p | None \<Rightarrow> False)"
| "denotes (Node l ms es) (Element # p) = (case es of Some n \<Rightarrow> denotes n p | None \<Rightarrow> False)"

abbreviation paths :: "Node \<Rightarrow> path_step list set" where
  "paths n \<equiv> {p. denotes n p}"

text \<open>Every inner node leads somewhere, so that nothing in a tree is there without a path.\<close>

inductive fruitful :: "Node \<Rightarrow> bool" where
  fruitful: "\<lbrakk> \<And>k n. map_of ms k = Some n \<Longrightarrow> fruitful n \<and> paths n \<noteq> {}; \<And>n. es = Some n \<Longrightarrow> fruitful n \<and> paths n \<noteq> {} \<rbrakk> \<Longrightarrow>
     fruitful (Node l ms es)"

inductive_simps fruitful_Node [simp]: "fruitful (Node l ms es)"

lemma after_Member: "after_step (Member k) (paths (Node l ms es)) = (case map_of ms k of Some n \<Rightarrow> paths n | None \<Rightarrow> {})"
  by (auto simp: after_step_def split: option.splits)

lemma after_Element: "after_step Element (paths (Node l ms es)) = (case es of Some n \<Rightarrow> paths n | None \<Rightarrow> {})"
  by (auto simp: after_step_def split: option.splits)

lemma map_filter_map: "List.map_filter (\<lambda>x. map_option (g x) (f x)) xs = map (\<lambda>x. g x (the (f x))) (filter (\<lambda>x. f x \<noteq> None) xs)"
  by (induction xs) (auto simp: map_filter_simps split: option.splits)

lemma project_keeps:
  "fruitful n \<Longrightarrow> project_node v n = keep (paths n) v"
proof (induction v n rule: project_node.induct)
  case (1 v l ms es)
  have ms: "fruitful n \<and> paths n \<noteq> {}" if "map_of ms k = Some n" for k n using 1(3) that by simp
  have es: "fruitful n \<and> paths n \<noteq> {}" if "es = Some n" for n using 1(3) that by simp
  show ?case
  proof (cases v)
    case (JArr items)
    show ?thesis
    proof (cases es)
      case (Some inner)
      show ?thesis
      proof (cases l)
        case False
        have "project_node item inner = keep (paths inner) item" if "item \<in> set items" for item
          using 1(1) [OF False JArr Some that] es [OF Some] by simp
        with False JArr Some es [OF Some] show ?thesis by (auto simp: after_Element)
      qed (simp add: JArr)
    qed (simp add: JArr after_Element)
  next
    case (JObj object)
    show ?thesis
    proof (cases "l \<or> ms = []")
      case True
      then show ?thesis by (auto simp: JObj after_Member)
    next
      case False
      then obtain k n where kn: "map_of ms k = Some n" by (cases ms) (auto split: prod.splits if_splits intro: that)
      have "after_step (Member k) (paths (Node l ms es)) \<noteq> {}" using ms [OF kn] by (simp add: after_Member kn)
      then have ne: "\<not> (\<forall>k. after_step (Member k) (paths (Node l ms es)) = {})" by blast
      let ?f = "\<lambda>m. map_of ms (fst m)"
      have sel: "(after_step (Member (fst m)) (paths (Node l ms es)) \<noteq> {}) = (?f m \<noteq> None)" for m :: "string \<times> json"
        using ms by (auto simp: after_Member split: option.splits)
      have ih: "project_node (snd m) (the (?f m)) = keep (after_step (Member (fst m)) (paths (Node l ms es))) (snd m)"
        if "m \<in> set object" "?f m \<noteq> None" for m
      proof -
        from that(2) obtain n where n: "map_of ms (fst m) = Some n" by auto
        have "project_node (snd m) n = keep (paths n) (snd m)" by (rule 1(2)) (use False JObj n ms [OF n] in auto)
        with n show ?thesis by (simp add: after_Member)
      qed
      have "project_node v (Node l ms es) = JObj (List.map_filter (\<lambda>m. map_option (\<lambda>inner. (fst m, project_node (snd m) inner)) (?f m)) object)"
        using False by (simp add: JObj case_prod_unfold)
      also have "\<dots> = JObj (map (\<lambda>m. (fst m, project_node (snd m) (the (?f m)))) (filter (\<lambda>m. ?f m \<noteq> None) object))"
        by (simp only: map_filter_map)
      also have "\<dots> = JObj (map (\<lambda>m. (fst m, keep (after_step (Member (fst m)) (paths (Node l ms es))) (snd m))) (filter (\<lambda>m. ?f m \<noteq> None) object))"
        using ih by (intro arg_cong [where f = JObj] map_cong refl) auto
      also have "\<dots> = keep (paths (Node l ms es)) v"
      proof -
        have "\<not> ([] \<in> paths (Node l ms es) \<or> (\<forall>k. after_step (Member k) (paths (Node l ms es)) = {}))" using False ne by simp
        then show ?thesis unfolding JObj keep.simps sel by (simp only: if_False)
      qed
      finally show ?thesis .
    qed
  qed simp_all
qed

section \<open>A longer path under a shorter one changes nothing\<close>

definition covered :: "path_step list set \<Rightarrow> path_step list \<Rightarrow> bool" where
  "covered P p \<longleftrightarrow> (\<exists>q \<in> P. prefix q p)"

lemma covered_Nil [simp]: "covered P [] \<longleftrightarrow> [] \<in> P"
  by (auto simp: covered_def)

lemma covered_Cons: "covered P (x # p) \<longleftrightarrow> [] \<in> P \<or> covered (after_step x P) p"
proof -
  have "prefix q (x # p) \<longleftrightarrow> q = [] \<or> (\<exists>q'. q = x # q' \<and> prefix q' p)" for q by (cases q) auto
  then show ?thesis by (auto simp: covered_def after_step_def)
qed

lemma after_step_empty: "after_step x P = {} \<longleftrightarrow> (\<forall>p. \<not> covered (after_step x P) p)"
  by (auto simp: covered_def)

lemma keep_cong: "covered P = covered Q \<Longrightarrow> keep P v = keep Q v"
proof (induction P v arbitrary: Q rule: keep.induct)
  case (1 P items)
  have nil: "[] \<in> P \<longleftrightarrow> [] \<in> Q" using fun_cong [OF 1(2), of "[]"] by simp
  show ?case
  proof (cases "[] \<in> P")
    case False
    then have eq: "covered (after_step Element P) = covered (after_step Element Q)"
      using nil fun_cong [OF 1(2), of "Element # p" for p] by (simp add: covered_Cons fun_eq_iff)
    then have "after_step Element P = {} \<longleftrightarrow> after_step Element Q = {}" by (simp add: after_step_empty)
    with 1(1) [OF _ _ eq] False nil show ?thesis by auto
  qed (use nil in simp)
next
  case (2 P object)
  have nil: "[] \<in> P \<longleftrightarrow> [] \<in> Q" using fun_cong [OF 2(2), of "[]"] by simp
  show ?case
  proof (cases "[] \<in> P")
    case False
    then have eq: "covered (after_step (Member k) P) = covered (after_step (Member k) Q)" for k
      using nil fun_cong [OF 2(2), of "Member k # p" for p] by (simp add: covered_Cons fun_eq_iff)
    then have e: "after_step (Member k) P = {} \<longleftrightarrow> after_step (Member k) Q = {}" for k by (simp add: after_step_empty)
    have "keep (after_step (Member (fst m)) P) (snd m) = keep (after_step (Member (fst m)) Q) (snd m)"
      if "m \<in> set object" "after_step (Member (fst m)) P \<noteq> {}" for m
      using 2(1) [of m, OF _ _ eq] that False by auto
    with e False nil show ?thesis by auto
  qed (use nil in simp)
qed simp_all

section \<open>The tree of a selector stands for its paths\<close>

lemma map_of_put_member [simp]: "map_of (put_member k n ms) = (map_of ms)(k \<mapsto> n)"
  by (induction k n ms rule: put_member.induct) auto

fun covers :: "Node \<Rightarrow> path_step list \<Rightarrow> bool" where
  "covers (Node l ms es) [] = l"
| "covers (Node l ms es) (Member k # p) = (l \<or> (case map_of ms k of Some n \<Rightarrow> covers n p | None \<Rightarrow> False))"
| "covers (Node l ms es) (Element # p) = (l \<or> (case es of Some n \<Rightarrow> covers n p | None \<Rightarrow> False))"

lemma covers_covered: "covers n p \<longleftrightarrow> covered (paths n) p"
proof (induction n p rule: covers.induct)
  case (2 l ms es k p)
  then show ?case by (simp add: covered_Cons after_Member split: option.splits) (simp add: covered_def)
next
  case (3 l ms es p)
  then show ?case by (simp add: covered_Cons after_Element split: option.splits) (simp add: covered_def)
qed simp

lemma covers_leaf [simp]: "covers Node_leaf p" "\<not> covers Node_default p"
  unfolding Node_leaf_def Node_default_def by (cases p; cases "hd p"; simp)+

lemma covers_or_default:
  "covers (member_or_default k ms) p \<longleftrightarrow> (case map_of ms k of Some n \<Rightarrow> covers n p | None \<Rightarrow> False)"
  "covers (element_or_default es) p \<longleftrightarrow> (case es of Some n \<Rightarrow> covers n p | None \<Rightarrow> False)"
  by (simp_all add: member_or_default_def element_or_default_def split: option.splits)

lemma insert_path_covers:
  "segments \<noteq> [] \<Longrightarrow> covers (insert_path segments n) p \<longleftrightarrow> covers n p \<or> prefix (path_steps segments) p"
proof (induction segments n arbitrary: p rule: insert_path.induct)
  case (2 k rest l ms es)
  show ?case
  proof (cases "\<exists>p'. p = Member k # p'")
    case True
    then obtain p' where p: "p = Member k # p'" by blast
    show ?thesis
    proof (cases "rest = []")
      case False
      from 2(1) [OF False False] show ?thesis by (auto simp: p False covers_or_default path_steps_def)
    qed (simp add: p path_steps_def)
  next
    case False
    then show ?thesis by (cases p rule: list.exhaust; cases "hd p") (auto simp: path_steps_def)
  qed
next
  case (3 k rest l ms es)
  obtain l' ms' es' where entry: "member_or_default k ms = Node l' ms' es'" by (cases "member_or_default k ms")
  have old: "(case map_of ms k of Some n \<Rightarrow> covers n p' | None \<Rightarrow> False) \<longleftrightarrow> covers (Node l' ms' es') p'" for p'
    using covers_or_default(1) [of k ms] entry by simp
  show ?case
  proof (cases "\<exists>p'. p = Member k # p'")
    case True
    then obtain p' where p: "p = Member k # p'" by blast
    show ?thesis
    proof (cases "\<exists>p''. p' = Element # p''")
      case True
      then obtain p'' where p': "p' = Element # p''" by blast
      show ?thesis
      proof (cases "rest = []")
        case False
        from 3(1) [OF entry False False] show ?thesis
          by (auto simp: p p' False entry old covers_or_default path_steps_def)
      qed (simp add: p p' entry old path_steps_def)
    next
      case False
      then have "\<not> prefix (path_steps (Elements k # rest)) p" by (cases p' rule: list.exhaust) (auto simp: p path_steps_def)
      moreover have "covers (Node l' ms' (Some x)) p' = covers (Node l' ms' es') p'" for x
        using False by (cases p' rule: list.exhaust; cases "hd p'") auto
      ultimately show ?thesis by (cases "rest = []") (simp_all add: p entry old)
    qed
  next
    case False
    then show ?thesis by (cases p rule: list.exhaust; cases "hd p") (auto simp: path_steps_def entry)
  qed
next
  case (4 rest l ms es)
  show ?case
  proof (cases "\<exists>p'. p = Element # p'")
    case True
    then obtain p' where p: "p = Element # p'" by blast
    show ?thesis
    proof (cases "rest = []")
      case False
      from 4(1) [OF False False] show ?thesis by (auto simp: p False covers_or_default path_steps_def)
    qed (simp add: p path_steps_def)
  next
    case False
    then show ?thesis by (cases p rule: list.exhaust; cases "hd p") (auto simp: path_steps_def)
  qed
qed simp

lemma fruitful_simple [simp]: "fruitful Node_leaf" "fruitful Node_default" "denotes Node_leaf p \<longleftrightarrow> p = []"
  by (simp_all add: Node_leaf_def Node_default_def) (cases p; cases "hd p"; simp)

lemma fruitful_or_default:
  "fruitful (Node l ms es) \<Longrightarrow> fruitful (member_or_default k ms)" "fruitful (Node l ms es) \<Longrightarrow> fruitful (element_or_default es)"
  by (auto simp: member_or_default_def element_or_default_def split: option.splits)

lemma insert_path_fruitful:
  "\<lbrakk> fruitful n; segments \<noteq> [] \<rbrakk> \<Longrightarrow> fruitful (insert_path segments n) \<and> (\<exists>p. denotes (insert_path segments n) p)"
proof -
  have nonempty: "\<exists>p. denotes (insert_path segs n) p" if "segs \<noteq> []" for segs n
    using insert_path_covers [OF that, of n "path_steps segs"] by (auto simp: covers_covered covered_def)
  show "\<lbrakk> fruitful n; segments \<noteq> [] \<rbrakk> \<Longrightarrow> ?thesis"
  proof (induction segments n rule: insert_path.induct)
    case (2 k rest l ms es)
    then show ?case using nonempty [of "Key k # rest" "Node l ms es"] nonempty [of rest] fruitful_or_default(1) [OF 2(2), of k] by auto
  next
    case (3 k rest l ms es)
    obtain l' ms' es' where entry: "member_or_default k ms = Node l' ms' es'" by (cases "member_or_default k ms")
    have f: "fruitful (Node l' ms' es')" using fruitful_or_default(1) [OF 3(2), of k] entry by simp
    have ne: "\<exists>p. denotes (Node l' ms' (Some m)) p" if "\<exists>p. denotes m p" for m
      using that by (metis denotes.simps(3) option.simps(5))
    show ?case
    proof (cases "rest = []")
      case True
      with 3(2) f ne [of Node_leaf] nonempty [of "Elements k # rest" "Node l ms es"] show ?thesis by (auto simp: entry)
    next
      case False
      from 3(1) [OF entry False fruitful_or_default(2) [OF f] False] ne [of "insert_path rest (element_or_default es')"]
      show ?thesis using 3(2) f False nonempty [of "Elements k # rest" "Node l ms es"] by (auto simp: entry)
    qed
  next
    case (4 rest l ms es)
    then show ?case using nonempty [of "RootElements # rest" "Node l ms es"] nonempty [of rest] fruitful_or_default(2) [OF 4(2)] by auto
  qed simp
qed

lemma insert_all:
  "\<lbrakk> fruitful n; [] \<notin> set ps \<rbrakk> \<Longrightarrow> fruitful (fold insert_path ps n)
     \<and> (\<forall>p. covers (fold insert_path ps n) p \<longleftrightarrow> covers n p \<or> (\<exists>s \<in> set ps. prefix (path_steps s) p))"
proof (induction ps arbitrary: n)
  case (Cons s ps)
  then have s: "s \<noteq> []" "[] \<notin> set ps" by auto
  from Cons.IH [OF conjunct1 [OF insert_path_fruitful [OF Cons.prems(1) s(1)]] s(2)] show ?case
    by (auto simp: insert_path_covers [OF s(1)])
qed simp

lemma selector_projects:
  assumes "[] \<notin> set parsed"
  shows "Selector_project (selector_of parsed) v = keep (path_steps ` set parsed) v"
proof -
  have f: "fruitful (selector_of parsed)" and c: "\<And>p. covers (selector_of parsed) p \<longleftrightarrow> (\<exists>s \<in> set parsed. prefix (path_steps s) p)"
    using insert_all [of Node_default "sort_key length parsed"] assms by (simp_all add: selector_of_def)
  have "covered (paths (selector_of parsed)) = covered (path_steps ` set parsed)"
    unfolding fun_eq_iff covers_covered [symmetric] c by (simp add: covered_def)
  from keep_cong [OF this] show ?thesis by (simp add: Selector_project_def project_keeps [OF f])
qed

section \<open>Selections of a text\<close>

lemma split_on_nonempty [simp]: "split_on sep s \<noteq> []"
  by (cases s) (auto split: list.splits)

lemma parse_parts_length: "parse_parts p parts = Ok segments \<Longrightarrow> length segments = length parts"
  by (induction parts arbitrary: segments) (auto simp: and_then_Ok_iff)

lemma parse_path_nonempty: "parse_path p = Ok segments \<Longrightarrow> segments \<noteq> []"
  by (auto simp: parse_path_def dest: parse_parts_length)

lemma parse_pathsD:
  "parse_paths raws parsed = Ok all \<Longrightarrow> distinct parsed \<Longrightarrow>
   \<exists>ps. list_all2 (\<lambda>raw segments. parse_path (trim raw) = Ok segments \<and> length segments \<le> SELECTOR_MAX_DEPTH) raws ps
     \<and> set all = set parsed \<union> set ps \<and> distinct all"
proof (induction raws parsed rule: parse_paths.induct)
  case (2 raw raws parsed)
  from 2(2) obtain segments where segments: "parse_path (trim raw) = Ok segments" "\<not> SELECTOR_MAX_DEPTH < length segments"
    and rest: "parse_paths raws (if segments \<in> set parsed then parsed else parsed @ [segments]) = Ok all" and ne: "trim raw \<noteq> []"
    by (auto simp: Let_def and_then_Ok_iff split: if_splits)
  have "distinct (if segments \<in> set parsed then parsed else parsed @ [segments])" using 2(3) by simp
  from 2(1) [OF refl ne segments(2) rest this] obtain ps where
    "list_all2 (\<lambda>raw segments. parse_path (trim raw) = Ok segments \<and> length segments \<le> SELECTOR_MAX_DEPTH) raws ps"
    "set all = set (if segments \<in> set parsed then parsed else parsed @ [segments]) \<union> set ps" "distinct all" by blast
  with segments show ?case by (intro exI [of _ "segments # ps"]) (auto split: if_splits)
qed auto

lemma Selector_parseD:
  assumes "Selector_parse s = Ok root"
  obtains parsed ps where "root = selector_of parsed" "distinct parsed" "[] \<notin> set parsed" "set parsed = set ps"
    "list_all2 (\<lambda>raw segments. parse_path (trim raw) = Ok segments \<and> length segments \<le> SELECTOR_MAX_DEPTH) (split_on CHR '','' s) ps"
    "length s \<le> SELECTOR_MAX_BYTES" "length parsed \<le> SELECTOR_MAX_PATHS"
proof -
  from assms obtain parsed where parsed: "parse_paths (split_on CHR '','' s) [] = Ok parsed"
    and limits: "length s \<le> SELECTOR_MAX_BYTES" "length parsed \<le> SELECTOR_MAX_PATHS" and root: "root = selector_of parsed"
    by (auto simp: Selector_parse_def and_then_Ok_iff not_less split: if_splits)
  from parse_pathsD [OF parsed] obtain ps where
    ps: "list_all2 (\<lambda>raw segments. parse_path (trim raw) = Ok segments \<and> length segments \<le> SELECTOR_MAX_DEPTH) (split_on CHR '','' s) ps"
    and set: "set parsed = set ps" and dist: "distinct parsed" by auto
  have "[] \<notin> set parsed" unfolding set using ps by (auto simp: list_all2_conv_all_nth in_set_conv_nth dest: parse_path_nonempty)
  with root dist set ps limits show thesis by (intro that)
qed

text \<open>
  C35. A selector keeps exactly what its paths name. When a selector is accepted, it is within the
  limits of length, number and depth, every part between its commas is a path, and for every
  document the projection through the compiled tree equals the projection by the set of these paths:
  the order and repetition of paths and the way they are spelled (\<open>a[]\<close> or \<open>a.[]\<close>) do not matter, a
  path absorbs every longer one through it, and a path that names nothing keeps nothing.
\<close>

theorem selection_is_projection:
  assumes "Selector_parse s = Ok root"
  shows "\<exists>ps. list_all2 (\<lambda>raw segments. parse_path (trim raw) = Ok segments \<and> length segments \<le> SELECTOR_MAX_DEPTH)
        (split_on CHR '','' s) ps
    \<and> length s \<le> SELECTOR_MAX_BYTES \<and> card (set ps) \<le> SELECTOR_MAX_PATHS
    \<and> (\<forall>v. Selector_project root v = keep (path_steps ` set ps) v)"
proof -
  from Selector_parseD [OF assms] obtain parsed ps where root: "root = selector_of parsed" and dist: "distinct parsed"
    and ne: "[] \<notin> set parsed" and set: "set parsed = set ps"
    and ps: "list_all2 (\<lambda>raw segments. parse_path (trim raw) = Ok segments \<and> length segments \<le> SELECTOR_MAX_DEPTH) (split_on CHR '','' s) ps"
    and limits: "length s \<le> SELECTOR_MAX_BYTES" "length parsed \<le> SELECTOR_MAX_PATHS" .
  have "\<forall>v. Selector_project root v = keep (path_steps ` set ps) v" by (simp add: root set selector_projects [OF ne])
  moreover have "card (set ps) \<le> SELECTOR_MAX_PATHS" using limits(2) distinct_card [OF dist] set by simp
  ultimately show ?thesis using ps limits(1) by blast
qed

lemma selection_is_projection_witness:
  "\<exists>root ps. Selector_parse ''pid,tabs[].id'' = Ok root
     \<and> (\<forall>v. Selector_project root v = keep (path_steps ` set ps) v)"
proof -
  have "case Selector_parse ''pid,tabs[].id'' of Inl _ \<Rightarrow> False | Inr _ \<Rightarrow> True" by code_simp
  then obtain root where root: "Selector_parse ''pid,tabs[].id'' = Ok root" by (cases "Selector_parse ''pid,tabs[].id''") simp_all
  from selection_is_projection [OF root] root show ?thesis by blast
qed

section \<open>Selecting only removes\<close>

text \<open>
  A part of a document: the same value, an array of parts of the elements, or an object of parts of
  some of the members, in their order.
\<close>

inductive part_of :: "json \<Rightarrow> json \<Rightarrow> bool" where
  same: "part_of v v"
| array: "list_all2 part_of ws vs \<Longrightarrow> part_of (JArr ws) (JArr vs)"
| object: "\<lbrakk> subseq kept ms; list_all2 (rel_prod (=) part_of) ws kept \<rbrakk> \<Longrightarrow> part_of (JObj ws) (JObj ms)"

lemma keep_part: "part_of (keep P v) v"
proof (induction P v rule: keep.induct)
  case (1 P items)
  show ?case
  proof (cases "[] \<in> P \<or> after_step Element P = {}")
    case False
    have "list_all2 part_of (map (keep (after_step Element P)) items) items"
      unfolding list_all2_map1 by (rule list.rel_refl_strong) (rule 1 [OF False])
    with False show ?thesis by (auto intro: part_of.array)
  qed (auto intro: part_of.same)
next
  case (2 P object)
  show ?case
  proof (cases "[] \<in> P \<or> (\<forall>k. after_step (Member k) P = {})")
    case False
    let ?kept = "filter (\<lambda>m. after_step (Member (fst m)) P \<noteq> {}) object"
    have "list_all2 (rel_prod (=) part_of) (map (\<lambda>m. (fst m, keep (after_step (Member (fst m)) P) (snd m))) ?kept) ?kept"
      using 2 [OF False] by (auto intro!: list.rel_refl_strong simp: list_all2_map1 rel_prod_sel)
    with False show ?thesis by (auto intro: part_of.object subseq_filter_left)
  qed (auto intro: part_of.same)
qed (auto intro: part_of.same)

lemma keep_keep: "keep P (keep P v) = keep P v"
proof (induction P v rule: keep.induct)
  case (2 P object)
  then show ?case by (auto simp: filter_map comp_def cong: map_cong)
qed (auto cong: map_cong)

text \<open>
  A selection only removes. Whatever selector is accepted, the projected document is a part of the
  document -- kept values are unchanged, kept members keep their names and order, arrays keep their
  length --, and projecting it again changes nothing.
\<close>

theorem selection_only_removes:
  assumes "Selector_parse s = Ok root"
  shows "part_of (Selector_project root v) v \<and> Selector_project root (Selector_project root v) = Selector_project root v"
proof -
  from Selector_parseD [OF assms] obtain parsed where "root = selector_of parsed" "[] \<notin> set parsed" by metis
  then show ?thesis by (simp add: selector_projects keep_part keep_keep)
qed

lemma selection_only_removes_witness:
  "\<exists>root. Selector_parse ''a,b.c'' = Ok root
     \<and> Selector_project root (JObj [(''a'', JNull), (''x'', JBool True), (''b'', JObj [(''c'', JStr ''v''), (''d'', JNull)])])
         = JObj [(''a'', JNull), (''b'', JObj [(''c'', JStr ''v'')])]
     \<and> part_of (JObj [(''a'', JNull), (''b'', JObj [(''c'', JStr ''v'')])])
         (JObj [(''a'', JNull), (''x'', JBool True), (''b'', JObj [(''c'', JStr ''v''), (''d'', JNull)])])"
proof -
  let ?v = "JObj [(''a'', JNull), (''x'', JBool True), (''b'', JObj [(''c'', JStr ''v''), (''d'', JNull)])]"
  have "case Selector_parse ''a,b.c'' of Inl _ \<Rightarrow> False
    | Inr root \<Rightarrow> Selector_project root ?v = JObj [(''a'', JNull), (''b'', JObj [(''c'', JStr ''v'')])]" by code_simp
  then obtain root where root: "Selector_parse ''a,b.c'' = Ok root"
    and eq: "Selector_project root ?v = JObj [(''a'', JNull), (''b'', JObj [(''c'', JStr ''v'')])]"
    by (cases "Selector_parse ''a,b.c''") simp_all
  from selection_only_removes [OF root, of ?v] root eq show ?thesis by auto
qed

section \<open>Written selectors are accepted\<close>

definition key_text :: "string \<Rightarrow> bool" where
  "key_text k \<longleftrightarrow> k \<noteq> [] \<and> (\<forall>c \<in> set k. is_ascii_alphanumeric c \<or> c = CHR ''_'' \<or> c = CHR ''-'')"

fun segment_text :: "Segment \<Rightarrow> string" where
  "segment_text (Key k) = k"
| "segment_text (Elements k) = k @ ''[]''"
| "segment_text RootElements = ''[]''"

fun segment_ok :: "Segment \<Rightarrow> bool" where
  "segment_ok (Key k) = key_text k"
| "segment_ok (Elements k) = key_text k"
| "segment_ok RootElements = True"

definition path_text :: "Segment list \<Rightarrow> string" where
  "path_text segments = join ''.'' (map segment_text segments)"

definition path_ok :: "Segment list \<Rightarrow> bool" where
  "path_ok segments \<longleftrightarrow> segments \<noteq> [] \<and> list_all segment_ok segments"

lemma split_on_absent: "sep \<notin> set s \<Longrightarrow> split_on sep s = [s]"
  by (induction s) auto

lemma split_on_append: "sep \<notin> set a \<Longrightarrow> split_on sep (a @ sep # s) = a # split_on sep s"
  by (induction a) auto

lemma split_on_join: "\<lbrakk> xs \<noteq> []; \<forall>x \<in> set xs. sep \<notin> set x \<rbrakk> \<Longrightarrow> split_on sep (join [sep] xs) = xs"
  by (induction "[sep]" xs rule: join.induct) (auto simp: split_on_absent split_on_append)

definition selector_char :: "char \<Rightarrow> bool" where
  "selector_char c \<longleftrightarrow> is_ascii_alphanumeric c \<or> c \<in> {CHR ''_'', CHR ''-'', CHR ''.'', CHR ''['', CHR '']''}"

lemma selector_char_ascii: "selector_char c \<Longrightarrow> of_char c < (128 :: nat) \<and> \<not> is_blank [c] \<and> c \<noteq> CHR '',''"
  by (auto simp: selector_char_def is_ascii_alphanumeric_def is_ascii_digit_def ascii_space_def)

lemma utf8_chars_ascii: "\<forall>c \<in> set s. of_char c < (128 :: nat) \<Longrightarrow> utf8_chars s = Some (map (\<lambda>c. [c]) s)"
  by (induction s) (auto simp: utf8_width_def Let_def)

lemma trim_selector:
  assumes "\<forall>c \<in> set s. selector_char c"
  shows "trim s = s"
proof -
  have u: "utf8_chars s = Some (map (\<lambda>c. [c]) s)" using assms selector_char_ascii by (intro utf8_chars_ascii) blast
  have none: "dropWhile is_blank xs = xs" if "\<forall>x \<in> set xs. \<not> is_blank x" for xs using that by (cases xs) auto
  have "\<forall>x \<in> set (map (\<lambda>c. [c]) s). \<not> is_blank x" using assms selector_char_ascii by auto
  with none [of "map (\<lambda>c. [c]) s"] none [of "rev (map (\<lambda>c. [c]) s)"] show ?thesis
    by (simp add: trim_def u del: is_blank.simps)
qed

lemma key_text_chars: "key_text k \<Longrightarrow> c \<in> set k \<Longrightarrow> selector_char c \<and> c \<noteq> CHR ''.'' \<and> c \<noteq> CHR '']''"
  by (auto simp: key_text_def selector_char_def is_ascii_alphanumeric_def is_ascii_digit_def)

lemma segment_text_chars: "segment_ok g \<Longrightarrow> c \<in> set (segment_text g) \<Longrightarrow> selector_char c \<and> c \<noteq> CHR ''.''"
  by (cases g) (auto dest: key_text_chars, auto simp: selector_char_def)

lemma unsupported_character_key: "key_text k \<Longrightarrow> unsupported_character k = None"
proof -
  assume k: "key_text k"
  then have "utf8_chars k = Some (map (\<lambda>c. [c]) k)" using selector_char_ascii key_text_chars by (intro utf8_chars_ascii) blast
  with k show ?thesis by (auto simp: unsupported_character_def find_None_iff key_character_def key_text_def)
qed

lemma strip_suffix_absent: "CHR '']'' \<notin> set k \<Longrightarrow> strip_suffix ''[]'' k = None"
proof (rule ccontr)
  assume k: "CHR '']'' \<notin> set k" and "strip_suffix ''[]'' k \<noteq> None"
  then have "drop (length k - 2) k = ''[]''" by (auto simp: strip_suffix_def numeral_2_eq_2 split: if_splits)
  then have "CHR '']'' \<in> set (drop (length k - 2) k)" by simp
  with k show False by (meson in_set_dropD)
qed

lemma parse_segment_text:
  assumes "segment_ok g"
  shows "parse_segment p (segment_text g) = Ok g"
proof (cases g)
  case (Key k)
  with assms have k: "key_text k" by simp
  then have "strip_suffix ''[]'' k = None" using key_text_chars by (intro strip_suffix_absent) blast
  with k Key unsupported_character_key [OF k] show ?thesis by (simp add: parse_segment_def key_text_def)
next
  case (Elements k)
  with assms have k: "key_text k" by simp
  have "strip_suffix ''[]'' (k @ ''[]'') = Some k" by (simp add: strip_suffix_def)
  with k Elements unsupported_character_key [OF k] show ?thesis by (simp add: parse_segment_def key_text_def)
qed (simp add: parse_segment_def strip_suffix_def)

lemma parse_path_text:
  assumes "path_ok segments"
  shows "parse_path (path_text segments) = Ok segments"
proof -
  have ok: "\<forall>g \<in> set segments. segment_ok g" using assms by (simp add: path_ok_def list_all_iff)
  have "split_on CHR ''.'' (path_text segments) = map segment_text segments"
    unfolding path_text_def using assms ok segment_text_chars by (intro split_on_join) (auto simp: path_ok_def)
  moreover have "parse_parts p (map segment_text segments) = Ok segments" for p
    using ok by (induction segments) (simp_all add: parse_segment_text)
  ultimately show ?thesis by (simp add: parse_path_def)
qed

lemma join_chars: "c \<in> set (join sep xs) \<Longrightarrow> c \<in> set sep \<or> (\<exists>x \<in> set xs. c \<in> set x)"
  by (induction sep xs rule: join.induct) auto

lemma path_text_chars:
  assumes "path_ok segments" and "c \<in> set (path_text segments)"
  shows "selector_char c"
  using assms join_chars [of c "''.''" "map segment_text segments"] segment_text_chars
  by (auto simp: path_text_def path_ok_def list_all_iff) (simp add: selector_char_def)

lemma path_text_nonempty:
  assumes "path_ok segments"
  shows "path_text segments \<noteq> []"
proof -
  have "segment_text g \<noteq> []" if "segment_ok g" for g using that by (cases g) (auto simp: key_text_def)
  moreover obtain g gs where "segments = g # gs" using assms by (cases segments) (auto simp: path_ok_def)
  ultimately show ?thesis using assms by (cases gs) (auto simp: path_text_def path_ok_def)
qed

lemma parse_paths_text:
  "\<forall>p \<in> set ps. path_ok p \<and> length p \<le> SELECTOR_MAX_DEPTH \<Longrightarrow>
   parse_paths (map path_text ps) parsed = Ok (fold (\<lambda>p acc. if p \<in> set acc then acc else acc @ [p]) ps parsed)"
proof (induction ps arbitrary: parsed)
  case (Cons p ps)
  have "trim (path_text p) = path_text p" using Cons.prems path_text_chars by (intro trim_selector) auto
  with Cons parse_path_text [of p] path_text_nonempty [of p] show ?case by simp
qed simp

lemma fold_collect:
  "set (fold (\<lambda>p acc. if p \<in> set acc then acc else acc @ [p]) ps parsed) = set parsed \<union> set ps"
  "distinct parsed \<Longrightarrow> distinct (fold (\<lambda>p acc. if p \<in> set acc then acc else acc @ [p]) ps parsed)"
  by (induction ps arbitrary: parsed) auto

text \<open>
  Every selection within the limits can be asked for: the text of a nonempty list of paths of
  valid keys and element walks, joined by dots and commas, is accepted and selects exactly these
  paths, when it has at most the allowed bytes, different paths and segments.
\<close>

theorem written_selector_accepted:
  assumes ps: "ps \<noteq> []" "\<forall>p \<in> set ps. path_ok p \<and> length p \<le> SELECTOR_MAX_DEPTH"
    and card: "card (set ps) \<le> SELECTOR_MAX_PATHS" and len: "length (join '','' (map path_text ps)) \<le> SELECTOR_MAX_BYTES"
  shows "\<exists>root. Selector_parse (join '','' (map path_text ps)) = Ok root
    \<and> (\<forall>v. Selector_project root v = keep (path_steps ` set ps) v)"
proof -
  let ?s = "join '','' (map path_text ps)"
  let ?parsed = "fold (\<lambda>p acc. if p \<in> set acc then acc else acc @ [p]) ps []"
  have split: "split_on CHR '','' ?s = map path_text ps"
    using ps path_text_chars selector_char_ascii by (intro split_on_join) fastforce+
  obtain p rest where p: "ps = p # rest" using ps(1) by (cases ps) auto
  then obtain c cs where c: "path_text p = c # cs" "selector_char c"
    using path_text_nonempty [of p] path_text_chars [of p] ps(2) by (cases "path_text p") auto
  have "\<exists>t. ?s = c # t" using c(1) by (cases rest) (auto simp: p)
  moreover have "\<not> is_blank (c # t)" for t
    using selector_char_ascii [OF c(2)] unfolding is_blank.simps(2)
    by (auto simp: wide_space_def simp del: is_blank.simps(2) split: list.split)
  ultimately have "\<not> is_blank ?s" by metis
  moreover have "parse_paths (split_on CHR '','' ?s) [] = Ok ?parsed" unfolding split using ps(2) by (rule parse_paths_text)
  moreover have parsed: "set ?parsed = set ps" "distinct ?parsed" using fold_collect [where parsed = "[]"] by simp_all
  moreover have "?parsed \<noteq> []"
  proof
    assume "?parsed = []"
    with parsed(1) have "set ps = {}" by simp
    with ps(1) show False by simp
  qed
  moreover have "length ?parsed \<le> SELECTOR_MAX_PATHS" using card distinct_card [OF parsed(2)] parsed(1) by simp
  ultimately have "Selector_parse ?s = Ok (selector_of ?parsed)" using len by (simp add: Selector_parse_def)
  moreover have "[] \<notin> set ?parsed" using ps(2) by (auto simp: parsed(1) path_ok_def)
  ultimately show ?thesis using selector_projects [of ?parsed] parsed(1) by auto
qed

lemma written_selector_accepted_witness:
  "\<exists>root. Selector_parse ''tabs[].id,pid'' = Ok root
    \<and> (\<forall>v. Selector_project root v = keep {[Member ''tabs'', Element, Member ''id''], [Member ''pid'']} v)"
proof -
  let ?ps = "[[Elements ''tabs'', Key ''id''], [Key ''pid'']]"
  have "\<forall>p \<in> set ?ps. path_ok p \<and> length p \<le> SELECTOR_MAX_DEPTH" by code_simp
  moreover have "card (set ?ps) \<le> SELECTOR_MAX_PATHS" by (simp add: SELECTOR_MAX_PATHS_def)
  moreover have s: "join '','' (map path_text ?ps) = ''tabs[].id,pid''" by (simp add: path_text_def)
  moreover have "length (join '','' (map path_text ?ps)) \<le> SELECTOR_MAX_BYTES" unfolding s by (simp add: SELECTOR_MAX_BYTES_def)
  ultimately have "\<exists>root. Selector_parse (join '','' (map path_text ?ps)) = Ok root
    \<and> (\<forall>v. Selector_project root v = keep (path_steps ` set ?ps) v)" by (intro written_selector_accepted) simp_all
  then show ?thesis unfolding s by (simp add: path_steps_def)
qed

end
