(* ===== verification/Ui_Command.thy ===== *)
theory Ui_Command
  imports Control_Authority "HOL-Library.AList" "HOL-Library.Sublist"
begin

text \<open>
  The queue of commands the server relays to an attached GUI client (\<open>src/ui_command.rs\<close>).  A command
  waits, is handed to the client, and is completed by the client's answer, which may be repeated.
  Hash maps are association lists with distinct keys.  Encoding and decoding answers is the JSON
  library: \<open>to_string\<close> and \<open>from_str\<close> are arguments.
\<close>

section \<open>Model\<close>

definition UI_CLIENT_COMMAND_SCHEMA_VERSION :: u32 where
  "UI_CLIENT_COMMAND_SCHEMA_VERSION = 1"

definition UI_CLIENT_COMMAND_QUEUE_LIMIT :: nat where
  "UI_CLIENT_COMMAND_QUEUE_LIMIT = 64"

definition UI_CLIENT_COMMAND_MAX_ARGUMENTS :: nat where
  "UI_CLIENT_COMMAND_MAX_ARGUMENTS = 64"

definition UI_CLIENT_COMMAND_MAX_BYTES :: nat where
  "UI_CLIENT_COMMAND_MAX_BYTES = 256 * 1024"

definition UI_CLIENT_COMMAND_RESPONSE_MAX_BYTES :: nat where
  "UI_CLIENT_COMMAND_RESPONSE_MAX_BYTES = 1024 * 1024"

definition UI_CLIENT_COMMAND_FOCUS :: string where
  "UI_CLIENT_COMMAND_FOCUS = ''__focus''"

definition UI_CLIENT_COMMAND_SHOW_NO_ACTIVATE :: string where
  "UI_CLIENT_COMMAND_SHOW_NO_ACTIVATE = ''__show-no-activate''"

definition is_ui_client_handoff_command :: "string list \<Rightarrow> bool" where
  "is_ui_client_handoff_command args =
     (case args of [] \<Rightarrow> False | a # _ \<Rightarrow> a = UI_CLIENT_COMMAND_FOCUS \<or> a = UI_CLIENT_COMMAND_SHOW_NO_ACTIVATE)"

record UiClientCommand =
  uc_schema_version :: u32
  uc_command_id :: string
  uc_args :: "string list"

record UiClientCommandQueue =
  uq_identity :: string
  uq_next_id :: u64
  uq_pending :: "UiClientCommand list"
  uq_in_flight :: "(string \<times> UiClientCommand) list"
  uq_preapplied :: "(string \<times> string) list"
  uq_completed :: "(string \<times> string) list"
  uq_completion_inputs :: "(string \<times> string) list"

datatype UiClientCommandResult = ResultPending | ResultInFlight | ResultComplete string | ResultUnknown

definition UiClientCommandQueue_new :: "string \<Rightarrow> UiClientCommandQueue" where
  "UiClientCommandQueue_new i =
     \<lparr>uq_identity = i, uq_next_id = 1, uq_pending = [], uq_in_flight = [], uq_preapplied = [], uq_completed = [],
      uq_completion_inputs = []\<rparr>"

definition validate_args :: "string list \<Rightarrow> string + unit" where
  "validate_args args =
     (if args = [] \<or> UI_CLIENT_COMMAND_MAX_ARGUMENTS < length args
      then Err (''UI client command requires 1..='' @ show_nat UI_CLIENT_COMMAND_MAX_ARGUMENTS @ '' arguments'')
      else (case fold (\<lambda>a sum_bytes. Option.bind sum_bytes (\<lambda>n. if n + length a < 2 ^ 64 then Some (n + length a) else None)) args (Some 0) of
              None \<Rightarrow> Err ''UI client command byte count overflowed''
            | Some n \<Rightarrow>
                if UI_CLIENT_COMMAND_MAX_BYTES < n \<or> list_ex (\<lambda>a. CHR 0x00 \<in> set a) args
                then Err (''UI client command exceeds its '' @ show_nat UI_CLIENT_COMMAND_MAX_BYTES @ ''-byte budget or contains NUL'')
                else Ok ()))"

definition command_id_text :: "string \<Rightarrow> u64 \<Rightarrow> string" where
  "command_id_text identity_text n = identity_text @ ''-'' @ show_nat (unat n)"

definition enqueue :: "string list \<Rightarrow> UiClientCommandQueue \<Rightarrow> (string + string) \<times> UiClientCommandQueue" where
  "enqueue args q =
     (case validate_args args of
        Inl e \<Rightarrow> (Err e, q)
      | Inr _ \<Rightarrow>
          if UI_CLIENT_COMMAND_QUEUE_LIMIT \<le> length (uq_pending q) + length (uq_in_flight q)
          then (Err ''UI client command queue is full'', q)
          else
            let command_id = command_id_text (uq_identity q) (uq_next_id q)
            in (Ok command_id,
                q\<lparr>uq_next_id := saturating_add (uq_next_id q) 1,
                  uq_pending := uq_pending q @ [\<lparr>uc_schema_version = UI_CLIENT_COMMAND_SCHEMA_VERSION,
                     uc_command_id = command_id, uc_args = args\<rparr>]\<rparr>))"

definition queue_poll :: "UiClientCommandQueue \<Rightarrow> UiClientCommand option \<times> UiClientCommandQueue" where
  "queue_poll q =
     (case uq_pending q of
        [] \<Rightarrow> (None, q)
      | c # rest \<Rightarrow> (Some c, q\<lparr>uq_pending := rest, uq_in_flight := AList.update (uc_command_id c) c (uq_in_flight q)\<rparr>))"

definition is_pending_command :: "string \<Rightarrow> UiClientCommandQueue \<Rightarrow> bool" where
  "is_pending_command i q = list_ex (\<lambda>c. uc_command_id c = i) (uq_pending q)"

definition record_preapplied ::
  "(IpcResponse \<Rightarrow> string + string) \<Rightarrow> string \<Rightarrow> IpcResponse \<Rightarrow> UiClientCommandQueue \<Rightarrow> (string + unit) \<times> UiClientCommandQueue" where
  "record_preapplied to_string i response q =
     (if \<not> is_pending_command i q then (Err ''UI client command is not pending'', q)
      else (case to_string response of
          Inl e \<Rightarrow> (Err (''UI client preapply response is invalid: '' @ e), q)
        | Inr encoded \<Rightarrow>
            if UI_CLIENT_COMMAND_RESPONSE_MAX_BYTES < length encoded
            then (Err ''UI client preapply response exceeds its byte budget'', q)
            else (Ok (), q\<lparr>uq_preapplied := AList.update i encoded (uq_preapplied q)\<rparr>)))"

definition discard_pending :: "string \<Rightarrow> UiClientCommandQueue \<Rightarrow> bool \<times> UiClientCommandQueue" where
  "discard_pending i q =
     (case position (\<lambda>c. uc_command_id c = i) (uq_pending q) of
        None \<Rightarrow> (False, q)
      | Some k \<Rightarrow> (True, q\<lparr>uq_pending := take k (uq_pending q) @ drop (Suc k) (uq_pending q),
                           uq_preapplied := AList.delete i (uq_preapplied q)\<rparr>))"

definition preapplied ::
  "(string \<Rightarrow> string + IpcResponse) \<Rightarrow> string \<Rightarrow> UiClientCommandQueue \<Rightarrow> string + IpcResponse option" where
  "preapplied from_str i q =
     (case map_of (uq_preapplied q) i of
        None \<Rightarrow> Ok None
      | Some encoded \<Rightarrow>
          (case from_str encoded of
             Inl e \<Rightarrow> Err (''UI client preapply response is invalid: '' @ e)
           | Inr response \<Rightarrow> Ok (Some response)))"

text \<open>\<open>while completed.len() > LIMIT { pop_front; forget its input }\<close>.\<close>

fun expire_completed :: "(string \<times> string) list \<Rightarrow> (string \<times> string) list \<Rightarrow> (string \<times> string) list \<times> (string \<times> string) list" where
  "expire_completed [] inputs = ([], inputs)"
| "expire_completed ((i, r) # rest) inputs =
     (if UI_CLIENT_COMMAND_QUEUE_LIMIT < Suc (length rest)
      then expire_completed rest (AList.delete i inputs) else ((i, r) # rest, inputs))"

definition queue_complete ::
  "(string \<Rightarrow> string + IpcResponse) \<Rightarrow> string \<Rightarrow> string \<Rightarrow> UiClientCommandQueue
   \<Rightarrow> (string + IpcResponse) \<times> UiClientCommandQueue" where
  "queue_complete from_str i response_json q =
     (if response_json = [] \<or> UI_CLIENT_COMMAND_RESPONSE_MAX_BYTES < length response_json
      then (Err (''UI client command response must contain 1..='' @ show_nat UI_CLIENT_COMMAND_RESPONSE_MAX_BYTES @ '' bytes''), q)
      else (case from_str response_json of
          Inl e \<Rightarrow> (Err (''UI client command response is invalid: '' @ e), q)
        | Inr response \<Rightarrow>
            (case map_of (uq_completion_inputs q) i of
               Some previous_input \<Rightarrow>
                 if previous_input \<noteq> response_json
                 then (Err ''UI client command completion replay changed its response'', q)
                 else (case find (\<lambda>(candidate, _). candidate = i) (uq_completed q) of
                         None \<Rightarrow> (Err ''UI client command completion replay expired'', q)
                       | Some (_, stored) \<Rightarrow>
                           (case from_str stored of
                              Inl e \<Rightarrow> (Err (''UI client command response is invalid: '' @ e), q)
                            | Inr r \<Rightarrow> (Ok r, q)))
             | None \<Rightarrow>
                 if map_of (uq_in_flight q) i = None then (Err ''UI client command is not in flight'', q)
                 else
                   let (completed, inputs) =
                     expire_completed (uq_completed q @ [(i, response_json)]) (AList.update i response_json (uq_completion_inputs q))
                   in (Ok response,
                       q\<lparr>uq_in_flight := AList.delete i (uq_in_flight q), uq_preapplied := AList.delete i (uq_preapplied q),
                         uq_completed := completed, uq_completion_inputs := inputs\<rparr>))))"

definition queue_result :: "string \<Rightarrow> UiClientCommandQueue \<Rightarrow> UiClientCommandResult" where
  "queue_result i q =
     (case find (\<lambda>(candidate, _). candidate = i) (uq_completed q) of
        Some (_, response_json) \<Rightarrow> ResultComplete response_json
      | None \<Rightarrow>
          if map_of (uq_in_flight q) i \<noteq> None then ResultInFlight
          else if is_pending_command i q then ResultPending
          else ResultUnknown)"

definition replace_completed ::
  "(IpcResponse \<Rightarrow> string + string) \<Rightarrow> string \<Rightarrow> IpcResponse \<Rightarrow> UiClientCommandQueue \<Rightarrow> (string + unit) \<times> UiClientCommandQueue" where
  "replace_completed to_string i response q =
     (case to_string response of
        Inl e \<Rightarrow> (Err (''UI client command response is invalid: '' @ e), q)
      | Inr encoded \<Rightarrow>
          if UI_CLIENT_COMMAND_RESPONSE_MAX_BYTES < length encoded
          then (Err ''UI client command response exceeds its byte budget'', q)
          else (case position (\<lambda>(candidate, _). candidate = i) (uq_completed q) of
                  None \<Rightarrow> (Err ''UI client command completion is unavailable'', q)
                | Some k \<Rightarrow> (Ok (), q\<lparr>uq_completed := (uq_completed q)[k := (fst (uq_completed q ! k), encoded)]\<rparr>)))"

definition clear_active :: "UiClientCommandQueue \<Rightarrow> UiClientCommandQueue" where
  "clear_active q = q\<lparr>uq_pending := [], uq_in_flight := [], uq_preapplied := []\<rparr>"

text \<open>The operations that change the queue, as one datatype, so that a run is a list of them.\<close>

datatype QueueOp =
    OpEnqueue "string list"
  | OpPoll
  | OpPreapply string IpcResponse
  | OpDiscard string
  | OpComplete string string
  | OpReplace string IpcResponse
  | OpClear

fun queue_op ::
  "(IpcResponse \<Rightarrow> string + string) \<Rightarrow> (string \<Rightarrow> string + IpcResponse) \<Rightarrow> QueueOp \<Rightarrow> UiClientCommandQueue
   \<Rightarrow> UiClientCommandQueue" where
  "queue_op to_string from_str (OpEnqueue args) q = snd (enqueue args q)"
| "queue_op to_string from_str OpPoll q = snd (queue_poll q)"
| "queue_op to_string from_str (OpPreapply i response) q = snd (record_preapplied to_string i response q)"
| "queue_op to_string from_str (OpDiscard i) q = snd (discard_pending i q)"
| "queue_op to_string from_str (OpComplete i response_json) q = snd (queue_complete from_str i response_json q)"
| "queue_op to_string from_str (OpReplace i response) q = snd (replace_completed to_string i response q)"
| "queue_op to_string from_str OpClear q = clear_active q"

text \<open>The same run with its history: the commands accepted by \<open>enqueue\<close> and those returned by \<open>poll\<close>.\<close>

type_synonym QueueHistory = "UiClientCommandQueue \<times> UiClientCommand list \<times> UiClientCommand list"

fun history_op ::
  "(IpcResponse \<Rightarrow> string + string) \<Rightarrow> (string \<Rightarrow> string + IpcResponse) \<Rightarrow> QueueOp \<Rightarrow> QueueHistory \<Rightarrow> QueueHistory" where
  "history_op to_string from_str (OpEnqueue args) (q, accepted, delivered) =
     (case enqueue args q of
        (Inl _, q') \<Rightarrow> (q', accepted, delivered)
      | (Inr i, q') \<Rightarrow>
          (q', accepted @ [\<lparr>uc_schema_version = UI_CLIENT_COMMAND_SCHEMA_VERSION, uc_command_id = i, uc_args = args\<rparr>], delivered))"
| "history_op to_string from_str OpPoll (q, accepted, delivered) =
     (case queue_poll q of
        (None, q') \<Rightarrow> (q', accepted, delivered)
      | (Some c, q') \<Rightarrow> (q', accepted, delivered @ [c]))"
| "history_op to_string from_str op (q, accepted, delivered) = (queue_op to_string from_str op q, accepted, delivered)"

section \<open>Identifiers\<close>

definition issued :: "UiClientCommandQueue \<Rightarrow> string \<Rightarrow> bool" where
  "issued q i = (\<exists>n < uq_next_id q. i = command_id_text (uq_identity q) n)"

lemma command_id_text_inject [simp]: "command_id_text t m = command_id_text t n \<longleftrightarrow> m = n"
  using show_base_inj [of 10 "unat m" "unat n"] by (auto simp: command_id_text_def show_nat_def word_unat_eq_iff)

lemma next_id_not_issued: "\<not> issued q (command_id_text (uq_identity q) (uq_next_id q))"
  by (simp add: issued_def)

lemma command_issued_mono:
  "\<lbrakk> issued q i; uq_identity q' = uq_identity q; uq_next_id q \<le> uq_next_id q' \<rbrakk> \<Longrightarrow> issued q' i"
  by (auto simp: issued_def intro: less_le_trans)

section \<open>The operations on well formed queues\<close>

text \<open>
  The invariant.  A command is in exactly one of the three stores, under an identifier that was issued;
  the work in progress and the answers kept are bounded; an input is remembered exactly for the answers
  kept; a preapplied response belongs to a command still in progress.
\<close>

definition queue_ids :: "UiClientCommandQueue \<Rightarrow> string list" where
  "queue_ids q = map uc_command_id (uq_pending q) @ map fst (uq_in_flight q) @ map fst (uq_completed q)"

definition command_ok :: "UiClientCommand \<Rightarrow> bool" where
  "command_ok c \<longleftrightarrow> validate_args (uc_args c) = Ok () \<and> uc_schema_version c = UI_CLIENT_COMMAND_SCHEMA_VERSION"

definition queue_ok :: "UiClientCommandQueue \<Rightarrow> bool" where
  "queue_ok q \<longleftrightarrow>
     distinct (queue_ids q) \<and> list_all (issued q) (queue_ids q) \<and>
     list_all command_ok (uq_pending q) \<and>
     list_all (\<lambda>(k, c). uc_command_id c = k \<and> command_ok c) (uq_in_flight q) \<and>
     length (uq_pending q) + length (uq_in_flight q) \<le> UI_CLIENT_COMMAND_QUEUE_LIMIT \<and>
     length (uq_completed q) \<le> UI_CLIENT_COMMAND_QUEUE_LIMIT \<and>
     distinct (map fst (uq_completion_inputs q)) \<and>
     fst ` set (uq_completion_inputs q) = fst ` set (uq_completed q) \<and>
     distinct (map fst (uq_preapplied q)) \<and>
     fst ` set (uq_preapplied q) \<subseteq> uc_command_id ` set (uq_pending q) \<union> fst ` set (uq_in_flight q) \<and>
     list_all (\<lambda>(_, r). length r \<le> UI_CLIENT_COMMAND_RESPONSE_MAX_BYTES)
       (uq_completed q @ uq_completion_inputs q @ uq_preapplied q)"

lemma update_fresh_key: "k \<notin> fst ` set al \<Longrightarrow> AList.update k v al = al @ [(k, v)]"
  by (induction al) auto

lemma length_delete_key:
  "\<lbrakk> distinct (map fst al); k \<in> fst ` set al \<rbrakk> \<Longrightarrow> Suc (length (AList.delete k al)) = length al"
  by (induction al) (auto simp: delete_id)

lemma set_delete_subset: "x \<in> set (AList.delete k al) \<Longrightarrow> x \<in> set al"
  by (simp add: AList.delete_eq)

lemma list_all_delete: "list_all P al \<Longrightarrow> list_all P (AList.delete k al)"
  by (auto simp: list_all_iff AList.delete_eq)

lemma list_all_update: "\<lbrakk> list_all P al; P (k, v) \<rbrakk> \<Longrightarrow> list_all P (AList.update k v al)"
  by (induction al) auto

lemma expire_completed_kept:
  "length xs \<le> UI_CLIENT_COMMAND_QUEUE_LIMIT \<Longrightarrow> expire_completed xs inputs = (xs, inputs)"
  by (cases "(xs, inputs)" rule: expire_completed.cases) auto

lemma expire_completed_oldest:
  "length xs = UI_CLIENT_COMMAND_QUEUE_LIMIT
   \<Longrightarrow> expire_completed ((i, r) # xs) inputs = (xs, AList.delete i inputs)"
  by (simp add: expire_completed_kept)

lemma new_queue_ok: "queue_ok (UiClientCommandQueue_new identity)"
  by (simp add: queue_ok_def queue_ids_def UiClientCommandQueue_new_def)

lemma enqueue_cases:
  obtains (refused) e where "enqueue args q = (Err e, q)"
  | (accepted) "validate_args args = Ok ()"
      "length (uq_pending q) + length (uq_in_flight q) < UI_CLIENT_COMMAND_QUEUE_LIMIT"
      "enqueue args q = (Ok (command_id_text (uq_identity q) (uq_next_id q)),
         q\<lparr>uq_next_id := saturating_add (uq_next_id q) 1,
           uq_pending := uq_pending q @ [\<lparr>uc_schema_version = UI_CLIENT_COMMAND_SCHEMA_VERSION,
             uc_command_id = command_id_text (uq_identity q) (uq_next_id q), uc_args = args\<rparr>]\<rparr>)"
  by (cases "validate_args args"; cases "UI_CLIENT_COMMAND_QUEUE_LIMIT \<le> length (uq_pending q) + length (uq_in_flight q)")
    (auto simp: enqueue_def Let_def)

lemma enqueue_keeps_ok:
  assumes ok: "queue_ok q" and id: "uq_next_id q \<noteq> - 1"
  shows "queue_ok (snd (enqueue args q))"
proof (cases rule: enqueue_cases [of args q])
  case refused
  with ok show ?thesis by simp
next
  case accepted
  note step = saturating_succ [OF id]
  have "list_all (issued q) (queue_ids q)" using ok by (simp add: queue_ok_def)
  then have old: "\<And>i. i \<in> set (queue_ids q) \<Longrightarrow> issued q i" by (simp add: list_all_iff)
  then have fresh: "command_id_text (uq_identity q) (uq_next_id q) \<notin> set (queue_ids q)"
    using next_id_not_issued by blast
  let ?q = "snd (enqueue args q)"
  have ids: "set (queue_ids ?q) = insert (command_id_text (uq_identity q) (uq_next_id q)) (set (queue_ids q))"
    by (auto simp: accepted(3) queue_ids_def)
  have "issued ?q (command_id_text (uq_identity q) (uq_next_id q))"
    using step by (auto simp: issued_def accepted(3))
  moreover have "issued q i \<Longrightarrow> issued ?q i" for i
    using step by (auto simp: accepted(3) elim!: command_issued_mono)
  ultimately have "list_all (issued ?q) (queue_ids ?q)" using old by (auto simp: list_all_iff ids)
  moreover have "distinct (queue_ids ?q)"
    using ok fresh by (auto simp: queue_ok_def queue_ids_def accepted(3))
  ultimately show ?thesis
    using ok accepted(1,2) by (auto simp: queue_ok_def accepted(3) command_ok_def)
qed

lemma issued_same:
  "\<lbrakk> uq_identity q' = uq_identity q; uq_next_id q' = uq_next_id q \<rbrakk> \<Longrightarrow> issued q' = issued q"
  by (simp add: issued_def fun_eq_iff)

lemma queue_poll_eq:
  assumes "queue_ok q" and "uq_pending q = c # rest"
  shows "queue_poll q = (Some c, q\<lparr>uq_pending := rest, uq_in_flight := uq_in_flight q @ [(uc_command_id c, c)]\<rparr>)"
proof -
  have "uc_command_id c \<notin> fst ` set (uq_in_flight q)" using assms by (auto simp: queue_ok_def queue_ids_def)
  then show ?thesis using assms(2) by (simp add: queue_poll_def update_fresh_key)
qed

lemma queue_poll_keeps_ok:
  assumes ok: "queue_ok q"
  shows "queue_ok (snd (queue_poll q))"
proof (cases "uq_pending q")
  case Nil
  with ok show ?thesis by (simp add: queue_poll_def)
next
  case (Cons c rest)
  let ?q = "q\<lparr>uq_pending := rest, uq_in_flight := uq_in_flight q @ [(uc_command_id c, c)]\<rparr>"
  have "issued ?q = issued q" by (rule issued_same) simp_all
  with ok Cons have "queue_ok ?q" by (auto simp: queue_ok_def queue_ids_def)
  then show ?thesis by (simp add: queue_poll_eq [OF ok Cons])
qed

lemma record_preapplied_keeps_ok:
  assumes ok: "queue_ok q"
  shows "queue_ok (snd (record_preapplied to_string i response q))"
proof -
  have "queue_ok (q\<lparr>uq_preapplied := AList.update i encoded (uq_preapplied q)\<rparr>)"
    if "is_pending_command i q" "length encoded \<le> UI_CLIENT_COMMAND_RESPONSE_MAX_BYTES" for encoded
  proof -
    let ?q = "q\<lparr>uq_preapplied := AList.update i encoded (uq_preapplied q)\<rparr>"
    have "issued ?q = issued q" by (rule issued_same) simp_all
    moreover have "fst ` set (AList.update i encoded (uq_preapplied q)) = insert i (fst ` set (uq_preapplied q))"
      by (auto simp: update_conv simp flip: dom_map_of_conv_image_fst split: if_splits)
    moreover have "distinct (map fst (AList.update i encoded (uq_preapplied q)))"
      using ok by (simp add: queue_ok_def distinct_update)
    ultimately show ?thesis
      using ok that by (auto simp: queue_ok_def queue_ids_def is_pending_command_def list_ex_iff intro: list_all_update)
  qed
  then show ?thesis using ok by (auto simp: record_preapplied_def not_less split: sum.split)
qed

lemma discard_pending_cases:
  obtains (absent) "\<not> is_pending_command i q" "discard_pending i q = (False, q)"
  | (found) before c after where "uq_pending q = before @ c # after" "uc_command_id c = i"
      "discard_pending i q = (True, q\<lparr>uq_pending := before @ after, uq_preapplied := AList.delete i (uq_preapplied q)\<rparr>)"
proof (cases "position (\<lambda>c. uc_command_id c = i) (uq_pending q)")
  case None
  then show ?thesis
    using position_None_iff [of "\<lambda>c. uc_command_id c = i" "uq_pending q"]
    by (intro absent) (auto simp: discard_pending_def is_pending_command_def list_ex_iff)
next
  case (Some k)
  note k = position_SomeD [OF Some]
  then show ?thesis
    by (intro found [of "take k (uq_pending q)" "uq_pending q ! k" "drop (Suc k) (uq_pending q)"])
      (auto simp: discard_pending_def Some id_take_nth_drop)
qed

lemma delete_keys_image: "fst ` set (AList.delete k al) = fst ` set al - {k}"
  by (auto simp: AList.delete_eq image_iff)

lemma discard_pending_keeps_ok:
  assumes ok: "queue_ok q"
  shows "queue_ok (snd (discard_pending i q))"
proof (cases rule: discard_pending_cases [of i q])
  case absent
  with ok show ?thesis by simp
next
  case (found before c after)
  let ?q = "q\<lparr>uq_pending := before @ after, uq_preapplied := AList.delete i (uq_preapplied q)\<rparr>"
  have "issued ?q = issued q" by (rule issued_same) simp_all
  then have "queue_ok ?q"
    using ok found(1,2)
    by (auto simp: queue_ok_def queue_ids_def delete_keys_image distinct_delete intro: list_all_delete)
  then show ?thesis by (simp add: found(3))
qed

lemma clear_active_keeps_ok: "queue_ok q \<Longrightarrow> queue_ok (clear_active q)"
  using issued_same [of "clear_active q" q] by (auto simp: clear_active_def queue_ok_def queue_ids_def)

lemma replace_completed_cases:
  obtains (failed) e where "replace_completed to_string i response q = (Err e, q)"
  | (replaced) before r after encoded where "to_string response = Ok encoded"
      "uq_completed q = before @ (i, r) # after" "i \<notin> fst ` set before"
      "length encoded \<le> UI_CLIENT_COMMAND_RESPONSE_MAX_BYTES"
      "replace_completed to_string i response q = (Ok (), q\<lparr>uq_completed := before @ (i, encoded) # after\<rparr>)"
proof (cases "replace_completed to_string i response q" )
  case (Pair res q')
  show ?thesis
  proof (cases res)
    case (Inl e)
    with Pair have "q' = q" by (auto simp: replace_completed_def split: sum.splits if_splits option.splits)
    with Pair Inl show ?thesis by (intro failed) simp
  next
    case (Inr u)
    with Pair obtain encoded k where e: "to_string response = Ok encoded"
      and len: "length encoded \<le> UI_CLIENT_COMMAND_RESPONSE_MAX_BYTES"
      and k: "position (\<lambda>(candidate, _). candidate = i) (uq_completed q) = Some k"
      and q': "q' = q\<lparr>uq_completed := (uq_completed q)[k := (fst (uq_completed q ! k), encoded)]\<rparr>"
      by (auto simp: replace_completed_def split: sum.splits if_splits option.splits)
    let ?xs = "uq_completed q"
    have at: "k < length ?xs" "fst (?xs ! k) = i" "\<And>j. j < k \<Longrightarrow> fst (?xs ! j) \<noteq> i"
      using position_SomeD [OF k] by (auto simp: case_prod_beta)
    have "?xs = take k ?xs @ (i, snd (?xs ! k)) # drop (Suc k) ?xs"
      using at(1,2) by (metis id_take_nth_drop prod.collapse)
    moreover have "i \<notin> fst ` set (take k ?xs)"
      using at(1,3) by (fastforce simp: in_set_conv_nth)
    moreover have "?xs[k := (fst (?xs ! k), encoded)] = take k ?xs @ (i, encoded) # drop (Suc k) ?xs"
      using at(1,2) by (simp add: upd_conv_take_nth_drop)
    ultimately show ?thesis using Pair Inr e len q' by (intro replaced) auto
  qed
qed

lemma replace_completed_keeps_ok:
  assumes ok: "queue_ok q"
  shows "queue_ok (snd (replace_completed to_string i response q))"
proof (cases rule: replace_completed_cases [of to_string i response q])
  case failed
  with ok show ?thesis by simp
next
  case (replaced before r after encoded)
  let ?q = "q\<lparr>uq_completed := before @ (i, encoded) # after\<rparr>"
  have "issued ?q = issued q" by (rule issued_same) simp_all
  then have "queue_ok ?q" using ok replaced(2,4) by (auto simp: queue_ok_def queue_ids_def)
  then show ?thesis by (simp add: replaced(5))
qed

lemma expire_completed_result:
  assumes "length cs \<le> UI_CLIENT_COMMAND_QUEUE_LIMIT"
  shows "expire_completed (cs @ [x]) inputs =
    (if length cs < UI_CLIENT_COMMAND_QUEUE_LIMIT then (cs @ [x], inputs)
     else (tl cs @ [x], AList.delete (fst (hd cs)) inputs))"
proof (cases "length cs < UI_CLIENT_COMMAND_QUEUE_LIMIT")
  case True
  then show ?thesis by (simp add: expire_completed_kept)
next
  case False
  with assms obtain j r cs' where cs: "cs = (j, r) # cs'"
    by (cases cs) (auto simp: UI_CLIENT_COMMAND_QUEUE_LIMIT_def)
  with False assms have "length (cs' @ [x]) = UI_CLIENT_COMMAND_QUEUE_LIMIT" by simp
  with False show ?thesis by (simp add: cs expire_completed_kept)
qed

definition completion_state :: "string \<Rightarrow> string \<Rightarrow> UiClientCommandQueue \<Rightarrow> UiClientCommandQueue" where
  "completion_state i response_json q =
     (if length (uq_completed q) < UI_CLIENT_COMMAND_QUEUE_LIMIT
      then q\<lparr>uq_in_flight := AList.delete i (uq_in_flight q), uq_preapplied := AList.delete i (uq_preapplied q),
             uq_completed := uq_completed q @ [(i, response_json)],
             uq_completion_inputs := uq_completion_inputs q @ [(i, response_json)]\<rparr>
      else q\<lparr>uq_in_flight := AList.delete i (uq_in_flight q), uq_preapplied := AList.delete i (uq_preapplied q),
             uq_completed := tl (uq_completed q) @ [(i, response_json)],
             uq_completion_inputs :=
               AList.delete (fst (hd (uq_completed q))) (uq_completion_inputs q @ [(i, response_json)])\<rparr>)"

lemma find_key: "find (\<lambda>(candidate, _). candidate = i) xs = map_option (Pair i) (map_of xs i)"
  by (induction xs) auto

lemma queue_complete_cases:
  assumes ok: "queue_ok q"
  obtains (failed) e where "queue_complete from_str i response_json q = (Err e, q)"
  | (replayed) stored r where "map_of (uq_completion_inputs q) i = Some response_json"
      "map_of (uq_completed q) i = Some stored" "from_str stored = Ok r"
      "queue_complete from_str i response_json q = (Ok r, q)"
  | (first) r where "map_of (uq_completion_inputs q) i = None" "i \<in> fst ` set (uq_in_flight q)"
      "from_str response_json = Ok r" "response_json \<noteq> []"
      "length response_json \<le> UI_CLIENT_COMMAND_RESPONSE_MAX_BYTES"
      "queue_complete from_str i response_json q = (Ok r, completion_state i response_json q)"
proof -
  have bounded: "length (uq_completed q) \<le> UI_CLIENT_COMMAND_QUEUE_LIMIT" using ok by (simp add: queue_ok_def)
  consider (short) "response_json = [] \<or> UI_CLIENT_COMMAND_RESPONSE_MAX_BYTES < length response_json"
    | (bad) e where "from_str response_json = Inl e" "response_json \<noteq> []"
        "length response_json \<le> UI_CLIENT_COMMAND_RESPONSE_MAX_BYTES"
    | (good) r where "from_str response_json = Inr r" "response_json \<noteq> []"
        "length response_json \<le> UI_CLIENT_COMMAND_RESPONSE_MAX_BYTES"
    by (cases "from_str response_json") (metis not_less)+
  then show ?thesis
  proof cases
    case short
    then show ?thesis by (intro failed) (auto simp: queue_complete_def)
  next
    case bad
    then show ?thesis by (intro failed) (auto simp: queue_complete_def)
  next
    case (good r)
    show ?thesis
    proof (cases "map_of (uq_completion_inputs q) i")
      case (Some previous)
      then show ?thesis
        using good failed replayed
        by (cases "previous = response_json"; cases "map_of (uq_completed q) i";
            cases "from_str (the (map_of (uq_completed q) i))")
          (auto simp: queue_complete_def find_key)
    next
      case None
      then have "i \<notin> fst ` set (uq_completion_inputs q)" by (simp add: map_of_eq_None_iff)
      then have done_now: "queue_complete from_str i response_json q = (Ok r, completion_state i response_json q)"
        if "map_of (uq_in_flight q) i \<noteq> None"
        using that good None bounded
        by (auto simp: queue_complete_def update_fresh_key expire_completed_result completion_state_def)
      show ?thesis
      proof (cases "map_of (uq_in_flight q) i")
        assume absent: "map_of (uq_in_flight q) i = None"
        show ?thesis by (rule failed) (use good None absent in \<open>simp add: queue_complete_def\<close>)
      next
        fix c assume c: "map_of (uq_in_flight q) i = Some c"
        then have "i \<in> fst ` set (uq_in_flight q)" by (force dest: map_of_SomeD)
        with first None good done_now c show ?thesis by simp
      qed
    qed
  qed
qed

text \<open>Forgetting the oldest answer, which makes room for the new one.\<close>

definition forget_oldest :: "UiClientCommandQueue \<Rightarrow> UiClientCommandQueue" where
  "forget_oldest q =
     q\<lparr>uq_completed := tl (uq_completed q),
       uq_completion_inputs := AList.delete (fst (hd (uq_completed q))) (uq_completion_inputs q)\<rparr>"

lemma forget_oldest_ok:
  assumes ok: "queue_ok q" and c: "uq_completed q = (j, r) # cs"
  shows "queue_ok (forget_oldest q)"
proof -
  have "issued (forget_oldest q) = issued q" by (rule issued_same) (simp_all add: forget_oldest_def)
  moreover have "list_all P (uq_completion_inputs q) \<Longrightarrow> list_all P (AList.delete j (uq_completion_inputs q))" for P
    by (rule list_all_delete)
  moreover have "insert j (fst ` set cs) - {j} = fst ` set cs"
    using ok by (auto simp: queue_ok_def queue_ids_def c)
  ultimately show ?thesis
    using ok by (simp add: queue_ok_def queue_ids_def forget_oldest_def c delete_keys_image distinct_delete)
qed

lemma completion_state_room:
  assumes ok: "queue_ok q" and i: "i \<in> fst ` set (uq_in_flight q)"
    and len: "length response_json \<le> UI_CLIENT_COMMAND_RESPONSE_MAX_BYTES"
    and room: "length (uq_completed q) < UI_CLIENT_COMMAND_QUEUE_LIMIT"
  shows "queue_ok (completion_state i response_json q)"
proof -
  let ?q = "completion_state i response_json q"
  have "issued ?q = issued q" by (rule issued_same) (simp_all add: completion_state_def)
  moreover have "Suc (length (AList.delete i (uq_in_flight q))) = length (uq_in_flight q)"
    using ok i by (intro length_delete_key) (auto simp: queue_ok_def queue_ids_def)
  moreover have fresh: "i \<notin> fst ` set (uq_completed q)" "i \<notin> uc_command_id ` set (uq_pending q)"
    using ok i by (auto simp: queue_ok_def queue_ids_def)
  moreover have "distinct (queue_ids ?q)" "set (queue_ids ?q) = set (queue_ids q)"
    using ok i fresh room
    by (auto simp: queue_ok_def queue_ids_def completion_state_def delete_keys_image delete_keys distinct_removeAll)
  ultimately show ?thesis
    using ok len room
    by (auto simp: queue_ok_def completion_state_def list_all_iff delete_keys_image distinct_delete
        dest: set_delete_subset)
qed

lemma completion_state_full:
  assumes ok: "queue_ok q" and i: "i \<in> fst ` set (uq_in_flight q)"
    and c: "uq_completed q = (j, r) # cs" and full: "length (uq_completed q) = UI_CLIENT_COMMAND_QUEUE_LIMIT"
  shows "completion_state i response_json q = completion_state i response_json (forget_oldest q)"
proof -
  have "i \<noteq> j" using ok i c by (auto simp: queue_ok_def queue_ids_def)
  then show ?thesis using c full by (simp add: completion_state_def forget_oldest_def AList.delete_eq)
qed

lemma completion_state_ok:
  assumes ok: "queue_ok q" and i: "i \<in> fst ` set (uq_in_flight q)"
    and len: "length response_json \<le> UI_CLIENT_COMMAND_RESPONSE_MAX_BYTES"
  shows "queue_ok (completion_state i response_json q)"
proof (cases "length (uq_completed q) < UI_CLIENT_COMMAND_QUEUE_LIMIT")
  case True
  with assms show ?thesis by (intro completion_state_room)
next
  case False
  with ok have full: "length (uq_completed q) = UI_CLIENT_COMMAND_QUEUE_LIMIT" by (simp add: queue_ok_def)
  then obtain j r cs where c: "uq_completed q = (j, r) # cs"
    by (cases "uq_completed q") (auto simp: UI_CLIENT_COMMAND_QUEUE_LIMIT_def)
  have "queue_ok (completion_state i response_json (forget_oldest q))"
    using forget_oldest_ok [OF ok c] i len full by (intro completion_state_room) (auto simp: forget_oldest_def c)
  then show ?thesis by (simp add: completion_state_full [OF ok i c full])
qed

lemma queue_complete_keeps_ok:
  assumes ok: "queue_ok q"
  shows "queue_ok (snd (queue_complete from_str i response_json q))"
  by (cases rule: queue_complete_cases [OF ok, of from_str i response_json])
    (simp_all add: ok completion_state_ok)

section \<open>Runs\<close>

lemma queue_op_keeps_ok:
  "\<lbrakk> queue_ok q; uq_next_id q \<noteq> - 1 \<rbrakk> \<Longrightarrow> queue_ok (queue_op to_string from_str op q)"
  by (cases op) (auto intro: enqueue_keeps_ok queue_poll_keeps_ok record_preapplied_keeps_ok discard_pending_keeps_ok
      queue_complete_keeps_ok replace_completed_keeps_ok clear_active_keeps_ok)

lemma queue_op_frame:
  shows "uq_identity (queue_op to_string from_str op q) = uq_identity q"
    and "uq_next_id (queue_op to_string from_str op q) = uq_next_id q \<or>
         uq_next_id (queue_op to_string from_str op q) = saturating_add (uq_next_id q) 1"
  by (cases op; auto simp: enqueue_def queue_poll_def record_preapplied_def discard_pending_def queue_complete_def
      replace_completed_def clear_active_def Let_def case_prod_beta split: sum.split option.split list.split)+

lemma queue_op_next_id:
  assumes "unat (uq_next_id q) + Suc n < 2 ^ 64"
  shows "unat (uq_next_id (queue_op to_string from_str op q)) + n < 2 ^ 64" and "uq_next_id q \<noteq> - 1"
proof -
  show "uq_next_id q \<noteq> - 1" using assms by (auto simp: unat_minus_one_eq)
  then show "unat (uq_next_id (queue_op to_string from_str op q)) + n < 2 ^ 64"
    using queue_op_frame(2) [of to_string from_str op q] saturating_succ [of "uq_next_id q"] assms by auto
qed

lemma queue_run_ok:
  "\<lbrakk> queue_ok q; unat (uq_next_id q) + length ops < 2 ^ 64 \<rbrakk>
   \<Longrightarrow> queue_ok (fold (queue_op to_string from_str) ops q)"
proof (induction ops arbitrary: q)
  case Nil
  then show ?case by simp
next
  case (Cons op ops)
  have "unat (uq_next_id q) + Suc (length ops) < 2 ^ 64" using Cons.prems by simp
  note n = queue_op_next_id(1) [OF this, of to_string from_str op] queue_op_next_id(2) [OF this]
  show ?case using Cons.IH [of "queue_op to_string from_str op q"] Cons.prems(1) n by (simp add: queue_op_keeps_ok)
qed

text \<open>
  The relay queue keeps its invariant under every sequence of its operations, for as long as its
  64-bit numbering is not used up: the commands waiting, in flight and answered have pairwise
  different, issued identifiers; at most 64 are in progress and at most 64 answers are kept; what is
  remembered for replays belongs exactly to the kept answers and what was preapplied to commands still
  in progress; every stored answer is within its byte budget.
\<close>

theorem ui_queue_keeps_invariant:
  assumes "length ops < 2 ^ 64 - 1"
  shows "queue_ok (fold (queue_op to_string from_str) ops (UiClientCommandQueue_new identity))"
  using assms by (intro queue_run_ok new_queue_ok) (simp add: UiClientCommandQueue_new_def)


subsection \<open>Delivery\<close>

fun history_ok :: "QueueHistory \<Rightarrow> bool" where
  "history_ok (q, accepted, delivered) \<longleftrightarrow>
     subseq (delivered @ uq_pending q) accepted \<and> distinct (map uc_command_id accepted) \<and>
     (\<forall>c \<in> set accepted. issued q (uc_command_id c))"

lemma history_op_state: "fst (history_op to_string from_str op (q, a, d)) = queue_op to_string from_str op q"
  by (cases op) (auto split: prod.splits sum.splits option.splits)

lemma history_ok_fewer:
  assumes "history_ok (q, accepted, delivered)" and "subseq (uq_pending q') (uq_pending q)"
    and "uq_identity q' = uq_identity q" and "uq_next_id q' = uq_next_id q"
  shows "history_ok (q', accepted, delivered)"
proof -
  have "subseq (delivered @ uq_pending q') (delivered @ uq_pending q)" using assms(2) by (simp add: subseq_append')
  moreover have "issued q' = issued q" by (rule issued_same) (use assms in simp_all)
  ultimately show ?thesis using assms(1) by (auto intro: subseq_order.order_trans)
qed

lemma other_ops_pending:
  assumes "op \<noteq> OpPoll" and "\<And>args. op \<noteq> OpEnqueue args"
  shows "subseq (uq_pending (queue_op to_string from_str op q)) (uq_pending q)
    \<and> uq_next_id (queue_op to_string from_str op q) = uq_next_id q"
proof (cases op)
  case (OpDiscard i)
  have "subseq (before @ after) (before @ c # after)" for before after and c :: UiClientCommand
    by (simp add: subseq_append' list_emb_Cons)
  then show ?thesis by (cases rule: discard_pending_cases [of i q]) (simp_all add: OpDiscard)
qed (use assms in \<open>auto simp: record_preapplied_def queue_complete_def replace_completed_def clear_active_def Let_def
    case_prod_beta split: sum.split option.split\<close>)

lemma enqueue_history_ok:
  assumes ok: "history_ok (q, accepted, delivered)" and id: "uq_next_id q \<noteq> - 1"
  shows "history_ok (history_op to_string from_str (OpEnqueue args) (q, accepted, delivered))"
proof (cases rule: enqueue_cases [of args q])
  case refused
  with ok show ?thesis by simp
next
  case accepted: accepted
  let ?q = "snd (enqueue args q)"
  note step = saturating_succ [OF id]
  have "issued q i \<Longrightarrow> issued ?q i" for i
    using step by (auto simp: accepted(3) elim!: command_issued_mono)
  moreover have "issued ?q (command_id_text (uq_identity q) (uq_next_id q))"
    using step by (auto simp: issued_def accepted(3))
  moreover have "subseq (delivered @ uq_pending q @ [c]) (accepted @ [c])" for c
    using ok subseq_append [of "delivered @ uq_pending q" "[c]" accepted] by simp
  ultimately show ?thesis
    using ok next_id_not_issued [of q] by (auto simp: accepted(3))
qed

lemma subseq_distinct: "\<lbrakk> subseq xs ys; distinct ys \<rbrakk> \<Longrightarrow> distinct xs"
  by (induction rule: list_emb.induct) (auto dest: list_emb_set)

lemma poll_history_ok:
  assumes ok: "history_ok (q, accepted, delivered)"
  shows "history_ok (history_op to_string from_str OpPoll (q, accepted, delivered))"
proof (cases "uq_pending q")
  case Nil
  with ok show ?thesis by (simp add: queue_poll_def)
next
  case (Cons c rest)
  let ?q = "snd (queue_poll q)"
  have "issued ?q = issued q" by (rule issued_same) (simp_all add: queue_poll_def Cons)
  with ok Cons show ?thesis by (simp add: queue_poll_def)
qed

lemma history_op_ok:
  assumes ok: "history_ok h" and id: "uq_next_id (fst h) \<noteq> - 1"
  shows "history_ok (history_op to_string from_str op h)"
proof -
  obtain q accepted delivered where h: "h = (q, accepted, delivered)" by (cases h)
  consider (enqueue) args where "op = OpEnqueue args" | (poll) "op = OpPoll"
    | (other) "op \<noteq> OpPoll" "\<And>args. op \<noteq> OpEnqueue args" by blast
  then show ?thesis
  proof cases
    case enqueue
    with ok id show ?thesis unfolding h enqueue by (intro enqueue_history_ok) auto
  next
    case poll
    with ok show ?thesis unfolding h poll by (intro poll_history_ok)
  next
    case other
    note frame = other_ops_pending [OF other, of to_string from_str q]
    have "history_op to_string from_str op h = (queue_op to_string from_str op q, accepted, delivered)"
      using other unfolding h by (cases op) auto
    then show ?thesis
      using history_ok_fewer [OF ok [unfolded h], of "queue_op to_string from_str op q"] frame
        queue_op_frame(1) [of to_string from_str op q] by (simp only:)
  qed
qed

lemma history_run_ok:
  "\<lbrakk> history_ok h; unat (uq_next_id (fst h)) + length ops < 2 ^ 64 \<rbrakk>
   \<Longrightarrow> history_ok (fold (history_op to_string from_str) ops h)"
proof (induction ops arbitrary: h)
  case Nil
  then show ?case by simp
next
  case (Cons op ops)
  obtain q a d where h: "h = (q, a, d)" by (cases h)
  have "unat (uq_next_id q) + Suc (length ops) < 2 ^ 64" using Cons.prems by (simp add: h)
  note n = queue_op_next_id(1) [OF this, of to_string from_str op] queue_op_next_id(2) [OF this]
  have "history_ok (history_op to_string from_str op h)" using Cons.prems(1) n(2) by (intro history_op_ok) (simp_all add: h)
  with Cons.IH [of "history_op to_string from_str op h"] n(1) history_op_state [of to_string from_str op q a d]
  show ?case by (simp add: h)
qed

text \<open>
  C36. Whatever the operations on a queue and whatever their order, the commands handed to the client
  are commands that were accepted, unchanged and in the order of their acceptance, none is handed out
  twice, and those still waiting come later in that order.
\<close>

theorem commands_delivered_once_in_order:
  assumes "length ops < 2 ^ 64 - 1"
    and "fold (history_op to_string from_str) ops (UiClientCommandQueue_new identity, [], []) = (q, accepted, delivered)"
  shows "subseq (delivered @ uq_pending q) accepted \<and> distinct (map uc_command_id (delivered @ uq_pending q))"
proof -
  have "history_ok (UiClientCommandQueue_new identity, [], [])" by (simp add: UiClientCommandQueue_new_def)
  then have "history_ok (fold (history_op to_string from_str) ops (UiClientCommandQueue_new identity, [], []))"
    using assms(1) by (intro history_run_ok) (simp_all add: UiClientCommandQueue_new_def)
  then have h: "history_ok (q, accepted, delivered)" by (simp add: assms(2))
  then have sub: "subseq (map uc_command_id (delivered @ uq_pending q)) (map uc_command_id accepted)"
    by (intro subseq_map) simp
  with h show ?thesis using subseq_distinct [OF sub] by simp
qed

section \<open>The life of a command\<close>

text \<open>
  What the queue promises of one command: it waits, is handed out, is answered; an answer may be
  replaced by the server and is forgotten when 64 later ones push it out; a discarded or cleared
  command is forgotten before it is answered.
\<close>

inductive lifecycle_step ::
  "(IpcResponse \<Rightarrow> string + string) \<Rightarrow> string \<Rightarrow> QueueOp \<Rightarrow> UiClientCommandResult \<Rightarrow> UiClientCommandResult \<Rightarrow> bool"
  for to_string :: "IpcResponse \<Rightarrow> string + string" and i :: string where
  life_stay: "lifecycle_step to_string i op s s"
| life_accept: "lifecycle_step to_string i (OpEnqueue args) ResultUnknown ResultPending"
| life_deliver: "lifecycle_step to_string i OpPoll ResultPending ResultInFlight"
| life_discard: "lifecycle_step to_string i (OpDiscard i) ResultPending ResultUnknown"
| life_clear: "s = ResultPending \<or> s = ResultInFlight \<Longrightarrow> lifecycle_step to_string i OpClear s ResultUnknown"
| life_answer: "lifecycle_step to_string i (OpComplete i r) ResultInFlight (ResultComplete r)"
| life_expire: "j \<noteq> i \<Longrightarrow> lifecycle_step to_string i (OpComplete j r) (ResultComplete r') ResultUnknown"
| life_replace: "to_string response = Ok r
    \<Longrightarrow> lifecycle_step to_string i (OpReplace i response) (ResultComplete r') (ResultComplete r)"

lemma queue_result_eq:
  "queue_result i q =
     (case map_of (uq_completed q) i of
        Some r \<Rightarrow> ResultComplete r
      | None \<Rightarrow> if i \<in> fst ` set (uq_in_flight q) then ResultInFlight
               else if i \<in> uc_command_id ` set (uq_pending q) then ResultPending else ResultUnknown)"
proof -
  have "(map_of (uq_in_flight q) i \<noteq> None) = (i \<in> fst ` set (uq_in_flight q))" by (simp add: map_of_eq_None_iff)
  moreover have "is_pending_command i q = (i \<in> uc_command_id ` set (uq_pending q))"
    by (auto simp: is_pending_command_def list_ex_iff)
  ultimately show ?thesis unfolding queue_result_def find_key
    by (cases "map_of (uq_completed q) i") simp_all
qed

lemma queue_ids_disjoint:
  assumes "queue_ok q"
  shows "i \<in> uc_command_id ` set (uq_pending q) \<Longrightarrow> i \<notin> fst ` set (uq_in_flight q) \<and> i \<notin> fst ` set (uq_completed q)"
    and "i \<in> fst ` set (uq_in_flight q) \<Longrightarrow> i \<notin> fst ` set (uq_completed q)"
  using assms by (auto simp: queue_ok_def queue_ids_def)

lemma queue_result_unanswered:
  "i \<notin> fst ` set (uq_completed q) \<Longrightarrow>
   queue_result i q = (if i \<in> fst ` set (uq_in_flight q) then ResultInFlight
     else if i \<in> uc_command_id ` set (uq_pending q) then ResultPending else ResultUnknown)"
  by (simp add: queue_result_eq map_of_eq_None_iff [THEN iffD2])

lemma enqueue_lifecycle:
  assumes ok: "queue_ok q"
  shows "lifecycle_step to_string i (OpEnqueue args) (queue_result i q) (queue_result i (snd (enqueue args q)))"
proof (cases rule: enqueue_cases [of args q])
  case refused
  then show ?thesis by (simp add: life_stay)
next
  case accepted
  show ?thesis
  proof (cases "i = command_id_text (uq_identity q) (uq_next_id q)")
    case True
    then have "i \<notin> set (queue_ids q)"
      using ok next_id_not_issued [of q] by (auto simp: queue_ok_def list_all_iff)
    then have "queue_result i q = ResultUnknown" "queue_result i (snd (enqueue args q)) = ResultPending"
      using True by (simp_all add: queue_result_unanswered queue_ids_def accepted(3))
    then show ?thesis by (simp add: life_accept)
  next
    case False
    then have "queue_result i (snd (enqueue args q)) = queue_result i q"
      by (simp add: queue_result_eq accepted(3))
    then show ?thesis by (simp add: life_stay)
  qed
qed

lemma poll_lifecycle:
  assumes ok: "queue_ok q"
  shows "lifecycle_step to_string i OpPoll (queue_result i q) (queue_result i (snd (queue_poll q)))"
proof (cases "uq_pending q")
  case Nil
  then show ?thesis by (simp add: queue_poll_def life_stay)
next
  case (Cons c rest)
  show ?thesis
  proof (cases "i = uc_command_id c")
    case True
    then have "queue_result i q = ResultPending" "queue_result i (snd (queue_poll q)) = ResultInFlight"
      using queue_ids_disjoint(1) [OF ok, of i] by (simp_all add: queue_result_unanswered queue_poll_eq [OF ok Cons] Cons)
    then show ?thesis by (simp add: life_deliver)
  next
    case False
    then have "queue_result i (snd (queue_poll q)) = queue_result i q"
      by (simp add: queue_result_eq queue_poll_eq [OF ok Cons] Cons)
    then show ?thesis by (simp add: life_stay)
  qed
qed

lemma discard_lifecycle:
  assumes ok: "queue_ok q"
  shows "lifecycle_step to_string i (OpDiscard j) (queue_result i q) (queue_result i (snd (discard_pending j q)))"
proof (cases rule: discard_pending_cases [of j q])
  case absent
  then show ?thesis by (simp add: life_stay)
next
  case (found before c after)
  show ?thesis
  proof (cases "i = j")
    case True
    have "i \<in> uc_command_id ` set (uq_pending q)" using True found(1,2) by auto
    note away = queue_ids_disjoint(1) [OF ok this]
    moreover have "i \<notin> uc_command_id ` set (before @ after)"
      using ok found(1,2) True by (auto simp: queue_ok_def queue_ids_def)
    ultimately have "queue_result i q = ResultPending" "queue_result i (snd (discard_pending j q)) = ResultUnknown"
      using True found(1,2) by (simp_all add: queue_result_unanswered found(3))
    then show ?thesis by (simp add: True life_discard)
  next
    case False
    then have "queue_result i (snd (discard_pending j q)) = queue_result i q"
      using found(1,2) by (simp add: queue_result_eq found(3))
    then show ?thesis by (simp add: life_stay)
  qed
qed

lemma map_of_append_other: "j \<noteq> i \<Longrightarrow> map_of (xs @ (i, v) # ys) j = map_of (xs @ ys) j"
  by (induction xs) auto

lemma completion_state_result:
  assumes ok: "queue_ok q" and i: "i \<in> fst ` set (uq_in_flight q)"
  shows "queue_result i (completion_state i r q) = ResultComplete r"
    and "j \<noteq> i \<Longrightarrow> queue_result j (completion_state i r q) = queue_result j q \<or>
      length (uq_completed q) = UI_CLIENT_COMMAND_QUEUE_LIMIT \<and> j = fst (hd (uq_completed q)) \<and>
      (\<exists>r'. queue_result j q = ResultComplete r') \<and> queue_result j (completion_state i r q) = ResultUnknown"
proof -
  have fresh: "i \<notin> fst ` set (uq_completed q)" by (rule queue_ids_disjoint(2) [OF ok i])
  then have "i \<notin> fst ` set (tl (uq_completed q))" by (cases "uq_completed q") auto
  then have "map_of (uq_completed (completion_state i r q)) i = Some r"
    using fresh by (simp add: completion_state_def map_add_def map_of_eq_None_iff [THEN iffD2])
  then show "queue_result i (completion_state i r q) = ResultComplete r" by (simp add: queue_result_eq)
  assume j: "j \<noteq> i"
  have active: "j \<in> fst ` set (uq_in_flight (completion_state i r q)) \<longleftrightarrow> j \<in> fst ` set (uq_in_flight q)"
    "uq_pending (completion_state i r q) = uq_pending q"
    using j by (simp_all add: completion_state_def delete_keys_image)
  show "queue_result j (completion_state i r q) = queue_result j q \<or>
      length (uq_completed q) = UI_CLIENT_COMMAND_QUEUE_LIMIT \<and> j = fst (hd (uq_completed q)) \<and>
      (\<exists>r'. queue_result j q = ResultComplete r') \<and> queue_result j (completion_state i r q) = ResultUnknown"
  proof (cases "length (uq_completed q) < UI_CLIENT_COMMAND_QUEUE_LIMIT")
    case True
    then have "map_of (uq_completed (completion_state i r q)) j = map_of (uq_completed q) j"
      using j by (simp add: completion_state_def map_of_append_other [of _ _ _ _ "[]"] del: map_of_append)
    then show ?thesis by (simp add: queue_result_eq active)
  next
    case False
    with ok have full: "length (uq_completed q) = UI_CLIENT_COMMAND_QUEUE_LIMIT" by (simp add: queue_ok_def)
    then obtain k s cs where c: "uq_completed q = (k, s) # cs"
      by (cases "uq_completed q") (auto simp: UI_CLIENT_COMMAND_QUEUE_LIMIT_def)
    have after: "uq_completed (completion_state i r q) = cs @ [(i, r)]" using full c by (simp add: completion_state_def)
    show ?thesis
    proof (cases "j = k")
      case True
      have "k \<notin> fst ` set cs" "k \<notin> fst ` set (uq_in_flight q)" "k \<notin> uc_command_id ` set (uq_pending q)"
        using ok by (auto simp: queue_ok_def queue_ids_def c)
      then have "queue_result j (completion_state i r q) = ResultUnknown"
        using j True active by (simp add: queue_result_unanswered after)
      then show ?thesis using True full c by (simp add: queue_result_eq)
    next
      case False
      then show ?thesis using j by (simp add: queue_result_eq active after c map_of_append_other [of _ _ _ _ "[]"] del: map_of_append)
    qed
  qed
qed

lemma complete_lifecycle:
  assumes ok: "queue_ok q"
  shows "lifecycle_step to_string i (OpComplete j r) (queue_result i q) (queue_result i (snd (queue_complete from_str j r q)))"
proof (cases rule: queue_complete_cases [OF ok, of from_str j r, case_names failed replayed first])
  case (first x)
  note res = completion_state_result [OF ok first(2), where r = r]
  show ?thesis
  proof (cases "i = j")
    case True
    have "queue_result j q = ResultInFlight"
      using queue_ids_disjoint(2) [OF ok first(2)] first(2) by (simp add: queue_result_unanswered)
    with True show ?thesis by (simp add: first(6) res(1) life_answer)
  next
    case False
    with res(2) [of i] show ?thesis by (auto simp: first(6) intro: life_stay life_expire)
  qed
qed (simp_all add: life_stay)

lemma replace_lifecycle:
  assumes ok: "queue_ok q"
  shows "lifecycle_step to_string i (OpReplace j response) (queue_result i q)
    (queue_result i (snd (replace_completed to_string j response q)))"
proof (cases rule: replace_completed_cases [of to_string j response q])
  case failed
  then show ?thesis by (simp add: life_stay)
next
  case (replaced before r after encoded)
  show ?thesis
  proof (cases "i = j")
    case True
    have "map_of before j = None" using replaced(3) by (simp add: map_of_eq_None_iff)
    then have "queue_result j q = ResultComplete r"
      "queue_result j (q\<lparr>uq_completed := before @ (j, encoded) # after\<rparr>) = ResultComplete encoded"
      by (simp_all add: queue_result_eq replaced(2) map_add_def)
    with True replaced(1) show ?thesis by (simp add: replaced(5) life_replace)
  next
    case False
    then have "queue_result i (q\<lparr>uq_completed := before @ (j, encoded) # after\<rparr>) = queue_result i q"
      by (simp add: queue_result_eq replaced(2) map_of_append_other del: map_of_append)
    then show ?thesis by (simp add: replaced(5) life_stay)
  qed
qed

lemma clear_lifecycle: "lifecycle_step to_string i OpClear (queue_result i q) (queue_result i (clear_active q))"
  by (auto simp: queue_result_eq clear_active_def split: option.split intro: life_stay life_clear)

lemma preapply_result: "queue_result i (snd (record_preapplied to_string j response q)) = queue_result i q"
  by (auto simp: record_preapplied_def queue_result_eq split: sum.split)

text \<open>
  C15. The stages of a command.  In every state the queue can reach, and for every operation, the stage
  that \<open>result\<close> reports of a command only moves along \<open>lifecycle_step\<close>: a command is answered only
  after it was handed out, its answer is the one given by the client under its identifier or the one
  the server replaced it with, and an answered command is never handed out or answered again.
\<close>

theorem command_lifecycle:
  assumes "length ops < 2 ^ 64 - 1"
    and q: "q = fold (queue_op to_string from_str) ops (UiClientCommandQueue_new identity)"
  shows "lifecycle_step to_string i op (queue_result i q) (queue_result i (queue_op to_string from_str op q))"
proof -
  have ok: "queue_ok q"
    unfolding q using assms(1) by (intro queue_run_ok new_queue_ok) (simp add: UiClientCommandQueue_new_def)
  show ?thesis
    by (cases op) (simp_all add: enqueue_lifecycle [OF ok] poll_lifecycle [OF ok] discard_lifecycle [OF ok]
        complete_lifecycle [OF ok] replace_lifecycle [OF ok] clear_lifecycle preapply_result life_stay)
qed

text \<open>
  C37. Answering a command that is in flight.  The answer is kept and the command leaves the work in
  progress; the same answer sent again is accepted and changes nothing; a different answer is refused
  and changes nothing; and of all other commands at most the oldest answered one is affected, which is
  forgotten when 64 answers were already kept.
\<close>

theorem completion_recorded_once:
  assumes ok: "queue_ok q" and flying: "queue_result i q = ResultInFlight"
    and answer: "queue_complete from_str i response_json q = (Ok response, q')"
  shows "queue_result i q' = ResultComplete response_json
    \<and> Suc (length (uq_in_flight q')) = length (uq_in_flight q)
    \<and> queue_complete from_str i response_json q' = (Ok response, q')
    \<and> (\<forall>changed. changed \<noteq> response_json \<longrightarrow> (\<exists>e. queue_complete from_str i changed q' = (Err e, q')))
    \<and> (\<forall>j. j \<noteq> i \<longrightarrow> queue_result j q' = queue_result j q \<or>
         length (uq_completed q) = UI_CLIENT_COMMAND_QUEUE_LIMIT \<and> j = fst (hd (uq_completed q)) \<and>
         (\<exists>r. queue_result j q = ResultComplete r) \<and> queue_result j q' = ResultUnknown)"
proof -
  have i: "i \<in> fst ` set (uq_in_flight q)" and "map_of (uq_completed q) i = None"
    using flying by (auto simp: queue_result_eq split: option.splits if_splits)
  then have "i \<notin> fst ` set (uq_completion_inputs q)" using ok by (simp add: queue_ok_def map_of_eq_None_iff)
  then have fresh: "map_of (uq_completion_inputs q) i = None" by (simp add: map_of_eq_None_iff)
  then have good: "from_str response_json = Ok response" "response_json \<noteq> []"
      "length response_json \<le> UI_CLIENT_COMMAND_RESPONSE_MAX_BYTES" and q': "q' = completion_state i response_json q"
    using answer by (cases rule: queue_complete_cases [OF ok, of from_str i response_json]; simp)+
  note res = completion_state_result [OF ok i, where r = response_json, folded q']
  have "hd (uq_completed q) \<in> set (uq_completed q)" if "length (uq_completed q) = UI_CLIENT_COMMAND_QUEUE_LIMIT"
    using that by (cases "uq_completed q") (auto simp: UI_CLIENT_COMMAND_QUEUE_LIMIT_def)
  then have "length (uq_completed q) = UI_CLIENT_COMMAND_QUEUE_LIMIT \<Longrightarrow> i \<noteq> fst (hd (uq_completed q))"
    using queue_ids_disjoint(2) [OF ok i] by auto
  then have "map_of (uq_completion_inputs q') i = Some response_json"
    using fresh ok by (auto simp: q' completion_state_def map_add_def queue_ok_def not_less)
  moreover have "map_of (uq_completed q') i = Some response_json"
    using res(1) by (auto simp: queue_result_eq split: option.splits if_splits)
  ultimately have replay: "queue_complete from_str i response_json q' = (Ok response, q')"
      "\<And>changed. changed \<noteq> response_json \<Longrightarrow> \<exists>e. queue_complete from_str i changed q' = (Err e, q')"
    using good by (auto simp: queue_complete_def find_key split: sum.split)
  have "Suc (length (AList.delete i (uq_in_flight q))) = length (uq_in_flight q)"
    using ok i by (intro length_delete_key) (auto simp: queue_ok_def queue_ids_def)
  then have "Suc (length (uq_in_flight q')) = length (uq_in_flight q)" by (simp add: q' completion_state_def)
  with res replay show ?thesis by blast
qed

section \<open>Witnesses\<close>

definition sample_from_str :: "string \<Rightarrow> string + IpcResponse" where
  "sample_from_str s = (if s = ''bad'' then Err ''bad'' else Ok (IpcResponse_success s))"

definition sample_to_string :: "IpcResponse \<Rightarrow> string + string" where
  "sample_to_string r = Ok ''replaced''"

definition sample_queue_ops :: "QueueOp list" where
  "sample_queue_ops =
     [OpEnqueue [''focus'', ''tabs''], OpEnqueue [], OpEnqueue [''ui-action''], OpPoll, OpDiscard ''e-9'']"

definition sample_command :: "string \<Rightarrow> string list \<Rightarrow> UiClientCommand" where
  "sample_command i args = \<lparr>uc_schema_version = 1, uc_command_id = i, uc_args = args\<rparr>"

definition sample_queue :: UiClientCommandQueue where
  "sample_queue =
     \<lparr>uq_identity = ''e'', uq_next_id = 3, uq_pending = [sample_command ''e-2'' [''ui-action'']],
      uq_in_flight = [(''e-1'', sample_command ''e-1'' [''focus'', ''tabs''])], uq_preapplied = [], uq_completed = [],
      uq_completion_inputs = []\<rparr>"

lemmas sample_queue_defs = sample_queue_def sample_command_def sample_queue_ops_def sample_to_string_def sample_from_str_def
  UiClientCommandQueue_new_def UI_CLIENT_COMMAND_SCHEMA_VERSION_def UI_CLIENT_COMMAND_QUEUE_LIMIT_def
  UI_CLIENT_COMMAND_MAX_ARGUMENTS_def UI_CLIENT_COMMAND_MAX_BYTES_def UI_CLIENT_COMMAND_RESPONSE_MAX_BYTES_def

lemma sample_digits: "char_of (49 :: nat) = CHR ''1''" "char_of (50 :: nat) = CHR ''2''"
  by code_simp+

lemma sample_history:
  "fold (history_op sample_to_string sample_from_str) sample_queue_ops (UiClientCommandQueue_new ''e'', [], []) =
     (sample_queue, [sample_command ''e-1'' [''focus'', ''tabs''], sample_command ''e-2'' [''ui-action'']],
      [sample_command ''e-1'' [''focus'', ''tabs'']])"
  by (simp add: sample_queue_defs enqueue_def validate_args_def queue_poll_def discard_pending_def command_id_text_def
      saturating_add_def show_nat_def show_base.simps digit_char_def sample_digits Let_def)

lemma sample_queue_run:
  "fold (queue_op sample_to_string sample_from_str) sample_queue_ops (UiClientCommandQueue_new ''e'') = sample_queue"
  by (simp add: sample_queue_defs enqueue_def validate_args_def queue_poll_def discard_pending_def command_id_text_def
      saturating_add_def show_nat_def show_base.simps digit_char_def sample_digits Let_def)

lemma sample_in_flight: "queue_result ''e-1'' sample_queue = ResultInFlight"
  by (simp add: sample_queue_defs queue_result_def)

theorem ui_queue_keeps_invariant_witness: "queue_ok sample_queue \<and> length (uq_pending sample_queue) = 1"
  using ui_queue_keeps_invariant [of sample_queue_ops sample_to_string sample_from_str "''e''"] sample_queue_run
  by (simp add: sample_queue_ops_def) (simp add: sample_queue_def)

theorem commands_delivered_once_in_order_witness:
  "distinct (map uc_command_id ([sample_command ''e-1'' [''focus'', ''tabs'']] @ uq_pending sample_queue))"
  using commands_delivered_once_in_order [OF _ sample_history] by (simp add: sample_queue_ops_def)

theorem command_lifecycle_witness:
  "lifecycle_step sample_to_string ''e-1'' (OpComplete ''e-1'' ''done'') ResultInFlight
     (queue_result ''e-1'' (queue_op sample_to_string sample_from_str (OpComplete ''e-1'' ''done'') sample_queue))"
  using command_lifecycle [OF _ sample_queue_run [symmetric], of "''e-1''" "OpComplete ''e-1'' ''done''"]
  by (simp add: sample_queue_ops_def sample_in_flight)

theorem completion_recorded_once_witness:
  "\<exists>q'. queue_complete sample_from_str ''e-1'' ''done'' sample_queue = (Ok (IpcResponse_success ''done''), q')
     \<and> queue_result ''e-1'' q' = ResultComplete ''done''"
proof -
  have ok: "queue_ok sample_queue"
    using queue_run_ok [OF new_queue_ok, of "''e''" sample_queue_ops sample_to_string sample_from_str] sample_queue_run
    by (simp add: sample_queue_ops_def UiClientCommandQueue_new_def)
  have "fst (queue_complete sample_from_str ''e-1'' ''done'' sample_queue) = Ok (IpcResponse_success ''done'')"
    by (simp add: queue_complete_def sample_queue_defs Let_def)
  then obtain q' where q': "queue_complete sample_from_str ''e-1'' ''done'' sample_queue = (Ok (IpcResponse_success ''done''), q')"
    by (metis prod.collapse)
  with completion_recorded_once [OF ok sample_in_flight q'] show ?thesis by blast
qed

end
