(* ===== verification/Upgrade_Identity.thy ===== *)
theory Upgrade_Identity
  imports Prelude
begin

text \<open>
  Build identities (\<open>src/build_identity.rs\<close>) and the comparison of a running build with a staged
  one (\<open>src/upgrade_identity.rs\<close>).  The texts the build script embeds are the argument of
  \<open>from_embedded\<close>; the package version is an argument of \<open>UpgradeIdentity_current\<close>.
\<close>

section \<open>Build identity\<close>

definition BUILD_IDENTITY_SCHEMA_VERSION :: u32 where
  "BUILD_IDENTITY_SCHEMA_VERSION = 1"

definition UNKNOWN :: string where
  "UNKNOWN = ''unknown''"

definition BUILD_IDENTITY_SCHEMA_VERSION_STR :: string where
  "BUILD_IDENTITY_SCHEMA_VERSION_STR = ''1''"

datatype DirtyState = DirtyState_Clean | DirtyState_Dirty | DirtyState_Unknown

record BuildIdentity =
  bi_schema_version :: u32
  bi_git_commit :: string
  bi_git_dirty :: DirtyState
  bi_cargo_lock_sha256 :: string
  bi_artifact_manifest_sha256 :: string
  bi_profile :: string

record EmbeddedIdentity =
  em_schema_version :: "string option"
  em_git_commit :: "string option"
  em_git_dirty :: "string option"
  em_cargo_lock_sha256 :: "string option"
  em_artifact_manifest_sha256 :: "string option"
  em_profile :: "string option"

definition is_lower_hex :: "char \<Rightarrow> bool" where
  "is_lower_hex byte = (is_ascii_digit byte \<or> (97 :: nat) \<le> of_char byte \<and> of_char byte \<le> (102 :: nat))"

definition valid_hex :: "string option \<Rightarrow> nat list \<Rightarrow> string" where
  "valid_hex text lengths =
     (case text of
        None \<Rightarrow> UNKNOWN
      | Some v \<Rightarrow> if length v \<in> set lengths \<and> list_all is_lower_hex v then v else UNKNOWN)"

definition dirty_of :: "string option \<Rightarrow> DirtyState" where
  "dirty_of text =
     (if text = Some ''false'' then DirtyState_Clean
      else if text = Some ''true'' then DirtyState_Dirty
      else DirtyState_Unknown)"

definition profile_of :: "string option \<Rightarrow> string" where
  "profile_of text =
     (case text of
        None \<Rightarrow> UNKNOWN
      | Some profile \<Rightarrow>
          if profile = ''dev'' \<or> profile = ''release-fast'' \<or> profile = ''release'' then profile else UNKNOWN)"

definition from_embedded :: "EmbeddedIdentity \<Rightarrow> BuildIdentity" where
  "from_embedded embedded =
     (let schema_is_current = (em_schema_version embedded = Some BUILD_IDENTITY_SCHEMA_VERSION_STR) in
      \<lparr>bi_schema_version = BUILD_IDENTITY_SCHEMA_VERSION,
       bi_git_commit = (if schema_is_current then valid_hex (em_git_commit embedded) [40, 64] else UNKNOWN),
       bi_git_dirty = (if schema_is_current then dirty_of (em_git_dirty embedded) else DirtyState_Unknown),
       bi_cargo_lock_sha256 =
         (if schema_is_current then valid_hex (em_cargo_lock_sha256 embedded) [64] else UNKNOWN),
       bi_artifact_manifest_sha256 =
         (if schema_is_current then valid_hex (em_artifact_manifest_sha256 embedded) [64] else UNKNOWN),
       bi_profile = (if schema_is_current then profile_of (em_profile embedded) else UNKNOWN)\<rparr>)"

definition is_complete :: "BuildIdentity \<Rightarrow> bool" where
  "is_complete b \<longleftrightarrow>
     bi_git_commit b \<noteq> UNKNOWN \<and> bi_git_dirty b \<noteq> DirtyState_Unknown \<and> bi_cargo_lock_sha256 b \<noteq> UNKNOWN
     \<and> bi_artifact_manifest_sha256 b \<noteq> UNKNOWN \<and> bi_profile b \<noteq> UNKNOWN"

section \<open>Upgrade identity\<close>

record UpgradeIdentity =
  ui_protocol_version :: "u32 option"
  ui_version :: "string option"
  ui_git_commit :: "string option"
  ui_profile :: "string option"
  ui_cargo_lock_sha256 :: "string option"
  ui_artifact_manifest_sha256 :: "string option"

datatype UpgradeIdentityField =
    ProtocolVersion | Version | GitCommit | Profile | CargoLockSha256 | ArtifactManifestSha256

datatype UpgradeIdentityStatus = Same | Stale | Incompatible | Unknown

datatype UpgradeIdentityReason =
    Identical
  | MissingFields "UpgradeIdentityField list" "UpgradeIdentityField list"
  | ProtocolIncompatible u32 u32
  | FieldsChanged "UpgradeIdentityField list"

record UpgradeIdentityComparison =
  cmp_status :: UpgradeIdentityStatus
  cmp_reasons :: "UpgradeIdentityReason list"

definition known_text :: "string \<Rightarrow> string option" where
  "known_text v = (if v \<noteq> ''unknown'' \<and> \<not> is_blank v then Some v else None)"

definition UpgradeIdentity_current :: "string \<Rightarrow> BuildIdentity \<Rightarrow> u32 \<Rightarrow> UpgradeIdentity" where
  "UpgradeIdentity_current package_version build protocol_version =
     \<lparr>ui_protocol_version = Some protocol_version,
      ui_version = Some package_version,
      ui_git_commit = known_text (bi_git_commit build),
      ui_profile = known_text (bi_profile build),
      ui_cargo_lock_sha256 = known_text (bi_cargo_lock_sha256 build),
      ui_artifact_manifest_sha256 = known_text (bi_artifact_manifest_sha256 build)\<rparr>"

definition is_missing_text :: "string option \<Rightarrow> bool" where
  "is_missing_text v = (case v of None \<Rightarrow> True | Some t \<Rightarrow> is_blank t)"

definition missing_fields :: "UpgradeIdentity \<Rightarrow> UpgradeIdentityField list" where
  "missing_fields u =
     (if ui_protocol_version u = None then [ProtocolVersion] else [])
     @ (if is_missing_text (ui_version u) then [Version] else [])
     @ (if is_missing_text (ui_git_commit u) then [GitCommit] else [])
     @ (if is_missing_text (ui_profile u) then [Profile] else [])
     @ (if is_missing_text (ui_cargo_lock_sha256 u) then [CargoLockSha256] else [])
     @ (if is_missing_text (ui_artifact_manifest_sha256 u) then [ArtifactManifestSha256] else [])"

definition changed_fields :: "UpgradeIdentity \<Rightarrow> UpgradeIdentity \<Rightarrow> UpgradeIdentityField list" where
  "changed_fields u staged =
     (if ui_version u \<noteq> ui_version staged then [Version] else [])
     @ (if ui_git_commit u \<noteq> ui_git_commit staged then [GitCommit] else [])
     @ (if ui_profile u \<noteq> ui_profile staged then [Profile] else [])
     @ (if ui_cargo_lock_sha256 u \<noteq> ui_cargo_lock_sha256 staged then [CargoLockSha256] else [])
     @ (if ui_artifact_manifest_sha256 u \<noteq> ui_artifact_manifest_sha256 staged
        then [ArtifactManifestSha256] else [])"

text \<open>
  \<open>compare_staged\<close>; the two \<open>expect\<close> calls read a protocol version that is present, since
  \<open>missing_fields\<close> is empty there (\<open>the\<close> is never applied to \<open>None\<close>).
\<close>

definition compare_staged :: "UpgradeIdentity \<Rightarrow> UpgradeIdentity \<Rightarrow> UpgradeIdentityComparison" where
  "compare_staged u staged =
     (let running_missing = missing_fields u; staged_missing = missing_fields staged in
      if running_missing \<noteq> [] \<or> staged_missing \<noteq> []
      then \<lparr>cmp_status = Unknown, cmp_reasons = [MissingFields running_missing staged_missing]\<rparr>
      else
        let running_protocol = the (ui_protocol_version u); staged_protocol = the (ui_protocol_version staged) in
        if running_protocol \<noteq> staged_protocol
        then \<lparr>cmp_status = Incompatible, cmp_reasons = [ProtocolIncompatible running_protocol staged_protocol]\<rparr>
        else
          let changed = changed_fields u staged in
          if changed = [] then \<lparr>cmp_status = Same, cmp_reasons = [Identical]\<rparr>
          else \<lparr>cmp_status = Stale, cmp_reasons = [FieldsChanged changed]\<rparr>)"

fun UpgradeIdentityStatus_as_str :: "UpgradeIdentityStatus \<Rightarrow> string" where
  "UpgradeIdentityStatus_as_str Same = ''same''"
| "UpgradeIdentityStatus_as_str Stale = ''stale''"
| "UpgradeIdentityStatus_as_str Incompatible = ''incompatible''"
| "UpgradeIdentityStatus_as_str Unknown = ''unknown''"

fun UpgradeIdentityField_as_str :: "UpgradeIdentityField \<Rightarrow> string" where
  "UpgradeIdentityField_as_str ProtocolVersion = ''protocol_version''"
| "UpgradeIdentityField_as_str Version = ''version''"
| "UpgradeIdentityField_as_str GitCommit = ''git_commit''"
| "UpgradeIdentityField_as_str Profile = ''profile''"
| "UpgradeIdentityField_as_str CargoLockSha256 = ''cargo_lock_sha256''"
| "UpgradeIdentityField_as_str ArtifactManifestSha256 = ''artifact_manifest_sha256''"

definition field_names :: "UpgradeIdentityField list \<Rightarrow> string" where
  "field_names changed = join '', '' (map UpgradeIdentityField_as_str changed)"

definition explanation :: "UpgradeIdentityComparison \<Rightarrow> string" where
  "explanation c =
     (case cmp_reasons c of
        [Identical] \<Rightarrow> ''running and staged build identities match''
      | [MissingFields running staged] \<Rightarrow>
          ''identity is incomplete: ''
          @ join ''; ''
              ((if running \<noteq> [] then [''running is missing '' @ field_names running] else [])
               @ (if staged \<noteq> [] then [''staged is missing '' @ field_names staged] else []))
      | [ProtocolIncompatible running staged] \<Rightarrow>
          ''protocol versions are incompatible: running '' @ show_nat (unat running)
          @ '', staged '' @ show_nat (unat staged)
      | [FieldsChanged changed] \<Rightarrow>
          ''staged build differs from running build in '' @ field_names changed
      | _ \<Rightarrow> ''upgrade identity status is '' @ UpgradeIdentityStatus_as_str (cmp_status c))"

section \<open>The comparison is exact\<close>

text \<open>The value of a field, as the comparison sees it; a present protocol version is never blank.\<close>

fun field_value :: "UpgradeIdentityField \<Rightarrow> UpgradeIdentity \<Rightarrow> u32 option \<times> string option" where
  "field_value ProtocolVersion u = (ui_protocol_version u, None)"
| "field_value Version u = (None, ui_version u)"
| "field_value GitCommit u = (None, ui_git_commit u)"
| "field_value Profile u = (None, ui_profile u)"
| "field_value CargoLockSha256 u = (None, ui_cargo_lock_sha256 u)"
| "field_value ArtifactManifestSha256 u = (None, ui_artifact_manifest_sha256 u)"

definition complete :: "UpgradeIdentity \<Rightarrow> bool" where
  "complete u \<longleftrightarrow> (\<exists>p. ui_protocol_version u = Some p)
     \<and> (\<forall>t \<in> {ui_version u, ui_git_commit u, ui_profile u, ui_cargo_lock_sha256 u, ui_artifact_manifest_sha256 u}.
          \<exists>v. t = Some v \<and> \<not> is_blank v)"

lemma not_missing_text: "\<not> is_missing_text t \<longleftrightarrow> (\<exists>v. t = Some v \<and> \<not> is_blank v)"
  by (cases t) (simp_all add: is_missing_text_def)

lemma missing_fields_Nil_iff: "missing_fields u = [] \<longleftrightarrow> complete u"
  by (auto simp: missing_fields_def complete_def simp flip: not_missing_text)

lemma set_changed_fields:
  "ui_protocol_version u = ui_protocol_version s \<Longrightarrow>
   set (changed_fields u s) = {f. field_value f u \<noteq> field_value f s}"
proof (rule set_eqI)
  fix f assume "ui_protocol_version u = ui_protocol_version s"
  then show "f \<in> set (changed_fields u s) \<longleftrightarrow> f \<in> {f. field_value f u \<noteq> field_value f s}"
    by (cases f) (auto simp: changed_fields_def)
qed

lemma changed_fields_distinct: "distinct (changed_fields u s)"
  by (simp add: changed_fields_def)

lemma identity_eq_iff: "u = (s :: UpgradeIdentity) \<longleftrightarrow> (\<forall>f. field_value f u = field_value f s)"
proof
  assume all: "\<forall>f. field_value f u = field_value f s"
  note all [rule_format, of ProtocolVersion] all [rule_format, of Version] all [rule_format, of GitCommit]
    all [rule_format, of Profile] all [rule_format, of CargoLockSha256] all [rule_format, of ArtifactManifestSha256]
  then show "u = s" by (intro UpgradeIdentity.equality) simp_all
qed simp

lemma changed_fields_Nil_iff:
  "ui_protocol_version u = ui_protocol_version s \<Longrightarrow> changed_fields u s = [] \<longleftrightarrow> u = s"
  unfolding identity_eq_iff using set_changed_fields [of u s] by (auto simp flip: set_empty)

text \<open>
  The comparison of a running and a staged build identity decides exactly: unknown when either
  is incomplete, incompatible when two complete identities have different protocol versions, same
  when they are equal, and stale otherwise, naming exactly the fields that differ, each once.
\<close>

theorem compare_staged_exact:
  "(cmp_status (compare_staged u s) = Unknown \<longleftrightarrow> \<not> (complete u \<and> complete s))
   \<and> (cmp_status (compare_staged u s) = Incompatible \<longleftrightarrow>
        complete u \<and> complete s \<and> ui_protocol_version u \<noteq> ui_protocol_version s)
   \<and> (cmp_status (compare_staged u s) = Same \<longleftrightarrow> complete u \<and> u = s)
   \<and> (cmp_status (compare_staged u s) = Stale \<longleftrightarrow>
        (\<exists>changed. cmp_reasons (compare_staged u s) = [FieldsChanged changed]
           \<and> distinct changed \<and> changed \<noteq> [] \<and> set changed = {f. field_value f u \<noteq> field_value f s}))"
proof (cases "complete u \<and> complete s")
  case False
  then show ?thesis by (auto simp: compare_staged_def missing_fields_Nil_iff)
next
  case True
  then obtain p q where pq: "ui_protocol_version u = Some p" "ui_protocol_version s = Some q"
    by (auto simp: complete_def)
  show ?thesis
  proof (cases "p = q")
    case False
    with True pq show ?thesis by (auto simp: compare_staged_def missing_fields_Nil_iff)
  next
    case eq: True
    with pq have "ui_protocol_version u = ui_protocol_version s" by simp
    note facts = changed_fields_Nil_iff [OF this] set_changed_fields [OF this]
    show ?thesis
      using True pq eq facts changed_fields_distinct [of u s]
      by (cases "u = s") (auto simp: compare_staged_def missing_fields_Nil_iff)
  qed
qed

section \<open>What a build says about itself\<close>

lemma printable_not_blank: "33 \<le> (of_char c :: nat) \<Longrightarrow> of_char c \<le> (127 :: nat) \<Longrightarrow> \<not> is_blank (c # cs)"
  by (cases cs; cases "tl cs") (simp_all add: ascii_space_def wide_space_def)

lemma hex_not_blank: "list_all is_lower_hex v \<Longrightarrow> v \<noteq> [] \<Longrightarrow> \<not> is_blank v"
proof (cases v)
  case (Cons c cs)
  assume "list_all is_lower_hex v"
  with Cons have "33 \<le> (of_char c :: nat) \<and> of_char c \<le> (127 :: nat)"
    by (simp add: is_lower_hex_def is_ascii_digit_def) linarith
  with Cons show ?thesis using printable_not_blank by blast
qed simp

lemma hex_not_unknown: "list_all is_lower_hex v \<Longrightarrow> v \<noteq> ''unknown''"
  by (auto simp: is_lower_hex_def is_ascii_digit_def)

lemma known_valid_hex:
  assumes "0 \<notin> set lengths"
  shows "known_text (valid_hex t lengths) = (case t of None \<Rightarrow> None | Some v \<Rightarrow>
           if length v \<in> set lengths \<and> list_all is_lower_hex v then Some v else None)"
proof (cases t)
  case (Some v)
  have "v \<noteq> []" if "length v \<in> set lengths" using that assms by auto
  with Some hex_not_blank [of v] hex_not_unknown [of v] show ?thesis
    by (auto simp: known_text_def valid_hex_def UNKNOWN_def)
qed (simp add: known_text_def valid_hex_def UNKNOWN_def)

lemma known_unknown: "known_text UNKNOWN = None"
  by (simp add: known_text_def UNKNOWN_def)

lemma known_profile:
  "known_text (profile_of t) = (if t \<in> {Some ''dev'', Some ''release-fast'', Some ''release''} then t else None)"
  by (auto simp: known_text_def profile_of_def UNKNOWN_def ascii_space_def wide_space_def split: option.splits)

definition embedded_hex :: "nat list \<Rightarrow> string option \<Rightarrow> bool" where
  "embedded_hex lengths t \<longleftrightarrow> (\<exists>v. t = Some v \<and> length v \<in> set lengths \<and> list_all is_lower_hex v)"

lemma present_valid_hex:
  "0 \<notin> set lengths \<Longrightarrow>
   (\<exists>v. known_text (valid_hex t lengths) = Some v \<and> \<not> is_blank v) \<longleftrightarrow> embedded_hex lengths t"
  by (cases t) (auto simp: known_valid_hex embedded_hex_def dest: hex_not_blank)

lemma present_profile:
  "(\<exists>v. known_text (profile_of t) = Some v \<and> \<not> is_blank v) \<longleftrightarrow>
   t \<in> {Some ''dev'', Some ''release-fast'', Some ''release''}"
  by (auto simp: known_profile ascii_space_def wide_space_def)

text \<open>
  A build compares as the same as itself exactly when its package version is not blank and the
  build script embedded, under the current schema, a full hexadecimal commit, both SHA-256 sums
  and a known profile; in every other case the identity is reported as unknown, never as stale.
\<close>

theorem build_knows_itself:
  "cmp_status (compare_staged (UpgradeIdentity_current v (from_embedded e) p) (UpgradeIdentity_current v (from_embedded e) p)) =
     (if \<not> is_blank v \<and> em_schema_version e = Some ''1''
         \<and> embedded_hex [40, 64] (em_git_commit e) \<and> embedded_hex [64] (em_cargo_lock_sha256 e)
         \<and> embedded_hex [64] (em_artifact_manifest_sha256 e)
         \<and> em_profile e \<in> {Some ''dev'', Some ''release-fast'', Some ''release''}
      then Same else Unknown)"
proof -
  let ?u = "UpgradeIdentity_current v (from_embedded e) p"
  have "complete ?u \<longleftrightarrow> \<not> is_blank v \<and> em_schema_version e = Some ''1''
         \<and> embedded_hex [40, 64] (em_git_commit e) \<and> embedded_hex [64] (em_cargo_lock_sha256 e)
         \<and> embedded_hex [64] (em_artifact_manifest_sha256 e)
         \<and> em_profile e \<in> {Some ''dev'', Some ''release-fast'', Some ''release''}"
    by (cases "em_schema_version e = Some ''1''")
       (auto simp: complete_def UpgradeIdentity_current_def from_embedded_def Let_def known_unknown
          BUILD_IDENTITY_SCHEMA_VERSION_STR_def present_valid_hex present_profile)
  moreover have "cmp_status (compare_staged ?u ?u) = (if complete ?u then Same else Unknown)"
    by (auto simp: compare_staged_def missing_fields_Nil_iff changed_fields_def Let_def)
  ultimately show ?thesis by simp
qed

end
