(* ===== verification/Ui_Lease.thy ===== *)
theory Ui_Lease
  imports Upgrade_Identity
begin

text \<open>
  Leases of interactive GUI clients (\<open>src/ui_lease.rs\<close>).  The process-wide counter
  \<open>NEXT_LEASE_ID\<close> is threaded through \<open>attach\<close> (\<open>fetch_add\<close> wraps), the process id and the clock
  are arguments, and \<open>process_is_alive\<close> is the predicate the caller passes to \<open>reap_stale\<close>.
\<close>

section \<open>Model\<close>

definition UI_CLIENT_ID_MAX_BYTES :: nat where
  "UI_CLIENT_ID_MAX_BYTES = 128"

definition UI_LEASE_TTL_MS :: u64 where
  "UI_LEASE_TTL_MS = 5000"

definition UI_LEASE_MAX_CLIENTS :: nat where
  "UI_LEASE_MAX_CLIENTS = 16"

record UiLeaseRecord =
  ul_lease_id :: string
  ul_client_id :: string
  ul_client_pid :: u32
  ul_client_build :: "UpgradeIdentity option"
  ul_expires_unix_ms :: u64
  ul_observed_sequence :: u64

datatype UiLeaseError =
    InvalidClientId | InvalidClientPid | InvalidLeaseId | LeaseConflict | NotAttached | OwnerMismatch
  | InvalidObservedSequence

fun UiLeaseError_code :: "UiLeaseError \<Rightarrow> string" where
  "UiLeaseError_code InvalidClientId = ''ui_lease_client_id_invalid''"
| "UiLeaseError_code InvalidClientPid = ''ui_lease_client_pid_invalid''"
| "UiLeaseError_code InvalidLeaseId = ''ui_lease_id_invalid''"
| "UiLeaseError_code LeaseConflict = ''ui_lease_conflict''"
| "UiLeaseError_code NotAttached = ''ui_lease_not_attached''"
| "UiLeaseError_code OwnerMismatch = ''ui_lease_owner_mismatch''"
| "UiLeaseError_code InvalidObservedSequence = ''ui_lease_observed_sequence_invalid''"

fun UiLeaseError_category :: "UiLeaseError \<Rightarrow> string" where
  "UiLeaseError_category InvalidClientId = ''validation''"
| "UiLeaseError_category InvalidClientPid = ''validation''"
| "UiLeaseError_category InvalidLeaseId = ''validation''"
| "UiLeaseError_category InvalidObservedSequence = ''validation''"
| "UiLeaseError_category LeaseConflict = ''conflict''"
| "UiLeaseError_category NotAttached = ''availability''"
| "UiLeaseError_category OwnerMismatch = ''conflict''"

definition UiLeaseError_retryable :: "UiLeaseError \<Rightarrow> bool" where
  "UiLeaseError_retryable e = (case e of LeaseConflict \<Rightarrow> True | NotAttached \<Rightarrow> True | _ \<Rightarrow> False)"

fun UiLeaseError_message :: "UiLeaseError \<Rightarrow> string" where
  "UiLeaseError_message InvalidClientId = ''UI lease client ID is empty, oversized, or contains controls''"
| "UiLeaseError_message InvalidClientPid = ''UI lease client PID must identify a live nonzero process''"
| "UiLeaseError_message InvalidLeaseId = ''UI lease ID is empty, oversized, or contains controls''"
| "UiLeaseError_message LeaseConflict = ''too many concurrent interactive UI leases on this server''"
| "UiLeaseError_message NotAttached = ''no live UI lease matches the supplied identity''"
| "UiLeaseError_message OwnerMismatch = ''UI lease ID or client PID does not match a live lease''"
| "UiLeaseError_message InvalidObservedSequence =
     ''UI observed sequence must advance monotonically within the current journal''"

record UiLeaseAuthority =
  la_leases :: "UiLeaseRecord list"

definition lease_active :: "UiLeaseAuthority \<Rightarrow> UiLeaseRecord option" where
  "lease_active a = (case la_leases a of [] \<Rightarrow> None | l # _ \<Rightarrow> Some l)"

definition validate_client_id :: "string \<Rightarrow> UiLeaseError + unit" where
  "validate_client_id client_id =
     (if client_id = [] \<or> UI_CLIENT_ID_MAX_BYTES < length client_id \<or> has_control client_id
      then Err InvalidClientId else Ok ())"

definition validate_lease_id :: "string \<Rightarrow> UiLeaseError + unit" where
  "validate_lease_id lease_id =
     (if lease_id = [] \<or> UI_CLIENT_ID_MAX_BYTES < length lease_id \<or> has_control lease_id
      then Err InvalidLeaseId else Ok ())"

definition verify_owner :: "UiLeaseAuthority \<Rightarrow> string \<Rightarrow> u32 \<Rightarrow> UiLeaseError + UiLeaseRecord" where
  "verify_owner a lease_id client_pid =
     and_then (validate_lease_id lease_id)
       (\<lambda>_. ok_or (if la_leases a = [] then NotAttached else OwnerMismatch)
          (find (\<lambda>lease. ul_lease_id lease = lease_id \<and> ul_client_pid lease = client_pid) (la_leases a)))"

text \<open>The mutable reference \<open>find_mut\<close> returns is the position of the record.\<close>

definition lease_find_mut :: "UiLeaseAuthority \<Rightarrow> string \<Rightarrow> u32 \<Rightarrow> UiLeaseError + nat" where
  "lease_find_mut a lease_id client_pid =
     and_then (validate_lease_id lease_id)
       (\<lambda>_. ok_or (if la_leases a = [] then NotAttached else OwnerMismatch)
          (position (\<lambda>lease. ul_lease_id lease = lease_id \<and> ul_client_pid lease = client_pid) (la_leases a)))"

definition lease_id_text :: "u32 \<Rightarrow> u64 \<Rightarrow> u64 \<Rightarrow> string" where
  "lease_id_text process_id now_unix_ms sequence =
     ''ui-'' @ show_hex (unat process_id) @ ''-'' @ show_hex (unat now_unix_ms) @ ''-'' @ show_hex (unat sequence)"

definition attach ::
  "u32 \<Rightarrow> UiLeaseAuthority \<times> u64 \<Rightarrow> string \<Rightarrow> u32 \<Rightarrow> UpgradeIdentity option \<Rightarrow> u64
   \<Rightarrow> (UiLeaseError + UiLeaseRecord \<times> bool) \<times> UiLeaseAuthority \<times> u64" where
  "attach process_id st client_id client_pid client_build now_unix_ms =
     (case st of (a, next_lease_id) \<Rightarrow>
      case validate_client_id client_id of
        Inl e \<Rightarrow> (Err e, a, next_lease_id)
      | Inr _ \<Rightarrow>
          if client_pid = 0 then (Err InvalidClientPid, a, next_lease_id)
          else (case position (\<lambda>lease. ul_client_id lease = client_id \<and> ul_client_pid lease = client_pid)
                       (la_leases a) of
            Some i \<Rightarrow>
              let renewed = (la_leases a ! i)\<lparr>ul_client_build := client_build,
                    ul_expires_unix_ms := saturating_add now_unix_ms UI_LEASE_TTL_MS\<rparr>
              in (Ok (renewed, False), a\<lparr>la_leases := (la_leases a)[i := renewed]\<rparr>, next_lease_id)
          | None \<Rightarrow>
              if UI_LEASE_MAX_CLIENTS \<le> length (la_leases a) then (Err LeaseConflict, a, next_lease_id)
              else
                let sequence = next_lease_id;
                    lease = \<lparr>ul_lease_id = lease_id_text process_id now_unix_ms sequence,
                      ul_client_id = client_id, ul_client_pid = client_pid, ul_client_build = client_build,
                      ul_expires_unix_ms = saturating_add now_unix_ms UI_LEASE_TTL_MS,
                      ul_observed_sequence = 0\<rparr>
                in (Ok (lease, True), a\<lparr>la_leases := la_leases a @ [lease]\<rparr>, next_lease_id + 1)))"

definition heartbeat ::
  "UiLeaseAuthority \<Rightarrow> string \<Rightarrow> u32 \<Rightarrow> u64 \<Rightarrow> (UiLeaseError + UiLeaseRecord) \<times> UiLeaseAuthority" where
  "heartbeat a lease_id client_pid now_unix_ms =
     (case lease_find_mut a lease_id client_pid of
        Inl e \<Rightarrow> (Err e, a)
      | Inr i \<Rightarrow>
          let lease = (la_leases a ! i)\<lparr>ul_expires_unix_ms := saturating_add now_unix_ms UI_LEASE_TTL_MS\<rparr>
          in (Ok lease, a\<lparr>la_leases := (la_leases a)[i := lease]\<rparr>))"

definition detach :: "UiLeaseAuthority \<Rightarrow> string \<Rightarrow> u32 \<Rightarrow> (UiLeaseError + UiLeaseRecord) \<times> UiLeaseAuthority" where
  "detach a lease_id client_pid =
     (case lease_find_mut a lease_id client_pid of
        Inl e \<Rightarrow> (Err e, a)
      | Inr i \<Rightarrow> (Ok (la_leases a ! i), a\<lparr>la_leases := remove_at i (la_leases a)\<rparr>))"

definition acknowledge ::
  "UiLeaseAuthority \<Rightarrow> string \<Rightarrow> u32 \<Rightarrow> u64 \<Rightarrow> u64 \<Rightarrow> u64 \<Rightarrow> (UiLeaseError + UiLeaseRecord) \<times> UiLeaseAuthority" where
  "acknowledge a lease_id client_pid observed_sequence current_sequence now_unix_ms =
     (case lease_find_mut a lease_id client_pid of
        Inl e \<Rightarrow> (Err e, a)
      | Inr i \<Rightarrow>
          if observed_sequence < ul_observed_sequence (la_leases a ! i) \<or> current_sequence < observed_sequence
          then (Err InvalidObservedSequence, a)
          else
            let lease = (la_leases a ! i)\<lparr>ul_observed_sequence := observed_sequence,
                  ul_expires_unix_ms := saturating_add now_unix_ms UI_LEASE_TTL_MS\<rparr>
            in (Ok lease, a\<lparr>la_leases := (la_leases a)[i := lease]\<rparr>))"

definition stale_reason :: "u64 \<Rightarrow> (u32 \<Rightarrow> bool) \<Rightarrow> UiLeaseRecord \<Rightarrow> string option" where
  "stale_reason now_unix_ms process_is_alive lease =
     (if ul_expires_unix_ms lease \<le> now_unix_ms then Some ''expired''
      else if \<not> process_is_alive (ul_client_pid lease) then Some ''client_exited''
      else None)"

definition reap_stale ::
  "UiLeaseAuthority \<Rightarrow> u64 \<Rightarrow> (u32 \<Rightarrow> bool) \<Rightarrow> (UiLeaseRecord \<times> string) list \<times> UiLeaseAuthority" where
  "reap_stale a now_unix_ms process_is_alive =
     (List.map_filter (\<lambda>lease. map_option (Pair lease) (stale_reason now_unix_ms process_is_alive lease)) (la_leases a),
      a\<lparr>la_leases := filter (\<lambda>lease. stale_reason now_unix_ms process_is_alive lease = None) (la_leases a)\<rparr>)"

section \<open>Runs\<close>

datatype lease_op =
    Attach string u32 "UpgradeIdentity option" u64
  | Heartbeat string u32 u64
  | Detach string u32
  | Acknowledge string u32 u64 u64 u64
  | Reap u64 "u32 \<Rightarrow> bool"

fun lease_step :: "u32 \<Rightarrow> lease_op \<Rightarrow> UiLeaseAuthority \<times> u64 \<Rightarrow> UiLeaseAuthority \<times> u64" where
  "lease_step process_id (Attach c p b now) st = snd (attach process_id st c p b now)"
| "lease_step process_id (Heartbeat l p now) (a, n) = (snd (heartbeat a l p now), n)"
| "lease_step process_id (Detach l p) (a, n) = (snd (detach a l p), n)"
| "lease_step process_id (Acknowledge l p obs cur now) (a, n) = (snd (acknowledge a l p obs cur now), n)"
| "lease_step process_id (Reap now alive) (a, n) = (snd (reap_stale a now alive), n)"

definition lease_run :: "u32 \<Rightarrow> lease_op list \<Rightarrow> UiLeaseAuthority \<times> u64" where
  "lease_run process_id ops = fold (lease_step process_id) ops (\<lparr>la_leases = []\<rparr>, 1)"

section \<open>Lease identifiers\<close>

lemma last_component_eq:
  assumes "d \<notin> set b" and "d \<notin> set b'" and "xs @ d # b = ys @ d # b'"
  shows "b = b'"
proof -
  have "takeWhile (\<lambda>c. c \<noteq> d) (rev b @ d # rev xs) = takeWhile (\<lambda>c. c \<noteq> d) (rev b' @ d # rev ys)"
    using arg_cong [OF assms(3), of rev] by simp
  moreover have "takeWhile (\<lambda>c. c \<noteq> d) (rev b @ d # rev xs) = rev b"
    using assms(1) by (subst takeWhile_append2) auto
  moreover have "takeWhile (\<lambda>c. c \<noteq> d) (rev b' @ d # rev ys) = rev b'"
    using assms(2) by (subst takeWhile_append2) auto
  ultimately show ?thesis by simp
qed

lemma lease_id_text_inj: "lease_id_text p t n = lease_id_text p' t' n' \<Longrightarrow> n = n'"
proof -
  assume eq: "lease_id_text p t n = lease_id_text p' t' n'"
  have "(''ui-'' @ show_hex (unat p) @ ''-'' @ show_hex (unat t)) @ CHR ''-'' # show_hex (unat n)
      = (''ui-'' @ show_hex (unat p') @ ''-'' @ show_hex (unat t')) @ CHR ''-'' # show_hex (unat n')"
    using eq by (simp add: lease_id_text_def)
  then have "show_hex (unat n) = show_hex (unat n')"
    by (rule last_component_eq [rotated 2]) (simp_all add: show_hex_def show_base_dash_free)
  then show ?thesis using show_base_inj [of 16 "unat n" "unat n'"] by (simp add: show_hex_def word_unat_eq_iff)
qed

lemma digit_char_plain: "d < 16 \<Longrightarrow> 48 \<le> (of_char (digit_char d) :: nat) \<and> (of_char (digit_char d) :: nat) < 127"
  by (auto simp: digit_char_def of_char_of)

lemma show_hex_plain: "c \<in> set (show_hex n) \<Longrightarrow> 48 \<le> (of_char c :: nat) \<and> (of_char c :: nat) < 127"
  unfolding show_hex_def
proof (induction "16 :: nat" n rule: show_base.induct)
  case (1 n)
  show ?case
  proof (cases "n < 16")
    case True
    with "1.prems" have "c = digit_char n" by (simp add: show_base.simps [of 16 n])
    with True show ?thesis using digit_char_plain by blast
  next
    case False
    with "1.prems" have "c \<in> set (show_base 16 (n div 16)) \<or> c = digit_char (n mod 16)"
      by (auto simp: show_base.simps [of 16 n])
    then show ?thesis
    proof
      assume "c \<in> set (show_base 16 (n div 16))"
      with "1.hyps" False show ?thesis by simp
    next
      assume "c = digit_char (n mod 16)"
      then show ?thesis using digit_char_plain [of "n mod 16"] by simp
    qed
  qed
qed

lemma plain_no_control: "(\<And>c. c \<in> set s \<Longrightarrow> 32 \<le> (of_char c :: nat) \<and> (of_char c :: nat) < 127) \<Longrightarrow> \<not> has_control s"
proof (induction s)
  case (Cons c s)
  then have "32 \<le> (of_char c :: nat) \<and> (of_char c :: nat) < 127" "\<not> has_control s" by auto
  then show ?case by (simp add: is_ascii_control_def)
qed simp

lemma lease_id_text_valid: "validate_lease_id (lease_id_text p t n) = Ok ()"
proof -
  have len: "length (show_hex k) \<le> 16" if "k < 2 ^ 64" for k
    using length_show_base [of 16 k 16] that by (simp add: show_hex_def)
  have "unat p < 2 ^ LENGTH(32)" by (rule unsigned_less)
  then have "unat p < 2 ^ 64" by simp
  moreover have "unat t < 2 ^ 64" "unat n < 2 ^ 64" using unsigned_less [of t] unsigned_less [of n] by simp_all
  ultimately have "length (lease_id_text p t n) \<le> UI_CLIENT_ID_MAX_BYTES"
    using len [of "unat p"] len [of "unat t"] len [of "unat n"]
    by (simp add: lease_id_text_def UI_CLIENT_ID_MAX_BYTES_def)
  moreover have "\<not> has_control (lease_id_text p t n)"
    by (rule plain_no_control) (fastforce simp: lease_id_text_def dest: show_hex_plain)
  ultimately show ?thesis by (simp add: validate_lease_id_def lease_id_text_def)
qed

section \<open>The lease table\<close>

abbreviation lease_key :: "UiLeaseRecord \<Rightarrow> string \<times> u32" where
  "lease_key l \<equiv> (ul_lease_id l, ul_client_pid l)"

abbreviation client_key :: "UiLeaseRecord \<Rightarrow> string \<times> u32" where
  "client_key l \<equiv> (ul_client_id l, ul_client_pid l)"

text \<open>
  A lease was issued with one of the sequence numbers below \<open>n\<close> to a client whose identity is
  valid.
\<close>

definition issued :: "u32 \<Rightarrow> nat \<Rightarrow> UiLeaseRecord \<Rightarrow> bool" where
  "issued process_id n l \<longleftrightarrow>
     (\<exists>t k. k < n \<and> ul_lease_id l = lease_id_text process_id t (of_nat k))
     \<and> validate_client_id (ul_client_id l) = Ok () \<and> ul_client_pid l \<noteq> 0"

definition leases_ok :: "u32 \<Rightarrow> nat \<Rightarrow> UiLeaseRecord list \<Rightarrow> bool" where
  "leases_ok process_id n ls \<longleftrightarrow>
     length ls \<le> UI_LEASE_MAX_CLIENTS \<and> distinct (map ul_lease_id ls) \<and> distinct (map client_key ls)
     \<and> (\<forall>l \<in> set ls. issued process_id n l)"

definition authority_ok :: "u32 \<Rightarrow> nat \<Rightarrow> UiLeaseAuthority \<times> u64 \<Rightarrow> bool" where
  "authority_ok process_id n st \<longleftrightarrow> leases_ok process_id n (la_leases (fst st)) \<and> snd st = of_nat n"

lemma issued_mono: "issued process_id n l \<Longrightarrow> n \<le> m \<Longrightarrow> issued process_id m l"
  unfolding issued_def by (meson order_less_le_trans)

lemma leases_ok_mono: "leases_ok process_id n ls \<Longrightarrow> n \<le> m \<Longrightarrow> leases_ok process_id m ls"
  unfolding leases_ok_def using issued_mono by blast

lemma leases_ok_keys: "leases_ok process_id n ls \<Longrightarrow> distinct (map lease_key ls)"
  unfolding leases_ok_def distinct_map inj_on_def by auto

lemma leases_ok_filter: "leases_ok process_id n ls \<Longrightarrow> leases_ok process_id n (filter P ls)"
  unfolding leases_ok_def
  by (auto simp: distinct_map_filter intro: order_trans [OF length_filter_le])

lemma leases_ok_remove_at: "leases_ok process_id n ls \<Longrightarrow> leases_ok process_id n (remove_at i ls)"
proof -
  assume ok: "leases_ok process_id n ls"
  have "length (remove_at i ls) \<le> length ls" by (simp add: remove_at_def)
  with ok show ?thesis
    using set_remove_at_subset [of i ls]
    by (auto simp: leases_ok_def map_remove_at distinct_remove_at)
qed

text \<open>An update in place that keeps a lease's identity.\<close>

lemma leases_ok_update:
  assumes ok: "leases_ok process_id n ls" and i: "i < length ls"
    and same: "ul_lease_id l = ul_lease_id (ls ! i)" "client_key l = client_key (ls ! i)"
  shows "leases_ok process_id n (ls[i := l])"
proof -
  have "map ul_lease_id (ls[i := l]) = map ul_lease_id ls" "map client_key (ls[i := l]) = map client_key ls"
    using map_key_update [OF i, of ul_lease_id l] map_key_update [OF i, of client_key l] same by simp_all
  moreover have "issued process_id n l" using ok i same nth_mem [OF i] by (auto simp: leases_ok_def issued_def)
  then have "\<forall>x \<in> set (ls[i := l]). issued process_id n x"
    using ok set_update_subset_insert [of ls i l] by (auto simp: leases_ok_def)
  ultimately show ?thesis using ok by (simp add: leases_ok_def)
qed

lemma leases_ok_push:
  assumes ok: "leases_ok process_id n ls" and n: "n < 2 ^ 64" and room: "length ls < UI_LEASE_MAX_CLIENTS"
    and client: "validate_client_id (ul_client_id l) = Ok ()" "ul_client_pid l \<noteq> 0"
    and fresh: "client_key l \<notin> client_key ` set ls"
    and lid: "ul_lease_id l = lease_id_text process_id t (of_nat n)"
  shows "leases_ok process_id (Suc n) (ls @ [l])"
proof -
  have "ul_lease_id l \<noteq> ul_lease_id x" if "x \<in> set ls" for x
  proof
    assume eq: "ul_lease_id l = ul_lease_id x"
    from ok that obtain t' k where k: "k < n" "ul_lease_id x = lease_id_text process_id t' (of_nat k)"
      unfolding leases_ok_def issued_def by blast
    with eq lid have "(of_nat n :: u64) = of_nat k" by (metis lease_id_text_inj)
    then have "unat (of_nat n :: u64) = unat (of_nat k :: u64)" by simp
    with k(1) n show False by (simp add: unat_of_nat take_bit_nat_eq_self)
  qed
  moreover have "issued process_id (Suc n) l" using client lid by (auto simp: issued_def)
  moreover have "leases_ok process_id (Suc n) ls" using ok by (rule leases_ok_mono) simp
  ultimately show ?thesis using room fresh by (auto simp: leases_ok_def)
qed

lemma lease_find_mut_Ok_iff:
  assumes "leases_ok process_id n (la_leases a)"
  shows "lease_find_mut a lid p = Ok i \<longleftrightarrow> i < length (la_leases a) \<and> lease_key (la_leases a ! i) = (lid, p)"
proof -
  have d: "distinct (map lease_key (la_leases a))" by (rule leases_ok_keys [OF assms])
  have "position (\<lambda>l. lease_key l = (lid, p)) (la_leases a) = Some i \<longleftrightarrow>
      i < length (la_leases a) \<and> lease_key (la_leases a ! i) = (lid, p)"
  proof
    assume i: "i < length (la_leases a) \<and> lease_key (la_leases a ! i) = (lid, p)"
    then show "position (\<lambda>l. lease_key l = (lid, p)) (la_leases a) = Some i"
      using d by (intro position_SomeI) (auto simp: distinct_conv_nth)
  qed (use position_SomeD in fastforce)
  moreover have "validate_lease_id lid = Ok ()" if "i < length (la_leases a)" "lease_key (la_leases a ! i) = (lid, p)"
  proof -
    have "issued process_id n (la_leases a ! i)" using assms nth_mem [OF that(1)] by (simp add: leases_ok_def)
    with that(2) show ?thesis by (auto simp: issued_def lease_id_text_valid)
  qed
  ultimately show ?thesis
    by (auto simp: lease_find_mut_def result_iffs)
qed

definition lease_table :: "UiLeaseAuthority \<Rightarrow> string \<times> u32 \<Rightarrow> UiLeaseRecord option" where
  "lease_table a = lookup_by lease_key (la_leases a)"

lemma lease_table_nth:
  "leases_ok process_id n (la_leases a) \<Longrightarrow> i < length (la_leases a) \<Longrightarrow>
   lease_table a (lease_key (la_leases a ! i)) = Some (la_leases a ! i)"
  unfolding lease_table_def by (rule lookup_by_distinct [OF leases_ok_keys]) auto

lemma lease_find_mut_cases:
  assumes ok: "leases_ok process_id n (la_leases a)"
  obtains (Found) i where "lease_find_mut a lid p = Ok i" "i < length (la_leases a)"
      "lease_key (la_leases a ! i) = (lid, p)" "lease_table a (lid, p) = Some (la_leases a ! i)"
    | (Missing) e where "lease_find_mut a lid p = Err e" "lease_table a (lid, p) = None"
proof (cases "lease_find_mut a lid p")
  case (Inr i)
  with lease_find_mut_Ok_iff [OF ok] have "i < length (la_leases a)" "lease_key (la_leases a ! i) = (lid, p)"
    by simp_all
  with Inr Found lease_table_nth [OF ok] show ?thesis by metis
next
  case (Inl e)
  have none: "lease_key (la_leases a ! j) \<noteq> (lid, p)" if "j < length (la_leases a)" for j
    using lease_find_mut_Ok_iff [OF ok, of lid p j] Inl that by simp
  have "(lid, p) \<notin> lease_key ` set (la_leases a)"
  proof
    assume "(lid, p) \<in> lease_key ` set (la_leases a)"
    then obtain j where "j < length (la_leases a)" "lease_key (la_leases a ! j) = (lid, p)"
      by (metis (no_types, lifting) imageE in_set_conv_nth)
    with none show False by blast
  qed
  with Inl Missing show ?thesis by (simp add: lease_table_def lookup_by_None_iff)
qed

lemma lease_table_update:
  assumes "leases_ok process_id n (la_leases a)" and "i < length (la_leases a)"
    and "lease_key l = lease_key (la_leases a ! i)"
  shows "lease_table (a\<lparr>la_leases := (la_leases a)[i := l]\<rparr>) = (lease_table a)(lease_key l \<mapsto> l)"
  using lookup_by_update [OF assms(2), of lease_key l] assms leases_ok_keys [OF assms(1)]
  by (simp add: lease_table_def)

text \<open>What \<open>heartbeat\<close>, \<open>acknowledge\<close> and \<open>detach\<close> do to the table of leases.\<close>

lemma heartbeat_table:
  assumes ok: "leases_ok process_id n (la_leases a)"
  shows "case heartbeat a lid p now of
      (Inl _, a') \<Rightarrow> a' = a \<and> lease_table a (lid, p) = None
    | (Inr l, a') \<Rightarrow> \<exists>old. lease_table a (lid, p) = Some old
        \<and> l = old\<lparr>ul_expires_unix_ms := saturating_add now UI_LEASE_TTL_MS\<rparr>
        \<and> lease_table a' = (lease_table a)((lid, p) \<mapsto> l) \<and> leases_ok process_id n (la_leases a')"
  using ok
proof (cases rule: lease_find_mut_cases [of process_id n a lid p])
  case (Found i)
  let ?l = "(la_leases a ! i)\<lparr>ul_expires_unix_ms := saturating_add now UI_LEASE_TTL_MS\<rparr>"
  from Found lease_table_update [OF ok Found(2), of ?l] leases_ok_update [OF ok Found(2), of ?l]
  show ?thesis by (simp add: heartbeat_def Let_def)
qed (simp add: heartbeat_def)

lemma acknowledge_table:
  assumes ok: "leases_ok process_id n (la_leases a)"
  shows "case acknowledge a lid p obs cur now of
      (Inl _, a') \<Rightarrow> a' = a
    | (Inr l, a') \<Rightarrow> \<exists>old. lease_table a (lid, p) = Some old \<and> ul_observed_sequence old \<le> obs \<and> obs \<le> cur
        \<and> l = old\<lparr>ul_observed_sequence := obs, ul_expires_unix_ms := saturating_add now UI_LEASE_TTL_MS\<rparr>
        \<and> lease_table a' = (lease_table a)((lid, p) \<mapsto> l) \<and> leases_ok process_id n (la_leases a')"
  using ok
proof (cases rule: lease_find_mut_cases [of process_id n a lid p])
  case (Found i)
  let ?l = "(la_leases a ! i)\<lparr>ul_observed_sequence := obs, ul_expires_unix_ms := saturating_add now UI_LEASE_TTL_MS\<rparr>"
  from Found lease_table_update [OF ok Found(2), of ?l] leases_ok_update [OF ok Found(2), of ?l]
  show ?thesis by (simp add: acknowledge_def Let_def not_less)
qed (simp add: acknowledge_def)

lemma detach_table:
  assumes ok: "leases_ok process_id n (la_leases a)"
  shows "case detach a lid p of
      (Inl _, a') \<Rightarrow> a' = a \<and> lease_table a (lid, p) = None
    | (Inr l, a') \<Rightarrow> lease_table a (lid, p) = Some l
        \<and> lease_table a' = (lease_table a)((lid, p) := None) \<and> leases_ok process_id n (la_leases a')"
  using ok
proof (cases rule: lease_find_mut_cases [of process_id n a lid p])
  case (Found i)
  with lookup_by_remove_at [OF Found(2) leases_ok_keys [OF ok]] leases_ok_remove_at [OF ok, of i]
  show ?thesis by (simp add: detach_def lease_table_def)
qed (simp add: detach_def)

lemma reap_table:
  assumes ok: "leases_ok process_id n (la_leases a)" and r: "reap_stale a now alive = (removed, a')"
  shows "leases_ok process_id n (la_leases a')"
    and "lease_table a' k = (case lease_table a k of
        None \<Rightarrow> None | Some l \<Rightarrow> if stale_reason now alive l = None then Some l else None)"
    and "set removed = {(l, why). l \<in> set (la_leases a) \<and> stale_reason now alive l = Some why}"
proof -
  from r have a': "la_leases a' = filter (\<lambda>lease. stale_reason now alive lease = None) (la_leases a)"
    by (auto simp: reap_stale_def)
  show "leases_ok process_id n (la_leases a')" unfolding a' by (rule leases_ok_filter [OF ok])
  show "lease_table a' k = (case lease_table a k of
      None \<Rightarrow> None | Some l \<Rightarrow> if stale_reason now alive l = None then Some l else None)"
    unfolding lease_table_def a' by (rule lookup_by_filter [OF leases_ok_keys [OF ok]])
  show "set removed = {(l, why). l \<in> set (la_leases a) \<and> stale_reason now alive l = Some why}"
    using r by (force simp: reap_stale_def map_filter_def)
qed

lemma attach_table:
  assumes ok: "authority_ok process_id n st" and n: "n < 2 ^ 64"
  shows "case attach process_id st c p b now of
      (Inl _, st') \<Rightarrow> st' = st
    | (Inr (l, True), st') \<Rightarrow> client_key l = (c, p) \<and> ul_observed_sequence l = 0
        \<and> lease_table (fst st) (lease_key l) = None
        \<and> lease_table (fst st') = (lease_table (fst st))(lease_key l \<mapsto> l) \<and> authority_ok process_id (Suc n) st'
    | (Inr (l, False), st') \<Rightarrow> \<exists>old. lease_table (fst st) (lease_key l) = Some old \<and> client_key l = (c, p)
        \<and> l = old\<lparr>ul_client_build := b, ul_expires_unix_ms := saturating_add now UI_LEASE_TTL_MS\<rparr>
        \<and> lease_table (fst st') = (lease_table (fst st))(lease_key l \<mapsto> l) \<and> authority_ok process_id n st'"
proof -
  obtain a m where st: "st = (a, m)" by (cases st)
  have ok': "leases_ok process_id n (la_leases a)" and m: "m = of_nat n" using ok by (simp_all add: authority_ok_def st)
  let ?client = "\<lambda>lease. ul_client_id lease = c \<and> ul_client_pid lease = p"
  consider (refused) e where "attach process_id st c p b now = (Err e, st)"
    | (renew) i where "validate_client_id c = Ok ()" "p \<noteq> 0" "position ?client (la_leases a) = Some i"
    | (new) "validate_client_id c = Ok ()" "p \<noteq> 0" "position ?client (la_leases a) = None"
        "length (la_leases a) < UI_LEASE_MAX_CLIENTS"
    by (cases "validate_client_id c"; cases "p = 0"; cases "position ?client (la_leases a)";
        cases "length (la_leases a) < UI_LEASE_MAX_CLIENTS") (auto simp: attach_def st)
  then show ?thesis
  proof cases
    case refused
    then show ?thesis by simp
  next
    case renew
    let ?l = "(la_leases a ! i)\<lparr>ul_client_build := b, ul_expires_unix_ms := saturating_add now UI_LEASE_TTL_MS\<rparr>"
    have i: "i < length (la_leases a)" "?client (la_leases a ! i)" using position_SomeD [OF renew(3)] by simp_all
    from lease_table_update [OF ok' i(1), of ?l] leases_ok_update [OF ok' i(1), of ?l] lease_table_nth [OF ok' i(1)] i renew
    show ?thesis by (simp add: attach_def st authority_ok_def m Let_def)
  next
    case new
    let ?l = "\<lparr>ul_lease_id = lease_id_text process_id now m, ul_client_id = c, ul_client_pid = p, ul_client_build = b,
      ul_expires_unix_ms = saturating_add now UI_LEASE_TTL_MS, ul_observed_sequence = 0\<rparr>"
    have fresh: "client_key ?l \<notin> client_key ` set (la_leases a)" using new(3) by (auto simp: position_None_iff)
    have ok'': "leases_ok process_id (Suc n) (la_leases a @ [?l])"
      using new by (intro leases_ok_push [OF ok' n new(4) _ _ fresh]) (simp_all add: m)
    have "lease_key ?l \<notin> lease_key ` set (la_leases a)" using leases_ok_keys [OF ok''] by auto
    with new ok'' lookup_by_snoc [OF this] show ?thesis
      by (simp add: attach_def st authority_ok_def lease_table_def lookup_by_None_iff m Let_def)
  qed
qed

section \<open>Every run\<close>

lemma lease_step_ok:
  assumes "authority_ok process_id n st" and "n < 2 ^ 64"
  shows "\<exists>m \<le> Suc n. authority_ok process_id m (lease_step process_id op st)"
proof -
  obtain a k where st: "st = (a, k)" by (cases st)
  have ok: "leases_ok process_id n (la_leases a)" and k: "k = of_nat n" using assms(1) by (simp_all add: st authority_ok_def)
  show ?thesis
  proof (cases op)
    case (Attach c p b now)
    obtain r st' where r: "attach process_id st c p b now = (r, st')" by (cases "attach process_id st c p b now")
    note table = attach_table [OF assms, where c = c and p = p and b = b and now = now]
    have "authority_ok process_id n st' \<or> authority_ok process_id (Suc n) st'"
    proof (cases r)
      case (Inl e)
      with table r assms(1) show ?thesis by simp
    next
      case (Inr x)
      with table r show ?thesis by (cases x; cases "snd x") auto
    qed
    with r Attach show ?thesis by (metis le_SucI lease_step.simps(1) order_refl snd_conv)
  next
    case (Heartbeat l p now)
    then show ?thesis
      using heartbeat_table [OF ok, of l p now] ok
      by (intro exI [of _ n]) (auto simp: st authority_ok_def k split: prod.splits sum.splits)
  next
    case (Detach l p)
    then show ?thesis
      using detach_table [OF ok, of l p] ok
      by (intro exI [of _ n]) (auto simp: st authority_ok_def k split: prod.splits sum.splits)
  next
    case (Acknowledge l p obs cur now)
    then show ?thesis
      using acknowledge_table [OF ok, of l p obs cur now] ok
      by (intro exI [of _ n]) (auto simp: st authority_ok_def k split: prod.splits sum.splits)
  next
    case (Reap now alive)
    then show ?thesis
      using reap_table(1) [OF ok prod.collapse [symmetric]]
      by (intro exI [of _ n]) (auto simp: st authority_ok_def k)
  qed
qed

lemma lease_run_ok:
  "length ops < 2 ^ 64 \<Longrightarrow> \<exists>n \<le> Suc (length ops). authority_ok process_id n (lease_run process_id ops)"
proof (induction ops rule: rev_induct)
  case Nil
  show ?case by (intro exI [of _ 1]) (simp add: lease_run_def authority_ok_def leases_ok_def)
next
  case (snoc op ops)
  then obtain n where n: "n \<le> Suc (length ops)" "authority_ok process_id n (lease_run process_id ops)" by auto
  then obtain m where "m \<le> Suc n" "authority_ok process_id m (lease_step process_id op (lease_run process_id ops))"
    using lease_step_ok [of process_id n] snoc.prems by fastforce
  with n show ?case by (intro exI [of _ m]) (simp add: lease_run_def)
qed

lemma lease_run_leases_ok:
  assumes "length ops < 2 ^ 64" and "lease_run process_id ops = (a, n)"
  obtains k where "leases_ok process_id k (la_leases a)" "k \<le> Suc (length ops)" "authority_ok process_id k (a, n)"
  using lease_run_ok [OF assms(1), of process_id] assms(2) by (auto simp: authority_ok_def)

text \<open>
  C16. In every run of fewer than \<open>2 ^ 64\<close> operations there are at most sixteen leases, no lease
  identifier and no client (identity and process) occurs twice, and every lease belongs to a
  client with a valid identity and a nonzero process and is found again by its owner.
\<close>

theorem leases_invariant:
  assumes "length ops < 2 ^ 64" and run: "lease_run process_id ops = (a, n)"
  shows "length (la_leases a) \<le> UI_LEASE_MAX_CLIENTS
    \<and> distinct (map ul_lease_id (la_leases a))
    \<and> distinct (map (\<lambda>l. (ul_client_id l, ul_client_pid l)) (la_leases a))
    \<and> (\<forall>l \<in> set (la_leases a). validate_client_id (ul_client_id l) = Ok () \<and> ul_client_pid l \<noteq> 0
         \<and> verify_owner a (ul_lease_id l) (ul_client_pid l) = Ok l)"
proof -
  obtain k where ok: "leases_ok process_id k (la_leases a)" using lease_run_leases_ok [OF assms] .
  have "verify_owner a (ul_lease_id l) (ul_client_pid l) = Ok l" if l: "l \<in> set (la_leases a)" for l
  proof -
    from ok l obtain t j where "ul_lease_id l = lease_id_text process_id t j" by (auto simp: leases_ok_def issued_def)
    then have "validate_lease_id (ul_lease_id l) = Ok ()" by (simp add: lease_id_text_valid)
    moreover have "find (\<lambda>x. lease_key x = lease_key l) (la_leases a) = Some l"
      using lookup_by_distinct [OF leases_ok_keys [OF ok] l] by (simp add: lookup_by_def)
    ultimately show ?thesis by (simp add: verify_owner_def)
  qed
  with ok show ?thesis by (auto simp: leases_ok_def issued_def)
qed

lemma leases_invariant_witness:
  "\<exists>a n l. lease_run 7 [Attach ''gui'' 42 None 1000] = (a, n) \<and> la_leases a = [l]
     \<and> verify_owner a (ul_lease_id l) 42 = Ok l"
proof -
  let ?ops = "[Attach ''gui'' 42 None 1000]"
  obtain a n l where run: "lease_run 7 ?ops = (a, n)" and l: "la_leases a = [l]" "ul_client_pid l = 42"
    by (simp add: lease_run_def attach_def validate_client_id_def UI_CLIENT_ID_MAX_BYTES_def is_ascii_control_def
        UI_LEASE_MAX_CLIENTS_def Let_def)
  have "length ?ops < 2 ^ 64" by simp
  from leases_invariant [OF this run] l run show ?thesis by auto
qed

text \<open>
  Leases change only through their owner. On every reachable state a heartbeat, an
  acknowledgement or a detach that fails leaves all leases alone; one that succeeds changes exactly
  the lease with that identifier and process: a heartbeat only renews its expiry, an
  acknowledgement also moves its observed sequence forward, never beyond the current one, and a
  detach removes it.
\<close>

theorem lease_operations_touch_one_lease:
  assumes "length ops < 2 ^ 64" and run: "lease_run process_id ops = (a, n)"
  shows "(case heartbeat a lid p now of
      (Inl _, a') \<Rightarrow> a' = a \<and> lease_table a (lid, p) = None
    | (Inr l, a') \<Rightarrow> \<exists>old. lease_table a (lid, p) = Some old
        \<and> l = old\<lparr>ul_expires_unix_ms := saturating_add now UI_LEASE_TTL_MS\<rparr>
        \<and> lease_table a' = (lease_table a)((lid, p) \<mapsto> l))
   \<and> (case acknowledge a lid p obs cur now of
      (Inl _, a') \<Rightarrow> a' = a
    | (Inr l, a') \<Rightarrow> \<exists>old. lease_table a (lid, p) = Some old \<and> ul_observed_sequence old \<le> obs \<and> obs \<le> cur
        \<and> l = old\<lparr>ul_observed_sequence := obs, ul_expires_unix_ms := saturating_add now UI_LEASE_TTL_MS\<rparr>
        \<and> lease_table a' = (lease_table a)((lid, p) \<mapsto> l))
   \<and> (case detach a lid p of
      (Inl _, a') \<Rightarrow> a' = a \<and> lease_table a (lid, p) = None
    | (Inr l, a') \<Rightarrow> lease_table a (lid, p) = Some l \<and> lease_table a' = (lease_table a)((lid, p) := None))" (is "?heartbeat \<and> ?acknowledge \<and> ?detach")
proof -
  obtain k where ok: "leases_ok process_id k (la_leases a)" using lease_run_leases_ok [OF assms] .
  have ?heartbeat using heartbeat_table [OF ok, of lid p now] by (auto split: prod.splits sum.splits)
  moreover have ?acknowledge using acknowledge_table [OF ok, of lid p obs cur now] by (auto split: prod.splits sum.splits)
  moreover have ?detach using detach_table [OF ok, of lid p] by (auto split: prod.splits sum.splits)
  ultimately show ?thesis by blast
qed

definition sample_lease :: UiLeaseRecord where
  "sample_lease = \<lparr>ul_lease_id = lease_id_text 7 1000 1, ul_client_id = ''gui'', ul_client_pid = 42,
     ul_client_build = None, ul_expires_unix_ms = 6000, ul_observed_sequence = 0\<rparr>"

lemma sample_run: "lease_run 7 [Attach ''gui'' 42 None 1000] = (\<lparr>la_leases = [sample_lease]\<rparr>, 2)"
  by (simp add: lease_run_def attach_def validate_client_id_def UI_CLIENT_ID_MAX_BYTES_def is_ascii_control_def
      UI_LEASE_MAX_CLIENTS_def UI_LEASE_TTL_MS_def saturating_add_def sample_lease_def Let_def)

lemma lease_operations_touch_one_lease_witness:
  "\<exists>l a'. heartbeat \<lparr>la_leases = [sample_lease]\<rparr> (ul_lease_id sample_lease) 42 2000 = (Ok l, a')
     \<and> l = sample_lease\<lparr>ul_expires_unix_ms := 7000\<rparr>
     \<and> lease_table a' = (lease_table \<lparr>la_leases = [sample_lease]\<rparr>)((ul_lease_id sample_lease, 42) \<mapsto> l)"
proof -
  let ?ops = "[Attach ''gui'' 42 None 1000]"
  let ?lid = "ul_lease_id sample_lease"
  let ?hb = "heartbeat \<lparr>la_leases = [sample_lease]\<rparr> ?lid 42 2000"
  have len: "length ?ops < 2 ^ 64" by simp
  note all = lease_operations_touch_one_lease [OF len sample_run, of ?lid 42 2000 0 0]
  have tbl: "lease_table \<lparr>la_leases = [sample_lease]\<rparr> (?lid, 42) = Some sample_lease"
    by (simp add: lease_table_def lookup_by_Cons sample_lease_def)
  have ttl: "saturating_add 2000 UI_LEASE_TTL_MS = (7000 :: u64)"
    by (simp add: UI_LEASE_TTL_MS_def saturating_add_def)
  obtain l a' where "?hb = (Ok l, a')" using conjunct1 [OF all] tbl by (cases ?hb; cases "fst ?hb") auto
  with conjunct1 [OF all] tbl ttl show ?thesis by auto
qed

text \<open>
  Reaping is exact. On every reachable state it removes, with the reason, exactly the leases
  that have expired or whose process is gone, and keeps every other lease as it is. In particular
  a live client that renewed its lease less than the lease time ago keeps it, unless the clock is
  at its end.
\<close>

theorem reap_stale_exact:
  assumes "length ops < 2 ^ 64" and run: "lease_run process_id ops = (a, n)"
    and reap: "reap_stale a now alive = (removed, a')"
  shows "set removed = {(l, ''expired'') |l. l \<in> set (la_leases a) \<and> ul_expires_unix_ms l \<le> now}
        \<union> {(l, ''client_exited'') |l. l \<in> set (la_leases a) \<and> now < ul_expires_unix_ms l \<and> \<not> alive (ul_client_pid l)}
    \<and> lease_table a' k = (case lease_table a k of None \<Rightarrow> None
        | Some l \<Rightarrow> if now < ul_expires_unix_ms l \<and> alive (ul_client_pid l) then Some l else None)
    \<and> (\<forall>l renewed. lease_table a k = Some l \<longrightarrow> ul_expires_unix_ms l = saturating_add renewed UI_LEASE_TTL_MS
         \<longrightarrow> alive (ul_client_pid l) \<longrightarrow> unat now < unat renewed + 5000 \<longrightarrow> now \<noteq> - 1 \<longrightarrow> lease_table a' k = Some l)"
proof -
  obtain m where ok: "leases_ok process_id m (la_leases a)" using lease_run_leases_ok [OF assms(1,2)] .
  have why: "stale_reason now alive l = Some why \<longleftrightarrow> ul_expires_unix_ms l \<le> now \<and> why = ''expired''
      \<or> now < ul_expires_unix_ms l \<and> \<not> alive (ul_client_pid l) \<and> why = ''client_exited''" for l why
    by (auto simp: stale_reason_def not_le)
  have keep: "stale_reason now alive l = None \<longleftrightarrow> now < ul_expires_unix_ms l \<and> alive (ul_client_pid l)" for l
    by (auto simp: stale_reason_def not_le)
  have "now < saturating_add renewed UI_LEASE_TTL_MS" if "unat now < unat renewed + 5000" "now \<noteq> - 1" for renewed
  proof -
    have "unat now \<noteq> 2 ^ 64 - 1" using that(2) unat_minus_one_eq [where 'a = 64] by (auto simp: word_unat_eq_iff)
    moreover have "unat now \<le> 2 ^ 64 - 1" by (rule unat_u64_le)
    ultimately have "unat now < unat (saturating_add renewed UI_LEASE_TTL_MS)"
      unfolding unat_saturating_add using that(1) by (simp add: UI_LEASE_TTL_MS_def)
    then show ?thesis by (simp add: word_less_nat_alt)
  qed
  then show ?thesis
    using reap_table(2) [OF ok reap, of k] reap_table(3) [OF ok reap] unfolding keep why by auto
qed

lemma reap_stale_exact_witness:
  "\<exists>removed a'. reap_stale \<lparr>la_leases = [sample_lease]\<rparr> 5999 (\<lambda>_. True) = (removed, a')
     \<and> lease_table a' (ul_lease_id sample_lease, 42) = Some sample_lease"
proof -
  let ?ops = "[Attach ''gui'' 42 None 1000]"
  have len: "length ?ops < 2 ^ 64" by simp
  obtain removed a' where reap: "reap_stale \<lparr>la_leases = [sample_lease]\<rparr> 5999 (\<lambda>_. True) = (removed, a')"
    by (cases "reap_stale \<lparr>la_leases = [sample_lease]\<rparr> 5999 (\<lambda>_. True)")
  have "lease_table \<lparr>la_leases = [sample_lease]\<rparr> (ul_lease_id sample_lease, 42) = Some sample_lease"
    by (simp add: lease_table_def lookup_by_Cons sample_lease_def)
  with reap_stale_exact [OF len sample_run reap, of "(ul_lease_id sample_lease, 42)"] reap show ?thesis
    by (simp add: sample_lease_def)
qed

end
