(* ===== verification/Ui_Interaction.thy ===== *)
theory Ui_Interaction
  imports Working_Context
begin

text \<open>
  The interactions an attached GUI sends for a tab: the parser of the server
  (\<open>src/ui_interaction.rs\<close>) and the writer of the client (\<open>src/ui_client.rs\<close>).  The option table, a
  \<open>BTreeMap\<close> of which only lookups and the size are used, is an association list.
\<close>

section \<open>Model\<close>

definition UI_SCREEN_MAX_ROWS :: u32 where
  "UI_SCREEN_MAX_ROWS = 512"

definition UI_SCREEN_MAX_COLUMNS :: u32 where
  "UI_SCREEN_MAX_COLUMNS = 512"

definition UI_INPUT_MAX_BYTES :: nat where
  "UI_INPUT_MAX_BYTES = 256 * 1024"

datatype UiInteraction =
    UiSelect string u32 u64
  | UiInput string u32 u64 string
  | UiPaste string u32 u64 string nat nat bool
  | UiResize string u32 u64 u16 u16

fun lease_identity :: "UiInteraction \<Rightarrow> string \<times> u32" where
  "lease_identity (UiSelect lease_id client_pid _) = (lease_id, client_pid)"
| "lease_identity (UiInput lease_id client_pid _ _) = (lease_id, client_pid)"
| "lease_identity (UiPaste lease_id client_pid _ _ _ _ _) = (lease_id, client_pid)"
| "lease_identity (UiResize lease_id client_pid _ _ _) = (lease_id, client_pid)"

fun interaction_tab_id :: "UiInteraction \<Rightarrow> u64" where
  "interaction_tab_id (UiSelect _ _ tab_id) = tab_id"
| "interaction_tab_id (UiInput _ _ tab_id _) = tab_id"
| "interaction_tab_id (UiPaste _ _ tab_id _ _ _ _) = tab_id"
| "interaction_tab_id (UiResize _ _ tab_id _ _) = tab_id"

fun interaction_action :: "UiInteraction \<Rightarrow> string" where
  "interaction_action (UiSelect _ _ _) = ''select''"
| "interaction_action (UiInput _ _ _ _) = ''input''"
| "interaction_action (UiPaste _ _ _ _ _ _ _) = ''paste''"
| "interaction_action (UiResize _ _ _ _ _) = ''resize''"

subsection \<open>The server's parser\<close>

definition known_option :: "string \<Rightarrow> bool" where
  "known_option name \<longleftrightarrow> name \<in> {''--lease-id'', ''--client-pid'', ''-t'', ''--hex'', ''--rows'', ''--columns'',
     ''--text-bytes'', ''--characters'', ''--bracketed''}"

text \<open>The loop over the pairs; a lone last value is excluded before it starts.\<close>

fun collect_pairs :: "(string \<times> string) list \<Rightarrow> string list \<Rightarrow> string + (string \<times> string) list" where
  "collect_pairs options (name # v # rest) =
     (if \<not> known_option name then Err ''ui_interaction_option_unknown''
      else if map_of options name \<noteq> None then Err ''ui_interaction_option_duplicate''
      else collect_pairs (options @ [(name, v)]) rest)"
| "collect_pairs options _ = Ok options"

definition parse_pairs :: "string list \<Rightarrow> string + (string \<times> string) list" where
  "parse_pairs vs = (if odd (length vs) then Err ''ui_interaction_options_invalid'' else collect_pairs [] vs)"

definition required :: "(string \<times> string) list \<Rightarrow> string \<Rightarrow> string + string" where
  "required options name = ok_or (''ui_interaction_option_missing['' @ name @ '']'') (map_of options name)"

definition require_keys :: "(string \<times> string) list \<Rightarrow> string list \<Rightarrow> string + unit" where
  "require_keys options expected =
     (if length options \<noteq> length expected \<or> list_ex (\<lambda>name. map_of options name = None) expected
      then Err ''ui_interaction_options_invalid'' else Ok ())"

definition bounded_dimension :: "string \<Rightarrow> u32 \<Rightarrow> string \<Rightarrow> string + u16" where
  "bounded_dimension v maximum name =
     ok_or (''ui_interaction_'' @ name @ ''_invalid'')
       (case parse_unsigned (2 ^ 16 - 1) v of
          Some n \<Rightarrow> if n \<noteq> 0 \<and> n \<le> unat maximum then Some (word_of_nat n) else None
        | None \<Rightarrow> None)"

definition bounded_count :: "string \<Rightarrow> nat \<Rightarrow> string + nat" where
  "bounded_count v maximum =
     ok_or ''ui_interaction_paste_metadata_invalid''
       (case parse_unsigned (2 ^ 64 - 1) v of
          Some n \<Rightarrow> if n \<noteq> 0 \<and> n \<le> maximum then Some n else None
        | None \<Rightarrow> None)"

definition parse_bool :: "string \<Rightarrow> string + bool" where
  "parse_bool v =
     (if v = ''true'' then Ok True else if v = ''false'' then Ok False
      else Err ''ui_interaction_paste_metadata_invalid'')"

text \<open>A byte is a character code; \<open>(high << 4) | low\<close> of two hexadecimal digits is \<open>16 * high + low\<close>.\<close>

definition hex_digit :: "char \<Rightarrow> string + nat" where
  "hex_digit c =
     (let n = of_char c :: nat in
      if 48 \<le> n \<and> n \<le> 57 then Ok (n - 48)
      else if 97 \<le> n \<and> n \<le> 102 then Ok (n - 97 + 10)
      else if 65 \<le> n \<and> n \<le> 70 then Ok (n - 65 + 10)
      else Err ''ui_interaction_input_invalid'')"

fun decode_pairs :: "string \<Rightarrow> string + string" where
  "decode_pairs (a # b # rest) =
     and_then (hex_digit a) (\<lambda>high. and_then (hex_digit b) (\<lambda>low.
       and_then (decode_pairs rest) (\<lambda>bytes. Ok (char_of (16 * high + low) # bytes))))"
| "decode_pairs _ = Ok []"

definition decode_hex :: "string \<Rightarrow> string + string" where
  "decode_hex v =
     (if v = [] \<or> odd (length v) \<or> UI_INPUT_MAX_BYTES < length v div 2 then Err ''ui_interaction_input_invalid''
      else decode_pairs v)"

definition parse_client_pid :: "string \<Rightarrow> string + u32" where
  "parse_client_pid v =
     ok_or ''ui_interaction_client_pid_invalid''
       (case parse_unsigned (2 ^ 32 - 1) v of
          Some n \<Rightarrow> if n \<noteq> 0 then Some (word_of_nat n) else None
        | None \<Rightarrow> None)"

definition parse_tab_id :: "string \<Rightarrow> string + u64" where
  "parse_tab_id v =
     ok_or ''ui_interaction_tab_id_invalid''
       (case Option.bind (strip_prefix ''@'' v) (parse_unsigned (2 ^ 64 - 1)) of
          Some n \<Rightarrow> if n \<noteq> 0 then Some (word_of_nat n) else None
        | None \<Rightarrow> None)"

definition parse_action ::
  "string \<Rightarrow> (string \<times> string) list \<Rightarrow> string \<Rightarrow> u32 \<Rightarrow> u64 \<Rightarrow> string + UiInteraction" where
  "parse_action act options lease_id client_pid tab_id =
     (if act = ''select'' then
        and_then (require_keys options [''--lease-id'', ''--client-pid'', ''-t''])
          (\<lambda>_. Ok (UiSelect lease_id client_pid tab_id))
      else if act = ''input'' then
        and_then (require_keys options [''--lease-id'', ''--client-pid'', ''-t'', ''--hex'']) (\<lambda>_.
        and_then (required options ''--hex'') (\<lambda>hex.
        and_then (decode_hex hex) (\<lambda>bytes. Ok (UiInput lease_id client_pid tab_id bytes))))
      else if act = ''paste'' then
        and_then (require_keys options [''--lease-id'', ''--client-pid'', ''-t'', ''--hex'', ''--text-bytes'',
            ''--characters'', ''--bracketed'']) (\<lambda>_.
        and_then (required options ''--hex'') (\<lambda>hex.
        and_then (decode_hex hex) (\<lambda>bytes.
        and_then (required options ''--text-bytes'') (\<lambda>t.
        and_then (bounded_count t (length bytes)) (\<lambda>text_bytes.
        and_then (required options ''--characters'') (\<lambda>c.
        and_then (bounded_count c text_bytes) (\<lambda>characters.
        and_then (required options ''--bracketed'') (\<lambda>b.
        and_then (parse_bool b) (\<lambda>bracketed.
          Ok (UiPaste lease_id client_pid tab_id bytes text_bytes characters bracketed))))))))))
      else if act = ''resize'' then
        and_then (require_keys options [''--lease-id'', ''--client-pid'', ''-t'', ''--rows'', ''--columns'']) (\<lambda>_.
        and_then (required options ''--rows'') (\<lambda>r.
        and_then (bounded_dimension r UI_SCREEN_MAX_ROWS ''rows'') (\<lambda>rows.
        and_then (required options ''--columns'') (\<lambda>c.
        and_then (bounded_dimension c UI_SCREEN_MAX_COLUMNS ''columns'') (\<lambda>columns.
          Ok (UiResize lease_id client_pid tab_id rows columns))))))
      else Err ''ui_interaction_action_invalid'')"

definition parse_ui_interaction :: "string list \<Rightarrow> string + UiInteraction" where
  "parse_ui_interaction args =
     (case args of
        [] \<Rightarrow> Err ''ui_interaction_command_invalid''
      | name # rest \<Rightarrow>
          if name \<noteq> ''ui-interact'' then Err ''ui_interaction_command_invalid''
          else (case rest of
              [] \<Rightarrow> Err ''ui_interaction_action_missing''
            | act # vs \<Rightarrow>
                and_then (parse_pairs vs) (\<lambda>options.
                and_then (required options ''--lease-id'') (\<lambda>lease_id.
                and_then (and_then (required options ''--client-pid'') parse_client_pid) (\<lambda>client_pid.
                and_then (and_then (required options ''-t'') parse_tab_id) (\<lambda>tab_id.
                parse_action act options lease_id client_pid tab_id))))))"

subsection \<open>The client's writer\<close>

definition encode_hex :: "string \<Rightarrow> string" where
  "encode_hex bytes = concat (map (\<lambda>b. [digit_char (of_char b div 16), digit_char (of_char b mod 16)]) bytes)"

definition interaction_arguments :: "string \<Rightarrow> u32 \<Rightarrow> string \<Rightarrow> string \<Rightarrow> string list \<Rightarrow> string list" where
  "interaction_arguments lease_id client_pid act tab_id tail =
     [''ui-interact'', act, ''--lease-id'', lease_id, ''--client-pid'', show_nat (unat client_pid), ''-t'', tab_id] @ tail"

definition show_bool :: "bool \<Rightarrow> string" where
  "show_bool b = (if b then ''true'' else ''false'')"

definition paste_tail :: "string \<Rightarrow> nat \<Rightarrow> nat \<Rightarrow> bool \<Rightarrow> string list" where
  "paste_tail bytes text_bytes characters bracketed =
     [''--hex'', encode_hex bytes, ''--text-bytes'', show_nat text_bytes, ''--characters'', show_nat characters,
      ''--bracketed'', show_bool bracketed]"

definition resize_tail :: "u16 \<Rightarrow> u16 \<Rightarrow> string list" where
  "resize_tail rows columns = [''--rows'', show_nat (unat rows), ''--columns'', show_nat (unat columns)]"

text \<open>The four calls of the client; the tab is named as the server names it, \<open>@\<close> and its number.\<close>

fun client_arguments :: "UiInteraction \<Rightarrow> string list" where
  "client_arguments (UiSelect lease_id client_pid tab_id) =
     interaction_arguments lease_id client_pid ''select'' (CHR ''@'' # show_nat (unat tab_id)) []"
| "client_arguments (UiInput lease_id client_pid tab_id bytes) =
     interaction_arguments lease_id client_pid ''input'' (CHR ''@'' # show_nat (unat tab_id)) [''--hex'', encode_hex bytes]"
| "client_arguments (UiPaste lease_id client_pid tab_id bytes text_bytes characters bracketed) =
     interaction_arguments lease_id client_pid ''paste'' (CHR ''@'' # show_nat (unat tab_id))
       (paste_tail bytes text_bytes characters bracketed)"
| "client_arguments (UiResize lease_id client_pid tab_id rows columns) =
     interaction_arguments lease_id client_pid ''resize'' (CHR ''@'' # show_nat (unat tab_id)) (resize_tail rows columns)"

section \<open>Numbers and bytes\<close>

lemma digit_char_digit: "d < 10 \<Longrightarrow> is_ascii_digit (digit_char d) \<and> of_char (digit_char d) = 48 + d"
  by (auto simp: is_ascii_digit_def digit_char_def of_char_of)

lemma decimal_value_snoc: "decimal_value (ds @ [d]) = decimal_value ds * 10 + (of_char d - 48)"
  by (simp add: decimal_value_def)

lemma show_base_10:
  "show_base 10 n = (if n < 10 then [digit_char n] else show_base 10 (n div 10) @ [digit_char (n mod 10)])"
  by (subst show_base.simps) simp

lemma show_nat_digits: "list_all is_ascii_digit (show_nat n) \<and> decimal_value (show_nat n) = n"
  unfolding show_nat_def
proof (induction n rule: less_induct)
  case (less n)
  show ?case
  proof (cases "n < 10")
    case True
    then show ?thesis using digit_char_digit [of n] by (simp add: show_base_10 decimal_value_def)
  next
    case False
    then have "n div 10 < n" by simp
    note less.IH [OF this]
    with False show ?thesis
      using digit_char_digit [of "n mod 10"] by (simp add: show_base_10 [of n] decimal_value_snoc)
  qed
qed

lemma parse_unsigned_show_nat: "parse_unsigned maximum (show_nat n) = (if n \<le> maximum then Some n else None)"
proof -
  have "show_nat n \<noteq> []" by (simp add: show_nat_def)
  then obtain c cs where cs: "show_nat n = c # cs" by (cases "show_nat n") auto
  have "is_ascii_digit c" using show_nat_digits [of n] cs by simp
  then have "c \<noteq> CHR ''+''" by (auto simp: is_ascii_digit_def)
  then have plain: "(case show_nat n of CHR ''+'' # rest \<Rightarrow> rest | _ \<Rightarrow> show_nat n) = show_nat n"
    unfolding cs by (cases "(cs, c)" rule: prod.exhaust) (auto split: char.splits bool.splits)
  show ?thesis unfolding parse_unsigned_def Let_def plain using show_nat_digits [of n] cs by simp
qed

lemma hex_digit_digit_char: "d < 16 \<Longrightarrow> hex_digit (digit_char d) = Ok d"
  by (auto simp: hex_digit_def digit_char_def of_char_of Let_def)

lemma decode_encode_pairs: "decode_pairs (encode_hex bytes) = Ok bytes"
proof (induction bytes)
  case Nil
  then show ?case by (simp add: encode_hex_def)
next
  case (Cons b bytes)
  have "of_char b div 16 < (16 :: nat)" using of_char_less [of b] by (simp add: div_less_iff_less_mult)
  moreover have "char_of (16 * (of_char b div 16) + of_char b mod 16 :: nat) = b"
    by (simp only: mult_div_mod_eq char_of_char)
  ultimately show ?case using Cons by (simp add: encode_hex_def hex_digit_digit_char)
qed

lemma length_encode_hex: "length (encode_hex bytes) = 2 * length bytes"
  by (induction bytes) (simp_all add: encode_hex_def)

section \<open>Interactions on the wire\<close>

text \<open>The interactions the protocol can carry.\<close>

fun interaction_ok :: "UiInteraction \<Rightarrow> bool" where
  "interaction_ok (UiSelect _ client_pid tab_id) \<longleftrightarrow> client_pid \<noteq> 0 \<and> tab_id \<noteq> 0"
| "interaction_ok (UiInput _ client_pid tab_id bytes) \<longleftrightarrow>
     client_pid \<noteq> 0 \<and> tab_id \<noteq> 0 \<and> bytes \<noteq> [] \<and> length bytes \<le> UI_INPUT_MAX_BYTES"
| "interaction_ok (UiPaste _ client_pid tab_id bytes text_bytes characters bracketed) \<longleftrightarrow>
     client_pid \<noteq> 0 \<and> tab_id \<noteq> 0 \<and> length bytes \<le> UI_INPUT_MAX_BYTES
     \<and> 0 < characters \<and> characters \<le> text_bytes \<and> text_bytes \<le> length bytes"
| "interaction_ok (UiResize _ client_pid tab_id rows columns) \<longleftrightarrow>
     client_pid \<noteq> 0 \<and> tab_id \<noteq> 0 \<and> 0 < unat rows \<and> unat rows \<le> 512 \<and> 0 < unat columns \<and> unat columns \<le> 512"

lemma unat_bounds:
  "unat (p :: u32) \<le> 2 ^ 32 - 1" "unat (t :: u64) \<le> 2 ^ 64 - 1" "unat (r :: u16) \<le> 2 ^ 16 - 1"
proof -
  have "unat p < 2 ^ LENGTH(32)" "unat t < 2 ^ LENGTH(64)" "unat r < 2 ^ LENGTH(16)" by (rule unsigned_less)+
  then show "unat p \<le> 2 ^ 32 - 1" "unat t \<le> 2 ^ 64 - 1" "unat r \<le> 2 ^ 16 - 1" by simp_all
qed

lemma parse_client_pid_show: "client_pid \<noteq> 0 \<Longrightarrow> parse_client_pid (show_nat (unat client_pid)) = Ok client_pid"
  using unat_bounds(1) [of client_pid] by (simp add: parse_client_pid_def parse_unsigned_show_nat unat_eq_zero)

lemma parse_tab_id_show: "tab_id \<noteq> 0 \<Longrightarrow> parse_tab_id (CHR ''@'' # show_nat (unat tab_id)) = Ok tab_id"
  using unat_bounds(2) [of tab_id]
  by (simp add: parse_tab_id_def strip_prefix_def parse_unsigned_show_nat unat_eq_zero)

lemma bounded_dimension_show:
  "\<lbrakk> 0 < unat r; unat r \<le> unat maximum \<rbrakk> \<Longrightarrow> bounded_dimension (show_nat (unat r)) maximum name = Ok r"
  using unat_bounds(3) [of r] by (simp add: bounded_dimension_def parse_unsigned_show_nat)

lemma bounded_count_show:
  "\<lbrakk> 0 < n; n \<le> maximum; maximum \<le> UI_INPUT_MAX_BYTES \<rbrakk> \<Longrightarrow> bounded_count (show_nat n) maximum = Ok n"
  by (simp add: bounded_count_def parse_unsigned_show_nat UI_INPUT_MAX_BYTES_def)

lemma decode_hex_encode:
  "\<lbrakk> bytes \<noteq> []; length bytes \<le> UI_INPUT_MAX_BYTES \<rbrakk> \<Longrightarrow> decode_hex (encode_hex bytes) = Ok bytes"
proof -
  assume "bytes \<noteq> []" "length bytes \<le> UI_INPUT_MAX_BYTES"
  moreover from this have "encode_hex bytes \<noteq> []" using length_encode_hex [of bytes] by auto
  ultimately show ?thesis by (simp add: decode_hex_def length_encode_hex decode_encode_pairs)
qed

lemma parse_bool_show: "parse_bool (show_bool b) = Ok b"
  by (simp add: parse_bool_def show_bool_def)

lemmas parse_written = parse_client_pid_show parse_tab_id_show bounded_dimension_show bounded_count_show decode_hex_encode
  parse_bool_show

lemmas option_defs = parse_ui_interaction_def interaction_arguments_def parse_pairs_def known_option_def required_def
  parse_action_def require_keys_def paste_tail_def resize_tail_def

lemma written_interaction_parses: "interaction_ok i \<Longrightarrow> parse_ui_interaction (client_arguments i) = Ok i"
proof (cases i)
  case (UiSelect l p t)
  assume "interaction_ok i"
  then show ?thesis by (simp add: UiSelect option_defs parse_written)
next
  case (UiInput l p t b)
  assume "interaction_ok i"
  then show ?thesis by (simp add: UiInput option_defs parse_written)
next
  case (UiPaste l p t b n c br)
  assume "interaction_ok i"
  moreover from this have "b \<noteq> []" "n \<le> UI_INPUT_MAX_BYTES" by (auto simp: UiPaste)
  ultimately show ?thesis by (simp add: UiPaste option_defs parse_written)
next
  case (UiResize l p t r c)
  assume "interaction_ok i"
  then show ?thesis
    by (simp add: UiResize option_defs parse_written UI_SCREEN_MAX_ROWS_def UI_SCREEN_MAX_COLUMNS_def)
qed

lemma word_of_nat_nonzero:
  "\<lbrakk> n \<noteq> 0; n \<le> 2 ^ LENGTH('a) - 1 \<rbrakk> \<Longrightarrow> (word_of_nat n :: 'a::len word) \<noteq> 0 \<and> unat (word_of_nat n :: 'a word) = n"
proof -
  assume n: "n \<noteq> 0" "n \<le> 2 ^ LENGTH('a) - 1"
  have "(0 :: nat) < 2 ^ LENGTH('a)" by simp
  with n have "n < 2 ^ LENGTH('a)" by linarith
  then have "unat (word_of_nat n :: 'a word) = n" by (simp add: unat_of_nat)
  with n(1) show ?thesis by auto
qed

lemma parse_unsigned_bound: "parse_unsigned maximum s = Some n \<Longrightarrow> n \<le> maximum"
  by (auto simp: parse_unsigned_def Let_def split: if_splits)

lemma parse_client_pid_sound: "parse_client_pid v = Ok p \<Longrightarrow> p \<noteq> 0"
  using word_of_nat_nonzero [where 'a = 32]
  by (auto simp: parse_client_pid_def ok_or_Ok_iff split: option.splits if_splits dest: parse_unsigned_bound)

lemma parse_tab_id_sound: "parse_tab_id v = Ok t \<Longrightarrow> t \<noteq> 0"
proof -
  assume "parse_tab_id v = Ok t"
  then obtain n w where "parse_unsigned (2 ^ 64 - 1) w = Some n" "n \<noteq> 0" "t = word_of_nat n"
    by (auto simp: parse_tab_id_def ok_or_Ok_iff bind_eq_Some_conv split: option.splits if_splits)
  then show ?thesis using word_of_nat_nonzero [of n, where 'a = 64] by (auto dest: parse_unsigned_bound)
qed

lemma bounded_dimension_sound:
  "bounded_dimension v maximum name = Ok r \<Longrightarrow> 0 < unat r \<and> unat r \<le> unat maximum"
proof -
  assume "bounded_dimension v maximum name = Ok r"
  then obtain n where "parse_unsigned (2 ^ 16 - 1) v = Some n" "n \<noteq> 0" "n \<le> unat maximum" "r = word_of_nat n"
    by (auto simp: bounded_dimension_def ok_or_Ok_iff split: option.splits if_splits)
  then show ?thesis using word_of_nat_nonzero [of n, where 'a = 16] by (auto dest: parse_unsigned_bound)
qed

lemma bounded_count_sound: "bounded_count v maximum = Ok n \<Longrightarrow> 0 < n \<and> n \<le> maximum"
  by (auto simp: bounded_count_def ok_or_Ok_iff split: option.splits if_splits)

lemma decode_pairs_length: "\<lbrakk> decode_pairs v = Ok bytes; even (length v) \<rbrakk> \<Longrightarrow> length v = 2 * length bytes"
  by (induction v arbitrary: bytes rule: decode_pairs.induct) (auto simp: and_then_Ok_iff)

lemma decode_hex_sound: "decode_hex v = Ok bytes \<Longrightarrow> bytes \<noteq> [] \<and> length bytes \<le> UI_INPUT_MAX_BYTES"
  using decode_pairs_length [of v bytes] by (auto simp: decode_hex_def split: if_splits)

lemma parse_action_sound:
  assumes "parse_action act options lease_id p t = Ok i" and "p \<noteq> 0" and "t \<noteq> 0"
  shows "interaction_ok i \<and> lease_identity i = (lease_id, p) \<and> interaction_tab_id i = t \<and> interaction_action i = act"
  using assms
  by (auto simp: parse_action_def and_then_Ok_iff UI_SCREEN_MAX_ROWS_def UI_SCREEN_MAX_COLUMNS_def split: if_splits
      dest!: bounded_dimension_sound bounded_count_sound decode_hex_sound)

lemma parsed_interaction_ok: "parse_ui_interaction args = Ok i \<Longrightarrow> interaction_ok i"
  by (auto simp: parse_ui_interaction_def and_then_Ok_iff split: list.splits if_splits
      dest!: parse_action_sound parse_client_pid_sound parse_tab_id_sound)

text \<open>
  C38. Client and server agree on interactions.  What the client writes for an interaction is read back
  by the server as that interaction exactly when its fields are within the protocol's limits
  (identifiers are not zero, input has between one byte and 256 KiB, a paste announces no more
  characters than text bytes and no more text bytes than bytes, a size is between 1 and 512); and
  whatever arguments the server accepts, the interaction it obtains is within these limits.
\<close>

theorem interaction_roundtrip:
  "(parse_ui_interaction (client_arguments i) = Ok i \<longleftrightarrow> interaction_ok i)
   \<and> (parse_ui_interaction args = Ok j \<longrightarrow> interaction_ok j \<and> parse_ui_interaction (client_arguments j) = Ok j)"
  using written_interaction_parses parsed_interaction_ok by blast

theorem interaction_roundtrip_witness:
  "parse_ui_interaction [''ui-interact'', ''resize'', ''-t'', ''@+7'', ''--columns'', ''080'', ''--rows'', ''24'',
      ''--client-pid'', ''42'', ''--lease-id'', ''lease''] = Ok (UiResize ''lease'' 42 7 24 80)
   \<and> parse_ui_interaction (client_arguments (UiResize ''lease'' 42 7 24 80)) = Ok (UiResize ''lease'' 42 7 24 80)"
proof -
  have parsed: "parse_ui_interaction [''ui-interact'', ''resize'', ''-t'', ''@+7'', ''--columns'', ''080'', ''--rows'', ''24'',
      ''--client-pid'', ''42'', ''--lease-id'', ''lease''] = Ok (UiResize ''lease'' 42 7 24 80)"
    by (simp add: option_defs parse_client_pid_def parse_tab_id_def bounded_dimension_def parse_unsigned_def
        decimal_value_def is_ascii_digit_def strip_prefix_def UI_SCREEN_MAX_ROWS_def UI_SCREEN_MAX_COLUMNS_def)
  with interaction_roundtrip [of "UiResize ''lease'' 42 7 24 80"] show ?thesis by blast
qed

end
