(* ===== verification/Paste_Buffers.thy ===== *)
theory Paste_Buffers
  imports Utf8 "HOL-Library.List_Lexorder" "HOL-Library.Char_ord"
begin

text \<open>
  Pasting into a terminal: the normalisation of clipboard text (\<open>src/ui_clipboard.rs\<close>), the named
  paste buffers of a server (\<open>src/named_buffer.rs\<close>), and what \<open>paste-buffer\<close> and \<open>set-buffer\<close> make
  of them (\<open>prepare_paste_buffer_bytes\<close>, \<open>buffer_data_from_args\<close> and \<open>encode_base64\<close> of
  \<open>src/control_dispatch.rs\<close>).  A \<open>BTreeMap\<close> is the list of its entries in key order.
\<close>

section \<open>Normalisation\<close>

definition TERMINAL_PASTE_LIMIT_BYTES :: nat where
  "TERMINAL_PASTE_LIMIT_BYTES = 256 * 1024"

text \<open>\<open>char::is_control\<close> on the bytes of one character.\<close>

fun char_is_control :: "string \<Rightarrow> bool" where
  "char_is_control [a] = is_ascii_control a"
| "char_is_control [a, b] = (byte a = 194 \<and> 128 \<le> byte b \<and> byte b \<le> 159)"
| "char_is_control _ = False"

abbreviation CR :: string where "CR \<equiv> [CHR 0x0D]"
abbreviation LF :: string where "LF \<equiv> [CHR 0x0A]"
abbreviation TAB :: string where "TAB \<equiv> [CHR 0x09]"

text \<open>
  The loop both normalisers share, over the characters of the text: CR, LF and CR LF become the
  given line end, tabs and characters that are no controls stay.
\<close>

fun normalize_chars :: "string \<Rightarrow> string list \<Rightarrow> string list" where
  "normalize_chars line_end [] = []"
| "normalize_chars line_end (character # characters) =
     (if character = CR then
        line_end # (case characters of
            [] \<Rightarrow> normalize_chars line_end []
          | following # rest \<Rightarrow>
              if following = LF then normalize_chars line_end rest else normalize_chars line_end characters)
      else if character = LF then line_end # normalize_chars line_end characters
      else if character = TAB then TAB # normalize_chars line_end characters
      else if \<not> char_is_control character then character # normalize_chars line_end characters
      else normalize_chars line_end characters)"

definition str_chars :: "string \<Rightarrow> string list" where
  "str_chars s = (case utf8_chars s of Some cs \<Rightarrow> cs | None \<Rightarrow> [])"

definition normalize_terminal_paste :: "string \<Rightarrow> string" where
  "normalize_terminal_paste s = concat (normalize_chars CR (str_chars s))"

definition normalize_composer_paste :: "string \<Rightarrow> string" where
  "normalize_composer_paste s = concat (normalize_chars LF (str_chars s))"

definition paste_start :: string where
  "paste_start = CHR 0x1B # ''[200~''"

definition paste_end :: string where
  "paste_end = CHR 0x1B # ''[201~''"

definition terminal_paste_bytes :: "string \<Rightarrow> bool \<Rightarrow> string" where
  "terminal_paste_bytes s bracketed =
     (if bracketed then paste_start else []) @ s @ (if bracketed then paste_end else [])"

definition prepare_paste_buffer_bytes :: "string \<Rightarrow> bool \<Rightarrow> string + string" where
  "prepare_paste_buffer_bytes data bracketed =
     (if data = [] then Err ''buffer is empty''
      else if from_utf8 data then
        (let normalized = normalize_terminal_paste data in
         if normalized = [] then Err ''buffer is empty after paste normalization''
         else if TERMINAL_PASTE_LIMIT_BYTES < length normalized
         then Err (''paste payload must be at most '' @ show_nat TERMINAL_PASTE_LIMIT_BYTES @ '' bytes after normalization'')
         else Ok (terminal_paste_bytes normalized bracketed))
      else if TERMINAL_PASTE_LIMIT_BYTES < length data
      then Err (''paste payload must be at most '' @ show_nat TERMINAL_PASTE_LIMIT_BYTES @ '' bytes'')
      else Ok data)"

text \<open>The data of \<open>set-buffer\<close>: everything after \<open>--\<close>, or else the arguments that are no options.\<close>

fun buffer_positionals :: "string list \<Rightarrow> string list" where
  "buffer_positionals [] = []"
| "buffer_positionals (arg # args) =
     (if arg = ''-b'' then buffer_positionals (tl args)
      else if strip_prefix ''-'' arg \<noteq> None then buffer_positionals args
      else arg # buffer_positionals args)"

definition buffer_data_from_args :: "string list \<Rightarrow> string" where
  "buffer_data_from_args args =
     (case position (\<lambda>arg. arg = ''--'') args of
        Some dash \<Rightarrow> join '' '' (drop (dash + 1) args)
      | None \<Rightarrow> join '' '' (buffer_positionals (tl args)))"

section \<open>Named buffers\<close>

definition DEFAULT_BUFFER_NAME :: string where
  "DEFAULT_BUFFER_NAME = ''0''"

definition MAX_BUFFER_BYTES :: nat where
  "MAX_BUFFER_BYTES = 256 * 1024"

definition MAX_BUFFER_COUNT :: nat where
  "MAX_BUFFER_COUNT = 32"

definition MAX_BUFFER_NAME_BYTES :: nat where
  "MAX_BUFFER_NAME_BYTES = 64"

record NamedBufferStore =
  nb_buffers :: "(string \<times> string) list"

definition NamedBufferStore_new :: NamedBufferStore where
  "NamedBufferStore_new = \<lparr>nb_buffers = []\<rparr>"

fun btree_insert :: "'k::linorder \<Rightarrow> 'v \<Rightarrow> ('k \<times> 'v) list \<Rightarrow> ('k \<times> 'v) list" where
  "btree_insert k v [] = [(k, v)]"
| "btree_insert k v ((k', v') # m) =
     (if k < k' then (k, v) # (k', v') # m
      else if k = k' then (k, v) # m
      else (k', v') # btree_insert k v m)"

definition btree_remove :: "'k \<Rightarrow> ('k \<times> 'v) list \<Rightarrow> ('k \<times> 'v) list" where
  "btree_remove k m = filter (\<lambda>(k', _). k' \<noteq> k) m"

definition resolve_name :: "string option \<Rightarrow> string + string" where
  "resolve_name name =
     (let name = (case name of Some n \<Rightarrow> n | None \<Rightarrow> DEFAULT_BUFFER_NAME) in
      if name = [] then Err ''buffer name must not be empty''
      else if MAX_BUFFER_NAME_BYTES < length name
      then Err (''buffer name must be at most '' @ show_nat MAX_BUFFER_NAME_BYTES @ '' bytes'')
      else if has_control name \<or> (\<exists>c \<in> set name. c = CHR ''/'' \<or> c = CHR 0x5C)
      then Err ''buffer name must not contain control characters or path separators''
      else Ok name)"

definition buffer_set :: "string option \<Rightarrow> string \<Rightarrow> NamedBufferStore \<Rightarrow> (string + unit) \<times> NamedBufferStore" where
  "buffer_set name data store =
     (case resolve_name name of
        Inl e \<Rightarrow> (Err e, store)
      | Inr name \<Rightarrow>
          if MAX_BUFFER_BYTES < length data
          then (Err (''buffer body must be at most '' @ show_nat MAX_BUFFER_BYTES @ '' bytes (got ''
                  @ show_nat (length data) @ '')''), store)
          else if map_of (nb_buffers store) name = None \<and> MAX_BUFFER_COUNT \<le> length (nb_buffers store)
          then (Err (''at most '' @ show_nat MAX_BUFFER_COUNT @ '' named buffers may exist; delete one first''), store)
          else (Ok (), store\<lparr>nb_buffers := btree_insert name data (nb_buffers store)\<rparr>))"

definition buffer_get :: "string option \<Rightarrow> NamedBufferStore \<Rightarrow> string + string" where
  "buffer_get name store =
     and_then (resolve_name name)
       (\<lambda>name. ok_or (''can't find buffer: '' @ name) (map_of (nb_buffers store) name))"

definition buffer_delete :: "string option \<Rightarrow> NamedBufferStore \<Rightarrow> (string + unit) \<times> NamedBufferStore" where
  "buffer_delete name store =
     (case resolve_name name of
        Inl e \<Rightarrow> (Err e, store)
      | Inr name \<Rightarrow>
          if map_of (nb_buffers store) name = None then (Err (''can't find buffer: '' @ name), store)
          else (Ok (), store\<lparr>nb_buffers := btree_remove name (nb_buffers store)\<rparr>))"

definition list_lines :: "NamedBufferStore \<Rightarrow> string" where
  "list_lines store =
     (if nb_buffers store = [] then []
      else join LF (map (\<lambda>(name, data). name @ '': '' @ show_nat (length data) @ '' bytes'') (nb_buffers store)))"

section \<open>Base 64\<close>

unbundle bit_operations_syntax

definition BASE64_TABLE :: string where
  "BASE64_TABLE = ''ABCDEFGHIJKLMNOPQRSTUVWXYZabcdefghijklmnopqrstuvwxyz0123456789+/''"

text \<open>The four symbols of a chunk of one to three bytes; a missing byte counts as zero.\<close>

definition encode_chunk :: "string \<Rightarrow> string" where
  "encode_chunk chunk =
     (let first = byte (chunk ! 0);
          second = (if 1 < length chunk then byte (chunk ! 1) else 0);
          third = (if 2 < length chunk then byte (chunk ! 2) else 0)
      in [BASE64_TABLE ! drop_bit 2 first,
          BASE64_TABLE ! (push_bit 4 (first AND 3) OR drop_bit 4 second),
          (if 1 < length chunk then BASE64_TABLE ! (push_bit 2 (second AND 15) OR drop_bit 6 third) else CHR ''=''),
          (if 2 < length chunk then BASE64_TABLE ! (third AND 63) else CHR ''='')])"

fun encode_base64 :: "string \<Rightarrow> string" where
  "encode_base64 (a # b # c # rest) = encode_chunk [a, b, c] @ encode_base64 rest"
| "encode_base64 [] = []"
| "encode_base64 [a] = encode_chunk [a]"
| "encode_base64 [a, b] = encode_chunk [a, b]"

section \<open>Nothing escapes a paste\<close>

text \<open>What a normalised text consists of.\<close>

definition safe_char :: "string \<Rightarrow> bool" where
  "safe_char c \<longleftrightarrow> utf8_char c \<and> c \<noteq> LF \<and> (char_is_control c \<longrightarrow> c \<in> {CR, TAB})"

lemma normalize_chars_set:
  "c \<in> set (normalize_chars line_end cs) \<Longrightarrow>
   c = line_end \<or> c = TAB \<or> c \<in> set cs \<and> c \<noteq> CR \<and> c \<noteq> LF \<and> \<not> char_is_control c"
proof (induction cs rule: length_induct)
  case (1 cs)
  show ?case
  proof (cases cs)
    case (Cons d ds)
    have IH: "c = line_end \<or> c = TAB \<or> c \<in> set cs \<and> c \<noteq> CR \<and> c \<noteq> LF \<and> \<not> char_is_control c"
      if "c \<in> set (normalize_chars line_end es)" "length es < length cs" "set es \<subseteq> set cs" for es
      using 1 that by blast
    show ?thesis
    proof (cases "d = CR")
      case True
      with "1.prems" Cons have "c = line_end \<or> c \<in> set (normalize_chars line_end ds)
          \<or> (ds \<noteq> [] \<and> c \<in> set (normalize_chars line_end (tl ds)))"
        by (cases ds) (auto split: if_splits)
      then show ?thesis using IH [of ds] IH [of "tl ds"] Cons by (cases ds) auto
    next
      case False
      with "1.prems" Cons have "c = line_end \<or> c = TAB \<or> c \<in> set (normalize_chars line_end ds)
          \<or> (c = d \<and> d \<noteq> LF \<and> \<not> char_is_control d)"
        by (auto split: if_splits)
      then show ?thesis using IH [of ds] Cons False by auto
    qed
  qed (use 1 in simp)
qed

lemma normalize_chars_safe:
  "\<forall>c \<in> set cs. utf8_char c \<Longrightarrow> \<forall>c \<in> set (normalize_chars CR cs). safe_char c"
proof
  fix c assume all: "\<forall>c \<in> set cs. utf8_char c" and c: "c \<in> set (normalize_chars CR cs)"
  have "safe_char CR" "safe_char TAB" by (simp_all add: safe_char_def is_ascii_control_def)
  with all normalize_chars_set [OF c] show "safe_char c" by (auto simp: safe_char_def)
qed

lemma safe_char_fixed: "\<forall>c \<in> set cs. safe_char c \<Longrightarrow> normalize_chars CR cs = cs"
proof (induction cs)
  case (Cons c cs)
  then have "normalize_chars CR cs = cs" "safe_char c" by simp_all
  moreover have "c = CR \<Longrightarrow> normalize_chars CR (c # cs) = CR # normalize_chars CR cs"
    using Cons.prems by (cases cs) (auto simp: safe_char_def)
  ultimately show ?case by (auto simp: safe_char_def)
qed simp

lemma safe_char_no_escape: "safe_char c \<Longrightarrow> CHR 0x1B \<notin> set c"
  unfolding safe_char_def
  by (cases c rule: utf8_char.cases) (auto simp: is_continuation_def is_ascii_control_def)

lemma normalize_terminal_paste_chars:
  assumes "from_utf8 s"
  obtains cs where "utf8_chars (normalize_terminal_paste s) = Some cs" and "\<forall>c \<in> set cs. safe_char c"
proof -
  from assms obtain ds where ds: "utf8_chars s = Some ds" by (auto simp: from_utf8_def)
  then have "\<forall>c \<in> set ds. utf8_char c" by (simp add: utf8_chars_Some_iff)
  then have safe: "\<forall>c \<in> set (normalize_chars CR ds). safe_char c" by (rule normalize_chars_safe)
  then have "utf8_chars (normalize_terminal_paste s) = Some (normalize_chars CR ds)"
    by (simp add: normalize_terminal_paste_def str_chars_def ds utf8_chars_Some_iff safe_char_def)
  with safe that show ?thesis by blast
qed

text \<open>
  C18. A pasted text cannot leave the paste. Whatever valid text a buffer holds, the bytes written to
  the terminal are the bracketed-paste markers (when the terminal asked for them) around a text
  within the limit that is valid UTF-8, contains no escape byte and no control character but
  carriage returns and tabs, and is not changed by normalising it again.
\<close>

theorem paste_cannot_escape:
  assumes paste: "prepare_paste_buffer_bytes data bracketed = Ok out" and utf8: "from_utf8 data"
  shows "\<exists>body cs. out = (if bracketed then paste_start else []) @ body @ (if bracketed then paste_end else [])
     \<and> body \<noteq> [] \<and> length body \<le> TERMINAL_PASTE_LIMIT_BYTES
     \<and> utf8_chars body = Some cs \<and> (\<forall>c \<in> set cs. char_is_control c \<longrightarrow> c \<in> {CR, TAB})
     \<and> CHR 0x1B \<notin> set body \<and> normalize_terminal_paste body = body"
proof -
  let ?body = "normalize_terminal_paste data"
  obtain cs where cs: "utf8_chars ?body = Some cs" and safe: "\<forall>c \<in> set cs. safe_char c"
    by (rule normalize_terminal_paste_chars [OF utf8])
  have body: "?body = concat cs" using cs by (simp add: utf8_chars_Some_iff)
  have "CHR 0x1B \<notin> set ?body" unfolding body using safe safe_char_no_escape by auto
  moreover have "normalize_terminal_paste ?body = ?body"
    unfolding normalize_terminal_paste_def [of ?body] str_chars_def cs using safe safe_char_fixed [of cs] body by simp
  moreover have "out = terminal_paste_bytes ?body bracketed" "?body \<noteq> []" "length ?body \<le> TERMINAL_PASTE_LIMIT_BYTES"
    using paste utf8 by (auto simp: prepare_paste_buffer_bytes_def Let_def split: if_splits)
  ultimately show ?thesis
    using cs safe unfolding safe_char_def terminal_paste_bytes_def by blast
qed

section \<open>Buffers\<close>

definition store_ok :: "NamedBufferStore \<Rightarrow> bool" where
  "store_ok store \<longleftrightarrow>
     sorted_wrt (<) (map fst (nb_buffers store)) \<and> length (nb_buffers store) \<le> MAX_BUFFER_COUNT
     \<and> (\<forall>(name, data) \<in> set (nb_buffers store). resolve_name (Some name) = Ok name \<and> length data \<le> MAX_BUFFER_BYTES)"

lemma map_of_btree_insert:
  "sorted_wrt (<) (map fst m) \<Longrightarrow> map_of (btree_insert k v m) = (map_of m)(k \<mapsto> v)"
  by (induction k v m rule: btree_insert.induct) (auto simp: fun_eq_iff)

lemma set_btree_insert: "set (btree_insert k v m) \<subseteq> insert (k, v) (set m)"
  by (induction k v m rule: btree_insert.induct) auto

lemma keys_btree_insert: "fst ` set (btree_insert k v m) = insert k (fst ` set m)"
  by (induction k v m rule: btree_insert.induct) auto

lemma sorted_btree_insert:
  "sorted_wrt (<) (map fst m) \<Longrightarrow> sorted_wrt (<) (map fst (btree_insert k v m))"
proof (induction k v m rule: btree_insert.induct)
  case (2 k v k' v' m)
  then show ?case using keys_btree_insert [of k v m] by auto
qed simp

lemma length_btree_insert:
  "sorted_wrt (<) (map fst m) \<Longrightarrow>
   length (btree_insert k v m) = (if map_of m k = None then Suc (length m) else length m)"
proof (induction k v m rule: btree_insert.induct)
  case (2 k v k' v' m)
  have "map_of m k = None" if "k < k'"
    using 2 that by (auto simp: map_of_eq_None_iff)
  with 2 show ?case by auto
qed simp

lemma map_of_btree_remove: "map_of (btree_remove k m) = (map_of m)(k := None)"
  by (induction m) (auto simp: btree_remove_def)

lemma resolve_name_idem: "resolve_name n = Ok name \<Longrightarrow> resolve_name (Some name) = Ok name"
  by (auto simp: resolve_name_def Let_def split: if_splits option.splits)

datatype buffer_op = BufferSet "string option" string | BufferDelete "string option"

fun buffer_step :: "buffer_op \<Rightarrow> NamedBufferStore \<Rightarrow> NamedBufferStore" where
  "buffer_step (BufferSet name data) store = snd (buffer_set name data store)"
| "buffer_step (BufferDelete name) store = snd (buffer_delete name store)"

lemma store_ok_set: "store_ok store \<Longrightarrow> store_ok (snd (buffer_set name data store))"
proof (cases "resolve_name name")
  case (Inr n)
  assume ok: "store_ok store"
  have "store_ok (store\<lparr>nb_buffers := btree_insert n data (nb_buffers store)\<rparr>)"
    if "length data \<le> MAX_BUFFER_BYTES" "\<not> (map_of (nb_buffers store) n = None \<and> MAX_BUFFER_COUNT \<le> length (nb_buffers store))"
    using ok that set_btree_insert [of n data "nb_buffers store"] resolve_name_idem [OF Inr]
    by (auto simp: store_ok_def sorted_btree_insert length_btree_insert)
  with ok Inr show ?thesis by (auto simp: buffer_set_def)
qed (simp add: buffer_set_def)

lemma store_ok_delete: "store_ok store \<Longrightarrow> store_ok (snd (buffer_delete name store))"
proof (cases "resolve_name name")
  case (Inr n)
  assume ok: "store_ok store"
  have "sorted_wrt (<) (map fst (btree_remove n (nb_buffers store)))"
    using ok unfolding store_ok_def btree_remove_def by (simp add: sorted_wrt_map sorted_wrt_filter)
  moreover have "length (btree_remove n (nb_buffers store)) \<le> length (nb_buffers store)"
    by (simp add: btree_remove_def)
  moreover have "set (btree_remove n (nb_buffers store)) \<subseteq> set (nb_buffers store)"
    by (auto simp: btree_remove_def)
  ultimately have "store_ok (store\<lparr>nb_buffers := btree_remove n (nb_buffers store)\<rparr>)"
    using ok by (auto simp: store_ok_def)
  with ok Inr show ?thesis by (auto simp: buffer_delete_def)
qed (simp add: buffer_delete_def)

lemma store_ok_run: "store_ok (fold buffer_step ops NamedBufferStore_new)"
proof (rule fold_invariant [where Q = "\<lambda>_. True"])
  show "store_ok NamedBufferStore_new" by (simp add: store_ok_def NamedBufferStore_new_def)
  show "store_ok (buffer_step op store)" if "store_ok store" for op store
    using that by (cases op) (simp_all add: store_ok_set store_ok_delete)
qed simp_all

text \<open>
  C32. The buffers are a bounded store with read-back. After every sequence of operations there are
  at most 32 buffers, in the order of their names, with valid names and at most 256 KiB each; a
  successful \<open>set\<close> makes exactly that buffer read back as the data, a successful \<open>delete\<close> makes
  exactly it unknown, and a refused operation changes nothing.
\<close>

theorem named_buffers_bounded_store:
  assumes run: "store = fold buffer_step ops NamedBufferStore_new"
  shows "sorted_wrt (<) (map fst (nb_buffers store)) \<and> length (nb_buffers store) \<le> 32
    \<and> (\<forall>(name, data) \<in> set (nb_buffers store). resolve_name (Some name) = Ok name \<and> length data \<le> 262144)
    \<and> (case buffer_set n d store of
         (Inl _, store') \<Rightarrow> store' = store
       | (Inr _, store') \<Rightarrow> \<exists>name. resolve_name n = Ok name
           \<and> map_of (nb_buffers store') = (map_of (nb_buffers store))(name \<mapsto> d) \<and> buffer_get n store' = Ok d)
    \<and> (case buffer_delete n store of
         (Inl _, store') \<Rightarrow> store' = store
       | (Inr _, store') \<Rightarrow> \<exists>name. resolve_name n = Ok name
           \<and> map_of (nb_buffers store') = (map_of (nb_buffers store))(name := None)
           \<and> buffer_get n store' = Err (''can't find buffer: '' @ name))"
    (is "?bounds \<and> ?count \<and> ?each \<and> ?set \<and> ?delete")
proof -
  have ok: "store_ok store" unfolding run by (rule store_ok_run)
  then have sorted: "sorted_wrt (<) (map fst (nb_buffers store))" by (simp add: store_ok_def)
  have ?bounds ?count ?each using ok by (simp_all add: store_ok_def MAX_BUFFER_COUNT_def MAX_BUFFER_BYTES_def)
  moreover have ?set
    by (cases "resolve_name n") (simp_all add: buffer_set_def buffer_get_def map_of_btree_insert [OF sorted])
  moreover have ?delete
    by (cases "resolve_name n") (simp_all add: buffer_delete_def buffer_get_def map_of_btree_remove)
  ultimately show ?thesis by blast
qed

lemma paste_cannot_escape_witness:
  "\<exists>body. prepare_paste_buffer_bytes [CHR ''a'', CHR 0x1B, CHR 0x0A] True = Ok (paste_start @ body @ paste_end)
     \<and> CHR 0x1B \<notin> set body"
proof -
  let ?data = "[CHR ''a'', CHR 0x1B, CHR 0x0A]"
  have u: "from_utf8 ?data" by (rule from_utf8_ascii) auto
  have "prepare_paste_buffer_bytes ?data True = Ok (paste_start @ [CHR ''a'', CHR 0x0D] @ paste_end)"
    using u by (simp add: prepare_paste_buffer_bytes_def normalize_terminal_paste_def str_chars_def utf8_width_def
        is_ascii_control_def terminal_paste_bytes_def TERMINAL_PASTE_LIMIT_BYTES_def)
  from paste_cannot_escape [OF this u] this show ?thesis by auto
qed

lemma named_buffers_bounded_store_witness:
  "buffer_get (Some ''x'') (snd (buffer_set (Some ''x'') ''hi'' (fold buffer_step [BufferSet None ''yo''] NamedBufferStore_new)))
     = Ok ''hi''"
proof -
  let ?store = "fold buffer_step [BufferSet None ''yo''] NamedBufferStore_new"
  have "fst (buffer_set (Some ''x'') ''hi'' ?store) = Ok ()"
    by (simp add: buffer_set_def resolve_name_def DEFAULT_BUFFER_NAME_def MAX_BUFFER_NAME_BYTES_def MAX_BUFFER_BYTES_def
        MAX_BUFFER_COUNT_def NamedBufferStore_new_def is_ascii_control_def)
  with named_buffers_bounded_store [OF refl, of "[BufferSet None ''yo'']" "Some ''x''" "''hi''"] show ?thesis
    by (cases "buffer_set (Some ''x'') ''hi'' ?store") auto
qed

section \<open>Base 64 decodes\<close>

definition symbol_value :: "char \<Rightarrow> nat option" where
  "symbol_value c = position (\<lambda>x. x = c) BASE64_TABLE"

text \<open>The standard decoder, padding included.\<close>

fun decode_base64 :: "string \<Rightarrow> string option" where
  "decode_base64 [] = Some []"
| "decode_base64 (a # b # c # d # rest) =
     (case (symbol_value a, symbol_value b) of
        (Some w, Some x) \<Rightarrow>
          if c = CHR ''='' \<and> d = CHR ''='' \<and> rest = [] then Some [char_of (w * 4 + x div 16)]
          else (case symbol_value c of
              None \<Rightarrow> None
            | Some y \<Rightarrow>
                if d = CHR ''='' \<and> rest = [] then Some [char_of (w * 4 + x div 16), char_of (x mod 16 * 16 + y div 4)]
                else (case symbol_value d of
                    None \<Rightarrow> None
                  | Some z \<Rightarrow>
                      map_option (\<lambda>bs. char_of (w * 4 + x div 16) # char_of (x mod 16 * 16 + y div 4)
                          # char_of (y mod 4 * 64 + z) # bs) (decode_base64 rest)))
      | _ \<Rightarrow> None)"
| "decode_base64 _ = None"

lemma distinct_table: "distinct BASE64_TABLE"
  unfolding BASE64_TABLE_def by code_simp

lemma length_table: "length BASE64_TABLE = 64"
  by (simp add: BASE64_TABLE_def)

lemma symbol_value_table: "i < 64 \<Longrightarrow> symbol_value (BASE64_TABLE ! i) = Some i"
  unfolding symbol_value_def using distinct_table
  by (intro position_SomeI) (auto simp: length_table nth_eq_iff_index_eq)

lemma table_not_padding: "i < 64 \<Longrightarrow> BASE64_TABLE ! i \<noteq> CHR ''=''"
proof -
  have "CHR ''='' \<notin> set BASE64_TABLE" unfolding BASE64_TABLE_def by code_simp
  then show "i < 64 \<Longrightarrow> BASE64_TABLE ! i \<noteq> CHR ''=''" using nth_mem length_table by metis
qed

lemma push_or: "y < 2 ^ n \<Longrightarrow> push_bit n x OR y = x * 2 ^ n + (y :: nat)"
proof -
  assume "y < 2 ^ n"
  then have y: "take_bit n y = y" by (simp add: take_bit_nat_eq_self)
  have "push_bit n x AND take_bit n y = 0" by (auto simp: bit_eq_iff bit_simps)
  then have "push_bit n x AND y = 0" by (simp only: y)
  then show ?thesis by (simp add: push_bit_eq_mult flip: disjunctive_add_eq_or)
qed

lemma and_masks: "a AND 3 = a mod (4 :: nat)" "a AND 15 = a mod (16 :: nat)" "a AND 63 = a mod (64 :: nat)"
  using take_bit_eq_mask [of 2 a] take_bit_eq_mask [of 4 a] take_bit_eq_mask [of 6 a]
  by (simp_all add: take_bit_eq_mod mask_eq_exp_minus_1)

text \<open>The symbol values of a chunk.\<close>

lemma encode_chunk_values:
  "encode_chunk [a] = [BASE64_TABLE ! (byte a div 4), BASE64_TABLE ! (byte a mod 4 * 16), CHR ''='', CHR ''='']"
  "encode_chunk [a, b] = [BASE64_TABLE ! (byte a div 4), BASE64_TABLE ! (byte a mod 4 * 16 + byte b div 16),
     BASE64_TABLE ! (byte b mod 16 * 4), CHR ''='']"
  "encode_chunk [a, b, c] = [BASE64_TABLE ! (byte a div 4), BASE64_TABLE ! (byte a mod 4 * 16 + byte b div 16),
     BASE64_TABLE ! (byte b mod 16 * 4 + byte c div 64), BASE64_TABLE ! (byte c mod 64)]"
proof -
  have d: "byte b div 16 < 2 ^ 4" "byte c div 64 < 2 ^ 2" for b c
    using nat_of_char_less_256 [of b] nat_of_char_less_256 [of c] by (simp_all add: div_less_iff_less_mult)
  note rules = encode_chunk_def and_masks drop_bit_eq_div Let_def
  show "encode_chunk [a] = [BASE64_TABLE ! (byte a div 4), BASE64_TABLE ! (byte a mod 4 * 16), CHR ''='', CHR ''='']"
    by (simp add: rules push_bit_eq_mult)
  show "encode_chunk [a, b] = [BASE64_TABLE ! (byte a div 4), BASE64_TABLE ! (byte a mod 4 * 16 + byte b div 16),
     BASE64_TABLE ! (byte b mod 16 * 4), CHR ''='']"
    using push_or [OF d(1) [of b], of "byte a mod 4"] by (simp add: rules push_bit_eq_mult)
  show "encode_chunk [a, b, c] = [BASE64_TABLE ! (byte a div 4), BASE64_TABLE ! (byte a mod 4 * 16 + byte b div 16),
     BASE64_TABLE ! (byte b mod 16 * 4 + byte c div 64), BASE64_TABLE ! (byte c mod 64)]"
    using push_or [OF d(1) [of b], of "byte a mod 4"] push_or [OF d(2) [of c], of "byte b mod 16"]
    by (simp add: rules)
qed

text \<open>Splitting bytes into sextets loses nothing.\<close>

lemma glue:
  "q < m \<Longrightarrow> (r * m + q) div m = r" "q < m \<Longrightarrow> (r * m + q) mod m = (q :: nat)"
  by simp_all

lemma glue_less: "r < k \<Longrightarrow> q < m \<Longrightarrow> r * m + q < k * (m :: nat)"
  by (metis add_less_cancel_left less_le_trans mult.commute mult_Suc_right add.commute mult_le_mono2 Suc_leI)

lemma sextets:
  fixes a b c :: nat
  assumes "a < 256" "b < 256" "c < 256"
  shows "a div 4 < 64" "a mod 4 * 16 + b div 16 < 64" "b mod 16 * 4 + c div 64 < 64" "c mod 64 < 64"
    and "a mod 4 * 16 < 64" "b mod 16 * 4 < 64"
    and "a div 4 * 4 + (a mod 4 * 16 + b div 16) div 16 = a"
    and "(a mod 4 * 16 + b div 16) mod 16 * 16 + (b mod 16 * 4 + c div 64) div 4 = b"
    and "(b mod 16 * 4 + c div 64) mod 4 * 64 + c mod 64 = c"
proof -
  have b: "b div 16 < 16" and c: "c div 64 < 4" using assms by (simp_all add: div_less_iff_less_mult)
  show "a div 4 < 64" using assms by (simp add: div_less_iff_less_mult)
  show "a mod 4 * 16 + b div 16 < 64" using glue_less [of "a mod 4" 4 "b div 16" 16] b by simp
  show "b mod 16 * 4 + c div 64 < 64" using glue_less [of "b mod 16" 16 "c div 64" 4] c by simp
  show "c mod 64 < 64" "a mod 4 * 16 < 64" "b mod 16 * 4 < 64"
    using mod_less_divisor [of 4 a] mod_less_divisor [of 16 b] by simp_all
  show "a div 4 * 4 + (a mod 4 * 16 + b div 16) div 16 = a" unfolding glue(1) [OF b] by (rule div_mult_mod_eq)
  show "(a mod 4 * 16 + b div 16) mod 16 * 16 + (b mod 16 * 4 + c div 64) div 4 = b"
    unfolding glue(1) [OF c] glue(2) [OF b] by (rule div_mult_mod_eq)
  show "(b mod 16 * 4 + c div 64) mod 4 * 64 + c mod 64 = c" unfolding glue(2) [OF c] by (rule div_mult_mod_eq)
qed

text \<open>
  The base-64 text of captured output decodes to exactly the captured bytes.
\<close>

theorem base64_roundtrip: "decode_base64 (encode_base64 bytes) = Some bytes"
proof (induction bytes rule: encode_base64.induct)
  case (1 a b c rest)
  note s = sextets [OF nat_of_char_less_256 [of a] nat_of_char_less_256 [of b] nat_of_char_less_256 [of c]]
  show ?case
    using 1 s by (simp add: encode_chunk_values symbol_value_table table_not_padding)
next
  case (3 a)
  note s = sextets [OF nat_of_char_less_256 [of a], of 0 0]
  show ?case using s by (simp add: encode_chunk_values symbol_value_table)
next
  case (4 a b)
  note s = sextets [OF nat_of_char_less_256 [of a] nat_of_char_less_256 [of b], of 0]
  show ?case using s by (simp add: encode_chunk_values symbol_value_table table_not_padding)
qed simp

end
