(* ===== verification/Server_Ui.thy ===== *)
theory Server_Ui
  imports Server_Output Ui_Lease Ui_Command Ui_Interaction Paste_Buffers
begin

text \<open>
  The server's handlers for attached GUI clients (\<open>src/server_app.rs\<close>, with the grant of
  \<open>src/ui_bridge.rs\<close> and the option lookup of \<open>src/commands.rs\<close>): leases, the published snapshot,
  interactions with a tab, and the relay of commands.  They work on the server core together with the
  lease authority and the relay queue.  The clock, the process table, JSON texts and the native results
  of writing and resizing are arguments (\<open>UiEnv\<close>, \<open>written\<close>, \<open>native_error\<close>); a handler returns \<open>None\<close>
  where the journal panics.
\<close>

section \<open>State\<close>

definition UI_LEASE_SCHEMA_VERSION :: u32 where
  "UI_LEASE_SCHEMA_VERSION = 2"

definition UI_INTERACTION_SCHEMA_VERSION :: u32 where
  "UI_INTERACTION_SCHEMA_VERSION = 1"

definition UI_HELLO_SCHEMA_VERSION :: u32 where
  "UI_HELLO_SCHEMA_VERSION = 1"

definition UI_BRIDGE_PROTOCOL_VERSION :: u32 where
  "UI_BRIDGE_PROTOCOL_VERSION = 1"

definition UI_CLIENT_STATE_SCHEMA_VERSION :: u32 where
  "UI_CLIENT_STATE_SCHEMA_VERSION = 1"

definition UI_BUILD_IDENTITY_MAX_BYTES :: nat where
  "UI_BUILD_IDENTITY_MAX_BYTES = 2048"

definition UI_CLIENT_STATE_MAX_BYTES :: nat where
  "UI_CLIENT_STATE_MAX_BYTES = 1024 * 1024"

definition PROJECTION_REPLACEABLE_UI_CLIENT :: string where
  "PROJECTION_REPLACEABLE_UI_CLIENT = ''replaceable_ui_client''"

record UiClientSnapshotRecord =
  sr_lease_id :: string
  sr_client_pid :: u32
  sr_json :: string

text \<open>The core of the server with the fields the GUI handlers add; \<open>us_next_lease_id\<close> is the static counter.\<close>

record 'p UiServerState =
  us_core :: "'p ServerState"
  us_ui_lease :: UiLeaseAuthority
  us_next_lease_id :: u64
  us_snapshot :: "UiClientSnapshotRecord option"
  us_commands :: UiClientCommandQueue
  us_shutdown_after_ui_result :: "string option"
  us_shutdown_requested :: bool
  us_named_buffers :: NamedBufferStore

text \<open>
  \<open>dispatch_shared_command\<close>, the command table of the control plane: its answer, none for a command
  outside the table, and the changed server; \<open>None\<close> where it panics.
\<close>

type_synonym 'p shared_table = "string list \<Rightarrow> 'p UiServerState \<Rightarrow> (IpcResponse option \<times> 'p UiServerState) option"

record UiEnv =
  env_now :: u64
  env_process_id :: u32
  env_process_is_alive :: "u32 \<Rightarrow> bool"
  env_to_string :: "json \<Rightarrow> string"
  env_to_string_pretty :: "json \<Rightarrow> string + string"
  env_from_str :: "string \<Rightarrow> string + json"
  env_identity_from_str :: "string \<Rightarrow> string + UpgradeIdentity"
  env_identity_json :: "UpgradeIdentity \<Rightarrow> json"
  env_identity_to_vec :: "UpgradeIdentity \<Rightarrow> string + string"
  env_response_to_string :: "IpcResponse \<Rightarrow> string + string"
  env_response_from_str :: "string \<Rightarrow> string + IpcResponse"
  env_args_from_str :: "string \<Rightarrow> string + string list"

definition parse_u32 :: "string \<Rightarrow> u32 option" where
  "parse_u32 s = map_option word_of_nat (parse_unsigned (2 ^ 32 - 1) s)"

definition parse_u64 :: "string \<Rightarrow> u64 option" where
  "parse_u64 s = map_option word_of_nat (parse_unsigned (2 ^ 64 - 1) s)"

text \<open>\<open>Value::as_u64\<close>.\<close>

fun as_u64 :: "json \<Rightarrow> u64 option" where
  "as_u64 (JNum (PosInt n)) = Some n"
| "as_u64 _ = None"

section \<open>Leases\<close>

definition ui_commit :: "EventKind \<Rightarrow> u64 option \<Rightarrow> json \<Rightarrow> 'p UiServerState \<Rightarrow> 'p UiServerState option" where
  "ui_commit kind tab_id payload u = map_option (\<lambda>s. u\<lparr>us_core := s\<rparr>) (server_commit kind tab_id payload (us_core u))"

definition clear_ui_client_snapshot_for :: "string \<Rightarrow> u32 \<Rightarrow> 'p UiServerState \<Rightarrow> 'p UiServerState" where
  "clear_ui_client_snapshot_for lease_id client_pid u =
     (case us_snapshot u of
        Some snapshot \<Rightarrow>
          if sr_lease_id snapshot = lease_id \<and> sr_client_pid snapshot = client_pid
          then u\<lparr>us_snapshot := None, us_commands := clear_active (us_commands u)\<rparr> else u
      | None \<Rightarrow> u)"

definition commit_ui_lease_event ::
  "UiEnv \<Rightarrow> UiLeaseRecord \<Rightarrow> string \<Rightarrow> string \<Rightarrow> 'p UiServerState \<Rightarrow> 'p UiServerState option" where
  "commit_ui_lease_event env lease state reason u =
     ui_commit UiLease None
       (JObj [(''state'', JStr state), (''client_id'', JStr (ul_client_id lease)),
              (''client_pid'', json_of_u64 (ucast (ul_client_pid lease))),
              (''client_build'', json_of_option (env_identity_json env) (ul_client_build lease)), (''reason'', JStr reason)]) u"

definition commit_window_visibility :: "bool \<Rightarrow> bool \<Rightarrow> string \<Rightarrow> 'p UiServerState \<Rightarrow> 'p UiServerState option" where
  "commit_window_visibility visible detached reason u =
     ui_commit WindowVisibility None (JObj [(''visible'', JBool visible), (''detached'', JBool detached), (''reason'', JStr reason)]) u"

definition reap_one :: "UiEnv \<Rightarrow> 'p UiServerState \<Rightarrow> UiLeaseRecord \<times> string \<Rightarrow> 'p UiServerState option" where
  "reap_one env u removed =
     (case removed of (lease, reason) \<Rightarrow>
        commit_ui_lease_event env lease ''detached'' reason
          (clear_ui_client_snapshot_for (ul_lease_id lease) (ul_client_pid lease) u))"

definition reap_stale_ui_lease :: "UiEnv \<Rightarrow> 'p UiServerState \<Rightarrow> 'p UiServerState option" where
  "reap_stale_ui_lease env u =
     (case reap_stale (us_ui_lease u) (env_now env) (env_process_is_alive env) of
        (removed, leases) \<Rightarrow>
          Option.bind (run_steps (reap_one env) (u\<lparr>us_ui_lease := leases\<rparr>) removed) (\<lambda>u.
            if removed \<noteq> [] \<and> la_leases (us_ui_lease u) = []
            then commit_window_visibility False True ''leases-empty'' u else Some u))"

definition ui_lease_failure :: "UiLeaseError \<Rightarrow> IpcResponse" where
  "ui_lease_failure e =
     typed_failure (UiLeaseError_message e) (UiLeaseError_code e) (UiLeaseError_category e) (UiLeaseError_retryable e)"

text \<open>\<open>UiHelloRequest::validate\<close>, of which the grant uses the client fields.\<close>

definition hello_validate ::
  "UiEnv \<Rightarrow> u32 \<Rightarrow> string \<Rightarrow> u32 \<times> u32 \<Rightarrow> UpgradeIdentity option \<Rightarrow> string + unit" where
  "hello_validate env schema_version client_id protocol_range client_build =
     (if schema_version \<noteq> UI_HELLO_SCHEMA_VERSION then Err ''ui_hello_schema_unsupported''
      else if client_id = [] \<or> UI_CLIENT_ID_MAX_BYTES < length client_id \<or> has_control client_id
      then Err ''ui_hello_client_id_invalid''
      else if fst protocol_range = 0 \<or> snd protocol_range < fst protocol_range then Err ''ui_hello_protocol_range_invalid''
      else if (case client_build of None \<Rightarrow> False
               | Some identity \<Rightarrow> (case env_identity_to_vec env identity of
                   Inl _ \<Rightarrow> True | Inr encoded \<Rightarrow> UI_BUILD_IDENTITY_MAX_BYTES < length encoded))
      then Err ''ui_hello_client_build_invalid'' else Ok ())"

record UiLeaseGrant =
  lg_schema_version :: u32
  lg_lease_id :: string
  lg_client_id :: string
  lg_client_pid :: u32
  lg_client_build :: "UpgradeIdentity option"
  lg_server_pid :: u32
  lg_position :: Event_Journal.EventPosition
  lg_expires_unix_ms :: u64
  lg_ttl_ms :: u64
  lg_observed_sequence :: u64

definition grant_validate :: "UiEnv \<Rightarrow> UiLeaseGrant \<Rightarrow> string + unit" where
  "grant_validate env grant =
     (if lg_schema_version grant \<noteq> UI_LEASE_SCHEMA_VERSION then Err ''ui_lease_schema_unsupported''
      else if lg_lease_id grant = [] \<or> UI_CLIENT_ID_MAX_BYTES < length (lg_lease_id grant) \<or> has_control (lg_lease_id grant)
      then Err ''ui_lease_id_invalid''
      else and_then (hello_validate env UI_HELLO_SCHEMA_VERSION (lg_client_id grant)
             (UI_BRIDGE_PROTOCOL_VERSION, UI_BRIDGE_PROTOCOL_VERSION) (lg_client_build grant)) (\<lambda>_.
        if lg_client_pid grant = 0 \<or> lg_server_pid grant = 0 \<or> pos_epoch (lg_position grant) = []
           \<or> lg_ttl_ms grant = 0 \<or> lg_expires_unix_ms grant < lg_ttl_ms grant
           \<or> pos_sequence (lg_position grant) < lg_observed_sequence grant
        then Err ''ui_lease_grant_invalid'' else Ok ()))"

definition lease_grant :: "UiEnv \<Rightarrow> UiLeaseRecord \<Rightarrow> 'p UiServerState \<Rightarrow> UiLeaseGrant" where
  "lease_grant env lease u =
     \<lparr>lg_schema_version = UI_LEASE_SCHEMA_VERSION, lg_lease_id = ul_lease_id lease, lg_client_id = ul_client_id lease,
      lg_client_pid = ul_client_pid lease, lg_client_build = ul_client_build lease, lg_server_pid = env_process_id env,
      lg_position = journal_position (sv_event_journal (us_core u)), lg_expires_unix_ms = ul_expires_unix_ms lease,
      lg_ttl_ms = UI_LEASE_TTL_MS, lg_observed_sequence = ul_observed_sequence lease\<rparr>"

definition position_json :: "Event_Journal.EventPosition \<Rightarrow> json" where
  "position_json p = JObj [(''server_epoch'', JStr (pos_epoch p)), (''sequence'', json_of_u64 (pos_sequence p))]"

text \<open>The derived serializer: the fields in order, the build only when it is known.\<close>

definition grant_json :: "UiEnv \<Rightarrow> UiLeaseGrant \<Rightarrow> json" where
  "grant_json env grant =
     JObj ([(''schema_version'', json_of_u64 (ucast (lg_schema_version grant))), (''lease_id'', JStr (lg_lease_id grant)),
            (''client_id'', JStr (lg_client_id grant)), (''client_pid'', json_of_u64 (ucast (lg_client_pid grant)))]
         @ (case lg_client_build grant of None \<Rightarrow> [] | Some b \<Rightarrow> [(''client_build'', env_identity_json env b)])
         @ [(''server_pid'', json_of_u64 (ucast (lg_server_pid grant))), (''position'', position_json (lg_position grant)),
            (''expires_unix_ms'', json_of_u64 (lg_expires_unix_ms grant)), (''ttl_ms'', json_of_u64 (lg_ttl_ms grant)),
            (''observed_sequence'', json_of_u64 (lg_observed_sequence grant))])"

definition ui_lease_grant_json :: "UiEnv \<Rightarrow> UiLeaseRecord \<Rightarrow> 'p UiServerState \<Rightarrow> IpcResponse" where
  "ui_lease_grant_json env lease u =
     (case grant_validate env (lease_grant env lease u) of
        Inl e \<Rightarrow> typed_failure e ''ui_lease_grant_invalid'' ''internal'' False
      | Inr _ \<Rightarrow>
          (case env_to_string_pretty env (grant_json env (lease_grant env lease u)) of
             Inr text \<Rightarrow> IpcResponse_success text
           | Inl e \<Rightarrow> typed_failure e ''ui_lease_serialization_failed'' ''internal'' False))"

definition lease_arguments :: "string \<Rightarrow> IpcResponse" where
  "lease_arguments message = typed_failure message ''ui_lease_invalid_arguments'' ''validation'' False"

definition lease_attach_with ::
  "UiEnv \<Rightarrow> string \<Rightarrow> u32 \<Rightarrow> UpgradeIdentity option \<Rightarrow> 'p UiServerState \<Rightarrow> (IpcResponse \<times> 'p UiServerState) option" where
  "lease_attach_with env client_id client_pid build u =
     (case attach (env_process_id env) (us_ui_lease u, us_next_lease_id u) client_id client_pid build (env_now env) of
        (Inl e, leases, next_id) \<Rightarrow> Some (ui_lease_failure e, u\<lparr>us_ui_lease := leases, us_next_lease_id := next_id\<rparr>)
      | (Inr (lease, created), leases, next_id) \<Rightarrow>
          let u = u\<lparr>us_ui_lease := leases, us_next_lease_id := next_id\<rparr>
          in map_option (\<lambda>u. (ui_lease_grant_json env lease u, u))
               (if created
                then Option.bind (commit_ui_lease_event env lease ''attached'' ''requested'' u)
                       (commit_window_visibility True False ''lease-attached'')
                else Some u))"

definition lease_attach_command ::
  "UiEnv \<Rightarrow> string list \<Rightarrow> 'p UiServerState \<Rightarrow> (IpcResponse \<times> 'p UiServerState) option" where
  "lease_attach_command env args u =
     (case option_value args ''--client-id'' of
        None \<Rightarrow> Some (lease_arguments ''ui-lease attach requires --client-id'', u)
      | Some client_id \<Rightarrow>
      case Option.bind (option_value args ''--client-pid'') parse_u32 of
        None \<Rightarrow> Some (lease_arguments ''ui-lease attach requires numeric --client-pid'', u)
      | Some client_pid \<Rightarrow>
          if \<not> env_process_is_alive env client_pid then Some (ui_lease_failure InvalidClientPid, u)
          else
            let client_build =
              (case option_value args ''--client-build-json'' of
                 None \<Rightarrow> Ok None
               | Some v \<Rightarrow>
                   if UI_BUILD_IDENTITY_MAX_BYTES < length v
                   then Err ''ui-lease attach client build identity exceeds its byte budget''
                   else (case env_identity_from_str env v of
                       Inl e \<Rightarrow> Err (''ui-lease attach client build identity is invalid: '' @ e)
                     | Inr identity \<Rightarrow> Ok (Some identity)))
            in (case client_build of
                Inl message \<Rightarrow> Some (typed_failure message ''ui_lease_client_build_invalid'' ''validation'' False, u)
              | Inr build \<Rightarrow> lease_attach_with env client_id client_pid build u))"

definition lease_heartbeat_command ::
  "UiEnv \<Rightarrow> string list \<Rightarrow> 'p UiServerState \<Rightarrow> IpcResponse \<times> 'p UiServerState" where
  "lease_heartbeat_command env args u =
     (case option_value args ''--lease-id'' of
        None \<Rightarrow> (lease_arguments ''ui-lease heartbeat requires --lease-id'', u)
      | Some lease_id \<Rightarrow>
      case Option.bind (option_value args ''--client-pid'') parse_u32 of
        None \<Rightarrow> (lease_arguments ''ui-lease heartbeat requires numeric --client-pid'', u)
      | Some client_pid \<Rightarrow>
          (case heartbeat (us_ui_lease u) lease_id client_pid (env_now env) of
             (Inr lease, leases) \<Rightarrow>
               let u = u\<lparr>us_ui_lease := leases\<rparr> in (ui_lease_grant_json env lease u, u)
           | (Inl e, leases) \<Rightarrow> (ui_lease_failure e, u\<lparr>us_ui_lease := leases\<rparr>)))"

definition detached_json :: "UiEnv \<Rightarrow> UiLeaseRecord \<Rightarrow> 'p UiServerState \<Rightarrow> json" where
  "detached_json env lease u =
     JObj [(''schema_version'', json_of_u64 (ucast UI_LEASE_SCHEMA_VERSION)), (''detached'', JBool True),
           (''client_id'', JStr (ul_client_id lease)), (''client_pid'', json_of_u64 (ucast (ul_client_pid lease))),
           (''client_build'', json_of_option (env_identity_json env) (ul_client_build lease)),
           (''remaining_leases'', json_of_usize (length (la_leases (us_ui_lease u)))),
           (''position'', position_json (journal_position (sv_event_journal (us_core u))))]"

definition lease_detach_with ::
  "UiEnv \<Rightarrow> string \<Rightarrow> u32 \<Rightarrow> 'p UiServerState \<Rightarrow> (IpcResponse \<times> 'p UiServerState) option" where
  "lease_detach_with env lease_id client_pid u =
     (case detach (us_ui_lease u) lease_id client_pid of
        (Inl e, leases) \<Rightarrow> Some (ui_lease_failure e, u\<lparr>us_ui_lease := leases\<rparr>)
      | (Inr lease, leases) \<Rightarrow>
          Option.bind
            (commit_ui_lease_event env lease ''detached'' ''requested''
               (clear_ui_client_snapshot_for (ul_lease_id lease) (ul_client_pid lease) (u\<lparr>us_ui_lease := leases\<rparr>))) (\<lambda>u.
          map_option (\<lambda>u. (IpcResponse_success (env_to_string env (detached_json env lease u)), u))
            (if la_leases (us_ui_lease u) = [] then commit_window_visibility False True ''detach'' u else Some u)))"

definition lease_detach_command ::
  "UiEnv \<Rightarrow> string list \<Rightarrow> 'p UiServerState \<Rightarrow> (IpcResponse \<times> 'p UiServerState) option" where
  "lease_detach_command env args u =
     (case option_value args ''--lease-id'' of
        None \<Rightarrow> Some (lease_arguments ''ui-lease detach requires --lease-id'', u)
      | Some lease_id \<Rightarrow>
      case Option.bind (option_value args ''--client-pid'') parse_u32 of
        None \<Rightarrow> Some (lease_arguments ''ui-lease detach requires numeric --client-pid'', u)
      | Some client_pid \<Rightarrow> lease_detach_with env lease_id client_pid u)"

definition lease_acknowledge_command ::
  "UiEnv \<Rightarrow> string list \<Rightarrow> 'p UiServerState \<Rightarrow> IpcResponse \<times> 'p UiServerState" where
  "lease_acknowledge_command env args u =
     (case option_value args ''--lease-id'' of
        None \<Rightarrow> (lease_arguments ''ui-lease acknowledge requires --lease-id'', u)
      | Some lease_id \<Rightarrow>
      case Option.bind (option_value args ''--client-pid'') parse_u32 of
        None \<Rightarrow> (lease_arguments ''ui-lease acknowledge requires numeric --client-pid'', u)
      | Some client_pid \<Rightarrow>
      case Option.bind (option_value args ''--sequence'') parse_u64 of
        None \<Rightarrow> (lease_arguments ''ui-lease acknowledge requires numeric --sequence'', u)
      | Some sequence \<Rightarrow>
          (case acknowledge (us_ui_lease u) lease_id client_pid sequence
                  (pos_sequence (journal_position (sv_event_journal (us_core u)))) (env_now env) of
             (Inr lease, leases) \<Rightarrow>
               let u = u\<lparr>us_ui_lease := leases\<rparr> in (ui_lease_grant_json env lease u, u)
           | (Inl e, leases) \<Rightarrow> (ui_lease_failure e, u\<lparr>us_ui_lease := leases\<rparr>)))"

definition lease_status_json :: "UiEnv \<Rightarrow> 'p UiServerState \<Rightarrow> json" where
  "lease_status_json env u =
     (let active = lease_active (us_ui_lease u);
          build = (\<lambda>lease. json_of_option (env_identity_json env) (ul_client_build lease));
          clients = map (\<lambda>lease. JObj [(''lease_id'', JStr (ul_lease_id lease)), (''client_id'', JStr (ul_client_id lease)),
            (''client_pid'', json_of_u64 (ucast (ul_client_pid lease))), (''client_build'', build lease),
            (''expires_unix_ms'', json_of_u64 (ul_expires_unix_ms lease)),
            (''observed_sequence'', json_of_u64 (ul_observed_sequence lease))]) (la_leases (us_ui_lease u))
      in JObj [(''schema_version'', json_of_u64 (ucast UI_LEASE_SCHEMA_VERSION)), (''attached'', JBool (clients \<noteq> [])),
           (''client_count'', json_of_usize (length clients)), (''clients'', JArr clients),
           (''client_id'', json_of_option (\<lambda>lease. JStr (ul_client_id lease)) active),
           (''client_pid'', json_of_option (\<lambda>lease. json_of_u64 (ucast (ul_client_pid lease))) active),
           (''client_build'', json_of_option build active),
           (''expires_unix_ms'', json_of_option (\<lambda>lease. json_of_u64 (ul_expires_unix_ms lease)) active),
           (''observed_sequence'', json_of_option (\<lambda>lease. json_of_u64 (ul_observed_sequence lease)) active),
           (''position'', position_json (journal_position (sv_event_journal (us_core u))))])"

definition execute_ui_lease_command ::
  "UiEnv \<Rightarrow> string list \<Rightarrow> 'p UiServerState \<Rightarrow> (IpcResponse \<times> 'p UiServerState) option" where
  "execute_ui_lease_command env args u =
     (let act = (case args of _ # a # _ \<Rightarrow> a | _ \<Rightarrow> []) in
      Option.bind (reap_stale_ui_lease env u) (\<lambda>u.
        if act = ''attach'' then lease_attach_command env args u
        else if act = ''heartbeat'' then Some (lease_heartbeat_command env args u)
        else if act = ''detach'' then lease_detach_command env args u
        else if act = ''acknowledge'' then Some (lease_acknowledge_command env args u)
        else if act = ''status'' then Some (IpcResponse_success (env_to_string env (lease_status_json env u)), u)
        else Some (lease_arguments ''ui-lease requires attach, heartbeat, acknowledge, detach, or status'', u)))"

section \<open>The published snapshot\<close>

definition validate_ui_client_snapshot ::
  "UiEnv \<Rightarrow> string \<Rightarrow> u32 \<Rightarrow> u32 \<Rightarrow> string \<Rightarrow> u64 \<Rightarrow> string + unit" where
  "validate_ui_client_snapshot env text client_pid server_pid server_epoch current_sequence =
     (if text = [] \<or> UI_CLIENT_STATE_MAX_BYTES < length text
      then Err (''UI client snapshot must contain 1..='' @ show_nat UI_CLIENT_STATE_MAX_BYTES @ '' bytes'')
      else case env_from_str env text of
        Inl e \<Rightarrow> Err (''UI client snapshot is not valid JSON: '' @ e)
      | Inr v \<Rightarrow>
      case as_object v of
        None \<Rightarrow> Err ''UI client snapshot must be a JSON object''
      | Some members \<Rightarrow>
          if Option.bind (map_of members ''schema_version'') as_u64 \<noteq> Some (ucast UI_CLIENT_STATE_SCHEMA_VERSION)
          then Err (''UI client snapshot schema_version must be '' @ show_nat (unat UI_CLIENT_STATE_SCHEMA_VERSION))
          else if Option.bind (map_of members ''projection'') as_str \<noteq> Some PROJECTION_REPLACEABLE_UI_CLIENT
          then Err (''UI client snapshot projection must be '' @ PROJECTION_REPLACEABLE_UI_CLIENT)
          else if Option.bind (map_of members ''client_pid'') as_u64 \<noteq> Some (ucast client_pid)
          then Err ''UI client snapshot client_pid does not match the lease owner''
          else if Option.bind (map_of members ''server_pid'') as_u64 \<noteq> Some (ucast server_pid)
          then Err ''UI client snapshot server_pid does not match this server''
          else (case Option.bind (map_of members ''event_position'') as_object of
              None \<Rightarrow> Err ''UI client snapshot requires event_position''
            | Some event_position \<Rightarrow>
                if Option.bind (map_of event_position ''epoch'') as_str \<noteq> Some server_epoch
                then Err ''UI client snapshot event_position epoch does not match this server''
                else (case Option.bind (map_of event_position ''sequence'') as_u64 of
                    None \<Rightarrow> Err ''UI client snapshot event_position requires numeric sequence''
                  | Some sequence \<Rightarrow>
                      if current_sequence < sequence
                      then Err (''UI client snapshot sequence '' @ show_nat (unat sequence) @ '' is ahead of server sequence ''
                              @ show_nat (unat current_sequence))
                      else if (case map_of members ''tabs'' of Some (JArr _) \<Rightarrow> False | _ \<Rightarrow> True)
                      then Err ''UI client snapshot requires a tabs array''
                      else Ok ())))"

definition state_arguments :: "string \<Rightarrow> IpcResponse" where
  "state_arguments message = typed_failure message ''ui_client_state_invalid_arguments'' ''validation'' False"

definition execute_ui_client_state_command ::
  "UiEnv \<Rightarrow> string list \<Rightarrow> 'p UiServerState \<Rightarrow> IpcResponse \<times> 'p UiServerState" where
  "execute_ui_client_state_command env args u =
     (if (case args of _ # act # _ \<Rightarrow> act \<noteq> ''publish'' | _ \<Rightarrow> True)
      then (state_arguments ''ui-client-state requires publish'', u)
      else case option_value args ''--lease-id'' of
        None \<Rightarrow> (state_arguments ''ui-client-state publish requires --lease-id'', u)
      | Some lease_id \<Rightarrow>
      case Option.bind (option_value args ''--client-pid'') parse_u32 of
        None \<Rightarrow> (state_arguments ''ui-client-state publish requires numeric --client-pid'', u)
      | Some client_pid \<Rightarrow>
      case verify_owner (us_ui_lease u) lease_id client_pid of
        Inl e \<Rightarrow> (ui_lease_failure e, u)
      | Inr _ \<Rightarrow>
      case option_value args ''--snapshot-json'' of
        None \<Rightarrow> (state_arguments ''ui-client-state publish requires --snapshot-json'', u)
      | Some snapshot_json \<Rightarrow>
          let pos = journal_position (sv_event_journal (us_core u))
          in (case validate_ui_client_snapshot env snapshot_json client_pid (env_process_id env) (pos_epoch pos) (pos_sequence pos) of
                Inl e \<Rightarrow> (typed_failure e ''ui_client_state_invalid'' ''validation'' False, u)
              | Inr _ \<Rightarrow>
                  (IpcResponse_success (env_to_string env
                     (JObj [(''schema_version'', json_of_u64 (ucast UI_CLIENT_STATE_SCHEMA_VERSION)), (''published'', JBool True),
                            (''client_pid'', json_of_u64 (ucast client_pid)), (''position'', position_json pos)])),
                   u\<lparr>us_snapshot := Some \<lparr>sr_lease_id = lease_id, sr_client_pid = client_pid, sr_json = snapshot_json\<rparr>\<rparr>)))"

section \<open>Interactions\<close>

definition not_active :: "string \<Rightarrow> IpcResponse" where
  "not_active message = typed_failure message ''ui_interaction_target_not_active'' ''conflict'' True"

definition submission_pending :: "string \<Rightarrow> IpcResponse" where
  "submission_pending message = typed_failure message ''ui_interaction_submission_pending'' ''conflict'' True"

definition not_writable :: "string \<Rightarrow> IpcResponse" where
  "not_writable message = typed_failure message ''terminal_not_writable'' ''precondition'' False"

definition set_tab :: "nat \<Rightarrow> 'p TerminalTab \<Rightarrow> 'p UiServerState \<Rightarrow> 'p UiServerState" where
  "set_tab k tab u = u\<lparr>us_core := (us_core u)\<lparr>sv_tabs := (sv_tabs (us_core u))[k := tab]\<rparr>\<rparr>"

text \<open>
  The four arms on the tab at position \<open>k\<close>: a refusal, or the number of input bytes and the size to report.
  \<open>written\<close> is the error of the native write, \<open>native_error\<close> that of the native resize.
\<close>

fun perform_interaction ::
  "('p \<Rightarrow> u16 \<times> u16 \<Rightarrow> 'p) \<Rightarrow> string option \<Rightarrow> string option \<Rightarrow> nat \<Rightarrow> UiInteraction \<Rightarrow> 'p UiServerState
   \<Rightarrow> ((IpcResponse + nat option \<times> u16 option \<times> u16 option) \<times> 'p UiServerState) option" where
  "perform_interaction set_size written native_error k (UiSelect _ _ _) u =
     map_option (\<lambda>(r, s).
         (case r of Inl e \<Rightarrow> Err (typed_failure e ''ui_interaction_select_failed'' ''precondition'' False)
          | Inr _ \<Rightarrow> Ok (None, None, None), u\<lparr>us_core := s\<rparr>))
       (select_tab_at k (us_core u))"
| "perform_interaction set_size written native_error k (UiInput _ _ tab_id bytes) u =
     (if sv_active (us_core u) \<noteq> Some tab_id then Some (Err (not_active ''UI input target is not the active tab''), u)
      else if submission_is_pending (tb_submission (sv_tabs (us_core u) ! k))
      then Some (Err (submission_pending ''composer submission is pending; UI terminal input is paused''), u)
      else (case tab_send written bytes (sv_tabs (us_core u) ! k) of
          (False, tab) \<Rightarrow>
            Some (Err (not_writable ''terminal input was not accepted because the pane is no longer writable''), set_tab k tab u)
        | (True, tab) \<Rightarrow> Some (Ok (Some (length bytes), None, None), set_tab k tab u)))"
| "perform_interaction set_size written native_error k (UiPaste _ _ tab_id bytes text_bytes characters bracketed) u =
     (if sv_active (us_core u) \<noteq> Some tab_id then Some (Err (not_active ''UI paste target is not the active tab''), u)
      else if submission_is_pending (tb_submission (sv_tabs (us_core u) ! k))
      then Some (Err (submission_pending ''composer submission is pending; UI terminal paste is paused''), u)
      else (case tab_send written bytes (sv_tabs (us_core u) ! k) of
          (False, tab) \<Rightarrow>
            Some (Err (not_writable ''terminal paste was not accepted because the pane is no longer writable''), set_tab k tab u)
        | (True, tab) \<Rightarrow>
            map_option (Pair (Ok (Some (length bytes), None, None)))
              (ui_commit TerminalPasted (Some tab_id)
                 (JObj [(''characters'', json_of_usize characters), (''bytes'', json_of_usize text_bytes),
                        (''bracketed'', JBool bracketed), (''source'', JStr ''keyboard''), (''operation_id'', JStr ''terminal.paste'')])
                 (set_tab k tab u))))"
| "perform_interaction set_size written native_error k (UiResize _ _ tab_id rows columns) u =
     (case tab_resize set_size native_error (rows, columns) (sv_tabs (us_core u) ! k) of
        (Inl e, tab) \<Rightarrow>
          Some (Err (typed_failure (''terminal resize was rejected: '' @ e) ''terminal_resize_failed'' ''runtime'' True), set_tab k tab u)
      | (Inr _, tab) \<Rightarrow>
          map_option (Pair (Ok (None, Some rows, Some columns)))
            (ui_commit TerminalResized (Some tab_id)
               (JObj [(''rows'', json_of_u64 (ucast rows)), (''columns'', json_of_u64 (ucast columns)), (''source'', JStr ''ui_lease'')])
               (set_tab k tab u)))"

definition interaction_json ::
  "UiInteraction \<Rightarrow> nat option \<times> u16 option \<times> u16 option \<Rightarrow> UiLeaseRecord \<Rightarrow> 'p UiServerState \<Rightarrow> json" where
  "interaction_json i reported lease u =
     (case reported of (input_bytes, rows, columns) \<Rightarrow>
      JObj [(''schema_version'', json_of_u64 (ucast UI_INTERACTION_SCHEMA_VERSION)), (''action'', JStr (interaction_action i)),
            (''tab_id'', JStr (CHR ''@'' # show_nat (unat (interaction_tab_id i)))),
            (''input_bytes'', json_of_option json_of_usize input_bytes),
            (''rows'', json_of_option (\<lambda>n. json_of_u64 (ucast n)) rows),
            (''columns'', json_of_option (\<lambda>n. json_of_u64 (ucast n)) columns),
            (''lease_expires_unix_ms'', json_of_u64 (ul_expires_unix_ms lease)),
            (''position'', position_json (journal_position (sv_event_journal (us_core u))))])"

definition execute_ui_interaction_command ::
  "UiEnv \<Rightarrow> ('p \<Rightarrow> u16 \<times> u16 \<Rightarrow> 'p) \<Rightarrow> string option \<Rightarrow> string option \<Rightarrow> string list \<Rightarrow> 'p UiServerState
   \<Rightarrow> (IpcResponse \<times> 'p UiServerState) option" where
  "execute_ui_interaction_command env set_size written native_error args u =
     (case parse_ui_interaction args of
        Inl e \<Rightarrow> Some (typed_failure e ''ui_interaction_invalid_arguments'' ''validation'' False, u)
      | Inr i \<Rightarrow>
          Option.bind (reap_stale_ui_lease env u) (\<lambda>u.
          case heartbeat (us_ui_lease u) (fst (lease_identity i)) (snd (lease_identity i)) (env_now env) of
            (Inl e, leases) \<Rightarrow> Some (ui_lease_failure e, u\<lparr>us_ui_lease := leases\<rparr>)
          | (Inr lease, leases) \<Rightarrow>
              let u = u\<lparr>us_ui_lease := leases\<rparr>
              in (case position (\<lambda>tab. tb_id tab = interaction_tab_id i) (sv_tabs (us_core u)) of
                    None \<Rightarrow>
                      Some (typed_failure (''can't find UI interaction target: @'' @ show_nat (unat (interaction_tab_id i)))
                              ''ui_interaction_target_not_found'' ''not_found'' False, u)
                  | Some k \<Rightarrow>
                      map_option (\<lambda>(r, u).
                          (case r of Inl response \<Rightarrow> response
                           | Inr reported \<Rightarrow> IpcResponse_success (env_to_string env (interaction_json i reported lease u)), u))
                        (perform_interaction set_size written native_error k i u))))"

section \<open>The relay\<close>

definition relays_to_ui_client :: "string \<Rightarrow> bool \<Rightarrow> bool" where
  "relays_to_ui_client name ui_client_attached =
     (if name \<in> {''ui-action'', ''focus'', ''get-settings'', ''set-setting'', ''screenshot'', ''screenshot-pane'',
                 ''screenshot-tab'', UI_CLIENT_COMMAND_FOCUS, UI_CLIENT_COMMAND_SHOW_NO_ACTIVATE} then True
      else if name = ''ui-input'' then ui_client_attached else False)"

definition ui_client_command_requires_server_preapply :: "string list \<Rightarrow> bool" where
  "ui_client_command_requires_server_preapply args =
     (case args of
        [] \<Rightarrow> False
      | name # rest \<Rightarrow>
          if name = ''focus'' then True
          else if name = ''ui-action''
          then (case rest of [] \<Rightarrow> False
                | act # _ \<Rightarrow> act \<in> {''new-tab'', ''new-child'', ''select-tab'', ''toggle-tree'', ''composer-send''})
          else False)"

definition is_replaceable_ui_client_snapshot_visible :: "UiEnv \<Rightarrow> string \<Rightarrow> bool" where
  "is_replaceable_ui_client_snapshot_visible env snapshot_json =
     (case env_from_str env snapshot_json of
        Inl _ \<Rightarrow> False
      | Inr v \<Rightarrow>
          (case Option.bind (Option.bind (as_object v) (\<lambda>members. map_of members ''window'')) as_object of
             None \<Rightarrow> False
           | Some window \<Rightarrow>
               map_of window ''detached'' \<noteq> Some (JBool True) \<and> map_of window ''visible'' = Some (JBool True)))"

definition ui_unavailable :: "string \<Rightarrow> IpcResponse" where
  "ui_unavailable message = typed_failure message ''ui_client_unavailable'' ''availability'' True"

text \<open>Enqueueing a command for the client; \<open>shared\<close> is the command table (\<open>execute_ui_client_command\<close> below).\<close>

definition relay_queued :: "UiEnv \<Rightarrow> string \<Rightarrow> 'p UiServerState \<Rightarrow> IpcResponse \<times> 'p UiServerState" where
  "relay_queued env command_id u =
     (IpcResponse_success (env_to_string env
        (JObj [(''schema_version'', json_of_u64 (ucast UI_CLIENT_COMMAND_SCHEMA_VERSION)), (''relay'', JStr ''ui_client''),
               (''queued'', JBool True), (''command_id'', JStr command_id),
               (''position'', position_json (journal_position (sv_event_journal (us_core u))))])), u)"

definition relay_discard :: "string \<Rightarrow> 'p UiServerState \<Rightarrow> 'p UiServerState" where
  "relay_discard command_id u = u\<lparr>us_commands := snd (discard_pending command_id (us_commands u))\<rparr>"

definition relay_preapplied ::
  "UiEnv \<Rightarrow> string \<Rightarrow> IpcResponse option \<times> 'p UiServerState \<Rightarrow> IpcResponse \<times> 'p UiServerState" where
  "relay_preapplied env command_id x =
     (case x of
        (None, u) \<Rightarrow>
          (typed_failure ''UI client command has no server-owned preapply phase'' ''ui_client_command_apply_unsupported''
             ''unsupported'' False, relay_discard command_id u)
      | (Some response, u) \<Rightarrow>
          if \<not> ir_ok response then (response, relay_discard command_id u)
          else (case record_preapplied (env_response_to_string env) command_id response (us_commands u) of
              (Inl e, commands) \<Rightarrow>
                (typed_failure e ''ui_client_command_preapply_invalid'' ''internal'' False,
                 relay_discard command_id (u\<lparr>us_commands := commands\<rparr>))
            | (Inr _, commands) \<Rightarrow> relay_queued env command_id (u\<lparr>us_commands := commands\<rparr>)))"

definition enqueue_ui_client_command ::
  "UiEnv \<Rightarrow> 'p shared_table \<Rightarrow> string list \<Rightarrow> 'p UiServerState
   \<Rightarrow> (IpcResponse \<times> 'p UiServerState) option" where
  "enqueue_ui_client_command env shared args u =
     Option.bind (reap_stale_ui_lease env u) (\<lambda>u.
       if lease_active (us_ui_lease u) = None
       then Some (ui_unavailable ''no interactive GUI client is attached to this server'', u)
       else if is_ui_client_handoff_command args
         \<and> (case us_snapshot u of None \<Rightarrow> True
            | Some snapshot \<Rightarrow> \<not> is_replaceable_ui_client_snapshot_visible env (sr_json snapshot))
       then Some (ui_unavailable ''no interactive GUI client is currently visible'', u)
       else (case enqueue args (us_commands u) of
           (Inl e, commands) \<Rightarrow>
             Some (typed_failure e ''ui_client_command_queue_full'' ''capacity'' True, u\<lparr>us_commands := commands\<rparr>)
         | (Inr command_id, commands) \<Rightarrow>
             let u = u\<lparr>us_commands := commands\<rparr>
             in if ui_client_command_requires_server_preapply args
                then map_option (relay_preapplied env command_id) (shared args u)
                else Some (relay_queued env command_id u)))"

section \<open>Relayed commands\<close>

definition command_arguments :: "string \<Rightarrow> IpcResponse" where
  "command_arguments message = typed_failure message ''ui_client_command_invalid_arguments'' ''validation'' False"

definition ui_result_command :: "UiEnv \<Rightarrow> string list \<Rightarrow> 'p UiServerState \<Rightarrow> IpcResponse \<times> 'p UiServerState" where
  "ui_result_command env args u =
     (case option_value args ''--command-id'' of
        None \<Rightarrow> (command_arguments ''ui-client-command result requires --command-id'', u)
      | Some command_id \<Rightarrow>
          (case queue_result command_id (us_commands u) of
             ResultPending \<Rightarrow>
               (IpcResponse_success (env_to_string env (JObj [(''state'', JStr ''pending''), (''command_id'', JStr command_id)])), u)
           | ResultInFlight \<Rightarrow>
               (IpcResponse_success (env_to_string env (JObj [(''state'', JStr ''in_flight''), (''command_id'', JStr command_id)])), u)
           | ResultComplete response_json \<Rightarrow>
               let response = (case env_from_str env response_json of Inr v \<Rightarrow> v | Inl _ \<Rightarrow> JNull)
               in (IpcResponse_success (env_to_string env
                     (JObj [(''state'', JStr ''complete''), (''command_id'', JStr command_id), (''response'', response)])),
                   if us_shutdown_after_ui_result u = Some command_id
                   then u\<lparr>us_shutdown_after_ui_result := None, us_shutdown_requested := True\<rparr> else u)
           | ResultUnknown \<Rightarrow>
               (typed_failure ''UI client command is unknown or expired'' ''ui_client_command_unknown'' ''precondition'' False, u)))"

fun as_bool :: "json \<Rightarrow> bool option" where
  "as_bool (JBool b) = Some b"
| "as_bool _ = None"

definition sidebar :: "json \<Rightarrow> string \<Rightarrow> json" where
  "sidebar v name = json_index (json_index (json_index v ''layout'') ''sidebar'') name"

definition visibility_operation :: "string \<Rightarrow> string" where
  "visibility_operation act =
     (if act = ''tabs-show'' then ''ui.tabs.show'' else if act = ''tabs-hide'' then ''ui.tabs.hide'' else ''ui.tabs.toggle'')"

definition commit_client_ui_action_event ::
  "UiEnv \<Rightarrow> UiClientCommand \<Rightarrow> IpcResponse \<Rightarrow> 'p UiServerState \<Rightarrow> 'p UiServerState option" where
  "commit_client_ui_action_event env c response u =
     (case uc_args c of
        _ # act # _ \<Rightarrow>
          let previous = Option.bind (us_snapshot u) (\<lambda>snapshot.
                case env_from_str env (sr_json snapshot) of Inr v \<Rightarrow> Some v | Inl _ \<Rightarrow> None)
          in (case env_from_str env (ir_output response) of
                Inl _ \<Rightarrow> Some u
              | Inr current \<Rightarrow>
                  if act \<in> {''tabs-show'', ''tabs-hide'', ''tabs-toggle'', ''toggle-tabs''}
                  then let visible = as_bool (sidebar current ''visible'')
                       in if visible \<noteq> None \<and> visible \<noteq> Option.bind previous (\<lambda>v. as_bool (sidebar v ''visible''))
                          then ui_commit LayoutTabsVisibility None
                                 (JObj [(''visible'', json_of_option JBool visible), (''cause'', JStr ''semantic''),
                                        (''operation_id'', JStr (visibility_operation act))]) u
                          else Some u
                  else if act = ''tabs-set-width''
                  then let width = as_u64 (sidebar current ''configured_width'')
                       in if width \<noteq> None \<and> width \<noteq> Option.bind previous (\<lambda>v. as_u64 (sidebar v ''configured_width''))
                          then ui_commit LayoutTabsWidth None
                                 (JObj [(''configured_width'', json_of_option json_of_u64 width),
                                        (''effective_width'', sidebar current ''effective_width''), (''cause'', JStr ''semantic''),
                                        (''operation_id'', JStr ''ui.tabs.set-width'')]) u
                          else Some u
                  else Some u)
      | _ \<Rightarrow> Some u)"

text \<open>
  \<open>value[key] = x\<close>: a null becomes an object; indexing any other value that is no object panics, which is
  \<open>None\<close>.
\<close>

fun json_assign :: "json \<Rightarrow> string \<Rightarrow> json \<Rightarrow> json option" where
  "json_assign (JObj ms) k x = Some (JObj (AList.update k x ms))"
| "json_assign JNull k x = Some (JObj [(k, x)])"
| "json_assign _ k x = None"

definition set_event_position :: "Event_Journal.EventPosition \<Rightarrow> json \<Rightarrow> json option" where
  "set_event_position pos v =
     Option.bind (json_assign (json_index v ''event_position'') ''epoch'' (JStr (pos_epoch pos))) (\<lambda>inner.
     Option.bind (json_assign inner ''sequence'' (json_of_u64 (pos_sequence pos))) (\<lambda>inner.
     json_assign v ''event_position'' inner))"

text \<open>
  A successful answer that is a snapshot of the client gets the current event position: \<open>Some None\<close> when it
  is no such answer.
\<close>

definition client_projection :: "UiEnv \<Rightarrow> IpcResponse \<Rightarrow> json option" where
  "client_projection env response =
     (if ir_ok response
      then (case env_from_str env (ir_output response) of
          Inl _ \<Rightarrow> None
        | Inr v \<Rightarrow> if as_str (json_index v ''projection'') = Some PROJECTION_REPLACEABLE_UI_CLIENT then Some v else None)
      else None)"

definition refresh_position :: "UiEnv \<Rightarrow> 'p UiServerState \<Rightarrow> IpcResponse \<Rightarrow> IpcResponse option option" where
  "refresh_position env u response =
     (case client_projection env response of
        None \<Rightarrow> Some None
      | Some v \<Rightarrow>
          map_option (\<lambda>v. Some (response\<lparr>ir_output :=
              (case env_to_string_pretty env v of Inr t \<Rightarrow> t | Inl _ \<Rightarrow> ir_output response)\<rparr>))
            (set_event_position (journal_position (sv_event_journal (us_core u))) v))"

definition completion_invalid :: "string \<Rightarrow> string \<Rightarrow> IpcResponse" where
  "completion_invalid category e = typed_failure e ''ui_client_command_completion_invalid'' category False"

text \<open>Storing the changed answer: the answer, or the response that ends the command.\<close>

definition store_answer ::
  "UiEnv \<Rightarrow> string \<Rightarrow> IpcResponse \<Rightarrow> 'p UiServerState \<Rightarrow> (IpcResponse + IpcResponse) \<times> 'p UiServerState" where
  "store_answer env command_id response u =
     (case replace_completed (env_response_to_string env) command_id response (us_commands u) of
        (Inl e, q) \<Rightarrow> (Err (completion_invalid ''internal'' e), u\<lparr>us_commands := q\<rparr>)
      | (Inr _, q) \<Rightarrow> (Ok response, u\<lparr>us_commands := q\<rparr>))"

definition complete_refresh ::
  "UiEnv \<Rightarrow> string \<Rightarrow> IpcResponse \<Rightarrow> 'p UiServerState \<Rightarrow> ((IpcResponse + IpcResponse) \<times> 'p UiServerState) option" where
  "complete_refresh env command_id response u =
     map_option (\<lambda>refreshed.
       case refreshed of
         None \<Rightarrow> (Ok response, u)
       | Some response \<Rightarrow> store_answer env command_id response u)
     (refresh_position env u response)"

definition complete_detach ::
  "UiEnv \<Rightarrow> string \<Rightarrow> u32 \<Rightarrow> string \<Rightarrow> IpcResponse \<Rightarrow> 'p UiServerState
   \<Rightarrow> ((IpcResponse + IpcResponse) \<times> 'p UiServerState) option" where
  "complete_detach env lease_id client_pid command_id response u =
     (case detach (us_ui_lease u) lease_id client_pid of
        (Inl e, leases) \<Rightarrow> Some (Err (ui_lease_failure e), u\<lparr>us_ui_lease := leases\<rparr>)
      | (Inr lease, leases) \<Rightarrow>
          Option.bind
            (commit_ui_lease_event env lease ''detached'' ''requested''
               (clear_ui_client_snapshot_for (ul_lease_id lease) (ul_client_pid lease) (u\<lparr>us_ui_lease := leases\<rparr>))) (\<lambda>u.
          Option.bind (if la_leases (us_ui_lease u) = [] then commit_window_visibility False True ''detach'' u else Some u) (\<lambda>u.
          map_option (\<lambda>refreshed. store_answer env command_id (case refreshed of None \<Rightarrow> response | Some r \<Rightarrow> r) u)
            (refresh_position env u response))))"

definition complete_publish :: "UiEnv \<Rightarrow> string \<Rightarrow> u32 \<Rightarrow> IpcResponse \<Rightarrow> 'p UiServerState \<Rightarrow> 'p UiServerState" where
  "complete_publish env lease_id client_pid response u =
     (if client_projection env response \<noteq> None
      then let pos = journal_position (sv_event_journal (us_core u))
           in (case validate_ui_client_snapshot env (ir_output response) client_pid (env_process_id env) (pos_epoch pos) (pos_sequence pos) of
                 Inr _ \<Rightarrow> u\<lparr>us_snapshot := Some \<lparr>sr_lease_id = lease_id, sr_client_pid = client_pid, sr_json = ir_output response\<rparr>\<rparr>
               | Inl _ \<Rightarrow> u)
      else u)"

definition complete_finish ::
  "UiEnv \<Rightarrow> string list \<Rightarrow> string \<Rightarrow> u32 \<Rightarrow> string \<Rightarrow> (IpcResponse + IpcResponse) \<times> 'p UiServerState
   \<Rightarrow> IpcResponse \<times> 'p UiServerState" where
  "complete_finish env args lease_id client_pid command_id x =
     (case x of
        (Inl refusal, u) \<Rightarrow> (refusal, u)
      | (Inr response, u) \<Rightarrow>
          let u = (if has_option args ''--shutdown-after-result'' then u\<lparr>us_shutdown_after_ui_result := Some command_id\<rparr> else u)
          in (IpcResponse_success (env_to_string env
                (JObj [(''schema_version'', json_of_u64 (ucast UI_CLIENT_COMMAND_SCHEMA_VERSION)), (''completed'', JBool True),
                       (''command_id'', JStr command_id)])),
              complete_publish env lease_id client_pid response u))"

definition ui_complete_command ::
  "UiEnv \<Rightarrow> string list \<Rightarrow> string \<Rightarrow> u32 \<Rightarrow> 'p UiServerState \<Rightarrow> (IpcResponse \<times> 'p UiServerState) option" where
  "ui_complete_command env args lease_id client_pid u =
     (case option_value args ''--command-id'' of
        None \<Rightarrow> Some (command_arguments ''ui-client-command complete requires --command-id'', u)
      | Some command_id \<Rightarrow>
      case option_value args ''--response-json'' of
        None \<Rightarrow> Some (command_arguments ''ui-client-command complete requires --response-json'', u)
      | Some response_json \<Rightarrow>
          let completed_command = map_of (uq_in_flight (us_commands u)) command_id
          in (case queue_complete (env_response_from_str env) command_id response_json (us_commands u) of
                (Inl e, q) \<Rightarrow> Some (completion_invalid ''validation'' e, u\<lparr>us_commands := q\<rparr>)
              | (Inr response, q) \<Rightarrow>
                  let u = u\<lparr>us_commands := q\<rparr>
                  in Option.bind (case completed_command of
                         Some c \<Rightarrow> if ir_ok response then commit_client_ui_action_event env c response u else Some u
                       | None \<Rightarrow> Some u) (\<lambda>u.
                     Option.bind (complete_refresh env command_id response u) (\<lambda>x.
                       case x of
                         (Inl refusal, u) \<Rightarrow> Some (refusal, u)
                       | (Inr response, u) \<Rightarrow>
                           map_option (complete_finish env args lease_id client_pid command_id)
                             (if has_option args ''--detach'' then complete_detach env lease_id client_pid command_id response u
                              else Some (Ok response, u))))))"

text \<open>\<open>validate_operation\<close> is the argument check of the operation catalogue.\<close>

definition run_shared ::
  "'p shared_table \<Rightarrow> string list \<Rightarrow> IpcResponse \<Rightarrow> 'p UiServerState \<Rightarrow> (IpcResponse \<times> 'p UiServerState) option" where
  "run_shared shared args otherwise u =
     map_option (\<lambda>(answer, u). (case answer of Some response \<Rightarrow> response | None \<Rightarrow> otherwise, u)) (shared args u)"

definition ui_apply_command ::
  "UiEnv \<Rightarrow> 'p shared_table \<Rightarrow> string list \<Rightarrow> 'p UiServerState
   \<Rightarrow> (IpcResponse \<times> 'p UiServerState) option" where
  "ui_apply_command env shared args u =
     (case option_value args ''--command-id'' of
        None \<Rightarrow> Some (command_arguments ''ui-client-command apply requires --command-id'', u)
      | Some command_id \<Rightarrow>
      case map_of (uq_in_flight (us_commands u)) command_id of
        None \<Rightarrow> Some (typed_failure ''UI client command is not in flight'' ''ui_client_command_not_in_flight'' ''precondition'' False, u)
      | Some c \<Rightarrow>
      case preapplied (env_response_from_str env) command_id (us_commands u) of
        Inr (Some response) \<Rightarrow> Some (response, u)
      | Inl e \<Rightarrow> Some (typed_failure e ''ui_client_command_preapply_invalid'' ''internal'' False, u)
      | Inr None \<Rightarrow>
          run_shared shared (uc_args c)
            (typed_failure ''UI client command has no server-owned apply phase'' ''ui_client_command_apply_unsupported''
               ''unsupported'' False) u)"

definition ui_invoke_command ::
  "UiEnv \<Rightarrow> (string list \<Rightarrow> string + unit) \<Rightarrow> 'p shared_table
   \<Rightarrow> string list \<Rightarrow> 'p UiServerState \<Rightarrow> (IpcResponse \<times> 'p UiServerState) option" where
  "ui_invoke_command env validate_operation shared args u =
     (case option_value args ''--args-json'' of
        None \<Rightarrow> Some (command_arguments ''ui-client-command invoke requires --args-json'', u)
      | Some args_json \<Rightarrow>
          if UI_CLIENT_COMMAND_MAX_BYTES < length args_json
          then Some (command_arguments ''ui-client-command invoke exceeds its byte budget'', u)
          else
            let refused = Some (command_arguments ''ui-client-command invoke requires bounded ui-action arguments'', u)
            in (case env_args_from_str env args_json of
                  Inl _ \<Rightarrow> refused
                | Inr [] \<Rightarrow> refused
                | Inr (name # rest) \<Rightarrow>
                    if UI_CLIENT_COMMAND_MAX_ARGUMENTS < length (name # rest) \<or> name \<noteq> ''ui-action'' then refused
                    else (case validate_operation (name # rest) of
                        Inl e \<Rightarrow> Some (typed_failure e ''operation_invalid_arguments'' ''validation'' False, u)
                      | Inr _ \<Rightarrow>
                          run_shared shared (name # rest)
                            (typed_failure ''UI client command has no server-owned invoke phase''
                               ''ui_client_command_invoke_unsupported'' ''unsupported'' False) u)))"

definition json_of_command :: "UiClientCommand \<Rightarrow> json" where
  "json_of_command c =
     JObj [(''schema_version'', json_of_u64 (ucast (uc_schema_version c))), (''command_id'', JStr (uc_command_id c)),
           (''args'', JArr (map JStr (uc_args c)))]"

definition ui_poll_command :: "UiEnv \<Rightarrow> 'p UiServerState \<Rightarrow> IpcResponse \<times> 'p UiServerState" where
  "ui_poll_command env u =
     (case queue_poll (us_commands u) of (polled, q) \<Rightarrow>
        (IpcResponse_success (env_to_string env
           (JObj [(''schema_version'', json_of_u64 (ucast UI_CLIENT_COMMAND_SCHEMA_VERSION)),
                  (''command'', json_of_option json_of_command polled)])), u\<lparr>us_commands := q\<rparr>))"

definition execute_ui_client_command ::
  "UiEnv \<Rightarrow> (string list \<Rightarrow> string + unit) \<Rightarrow> 'p shared_table
   \<Rightarrow> string list \<Rightarrow> 'p UiServerState \<Rightarrow> (IpcResponse \<times> 'p UiServerState) option" where
  "execute_ui_client_command env validate_operation shared args u =
     (let act = (case args of _ # a # _ \<Rightarrow> a | _ \<Rightarrow> []) in
      if act = ''result'' then Some (ui_result_command env args u)
      else case option_value args ''--lease-id'' of
        None \<Rightarrow> Some (command_arguments (''ui-client-command '' @ act @ '' requires --lease-id''), u)
      | Some lease_id \<Rightarrow>
      case Option.bind (option_value args ''--client-pid'') parse_u32 of
        None \<Rightarrow> Some (command_arguments (''ui-client-command '' @ act @ '' requires numeric --client-pid''), u)
      | Some client_pid \<Rightarrow>
      case verify_owner (us_ui_lease u) lease_id client_pid of
        Inl e \<Rightarrow> Some (ui_lease_failure e, u)
      | Inr _ \<Rightarrow>
          if act = ''poll'' then Some (ui_poll_command env u)
          else if act = ''apply'' then ui_apply_command env shared args u
          else if act = ''invoke'' then ui_invoke_command env validate_operation shared args u
          else if act = ''complete'' then ui_complete_command env args lease_id client_pid u
          else Some (command_arguments ''ui-client-command requires poll, apply, invoke, complete, or result'', u))"

end
