(* ===== verification/Command_Arguments.thy ===== *)
theory Command_Arguments
  imports Control_Commands
begin

text \<open>
  How the command handlers read their arguments (\<open>src/commands.rs\<close>): positional values, the options of
  a new tab with its environment and its child command, and key names.  Indexing past the end panics;
  the result is then \<open>None\<close>.
\<close>

section \<open>Model\<close>

subsection \<open>Positional values\<close>

definition is_option :: "string \<Rightarrow> bool" where
  "is_option argument = (case argument of [] \<Rightarrow> False | c # _ \<Rightarrow> c = CHR ''-'')"

fun positional_from :: "string list \<Rightarrow> string list \<Rightarrow> string list \<Rightarrow> string list" where
  "positional_from value_options boolean_options [] = []"
| "positional_from value_options boolean_options (argument # rest) =
     (if argument \<in> set value_options then positional_from value_options boolean_options (drop 1 rest)
      else if argument \<in> set boolean_options then positional_from value_options boolean_options rest
      else if argument = ''--'' then rest
      else if is_option argument then positional_from value_options boolean_options rest
      else argument # positional_from value_options boolean_options rest)"

definition positional_values :: "string list \<Rightarrow> string list \<Rightarrow> string list \<Rightarrow> string list" where
  "positional_values args value_options boolean_options = positional_from value_options boolean_options (drop 1 args)"

definition last_positional :: "string list \<Rightarrow> string list \<Rightarrow> string option" where
  "last_positional args value_options =
     (let values = positional_values args value_options [''-p'', ''-v'', ''-a'', ''-g'']
      in if values = [] then None else Some (last values))"

subsection \<open>A new tab\<close>

text \<open>The options of a new tab that take a value, besides \<open>-n\<close>.\<close>

definition skipped_values :: "string list" where
  "skipped_values = [''-s'', ''-t'', ''-c'', ''-F'', ''--parent'', ''-e'', ''--env'', ''--proxy'', ''--no-proxy'', ''--program'']"

definition takes_value :: "string \<Rightarrow> bool" where
  "takes_value argument \<longleftrightarrow> argument \<in> set skipped_values"

fun new_command_from ::
  "string option \<Rightarrow> bool \<Rightarrow> string list \<Rightarrow> (string option \<times> bool \<times> string list) option" where
  "new_command_from title detached [] = Some (title, detached, [])"
| "new_command_from title detached (argument # rest) =
     (if argument = ''-n''
      then (case rest of [] \<Rightarrow> None | v # rest' \<Rightarrow> new_command_from (Some v) detached rest')
      else if argument = ''-d'' then new_command_from title True rest
      else if argument = ''-A'' \<or> argument = ''-P'' \<or> argument = ''-E'' then new_command_from title detached rest
      else if takes_value argument
      then (case rest of [] \<Rightarrow> None | _ # rest' \<Rightarrow> new_command_from title detached rest')
      else if argument = ''--'' then Some (title, detached, rest)
      else if is_option argument then new_command_from title detached rest
      else Some (title, detached, argument # rest))"

definition parse_new_command :: "string list \<Rightarrow> (string option \<times> bool \<times> string list) option" where
  "parse_new_command args = (case args of [] \<Rightarrow> None | _ # rest \<Rightarrow> new_command_from None False rest)"

definition is_http_proxy_environment :: "string \<Rightarrow> bool" where
  "is_http_proxy_environment name \<longleftrightarrow> eq_ignore_ascii_case name ''HTTP_PROXY'' \<or> eq_ignore_ascii_case name ''HTTPS_PROXY''"

definition validate_environment_value :: "string \<Rightarrow> string \<Rightarrow> string + unit" where
  "validate_environment_value v opt =
     (if CHR 0x00 \<in> set v then Err (opt @ '' value must not contain NUL'') else Ok ())"

definition is_environment_name :: "string \<Rightarrow> bool" where
  "is_environment_name name \<longleftrightarrow> name \<noteq> [] \<and> CHR ''='' \<notin> set name \<and> CHR 0x00 \<notin> set name
     \<and> list_all (\<lambda>c. c = CHR ''_'' \<or> is_ascii_alphanumeric c) name \<and> \<not> is_ascii_digit (hd name)"

definition to_ascii_uppercase :: "string \<Rightarrow> string" where
  "to_ascii_uppercase s =
     map (\<lambda>c. if (97 :: nat) \<le> of_char c \<and> of_char c \<le> (122 :: nat) then char_of (of_char c - (32 :: nat)) else c) s"

definition is_reserved_environment :: "string \<Rightarrow> bool" where
  "is_reserved_environment name \<longleftrightarrow> strip_prefix ''AGENTERM_'' (to_ascii_uppercase name) \<noteq> None"

definition validate_environment_name :: "string \<Rightarrow> string + unit" where
  "validate_environment_name name =
     (if \<not> is_environment_name name then Err (''invalid environment variable name: '' @ name)
      else if is_reserved_environment name then Err (name @ '' is reserved; AgenTerm injects its own tab context'')
      else Ok ())"

fun upsert_environment :: "(string \<times> string) list \<Rightarrow> string \<Rightarrow> string \<Rightarrow> (string \<times> string) list" where
  "upsert_environment [] name v = [(name, v)]"
| "upsert_environment ((existing, w) # environment) name v =
     (if eq_ignore_ascii_case existing name then (name, v) # environment
      else (existing, w) # upsert_environment environment name v)"

definition add_assignment :: "(string \<times> string) list \<Rightarrow> string \<Rightarrow> string \<Rightarrow> string + (string \<times> string) list" where
  "add_assignment environment argument assignment =
     and_then (ok_or (argument @ '' requires NAME=VALUE'') (split_once ''='' assignment)) (\<lambda>(name, v).
     and_then (validate_environment_name name) (\<lambda>_.
     and_then (validate_environment_value v argument) (\<lambda>_.
     Ok (if is_http_proxy_environment name then environment else upsert_environment environment name v))))"

definition add_proxy :: "(string \<times> string) list \<Rightarrow> string \<Rightarrow> string + (string \<times> string) list" where
  "add_proxy environment v =
     (if v = [] then Err ''--proxy requires a non-empty URL''
      else and_then (validate_environment_value v ''--proxy'') (\<lambda>_. Ok environment))"

definition add_no_proxy :: "(string \<times> string) list \<Rightarrow> string \<Rightarrow> string + (string \<times> string) list" where
  "add_no_proxy environment v =
     and_then (validate_environment_value v ''--no-proxy'') (\<lambda>_. Ok (upsert_environment environment ''NO_PROXY'' v))"

text \<open>The options that change the environment, with their value: the head of the remaining arguments.\<close>

definition environment_option :: "string \<Rightarrow> bool" where
  "environment_option argument \<longleftrightarrow> argument \<in> {''-e'', ''--env'', ''--proxy'', ''--no-proxy''}"

definition add_option :: "(string \<times> string) list \<Rightarrow> string \<Rightarrow> string list \<Rightarrow> string + (string \<times> string) list" where
  "add_option environment argument rest =
     (if argument = ''-e'' \<or> argument = ''--env''
      then (case rest of [] \<Rightarrow> Err (argument @ '' requires NAME=VALUE'') | v # _ \<Rightarrow> add_assignment environment argument v)
      else if argument = ''--proxy''
      then (case rest of [] \<Rightarrow> Err ''--proxy requires a URL'' | v # _ \<Rightarrow> add_proxy environment v)
      else (case rest of [] \<Rightarrow> Err ''--no-proxy requires a host list'' | v # _ \<Rightarrow> add_no_proxy environment v))"

definition other_value_option :: "string \<Rightarrow> bool" where
  "other_value_option argument \<longleftrightarrow> argument \<in> {''-n'', ''-s'', ''-t'', ''-c'', ''-F'', ''--parent'', ''--program''}"

fun tab_environment_from :: "(string \<times> string) list \<Rightarrow> string list \<Rightarrow> string + (string \<times> string) list" where
  "tab_environment_from environment [] = Ok environment"
| "tab_environment_from environment (argument # rest) =
     (if environment_option argument
      then (case add_option environment argument rest of
          Inl e \<Rightarrow> Err e
        | Inr environment' \<Rightarrow> tab_environment_from environment' (drop 1 rest))
      else if argument = ''--'' then Ok environment
      else if other_value_option argument then tab_environment_from environment (drop 1 rest)
      else if is_option argument then tab_environment_from environment rest
      else Ok environment)"

definition parse_tab_environment :: "string list \<Rightarrow> string + (string \<times> string) list" where
  "parse_tab_environment args = tab_environment_from [] (drop 1 args)"

subsection \<open>Keys\<close>

definition BACKSPACE_INPUT :: string where
  "BACKSPACE_INPUT = [CHR 0x7F]"

text \<open>The named keys; \<open>esc\<close> is the escape character.\<close>

abbreviation esc :: char where
  "esc \<equiv> CHR 0x1B"

definition key_table :: "(string \<times> string) list" where
  "key_table =
     [(''Enter'', [CHR 0x0D]), (''Escape'', [esc]), (''Esc'', [esc]), (''Space'', '' ''),
      (''BSpace'', BACKSPACE_INPUT), (''Backspace'', BACKSPACE_INPUT), (''Tab'', [CHR 0x09]),
      (''Up'', esc # ''[A''), (''Down'', esc # ''[B''), (''Right'', esc # ''[C''), (''Left'', esc # ''[D''),
      (''Home'', esc # ''[H''), (''End'', esc # ''[F''), (''IC'', esc # ''[2~''), (''Insert'', esc # ''[2~''),
      (''DC'', esc # ''[3~''), (''Delete'', esc # ''[3~''), (''PPage'', esc # ''[5~''), (''PageUp'', esc # ''[5~''),
      (''NPage'', esc # ''[6~''), (''PageDown'', esc # ''[6~''), (''F1'', esc # ''OP''), (''F2'', esc # ''OQ''),
      (''F3'', esc # ''OR''), (''F4'', esc # ''OS''), (''F5'', esc # ''[15~''), (''F6'', esc # ''[17~''),
      (''F7'', esc # ''[18~''), (''F8'', esc # ''[19~''), (''F9'', esc # ''[20~''), (''F10'', esc # ''[21~''),
      (''F11'', esc # ''[23~''), (''F12'', esc # ''[24~'')]"

definition control_key :: "string \<Rightarrow> string option" where
  "control_key key =
     (case strip_prefix ''C-'' key of
        Some [c] \<Rightarrow>
          (case to_ascii_uppercase [c] of
             [u] \<Rightarrow> if (65 :: nat) \<le> of_char u \<and> of_char u \<le> (90 :: nat) then Some [char_of (of_char u - (64 :: nat))] else None
           | _ \<Rightarrow> None)
      | _ \<Rightarrow> None)"

definition tmux_key_bytes :: "string \<Rightarrow> string option" where
  "tmux_key_bytes key = (case map_of key_table key of Some b \<Rightarrow> Some b | None \<Rightarrow> control_key key)"

section \<open>The environment of a new tab\<close>

definition environment_ok :: "(string \<times> string) list \<Rightarrow> bool" where
  "environment_ok environment \<longleftrightarrow> distinct (map (to_ascii_lowercase \<circ> fst) environment)
     \<and> list_all (\<lambda>(name, v). is_environment_name name \<and> \<not> is_reserved_environment name
         \<and> \<not> is_http_proxy_environment name \<and> CHR 0x00 \<notin> set v) environment"

lemma upsert_keys:
  "to_ascii_lowercase ` fst ` set (upsert_environment environment name v) =
     insert (to_ascii_lowercase name) (to_ascii_lowercase ` fst ` set environment)"
  by (induction environment name v rule: upsert_environment.induct) (auto simp: eq_ignore_ascii_case_def)

lemma upsert_distinct:
  "distinct (map (to_ascii_lowercase \<circ> fst) environment) \<Longrightarrow>
   distinct (map (to_ascii_lowercase \<circ> fst) (upsert_environment environment name v))"
proof (induction environment name v rule: upsert_environment.induct)
  case (2 existing w environment name v)
  have keys: "set (map (to_ascii_lowercase \<circ> fst) (upsert_environment environment name v)) =
      insert (to_ascii_lowercase name) (set (map (to_ascii_lowercase \<circ> fst) environment))"
    using upsert_keys [of environment name v] by (simp add: image_comp)
  show ?case
  proof (cases "eq_ignore_ascii_case existing name")
    case True
    with 2(2) show ?thesis by (auto simp: eq_ignore_ascii_case_def)
  next
    case False
    with 2 keys show ?thesis by (simp add: eq_ignore_ascii_case_def comp_def del: set_map)
  qed
qed simp

lemma upsert_all: "\<lbrakk> list_all P environment; P (name, v) \<rbrakk> \<Longrightarrow> list_all P (upsert_environment environment name v)"
  by (induction environment name v rule: upsert_environment.induct) auto

lemma upsert_ok:
  assumes "environment_ok environment" and "is_environment_name name" and "\<not> is_reserved_environment name"
    and "\<not> is_http_proxy_environment name" and "CHR 0x00 \<notin> set v"
  shows "environment_ok (upsert_environment environment name v)"
  using assms by (auto simp: environment_ok_def intro!: upsert_distinct upsert_all)

lemma no_proxy_name: "is_environment_name ''NO_PROXY'' \<and> \<not> is_reserved_environment ''NO_PROXY'' \<and> \<not> is_http_proxy_environment ''NO_PROXY''"
  by code_simp

lemma added_ok:
  assumes "environment_ok environment"
  shows "add_assignment environment argument v = Ok environment' \<Longrightarrow> environment_ok environment'"
    and "add_proxy environment v = Ok environment' \<Longrightarrow> environment_ok environment'"
    and "add_no_proxy environment v = Ok environment' \<Longrightarrow> environment_ok environment'"
  using assms no_proxy_name
  by (auto simp: add_assignment_def add_proxy_def add_no_proxy_def and_then_Ok_iff validate_environment_name_def
      validate_environment_value_def split: if_splits intro: upsert_ok)

lemma add_option_ok:
  "\<lbrakk> add_option environment argument rest = Ok environment'; environment_ok environment \<rbrakk> \<Longrightarrow> environment_ok environment'"
  by (auto simp: add_option_def split: if_splits list.splits dest: added_ok)

lemma tab_environment_from_ok:
  "\<lbrakk> tab_environment_from environment args = Ok environment'; environment_ok environment \<rbrakk> \<Longrightarrow> environment_ok environment'"
  by (induction environment args rule: tab_environment_from.induct)
    (auto split: if_splits sum.splits dest: add_option_ok)

section \<open>Where the child command begins\<close>

lemma option_kinds:
  "takes_value argument \<longleftrightarrow> environment_option argument \<or> other_value_option argument \<and> argument \<noteq> ''-n''"
  "other_value_option ''-n''" "\<not> environment_option ''-n''"
  "argument \<in> {''-d'', ''-A'', ''-P'', ''-E'', ''--''} \<Longrightarrow> \<not> environment_option argument \<and> \<not> other_value_option argument"
  by (auto simp: takes_value_def skipped_values_def environment_option_def other_value_option_def)

lemma option_starts:
  "environment_option argument \<or> other_value_option argument \<or> argument \<in> {''-d'', ''-A'', ''-P'', ''-E'', ''--''} \<Longrightarrow> is_option argument"
  by (auto simp: environment_option_def other_value_option_def is_option_def)

lemma new_command_value:
  assumes "new_command_from title detached (argument # rest) = Some x" and "environment_option argument \<or> other_value_option argument"
  shows "\<exists>v rest' t. rest = v # rest' \<and> new_command_from t detached rest' = Some x"
proof -
  have kind: "argument = ''-n'' \<or> takes_value argument" using assms(2) by (auto simp: option_kinds(1))
  have "argument \<noteq> a" if "a \<in> {''-d'', ''-A'', ''-P'', ''-E''}" for a
    using assms(2) option_kinds(4) [of a] that by auto
  then have "argument \<noteq> ''-d''" "argument \<noteq> ''-A''" "argument \<noteq> ''-P''" "argument \<noteq> ''-E''" by simp_all
  with assms(1) kind show ?thesis
    by (cases rest; cases "argument = ''-n''") (simp_all only: new_command_from.simps if_True if_False list.case simp_thms option.simps, blast+)
qed

lemma new_command_flag:
  assumes "new_command_from title detached (argument # rest) = Some x" and "is_option argument" "argument \<noteq> ''--''"
    and "\<not> environment_option argument" "\<not> other_value_option argument"
  shows "\<exists>d. new_command_from title d rest = Some x"
proof -
  have "argument \<noteq> ''-n''" "\<not> takes_value argument" using assms(4,5) option_kinds by blast+
  with assms(1-3) show ?thesis by (auto split: if_splits)
qed

lemma new_command_end:
  assumes "new_command_from title detached (argument # rest) = Some x"
  shows "argument = ''--'' \<Longrightarrow> snd (snd x) = rest" and "\<not> is_option argument \<Longrightarrow> snd (snd x) = argument # rest"
proof -
  assume a: "argument = ''--''"
  then have "\<not> takes_value argument" using option_kinds(1,4) by blast
  with a assms show "snd (snd x) = rest" by auto
next
  assume a: "\<not> is_option argument"
  then have "\<not> takes_value argument" "argument \<notin> {''-n'', ''-d'', ''-A'', ''-P'', ''-E'', ''--''}"
    using option_kinds(1,2) option_starts [of argument] by blast+
  with a assms show "snd (snd x) = argument # rest" by (auto split: if_splits)
qed

lemma add_option_Cons: "add_option environment argument (v # rest) = add_option environment argument [v]"
  by (simp add: add_option_def)

lemma environment_value:
  assumes "environment_option argument \<or> other_value_option argument"
  shows "tab_environment_from environment (argument # v # rest) =
    (if environment_option argument
     then (case add_option environment argument [v] of Inl e \<Rightarrow> Err e | Inr environment' \<Rightarrow> tab_environment_from environment' rest)
     else tab_environment_from environment rest)"
proof -
  have "argument \<noteq> ''--''" using assms option_kinds(4) [of "''--''"] by auto
  with assms show ?thesis
    by (subst tab_environment_from.simps(2), subst add_option_Cons) (auto simp del: tab_environment_from.simps split: sum.split)
qed

lemma environment_stops:
  "new_command_from title detached args = Some x \<Longrightarrow>
   \<exists>front. args = front @ snd (snd x) \<and> (\<forall>environment. tab_environment_from environment args = tab_environment_from environment front)"
proof (induction args arbitrary: title detached rule: length_induct)
  case (1 args)
  show ?case
  proof (cases args)
    case Nil
    with 1(2) show ?thesis by auto
  next
    case (Cons argument rest)
    note read = 1(2) [unfolded Cons]
    consider (valued) "environment_option argument \<or> other_value_option argument"
      | (terminator) "argument = ''--''" "\<not> environment_option argument" "\<not> other_value_option argument"
      | (flag) "\<not> environment_option argument" "\<not> other_value_option argument" "argument \<noteq> ''--''" "is_option argument"
      | (child) "\<not> is_option argument" by blast
    then show ?thesis
    proof cases
      case valued
      with new_command_value [OF read] obtain v rest' t where rest: "rest = v # rest'" and n: "new_command_from t detached rest' = Some x"
        by blast
      have "length rest' < length args" by (simp add: Cons rest)
      with 1(1) n obtain front where "rest' = front @ snd (snd x)"
        "\<forall>environment. tab_environment_from environment rest' = tab_environment_from environment front" by blast
      with valued show ?thesis
        by (intro exI [of _ "argument # v # front"])
          (simp add: Cons rest environment_value del: tab_environment_from.simps split: sum.split)
    next
      case terminator
      with new_command_end(1) [OF read] show ?thesis by (intro exI [of _ "[argument]"]) (auto simp: Cons)
    next
      case flag
      with new_command_flag [OF read] obtain d where n: "new_command_from title d rest = Some x" by blast
      have "length rest < length args" by (simp add: Cons)
      with 1(1) n obtain front where "rest = front @ snd (snd x)"
        "\<forall>environment. tab_environment_from environment rest = tab_environment_from environment front" by blast
      with flag show ?thesis by (intro exI [of _ "argument # front"]) (auto simp: Cons)
    next
      case child
      then have "\<not> environment_option argument" "\<not> other_value_option argument" using option_starts by blast+
      with child new_command_end(2) [OF read] show ?thesis by (intro exI [of _ "[]"]) (simp add: Cons)
    qed
  qed
qed

text \<open>
  C40. The options of a new tab stay apart from its child command.  When the arguments of a new tab are
  read, they are a front of options followed by exactly the child command; the environment is read from
  the front alone, so no argument of the child becomes a variable; and an accepted environment has well
  formed names that differ without regard to case, none of them reserved for the product or an HTTP
  proxy, and values without NUL.
\<close>

theorem child_command_kept_apart:
  assumes "parse_new_command args = Some (title, detached, child)"
  shows "\<exists>front. args = front @ child \<and> front \<noteq> [] \<and> parse_tab_environment args = parse_tab_environment front
    \<and> (\<forall>environment. parse_tab_environment args = Ok environment \<longrightarrow> environment_ok environment)"
proof -
  from assms obtain name rest where args: "args = name # rest" and n: "new_command_from None False rest = Some (title, detached, child)"
    by (auto simp: parse_new_command_def split: list.splits)
  from environment_stops [OF n] obtain front where "rest = front @ child"
    "\<forall>environment. tab_environment_from environment rest = tab_environment_from environment front" by auto
  moreover have "environment_ok []" by (simp add: environment_ok_def)
  ultimately show ?thesis
    by (intro exI [of _ "name # front"]) (auto simp: args parse_tab_environment_def dest: tab_environment_from_ok)
qed

lemma child_command_kept_apart_witness:
  "parse_new_command [''new-window'', ''-d'', ''-e'', ''A=1'', ''make'', ''-e'', ''B=2''] = Some (None, True, [''make'', ''-e'', ''B=2''])
   \<and> parse_tab_environment [''new-window'', ''-d'', ''-e'', ''A=1'', ''make'', ''-e'', ''B=2''] = Ok [(''A'', ''1'')]
   \<and> environment_ok [(''A'', ''1'')]"
proof -
  let ?args = "[''new-window'', ''-d'', ''-e'', ''A=1'', ''make'', ''-e'', ''B=2'']"
  have parsed: "parse_new_command ?args = Some (None, True, [''make'', ''-e'', ''B=2''])" by code_simp
  moreover have env: "parse_tab_environment ?args = Ok [(''A'', ''1'')]" by code_simp
  moreover have "environment_ok [(''A'', ''1'')]" using child_command_kept_apart [OF parsed] env by auto
  ultimately show ?thesis by blast
qed

text \<open>
  An option without its value at the end of the arguments of a new tab indexes past the end: the answer
  that \<open>parse_tab_environment\<close> has for it is never reached.
\<close>

lemma trailing_option_panics:
  "parse_new_command [''new-window'', ''-n''] = None \<and> parse_new_command [''new-window'', ''-e''] = None
   \<and> parse_tab_environment [''new-window'', ''-e''] = Err ''-e requires NAME=VALUE''"
  by code_simp

end
