(* ===== verification/Server_Table.thy ===== *)
theory Server_Table
  imports Server_Ui Command_Arguments Chassis_Image
begin

text \<open>
  The command table of the server (\<open>dispatch_shared_command\<close> and \<open>dispatch_shared_ui_action\<close> of
  \<open>src/control_dispatch.rs\<close>, run by the server's \<open>ControlHost\<close> of \<open>src/server_app.rs\<close> with the defaults
  of the trait).  What the operating system and the screen answer is the record \<open>TableHost\<close>; its
  \<open>th_other\<close> answers the commands that only work on the screen, the protocol facts or native handles.
\<close>

section \<open>The host\<close>

record 'p TableHost =
  th_native :: "'p native_start"
  th_receipt :: "u64 \<Rightarrow> TerminalShutdownReceipt"
  th_written :: "nat \<Rightarrow> string option"
  th_now :: instant
  th_read_file :: "string \<Rightarrow> string + string"
  th_utf8_lossy :: "string \<Rightarrow> string"
  th_image :: "(nat \<Rightarrow> nat \<Rightarrow> 32 word \<Rightarrow> string + nat) option"
  th_bracketed :: "'p \<Rightarrow> bool"
  th_screen_title :: "'p \<Rightarrow> string"
  th_headless_snapshot :: "'p UiServerState \<Rightarrow> string"
  th_started_at :: u64
  th_workspace_path :: string
  th_other :: "'p shared_table"

type_synonym 'p answer = "(IpcResponse option \<times> 'p UiServerState) option"

abbreviation reply :: "IpcResponse \<Rightarrow> 'p UiServerState \<Rightarrow> 'p answer" where
  "reply response u \<equiv> Some (Some response, u)"

abbreviation ui_tabs :: "'p UiServerState \<Rightarrow> 'p TerminalTab list" where
  "ui_tabs u \<equiv> sv_tabs (us_core u)"

definition target_position :: "string list \<Rightarrow> 'p UiServerState \<Rightarrow> nat option" where
  "target_position args u = resolve_target_position (ui_tabs u) (sv_active (us_core u)) (option_value args ''-t'')"

definition active_position :: "'p UiServerState \<Rightarrow> nat option" where
  "active_position u = resolve_target_position (ui_tabs u) (sv_active (us_core u)) None"

text \<open>A handler for a resolved tab, and what to answer without one.\<close>

definition at_target :: "IpcResponse \<Rightarrow> (nat \<Rightarrow> 'p UiServerState \<Rightarrow> 'p answer) \<Rightarrow> string list \<Rightarrow> 'p UiServerState \<Rightarrow> 'p answer" where
  "at_target missing f args u = (case target_position args u of None \<Rightarrow> reply missing u | Some k \<Rightarrow> f k u)"

text \<open>An operation of the core and the answer to its result.\<close>

definition on_core ::
  "('a \<times> 'p ServerState) option \<Rightarrow> ('a \<Rightarrow> 'p UiServerState \<Rightarrow> IpcResponse) \<Rightarrow> 'p UiServerState \<Rightarrow> 'p answer" where
  "on_core result f u = map_option (\<lambda>(r, s). (Some (f r (u\<lparr>us_core := s\<rparr>)), u\<lparr>us_core := s\<rparr>)) result"

definition unit_reply :: "string + 'a \<Rightarrow> 'p UiServerState \<Rightarrow> IpcResponse" where
  "unit_reply r u = (case r of Inl e \<Rightarrow> IpcResponse_failure e | Inr _ \<Rightarrow> IpcResponse_success [])"

section \<open>Texts\<close>

definition SCROLLBACK_LINES :: nat where
  "SCROLLBACK_LINES = 10000"

text \<open>\<open>str::replace\<close> for a pattern that is not empty.\<close>

function replace_text :: "string \<Rightarrow> string \<Rightarrow> string \<Rightarrow> string" where
  "replace_text pattern new s =
     (case s of [] \<Rightarrow> []
      | c # cs \<Rightarrow>
          if pattern \<noteq> [] \<and> take (length pattern) s = pattern then new @ replace_text pattern new (drop (length pattern) s)
          else c # replace_text pattern new cs)"
  by pat_completeness auto
termination
  by (relation "measure (\<lambda>(pattern, new, s). length s)") auto

declare replace_text.simps [simp del]

definition id_text :: "char \<Rightarrow> u64 \<Rightarrow> string" where
  "id_text c i = c # show_nat (unat i)"

definition parent_text :: "'p TerminalTab \<Rightarrow> string" where
  "parent_text tab = (case tb_parent_id tab of None \<Rightarrow> ''root'' | Some i \<Rightarrow> id_text (CHR ''@'') i)"

definition format_fields :: "('p \<Rightarrow> string) \<Rightarrow> 'p TerminalTab \<Rightarrow> string \<Rightarrow> bool \<Rightarrow> (string \<times> string) list" where
  "format_fields screen_title tab session_name active =
     [(''#{?pane_dead,dead,}'', if tb_exited tab \<noteq> None then ''dead'' else []),
      (''#{?window_active,*,}'', if active then ''*'' else []),
      (''#{session_name}'', session_name),
      (''#{window_index}'', show_nat (unat (tb_index tab))),
      (''#{window_id}'', id_text (CHR ''@'') (tb_id tab)),
      (''#{tab_parent_id}'', parent_text tab),
      (''#{window_name}'', tb_title tab),
      (''#{window_note}'', tb_note tab),
      (''#{terminal_title}'', screen_title (tb_parser tab)),
      (''#{window_active}'', if active then ''1'' else ''0''),
      (''#{pane_index}'', ''0''),
      (''#{pane_id}'', id_text (CHR ''%'') (tb_id tab)),
      (''#{pane_dead}'', if tb_exited tab \<noteq> None then ''1'' else ''0''),
      (''#{pane_pid}'', case tb_process_id tab of None \<Rightarrow> [] | Some p \<Rightarrow> show_nat (unat p)),
      (''#{pane_current_command}'', tb_command_name tab),
      (''#{pane_start_command}'', tb_command_name tab),
      (''#{pane_input_bytes}'', show_nat (tb_input_bytes tab)),
      (''#{pane_output_bytes}'', show_nat (tb_output_bytes tab)),
      (''#{pane_error}'', case tb_error tab of None \<Rightarrow> [] | Some e \<Rightarrow> e),
      (''#{pane_width}'', show_nat (unat (snd (tb_last_size tab)))),
      (''#{pane_height}'', show_nat (unat (fst (tb_last_size tab)))),
      (''#{history_limit}'', show_nat SCROLLBACK_LINES),
      (''#I'', show_nat (unat (tb_index tab))), (''#W'', tb_title tab), (''#S'', session_name), (''#P'', ''0'')]"

definition render_format :: "('p \<Rightarrow> string) \<Rightarrow> string \<Rightarrow> 'p TerminalTab \<Rightarrow> string \<Rightarrow> bool \<Rightarrow> string" where
  "render_format screen_title fmt tab session_name active =
     fold (\<lambda>(pattern, new) s. replace_text pattern new s) (format_fields screen_title tab session_name active) fmt"

definition render_tab :: "'p TableHost \<Rightarrow> string \<Rightarrow> 'p UiServerState \<Rightarrow> 'p TerminalTab \<Rightarrow> string" where
  "render_tab host fmt u tab =
     render_format (th_screen_title host) fmt tab (sv_session_name (us_core u)) (sv_active (us_core u) = Some (tb_id tab))"

definition option_or :: "string list \<Rightarrow> string \<Rightarrow> string \<Rightarrow> string" where
  "option_or args opt d = (case option_value args opt of None \<Rightarrow> d | Some v \<Rightarrow> v)"

text \<open>\<open>ui_snapshot_json\<close>: the client's snapshot while it is current, otherwise the synthetic one.\<close>

definition client_snapshot_current :: "UiEnv \<Rightarrow> 'p UiServerState \<Rightarrow> UiClientSnapshotRecord \<Rightarrow> bool" where
  "client_snapshot_current env u snapshot =
     ((case lease_active (us_ui_lease u) of
         None \<Rightarrow> False
       | Some lease \<Rightarrow> ul_lease_id lease = sr_lease_id snapshot \<and> ul_client_pid lease = sr_client_pid snapshot)
      \<and> (case env_from_str env (sr_json snapshot) of
           Inl _ \<Rightarrow> False
         | Inr v \<Rightarrow>
             let pos = journal_position (sv_event_journal (us_core u)); event_position = json_index v ''event_position''
             in as_str (json_index event_position ''epoch'') = Some (pos_epoch pos)
                \<and> as_u64 (json_index event_position ''sequence'') = Some (pos_sequence pos)))"

definition ui_snapshot_json :: "UiEnv \<Rightarrow> 'p TableHost \<Rightarrow> 'p UiServerState \<Rightarrow> string" where
  "ui_snapshot_json env host u =
     (case us_snapshot u of
        None \<Rightarrow> th_headless_snapshot host u
      | Some snapshot \<Rightarrow> if client_snapshot_current env u snapshot then sr_json snapshot else th_headless_snapshot host u)"

definition ui_snapshot_response :: "UiEnv \<Rightarrow> 'p TableHost \<Rightarrow> 'p UiServerState \<Rightarrow> IpcResponse" where
  "ui_snapshot_response env host u = IpcResponse_success (ui_snapshot_json env host u)"

definition snapshot_reply :: "UiEnv \<Rightarrow> 'p TableHost \<Rightarrow> string + 'a \<Rightarrow> 'p UiServerState \<Rightarrow> IpcResponse" where
  "snapshot_reply env host r u = (case r of Inl e \<Rightarrow> IpcResponse_failure e | Inr _ \<Rightarrow> ui_snapshot_response env host u)"

section \<open>Commands that read\<close>

type_synonym 'p handler = "string list \<Rightarrow> 'p UiServerState \<Rightarrow> 'p answer"

definition list_sessions :: "'p TableHost \<Rightarrow> 'p handler" where
  "list_sessions host args u =
     reply (IpcResponse_success (sv_session_name (us_core u) @ '': '' @ show_nat (length (ui_tabs u)) @ '' windows (created ''
       @ show_nat (unat (th_started_at host)) @ '') (attached)'')) u"

definition has_session :: "'p handler" where
  "has_session args u =
     (case option_value args ''-t'' of
        None \<Rightarrow> reply (IpcResponse_success []) u
      | Some name \<Rightarrow>
          if name = sv_session_name (us_core u) then reply (IpcResponse_success []) u
          else reply (IpcResponse_failure (''can't find session: '' @ name)) u)"

definition LF :: string where
  "LF = [CHR 0x0A]"

definition list_windows :: "'p TableHost \<Rightarrow> 'p handler" where
  "list_windows host args u =
     reply (IpcResponse_success (join LF (map (render_tab host (option_or args ''-F'' ''#I:#W#{?window_active,*,}'') u) (ui_tabs u)))) u"

definition list_panes :: "'p TableHost \<Rightarrow> 'p handler" where
  "list_panes host args u =
     (let fmt = option_or args ''-F'' ''#{pane_id}: [#{pane_width}x#{pane_height}] #{pane_current_command}'';
          tabs = (if ''-a'' \<in> set args then ui_tabs u
                  else (case target_position args u of None \<Rightarrow> [] | Some k \<Rightarrow> [ui_tabs u ! k]))
      in reply (IpcResponse_success (join LF (map (render_tab host fmt u) tabs))) u)"

definition active_window :: "'p TableHost \<Rightarrow> 'p handler" where
  "active_window host args u =
     (case active_position u of
        None \<Rightarrow> reply (IpcResponse_failure ''no active window'') u
      | Some k \<Rightarrow>
          reply (IpcResponse_success (render_format (th_screen_title host) (option_or args ''-F'' ''#{window_id}:#{window_name}'')
            (ui_tabs u ! k) (sv_session_name (us_core u)) True)) u)"

definition display_message :: "'p TableHost \<Rightarrow> 'p handler" where
  "display_message host args =
     at_target (IpcResponse_failure ''can't find pane'') (\<lambda>k u.
       let fmt = (case last_positional args [''-t''] of None \<Rightarrow> ''#{session_name}:#{window_index}.#{pane_index}'' | Some f \<Rightarrow> f)
       in reply (IpcResponse_success (render_tab host fmt u (ui_tabs u ! k))) u) args"

definition optional_field :: "string \<Rightarrow> json option \<Rightarrow> (string \<times> json) list" where
  "optional_field name v = (case v of None \<Rightarrow> [] | Some j \<Rightarrow> [(name, j)])"

definition event_json :: "EventEnvelope \<Rightarrow> json" where
  "event_json e =
     JObj ([(''schema_version'', json_of_u64 (ucast (ev_schema_version e))), (''epoch'', JStr (ev_epoch e)),
            (''sequence'', json_of_u64 (ev_sequence e)), (''kind'', JStr (ev_kind e))]
       @ optional_field ''tab_id'' (map_option json_of_u64 (ev_tab_id e))
       @ optional_field ''request_id'' (map_option JStr (ev_request_id e))
       @ optional_field ''operation_id'' (map_option JStr (ev_operation_id e))
       @ [(''payload'', ev_payload e)])"

definition pretty_or_empty :: "UiEnv \<Rightarrow> json \<Rightarrow> string" where
  "pretty_or_empty env v = (case env_to_string_pretty env v of Inl _ \<Rightarrow> [] | Inr t \<Rightarrow> t)"

definition read_limit :: "string list \<Rightarrow> nat option" where
  "read_limit args =
     (case option_value args ''--limit'' of
        None \<Rightarrow> Some 256
      | Some v \<Rightarrow> (case parse_unsigned (2 ^ 64 - 1) v of
            None \<Rightarrow> None | Some n \<Rightarrow> if 1 \<le> n \<and> n \<le> 1024 then Some n else None))"

definition read_events :: "UiEnv \<Rightarrow> 'p handler" where
  "read_events env args u =
     (case option_value args ''--epoch'' of
        None \<Rightarrow> reply (IpcResponse_failure ''read-events requires --epoch'') u
      | Some epoch \<Rightarrow>
      case Option.bind (option_value args ''--after'') parse_u64 of
        None \<Rightarrow> reply (IpcResponse_failure ''read-events requires a numeric --after sequence'') u
      | Some after \<Rightarrow>
      case read_limit args of
        None \<Rightarrow> reply (IpcResponse_failure ''read-events --limit must be from 1 to 1024'') u
      | Some limit \<Rightarrow>
          (case read_after (sv_event_journal (us_core u)) epoch after limit of
             Inr events \<Rightarrow>
               reply (IpcResponse_success (pretty_or_empty env
                 (JObj [(''position'', EventPosition_json (journal_position (sv_event_journal (us_core u)))),
                        (''events'', JArr (map event_json events))]))) u
           | Inl e \<Rightarrow>
               reply (typed_failure (env_to_string env (JournalReadError_to_json e)) (JournalReadError_code e) ''precondition'' False) u))"

text \<open>The box characters of the tree, in UTF-8.\<close>

definition branch_text :: "TabTreeRow \<Rightarrow> string" where
  "branch_text row =
     (if tr_depth row = 0 then []
      else concat (map (\<lambda>continues. if continues then [CHR 0xE2, CHR 0x94, CHR 0x82, CHR '' ''] else ''  '') (tr_guides row))
        @ (if tr_is_last row then [CHR 0xE2, CHR 0x94, CHR 0x94, CHR 0xE2, CHR 0x94, CHR 0x80, CHR '' '']
           else [CHR 0xE2, CHR 0x94, CHR 0x9C, CHR 0xE2, CHR 0x94, CHR 0x80, CHR '' '']))"

definition tree_line :: "'p TableHost \<Rightarrow> string \<Rightarrow> 'p UiServerState \<Rightarrow> TabTreeRow \<Rightarrow> string option" where
  "tree_line host fmt u row =
     map_option (\<lambda>tab. branch_text row
         @ replace_text ''#{tab_has_children}'' (if list_ex (\<lambda>child. tb_parent_id child = Some (tb_id tab)) (ui_tabs u) then ''1'' else ''0'')
             (replace_text ''#{tab_depth}'' (show_nat (tr_depth row)) (render_tab host fmt u tab)))
       (find (\<lambda>tab. tb_id tab = tr_id row) (ui_tabs u))"

definition list_tab_tree :: "'p TableHost \<Rightarrow> 'p handler" where
  "list_tab_tree host args u =
     reply (IpcResponse_success (join LF (List.map_filter (tree_line host (option_or args ''-F'' ''#{window_id}:#{window_name}'') u)
       (tree_rows (tree_nodes (ui_tabs u)))))) u"

definition workspace_info :: "UiEnv \<Rightarrow> 'p TableHost \<Rightarrow> 'p handler" where
  "workspace_info env host args u =
     reply (IpcResponse_success (pretty_or_empty env
       (JObj [(''path'', JStr (th_workspace_path host)), (''version'', json_of_u64 1),
              (''tab_count'', json_of_u64 (of_nat (length (ui_tabs u)))),
              (''active_id'', json_of_option (\<lambda>i. JStr (id_text (CHR ''@'') i)) (sv_active (us_core u))),
              (''restore_behavior'', JStr ''restart-processes'')]))) u"

definition show_tab_note :: "'p handler" where
  "show_tab_note args = at_target (IpcResponse_failure ''can't find tab'') (\<lambda>k u. reply (IpcResponse_success (tb_note (ui_tabs u ! k))) u) args"

definition show_tab_parent :: "'p handler" where
  "show_tab_parent args = at_target (IpcResponse_failure ''can't find tab'') (\<lambda>k u. reply (IpcResponse_success (parent_text (ui_tabs u ! k))) u) args"

definition show_composer :: "'p handler" where
  "show_composer args = at_target (IpcResponse_failure ''can't find window'') (\<lambda>k u.
     if tb_sensitive_composer (ui_tabs u ! k) \<noteq> None
     then reply (IpcResponse_failure ''Composer contains a sensitive proxy draft; content is redacted'') u
     else reply (IpcResponse_success (tb_composer (ui_tabs u ! k))) u) args"

definition buffer_missing :: "string \<Rightarrow> IpcResponse" where
  "buffer_missing e = typed_failure e ''buffer_not_found'' ''not_found'' False"

definition show_buffer :: "'p TableHost \<Rightarrow> 'p handler" where
  "show_buffer host args u =
     (case buffer_get (option_value args ''-b'') (us_named_buffers u) of
        Inl e \<Rightarrow> reply (buffer_missing e) u
      | Inr data \<Rightarrow> reply (IpcResponse_success (th_utf8_lossy host data)) u)"

definition list_buffers :: "'p handler" where
  "list_buffers args u = reply (IpcResponse_success (list_lines (us_named_buffers u))) u"

definition save_buffer :: "'p handler" where
  "save_buffer args u =
     reply (typed_failure ''save-buffer is not implemented; use show-buffer and redirect or load-buffer from a file''
       ''operation_unsupported'' ''unsupported'' False) u"

definition set_setting :: "'p handler" where
  "set_setting args u =
     (if length args \<le> 1 then reply (IpcResponse_failure ''set-setting requires a key and value'') u
      else reply (IpcResponse_failure ''set-setting is not supported on this host'') u)"

definition read_handlers :: "UiEnv \<Rightarrow> 'p TableHost \<Rightarrow> (string list \<times> 'p handler) list" where
  "read_handlers env host =
     [([''start-server''], \<lambda>args. reply (IpcResponse_success [])),
      ([''ls'', ''list-sessions''], list_sessions host), ([''has'', ''has-session''], has_session),
      ([''lsw'', ''list-windows''], list_windows host), ([''lsp'', ''list-panes''], list_panes host),
      ([''show-buffer'', ''showb''], show_buffer host), ([''list-buffers'', ''lsb''], list_buffers),
      ([''save-buffer'', ''saveb''], save_buffer), ([''active-window'', ''active-tab''], active_window host),
      ([''display'', ''display-message''], display_message host), ([''read-events''], read_events env),
      ([''list-tab-tree''], list_tab_tree host), ([''workspace-info''], workspace_info env host),
      ([''show-tab-note''], show_tab_note), ([''show-tab-parent''], show_tab_parent), ([''show-composer''], show_composer),
      ([''set-setting''], set_setting), ([''get-settings''], \<lambda>args. reply (IpcResponse_success ''{}''))]"

section \<open>Commands that change the server\<close>

subsection \<open>Tabs\<close>

definition set_session_name :: "string option \<Rightarrow> 'p UiServerState \<Rightarrow> 'p UiServerState" where
  "set_session_name name u = (case name of None \<Rightarrow> u | Some n \<Rightarrow> u\<lparr>us_core := (us_core u)\<lparr>sv_session_name := n\<rparr>\<rparr>)"

text \<open>The answer about a tab just made; its absence panics.\<close>

definition created_tab :: "'p TableHost \<Rightarrow> string list \<Rightarrow> u32 \<Rightarrow> 'p UiServerState \<Rightarrow> 'p answer" where
  "created_tab host args index u =
     (case find (\<lambda>tab. tb_index tab = index) (ui_tabs u) of
        None \<Rightarrow> None
      | Some tab \<Rightarrow> reply (IpcResponse_success (render_tab host (option_or args ''-F'' ''#{window_index}'') u tab)) u)"

definition parent_option :: "string list \<Rightarrow> 'p UiServerState \<Rightarrow> string + u64 option" where
  "parent_option args u = (case option_value args ''--parent'' of None \<Rightarrow> Ok None | Some target \<Rightarrow> resolve_parent_id (us_core u) target)"

definition launch_tab ::
  "'p TableHost \<Rightarrow> string list \<Rightarrow> string option \<Rightarrow> string list \<Rightarrow> (string \<times> string) list \<Rightarrow> bool \<Rightarrow> u64 option \<Rightarrow> string option \<Rightarrow> string
   \<Rightarrow> 'p UiServerState \<Rightarrow> 'p answer" where
  "launch_tab host args title child_command environment select parent_id session error_prefix u =
     Option.bind (create_tab (th_native host) title child_command environment select parent_id (us_core u)) (\<lambda>(r, s).
       case r of
         Inl e \<Rightarrow> reply (IpcResponse_failure (error_prefix @ e)) (u\<lparr>us_core := s\<rparr>)
       | Inr index \<Rightarrow> created_tab host args index (set_session_name session (u\<lparr>us_core := s\<rparr>)))"

definition new_window :: "'p TableHost \<Rightarrow> 'p handler" where
  "new_window host args u =
     Option.bind (parse_new_command args) (\<lambda>(title, detached, child_command).
       let requested_session = (if hd args = ''new'' \<or> hd args = ''new-session'' then option_value args ''-s'' else None)
       in (case parse_tab_environment args of
             Inl e \<Rightarrow> reply (IpcResponse_failure e) u
           | Inr environment \<Rightarrow>
           case parent_option args u of
             Inl e \<Rightarrow> reply (IpcResponse_failure e) u
           | Inr parent_id \<Rightarrow>
               launch_tab host args title child_command environment (\<not> detached) parent_id requested_session [] u))"

definition agent_command :: "'p TableHost \<Rightarrow> string list \<Rightarrow> string list \<Rightarrow> string + string list" where
  "agent_command host args agent_arguments =
     (let bypass = (if has_option args ''--yolo'' then [''--dangerously-bypass-approvals-and-sandbox''] else [])
      in case option_value args ''--program'' of
           Some program \<Rightarrow> Ok (program # bypass @ agent_arguments)
         | None \<Rightarrow> shell_command_for_child (ns_default_shell (th_native host)) ''codex'' (agent_arguments @ bypass))"

definition new_agent :: "'p TableHost \<Rightarrow> 'p handler" where
  "new_agent host args u =
     Option.bind (parse_new_command args) (\<lambda>(title, detached, agent_arguments).
       case parse_tab_environment args of
         Inl e \<Rightarrow> reply (IpcResponse_failure e) u
       | Inr environment \<Rightarrow>
       case parent_option args u of
         Inl e \<Rightarrow> reply (IpcResponse_failure e) u
       | Inr parent_id \<Rightarrow>
       case agent_command host args agent_arguments of
         Inl e \<Rightarrow> reply (IpcResponse_failure e) u
       | Inr child_command \<Rightarrow>
           launch_tab host args (Some (case title of None \<Rightarrow> ''Codex'' | Some t \<Rightarrow> t)) child_command environment (\<not> detached) parent_id
             None ''failed to start Codex agent tab: '' u)"

text \<open>\<open>adjacent_tab_position\<close>: no tab, a failure of the image, or the position; \<open>None\<close> where the built-in rule panics.\<close>

definition adjacent_tab_position :: "'p TableHost \<Rightarrow> 32 word \<Rightarrow> 'p UiServerState \<Rightarrow> (string + nat option) option" where
  "adjacent_tab_position host direction u =
     (if ui_tabs u = [] then Some (Ok None)
      else
        let current = (case active_position u of None \<Rightarrow> 0 | Some k \<Rightarrow> k)
        in (case th_image host of
              Some eval_image \<Rightarrow> Some (case eval_image current (length (ui_tabs u)) direction of Inl e \<Rightarrow> Err e | Inr k \<Rightarrow> Ok (Some k))
            | None \<Rightarrow> map_option (\<lambda>k. Ok (Some k)) (builtin_adjacent_tab_position current (length (ui_tabs u)) direction)))"

definition select_position :: "nat \<Rightarrow> 'p UiServerState \<Rightarrow> 'p answer" where
  "select_position k u = on_core (select_tab_at k (us_core u)) unit_reply u"

definition select_adjacent :: "'p TableHost \<Rightarrow> 32 word \<Rightarrow> string \<Rightarrow> 'p UiServerState \<Rightarrow> 'p answer" where
  "select_adjacent host direction missing u =
     Option.bind (adjacent_tab_position host direction u) (\<lambda>r.
       case r of
         Inl e \<Rightarrow> reply (typed_failure e ''chassis_l2_adjacent_tab_failed'' ''internal'' False) u
       | Inr None \<Rightarrow> reply (IpcResponse_failure missing) u
       | Inr (Some k) \<Rightarrow> select_position k u)"

definition select_window :: "'p TableHost \<Rightarrow> 'p handler" where
  "select_window host args u =
     (if has_option args ''-n'' then select_adjacent host 1 ''can't find window'' u
      else if has_option args ''-p'' then select_adjacent host (- 1) ''can't find window'' u
      else at_target (IpcResponse_failure ''can't find window'') select_position args u)"

definition next_window :: "'p TableHost \<Rightarrow> 'p handler" where
  "next_window host args = select_adjacent host (if hd args \<in> {''next'', ''next-window''} then 1 else - 1) ''no windows''"

definition kill_reply :: "UiEnv \<Rightarrow> string + TerminalShutdownReceipt \<Rightarrow> 'p UiServerState \<Rightarrow> IpcResponse" where
  "kill_reply env r u =
     (case r of
        Inl e \<Rightarrow> IpcResponse_failure e
      | Inr receipt \<Rightarrow>
          if shutdown_verified receipt then IpcResponse_success (env_to_string env (shutdown_json receipt))
          else typed_failure ''terminal was removed without complete native-containment and worker-shutdown evidence''
                 ''terminal_shutdown_incomplete'' ''internal'' False)"

definition kill_window :: "UiEnv \<Rightarrow> 'p TableHost \<Rightarrow> 'p handler" where
  "kill_window env host args =
     at_target (IpcResponse_failure ''can't find window'') (\<lambda>k u.
       let i = tb_id (ui_tabs u ! k) in on_core (close_tab (th_receipt host i) i (us_core u)) (kill_reply env) u) args"

definition rename_session :: "'p handler" where
  "rename_session args u =
     (case last_positional args [''-t''] of
        None \<Rightarrow> reply (IpcResponse_failure ''usage: rename-session new-name'') u
      | Some name \<Rightarrow> reply (IpcResponse_success []) (set_session_name (Some name) u))"

definition kill_all :: "'p TableHost \<Rightarrow> 'p UiServerState \<Rightarrow> 'p answer" where
  "kill_all host u =
     (let complete = list_all (\<lambda>tab. shutdown_verified (th_receipt host (tb_id tab))) (ui_tabs u);
          u = u\<lparr>us_core := (us_core u)\<lparr>sv_tabs := [], sv_active := None\<rparr>, us_shutdown_requested := True\<rparr>
      in reply (if complete then IpcResponse_success []
           else typed_failure ''server shutdown began, but a terminal worker missed its bounded deadline''
                  ''terminal_shutdown_incomplete'' ''internal'' False) u)"

definition kill_server :: "'p TableHost \<Rightarrow> 'p handler" where
  "kill_server host args u =
     (case option_value args ''-t'' of
        Some requested \<Rightarrow>
          if requested \<noteq> sv_session_name (us_core u)
          then reply (IpcResponse_failure
                 ((if hd args = ''kill-session'' then [] else ''operation_target_not_found[server.kill]: '')
                  @ ''can't find session: '' @ requested)) u
          else kill_all host u
      | None \<Rightarrow> kill_all host u)"

definition rename_window :: "'p handler" where
  "rename_window args u =
     (case last_positional args [''-t''] of
        None \<Rightarrow> reply (IpcResponse_failure ''usage: rename-window [-t target] new-name'') u
      | Some name \<Rightarrow>
          at_target (IpcResponse_failure ''can't find window'') (\<lambda>k u.
            let tab = ui_tabs u ! k
            in map_option (Pair (Some (IpcResponse_success [])))
                 (ui_commit TabRenamed (Some (tb_id tab))
                    (JObj [(''previous_name'', JStr (tb_title tab)), (''name'', JStr name)])
                    (set_tab k (tab\<lparr>tb_title := name\<rparr>) u))) args u)"

definition set_tab_note :: "'p handler" where
  "set_tab_note args =
     at_target (IpcResponse_failure ''can't find tab'') (\<lambda>k u.
       let tab = ui_tabs u ! k; note = join '' '' (positional_values args [''-t''] [])
       in map_option (Pair (Some (IpcResponse_success [])))
            (ui_commit TabNote (Some (tb_id tab)) (JObj [(''previous_note'', JStr (tb_note tab)), (''note'', JStr note)])
               (set_tab k (tab\<lparr>tb_note := note\<rparr>) u))) args"

definition set_tab_parent_command :: "'p handler" where
  "set_tab_parent_command args =
     at_target (IpcResponse_failure ''can't find child tab'') (\<lambda>k u.
       case option_value args ''--parent'' of
         None \<Rightarrow> reply (IpcResponse_failure ''usage: set-tab-parent -t child --parent parent|root'') u
       | Some target \<Rightarrow>
           (case resolve_parent_id (us_core u) target of
              Inl e \<Rightarrow> reply (IpcResponse_failure e) u
            | Inr parent_id \<Rightarrow> on_core (set_tab_parent (tb_id (ui_tabs u ! k)) parent_id (us_core u)) unit_reply u)) args"

definition is_focus_surface :: "string \<Rightarrow> bool" where
  "is_focus_surface surface \<longleftrightarrow> surface \<in> {''terminal'', ''composer'', ''tabs'', ''sidebar''}"

definition focus_answer :: "UiEnv \<Rightarrow> 'p TableHost \<Rightarrow> string \<Rightarrow> 'p UiServerState \<Rightarrow> IpcResponse" where
  "focus_answer env host surface u =
     (if is_focus_surface surface then ui_snapshot_response env host u
      else IpcResponse_failure (''unknown focus surface: '' @ surface))"

definition focus :: "UiEnv \<Rightarrow> 'p TableHost \<Rightarrow> 'p handler" where
  "focus env host args u =
     (let surface = (case args of _ # surface # _ \<Rightarrow> surface | _ \<Rightarrow> ''terminal'')
      in case target_position args u of
           None \<Rightarrow> reply (focus_answer env host surface u) u
         | Some k \<Rightarrow>
             on_core (select_tab_at k (us_core u))
               (\<lambda>r u. case r of Inl e \<Rightarrow> IpcResponse_failure e | Inr _ \<Rightarrow> focus_answer env host surface u) u)"

subsection \<open>Drafts and directories\<close>

definition composer_write_mode :: "string option \<Rightarrow> string + string" where
  "composer_write_mode v =
     (let mode = (case v of None \<Rightarrow> ''empty-only'' | Some m \<Rightarrow> m)
      in if mode = ''empty'' \<or> mode = ''empty-only'' then Ok ''empty-only''
         else if mode = ''append'' \<or> mode = ''replace'' then Ok mode
         else Err (''unknown composer write mode: '' @ mode))"

definition prepare_mode :: "string list \<Rightarrow> string + string" where
  "prepare_mode args =
     (if hd args = ''cwd-prepare-append'' then Ok ''append''
      else if hd args = ''cwd-prepare-replace'' then Ok ''replace''
      else (case composer_write_mode (option_value args ''--mode'') of
          Inl e \<Rightarrow> Err (''CWD composer mode must be empty-only, append, or replace: '' @ e)
        | Inr mode \<Rightarrow> Ok mode))"

definition cwd_prepare :: "UiEnv \<Rightarrow> 'p TableHost \<Rightarrow> 'p handler" where
  "cwd_prepare env host args =
     at_target (IpcResponse_failure ''can't find tab'') (\<lambda>k u.
       case option_value args ''--path'' of
         None \<Rightarrow> reply (IpcResponse_failure (hd args @ '' requires --path'')) u
       | Some dir \<Rightarrow>
           (case prepare_mode args of
              Inl e \<Rightarrow> reply (IpcResponse_failure e) u
            | Inr mode \<Rightarrow> on_core (prepare_cwd (tb_id (ui_tabs u ! k)) dir mode (us_core u)) (snapshot_reply env host) u)) args"

definition cwd_send_now :: "UiEnv \<Rightarrow> 'p TableHost \<Rightarrow> 'p handler" where
  "cwd_send_now env host args =
     at_target (IpcResponse_failure ''can't find tab'') (\<lambda>k u.
       case option_value args ''--path'' of
         None \<Rightarrow> reply (IpcResponse_failure ''cwd-send-now requires --path'') u
       | Some dir \<Rightarrow>
           on_core (send_cwd_now (th_written host 0) (th_now host) (tb_id (ui_tabs u ! k)) dir (us_core u)) (snapshot_reply env host) u) args"

definition apply_set_composer :: "nat \<Rightarrow> string \<Rightarrow> 'p UiServerState \<Rightarrow> 'p answer" where
  "apply_set_composer k draft u =
     (let tab = ui_tabs u ! k
      in if tb_composer tab = draft then reply (IpcResponse_success []) u
         else map_option (Pair (Some (IpcResponse_success [])))
           (ui_commit ComposerDraft (Some (tb_id tab)) (JObj [(''length'', json_of_u64 (of_nat (char_count draft)))])
              (set_tab k (tab\<lparr>tb_composer := draft\<rparr>) u)))"

definition set_composer :: "'p handler" where
  "set_composer args =
     at_target (IpcResponse_failure ''can't find window'') (\<lambda>k u.
       if tb_sensitive_composer (ui_tabs u ! k) \<noteq> None
       then reply (IpcResponse_failure ''Composer contains a sensitive proxy draft; send or discard it first'') u
       else apply_set_composer k (join '' '' (positional_values args [''-t''] [])) u) args"

definition send_composer_at :: "'p TableHost \<Rightarrow> (IpcResponse \<Rightarrow> 'p UiServerState \<Rightarrow> IpcResponse) \<Rightarrow> nat \<Rightarrow> 'p UiServerState \<Rightarrow> 'p answer" where
  "send_composer_at host f k u = on_core (send_composer_at_position (th_written host 0) (th_now host) k (us_core u)) f u"

definition send_composer :: "'p TableHost \<Rightarrow> 'p handler" where
  "send_composer host args =
     at_target (IpcResponse_failure ''can't find window'') (send_composer_at host (\<lambda>response u. response)) args"

subsection \<open>Input and buffers\<close>

definition pane_missing :: IpcResponse where
  "pane_missing = typed_failure ''can't find pane'' ''operation_target_not_found'' ''not_found'' False"

definition pane_busy :: "string \<Rightarrow> IpcResponse" where
  "pane_busy before =
     typed_failure (''composer submission is pending; wait with `wait-pane --submit-complete` before '' @ before)
       ''operation_conflict'' ''conflict'' True"

definition pane_closed :: IpcResponse where
  "pane_closed = typed_failure ''terminal input was not accepted because the pane is no longer writable''
     ''terminal_not_writable'' ''precondition'' False"

definition key_bytes :: "bool \<Rightarrow> string \<Rightarrow> string" where
  "key_bytes literal key = (if literal then key else (case tmux_key_bytes key of Some b \<Rightarrow> b | None \<Rightarrow> key))"

text \<open>The loop over the keys; \<open>written n\<close> is the error of the write with number \<open>n\<close>.\<close>

fun send_keys_loop :: "(nat \<Rightarrow> string option) \<Rightarrow> bool \<Rightarrow> nat \<Rightarrow> nat \<Rightarrow> string list \<Rightarrow> 'p UiServerState \<Rightarrow> IpcResponse \<times> 'p UiServerState" where
  "send_keys_loop written literal k n [] u = (IpcResponse_success [], u)"
| "send_keys_loop written literal k n (key # keys) u =
     (case tab_send (written n) (key_bytes literal key) (ui_tabs u ! k) of
        (False, tab) \<Rightarrow> (pane_closed, set_tab k tab u)
      | (True, tab) \<Rightarrow> send_keys_loop written literal k (Suc n) keys (set_tab k tab u))"

definition send_keys :: "'p TableHost \<Rightarrow> 'p handler" where
  "send_keys host args =
     at_target pane_missing (\<lambda>k u.
       if submission_is_pending (tb_submission (ui_tabs u ! k)) then reply (pane_busy ''sending keys'') u
       else if ''-l'' \<in> set args \<and> ''--native'' \<in> set args
       then reply (typed_failure ''send-keys accepts only one of -l or --native'' ''operation_argument_conflict'' ''usage'' False) u
       else if ''--native'' \<in> set args then th_other host args u
       else (case send_keys_loop (th_written host) (''-l'' \<in> set args) k 0
                    (positional_values args [''-t''] [''-l'', ''--native'', ''-R'', ''-X'']) u of
               (response, u) \<Rightarrow> reply response u)) args"

definition buffer_stored :: "(string + unit) \<times> NamedBufferStore \<Rightarrow> 'p UiServerState \<Rightarrow> 'p answer" where
  "buffer_stored x u =
     (case x of
        (Inl e, store) \<Rightarrow> reply (typed_failure e ''buffer_set_failed'' ''usage'' False) (u\<lparr>us_named_buffers := store\<rparr>)
      | (Inr _, store) \<Rightarrow> reply (IpcResponse_success []) (u\<lparr>us_named_buffers := store\<rparr>))"

definition set_buffer :: "'p handler" where
  "set_buffer args u =
     (let data = buffer_data_from_args args
      in if data = [] \<and> ''--'' \<notin> set args
         then reply (typed_failure ''set-buffer requires data (use -- before empty data if intentional)'' ''operation_usage'' ''usage'' False) u
         else buffer_stored (buffer_set (option_value args ''-b'') data (us_named_buffers u)) u)"

definition load_buffer :: "'p TableHost \<Rightarrow> 'p handler" where
  "load_buffer host args u =
     (case positional_values args [''-b'', ''-t''] [] of
        [] \<Rightarrow> reply (typed_failure ''load-buffer requires a path'' ''operation_usage'' ''usage'' False) u
      | file # _ \<Rightarrow>
          (case th_read_file host file of
             Inl e \<Rightarrow> reply (typed_failure (''load-buffer could not read '' @ file @ '': '' @ e) ''buffer_load_failed'' ''io'' False) u
           | Inr data \<Rightarrow> buffer_stored (buffer_set (option_value args ''-b'') data (us_named_buffers u)) u))"

definition delete_buffer :: "'p handler" where
  "delete_buffer args u =
     (case buffer_delete (option_value args ''-b'') (us_named_buffers u) of
        (Inl e, store) \<Rightarrow> reply (buffer_missing e) (u\<lparr>us_named_buffers := store\<rparr>)
      | (Inr _, store) \<Rightarrow> reply (IpcResponse_success []) (u\<lparr>us_named_buffers := store\<rparr>))"

definition paste_buffer :: "'p TableHost \<Rightarrow> 'p handler" where
  "paste_buffer host args =
     at_target pane_missing (\<lambda>k u.
       if submission_is_pending (tb_submission (ui_tabs u ! k)) then reply (pane_busy ''paste-buffer'') u
       else (case buffer_get (option_value args ''-b'') (us_named_buffers u) of
           Inl e \<Rightarrow> reply (buffer_missing e) u
         | Inr data \<Rightarrow>
             (case prepare_paste_buffer_bytes data (th_bracketed host (tb_parser (ui_tabs u ! k))) of
                Inl e \<Rightarrow> reply (typed_failure e ''buffer_paste_failed'' ''usage'' False) u
              | Inr bytes \<Rightarrow>
                  (case tab_send (th_written host 0) bytes (ui_tabs u ! k) of
                     (False, tab) \<Rightarrow> reply pane_closed (set_tab k tab u)
                   | (True, tab) \<Rightarrow> reply (IpcResponse_success []) (set_tab k tab u))))) args"

subsection \<open>UI actions\<close>

text \<open>A tab made for the GUI: \<open>after_create_tab\<close> does nothing on the server.\<close>

definition action_new_tab :: "UiEnv \<Rightarrow> 'p TableHost \<Rightarrow> string option \<Rightarrow> u64 option \<Rightarrow> 'p UiServerState \<Rightarrow> 'p answer" where
  "action_new_tab env host title parent_id u =
     on_core (create_tab (th_native host) title [] [] True parent_id (us_core u)) (snapshot_reply env host) u"

definition target_or_active :: "string list \<Rightarrow> 'p UiServerState \<Rightarrow> nat option" where
  "target_or_active args u = (case target_position args u of Some k \<Rightarrow> Some k | None \<Rightarrow> active_position u)"

definition action_new_child :: "UiEnv \<Rightarrow> 'p TableHost \<Rightarrow> 'p handler" where
  "action_new_child env host args u =
     (case target_or_active args u of
        None \<Rightarrow> reply (IpcResponse_failure ''can't find parent tab'') u
      | Some k \<Rightarrow> action_new_tab env host (Some ''New child'') (Some (tb_id (ui_tabs u ! k))) u)"

definition action_select_tab :: "UiEnv \<Rightarrow> 'p TableHost \<Rightarrow> 'p handler" where
  "action_select_tab env host args =
     at_target (IpcResponse_failure ''can't find tab'') (\<lambda>k u. on_core (select_tab_at k (us_core u)) (snapshot_reply env host) u) args"

definition action_close_tab :: "UiEnv \<Rightarrow> 'p TableHost \<Rightarrow> 'p handler" where
  "action_close_tab env host args =
     at_target (IpcResponse_failure ''can't find tab'') (\<lambda>k u.
       let i = tb_id (ui_tabs u ! k) in on_core (close_tab (th_receipt host i) i (us_core u)) (snapshot_reply env host) u) args"

definition action_composer_send :: "UiEnv \<Rightarrow> 'p TableHost \<Rightarrow> 'p handler" where
  "action_composer_send env host args u =
     (case target_or_active args u of
        None \<Rightarrow> reply (IpcResponse_failure ''can't find window'') u
      | Some k \<Rightarrow>
          send_composer_at host (\<lambda>response u. if ir_ok response then ui_snapshot_response env host u else response) k u)"

definition action_toggle_tree :: "UiEnv \<Rightarrow> 'p TableHost \<Rightarrow> 'p handler" where
  "action_toggle_tree env host args =
     at_target (IpcResponse_failure ''can't find tab'') (\<lambda>k u.
       on_core (toggle_tab_collapsed (tb_id (ui_tabs u ! k)) (us_core u)) (snapshot_reply env host) u) args"

text \<open>\<open>str::parse\<close> of an \<open>i32\<close>, of which only the success matters here.\<close>

definition parses_i32 :: "string \<Rightarrow> bool" where
  "parses_i32 s =
     (case s of
        CHR ''-'' # digits \<Rightarrow> digits \<noteq> [] \<and> list_all is_ascii_digit digits \<and> decimal_value digits \<le> 2 ^ 31
      | _ \<Rightarrow> parse_unsigned (2 ^ 31 - 1) s \<noteq> None)"

definition action_set_width :: "'p handler" where
  "action_set_width args u =
     (if (case option_value args ''--width'' of None \<Rightarrow> False | Some v \<Rightarrow> parses_i32 v)
      then reply (IpcResponse_failure ''tabs width is not supported on this host'') u
      else reply (IpcResponse_failure ''tabs-set-width requires --width'') u)"

definition action_edit_tab :: "'p handler" where
  "action_edit_tab args =
     at_target (IpcResponse_failure ''can't find tab'') (\<lambda>k. reply (IpcResponse_failure ''tab editor is not supported on this host'')) args"

definition action_picker_select :: "'p handler" where
  "action_picker_select args u =
     (if option_value args ''--name'' \<noteq> None \<or> option_value args ''--logical-instance'' \<noteq> None
         \<or> Option.bind (option_value args ''--pid'') parse_u32 \<noteq> None
      then reply (IpcResponse_failure ''instance picker is not supported on this host'') u
      else reply (IpcResponse_failure ''instance-picker-select requires --name NAME or --pid N (not global --instance)'') u)"

definition action_server_tab :: "'p handler" where
  "action_server_tab args u =
     (if length args \<le> 2 then reply (IpcResponse_failure ''select-server-tab requires an instance name'') u
      else reply (IpcResponse_failure ''server strip is not supported on this host'') u)"

definition refused :: "string \<Rightarrow> 'p handler" where
  "refused message args u = reply (IpcResponse_failure message) u"

text \<open>The actions that only a GUI host supports: a headless server has no settings dialog, picker or editor.\<close>

definition refused_actions :: "(string list \<times> string) list" where
  "refused_actions =
     [([''tabs-show'', ''tabs-hide'', ''tabs-toggle'', ''toggle-tabs''], ''tabs visibility is not supported on this host''),
      ([''open-settings'', ''settings-apply'', ''settings-defaults'', ''settings-current'', ''settings-font-toggle'',
        ''settings-size-toggle'', ''settings-theme-toggle'', ''settings-reset-overrides''], ''settings UI is not supported on this host''),
      ([''open-instance-picker'', ''instance-picker-next'', ''instance-picker-prev'', ''instance-picker-confirm'',
        ''instance-picker-cancel''], ''instance picker is not supported on this host''),
      ([''tab-editor-save'', ''tab-editor-cancel''], ''tab editor is not supported on this host''),
      ([''cancel''], ''no modal is pending''), ([''confirm''], ''no confirmation is pending''),
      ([''copy-selection''], ''copy-selection is not supported on this host'')]"

definition preview_actions :: "string list" where
  "preview_actions =
     [''settings-theme-dark'', ''settings-theme-light'', ''settings-preset-classic-day'', ''settings-preset-classic-night'',
      ''settings-preset-fancy-day'', ''settings-preset-fancy-night'']"

definition action_handlers :: "UiEnv \<Rightarrow> 'p TableHost \<Rightarrow> (string list \<times> 'p handler) list" where
  "action_handlers env host =
     [([''new-tab''], \<lambda>args. action_new_tab env host None None), ([''new-child''], action_new_child env host),
      ([''select-tab''], action_select_tab env host), ([''close-tab''], action_close_tab env host),
      ([''composer-send''], action_composer_send env host), ([''toggle-tree''], action_toggle_tree env host),
      ([''tabs-set-width''], action_set_width), ([''edit-tab''], action_edit_tab),
      ([''instance-picker-select''], action_picker_select), ([''select-server-tab'', ''open-instance''], action_server_tab),
      (preview_actions, \<lambda>args u. reply (ui_snapshot_response env host u) u)]
     @ map (\<lambda>(names, message). (names, refused message)) refused_actions"

definition find_handler :: "string \<Rightarrow> (string list \<times> 'p handler) list \<Rightarrow> 'p handler option" where
  "find_handler name handlers = map_option snd (find (\<lambda>(names, _). name \<in> set names) handlers)"

definition dispatch_shared_ui_action :: "UiEnv \<Rightarrow> 'p TableHost \<Rightarrow> 'p handler" where
  "dispatch_shared_ui_action env host args u =
     (case args of
        _ # act # _ \<Rightarrow>
          (case find_handler act (action_handlers env host) of None \<Rightarrow> Some (None, u) | Some h \<Rightarrow> h args u)
      | _ \<Rightarrow> Some (None, u))"

section \<open>The table\<close>

definition write_handlers :: "UiEnv \<Rightarrow> 'p TableHost \<Rightarrow> (string list \<times> 'p handler) list" where
  "write_handlers env host =
     [([''send'', ''send-keys''], send_keys host), ([''set-buffer'', ''setb''], set_buffer),
      ([''load-buffer'', ''loadb''], load_buffer host), ([''delete-buffer'', ''deleteb''], delete_buffer),
      ([''paste-buffer'', ''pasteb''], paste_buffer host),
      ([''new'', ''new-session'', ''neww'', ''new-window''], new_window host), ([''new-agent''], new_agent host),
      ([''selectw'', ''select-window''], select_window host), ([''killw'', ''kill-window''], kill_window env host),
      ([''rename'', ''rename-session''], rename_session), ([''kill-session'', ''kill-server''], kill_server host),
      ([''cwd-prepare'', ''cwd-prepare-append'', ''cwd-prepare-replace''], cwd_prepare env host),
      ([''cwd-send-now''], cwd_send_now env host), ([''renamew'', ''rename-window''], rename_window),
      ([''set-tab-note''], set_tab_note), ([''set-tab-parent''], set_tab_parent_command),
      ([''next'', ''next-window'', ''prev'', ''previous-window''], next_window host),
      ([''set-composer''], set_composer), ([''send-composer''], send_composer host),
      ([''ui-action''], dispatch_shared_ui_action env host), ([''focus''], focus env host)]"

definition other_commands :: "string list" where
  "other_commands =
     [''protocol-info'', ''ui-hello'', ''ui-bootstrap'', ''ui-deltas'', ''lscm'', ''list-commands'', ''send-mouse'', ''capturep'',
      ''capture-pane'', ''capture-output'', ''inspect'', ''pane-snapshot'', ''signal-terminal-foreground'', ''scroll-pane'',
      ''dump-cells'', ''ui-snapshot'']"

definition dispatch_shared_command :: "UiEnv \<Rightarrow> 'p TableHost \<Rightarrow> 'p handler" where
  "dispatch_shared_command env host args u =
     (case args of
        [] \<Rightarrow> Some (None, u)
      | name # _ \<Rightarrow>
          (case find_handler name (read_handlers env host @ write_handlers env host) of
             Some h \<Rightarrow> h args u
           | None \<Rightarrow> if name \<in> set other_commands then th_other host args u else Some (None, u)))"

end
