(* ===== verification/Wake_Signal.thy ===== *)
theory Wake_Signal
  imports Prelude
begin

text \<open>
  The coalesced GUI wake (\<open>src/wake_signal.rs\<close>) and the protocol its header prescribes, as a step
  relation over every interleaving of producers and the consumer: a producer enqueues work, asks
  the signal and posts a wake when it was the one to set it; the consumer takes a wake, clears the
  signal, drains at most \<open>budget\<close> items, and re-arms the signal when the budget was used up.  Each
  atomic operation of the source is one step; posting a wake is assumed to succeed.
\<close>

section \<open>The signal\<close>

record WakeSignal =
  ws_pending :: bool

definition WakeSignal_new :: WakeSignal where
  "WakeSignal_new = \<lparr>ws_pending = False\<rparr>"

text \<open>\<open>compare_exchange(false, true)\<close>: whether this caller set the flag.\<close>

definition wake_request :: "WakeSignal \<Rightarrow> bool \<times> WakeSignal" where
  "wake_request s = (if ws_pending s then (False, s) else (True, s\<lparr>ws_pending := True\<rparr>))"

definition begin_drain :: "WakeSignal \<Rightarrow> WakeSignal" where
  "begin_drain s = s\<lparr>ws_pending := False\<rparr>"

definition rearm_if :: "bool \<Rightarrow> WakeSignal \<Rightarrow> bool \<times> WakeSignal" where
  "rearm_if more_work_may_remain s = (if more_work_may_remain then wake_request s else (False, s))"

section \<open>Producers and consumer\<close>

datatype consumer = Waiting | Woken | Draining nat | Rearming bool | Reposting

text \<open>
  The shared state: the signal, the queued work, the posted wakes, the producers between enqueueing
  and asking, the producers between asking and posting, and the consumer.
\<close>

record wake_state =
  wk_signal :: WakeSignal
  wk_work :: nat
  wk_wakes :: nat
  wk_asking :: nat
  wk_posting :: nat
  wk_consumer :: consumer

definition wake_init :: wake_state where
  "wake_init = \<lparr>wk_signal = WakeSignal_new, wk_work = 0, wk_wakes = 0, wk_asking = 0, wk_posting = 0,
     wk_consumer = Waiting\<rparr>"

inductive wake_step :: "nat \<Rightarrow> wake_state \<Rightarrow> wake_state \<Rightarrow> bool" for budget where
  enqueue: "wake_step budget s (s\<lparr>wk_work := wk_work s + 1, wk_asking := wk_asking s + 1\<rparr>)"
| ask: "\<lbrakk> 0 < wk_asking s; wake_request (wk_signal s) = (won, signal) \<rbrakk> \<Longrightarrow>
    wake_step budget s (s\<lparr>wk_signal := signal, wk_asking := wk_asking s - 1,
      wk_posting := wk_posting s + of_bool won\<rparr>)"
| post: "0 < wk_posting s \<Longrightarrow>
    wake_step budget s (s\<lparr>wk_posting := wk_posting s - 1, wk_wakes := wk_wakes s + 1\<rparr>)"
| wake: "\<lbrakk> wk_consumer s = Waiting; 0 < wk_wakes s \<rbrakk> \<Longrightarrow>
    wake_step budget s (s\<lparr>wk_wakes := wk_wakes s - 1, wk_consumer := Woken\<rparr>)"
| start: "wk_consumer s = Woken \<Longrightarrow>
    wake_step budget s (s\<lparr>wk_signal := begin_drain (wk_signal s), wk_consumer := Draining 0\<rparr>)"
| take_one: "\<lbrakk> wk_consumer s = Draining k; k < budget; 0 < wk_work s \<rbrakk> \<Longrightarrow>
    wake_step budget s (s\<lparr>wk_work := wk_work s - 1, wk_consumer := Draining (k + 1)\<rparr>)"
| stop: "\<lbrakk> wk_consumer s = Draining k; k = budget \<or> wk_work s = 0 \<rbrakk> \<Longrightarrow>
    wake_step budget s (s\<lparr>wk_consumer := Rearming (k = budget)\<rparr>)"
| rearm: "\<lbrakk> wk_consumer s = Rearming full; rearm_if full (wk_signal s) = (won, signal) \<rbrakk> \<Longrightarrow>
    wake_step budget s (s\<lparr>wk_signal := signal, wk_consumer := (if won then Reposting else Waiting)\<rparr>)"
| repost: "wk_consumer s = Reposting \<Longrightarrow>
    wake_step budget s (s\<lparr>wk_wakes := wk_wakes s + 1, wk_consumer := Waiting\<rparr>)"

section \<open>No wake is lost or doubled\<close>

text \<open>Wakes under way: about to be posted, posted, or taken by a consumer that has not started.\<close>

definition outstanding :: "wake_state \<Rightarrow> nat" where
  "outstanding s = wk_posting s + wk_wakes s + of_bool (wk_consumer s = Woken) + of_bool (wk_consumer s = Reposting)"

definition wake_ok :: "nat \<Rightarrow> wake_state \<Rightarrow> bool" where
  "wake_ok budget s \<longleftrightarrow> outstanding s = of_bool (ws_pending (wk_signal s))
     \<and> (\<forall>k. wk_consumer s = Draining k \<longrightarrow> k \<le> budget)
     \<and> (0 < wk_work s \<longrightarrow> ws_pending (wk_signal s) \<or> 0 < wk_asking s
          \<or> (\<exists>k. wk_consumer s = Draining k) \<or> wk_consumer s = Rearming True)"

lemma wake_ok_init: "wake_ok budget wake_init"
  by (simp add: wake_ok_def wake_init_def outstanding_def WakeSignal_new_def)

lemma wake_ok_step: "wake_step budget s t \<Longrightarrow> wake_ok budget s \<Longrightarrow> wake_ok budget t"
proof (induction rule: wake_step.induct)
  case (rearm s full won signal)
  then show ?case
    by (cases full; cases "ws_pending (wk_signal s)") (auto simp: wake_ok_def outstanding_def rearm_if_def wake_request_def)
next
  case (wake s)
  then show ?case by (cases "ws_pending (wk_signal s)") (auto simp: wake_ok_def outstanding_def)
next
  case (start s)
  then show ?case
    by (cases "ws_pending (wk_signal s)") (auto simp: wake_ok_def outstanding_def begin_drain_def)
qed (auto simp: wake_ok_def outstanding_def wake_request_def split: if_splits)

lemma wake_ok_steps: "(wake_step budget)\<^sup>*\<^sup>* s t \<Longrightarrow> wake_ok budget s \<Longrightarrow> wake_ok budget t"
  by (induction rule: rtranclp_induct) (auto intro: wake_ok_step)

section \<open>All work is drained\<close>

text \<open>The steps other than new work arriving, and the amount of work they have left.\<close>

definition internal_step :: "nat \<Rightarrow> wake_state \<Rightarrow> wake_state \<Rightarrow> bool" where
  "internal_step budget s t \<longleftrightarrow> wake_step budget s t \<and> wk_work t \<le> wk_work s"

fun consumer_effort :: "nat \<Rightarrow> consumer \<Rightarrow> nat" where
  "consumer_effort budget Waiting = 0"
| "consumer_effort budget Woken = 3"
| "consumer_effort budget (Draining k) = (if k = budget then 7 else 2)"
| "consumer_effort budget (Rearming full) = (if full then 6 else 1)"
| "consumer_effort budget Reposting = 5"

definition effort :: "nat \<Rightarrow> wake_state \<Rightarrow> nat" where
  "effort budget s = 6 * wk_work s + 6 * wk_asking s + 5 * wk_posting s + 4 * wk_wakes s
     + consumer_effort budget (wk_consumer s)"

lemma internal_step_effort:
  assumes "internal_step budget s t" and budget: "0 < budget"
  shows "effort budget t < effort budget s"
proof -
  from assms(1) have step: "wake_step budget s t" and le: "wk_work t \<le> wk_work s" by (simp_all add: internal_step_def)
  from step le budget show ?thesis
  proof (induction rule: wake_step.induct)
    case (ask s won signal)
    then show ?case by (cases won) (auto simp: effort_def)
  qed (auto simp: effort_def rearm_if_def split: if_splits)
qed

lemma internal_progress:
  assumes ok: "wake_ok budget s" and work: "0 < wk_work s \<or> 0 < wk_asking s \<or> 0 < outstanding s \<or> wk_consumer s \<noteq> Waiting"
  shows "\<exists>t. internal_step budget s t"
proof (cases "wk_consumer s")
  case Waiting
  show ?thesis
  proof (cases "0 < wk_asking s")
    case True
    obtain won signal where "wake_request (wk_signal s) = (won, signal)" by (cases "wake_request (wk_signal s)")
    from wake_step.ask [OF True this, of budget] show ?thesis by (fastforce simp: internal_step_def)
  next
    case False
    with ok work Waiting have "0 < wk_posting s \<or> 0 < wk_wakes s"
      by (auto simp: wake_ok_def outstanding_def split: if_splits)
    then show ?thesis using wake_step.post [of s budget] wake_step.wake [OF Waiting] by (fastforce simp: internal_step_def)
  qed
next
  case Woken
  from wake_step.start [OF this] show ?thesis by (fastforce simp: internal_step_def)
next
  case (Draining k)
  show ?thesis
  proof (cases "k < budget \<and> 0 < wk_work s")
    case True
    with wake_step.take_one [OF Draining, of budget] show ?thesis by (fastforce simp: internal_step_def)
  next
    case False
    with ok Draining have "k = budget \<or> wk_work s = 0" by (auto simp: wake_ok_def)
    from wake_step.stop [OF Draining this] show ?thesis by (auto simp: internal_step_def)
  qed
next
  case (Rearming full)
  obtain won signal where "rearm_if full (wk_signal s) = (won, signal)" by (cases "rearm_if full (wk_signal s)")
  from wake_step.rearm [OF Rearming this] show ?thesis by (fastforce simp: internal_step_def)
next
  case Reposting
  from wake_step.repost [OF this] show ?thesis by (fastforce simp: internal_step_def)
qed

lemma internal_steps: "(internal_step budget)\<^sup>*\<^sup>* s t \<Longrightarrow> (wake_step budget)\<^sup>*\<^sup>* s t"
  by (induction rule: rtranclp_induct) (auto simp: internal_step_def intro: rtranclp.rtrancl_into_rtrancl)

lemma internal_run_ends:
  assumes "0 < budget"
  shows "\<exists>t. (internal_step budget)\<^sup>*\<^sup>* s t \<and> (\<nexists>u. internal_step budget t u)"
proof (induction "effort budget s" arbitrary: s rule: less_induct)
  case less
  show ?case
  proof (cases "\<exists>u. internal_step budget s u")
    case True
    then obtain u where u: "internal_step budget s u" by blast
    from less [OF internal_step_effort [OF u assms]] obtain t
      where "(internal_step budget)\<^sup>*\<^sup>* u t" "\<nexists>v. internal_step budget t v" by blast
    with u show ?thesis by (meson converse_rtranclp_into_rtranclp)
  qed blast
qed



end
