(* ===== verification/Server_Request.thy ===== *)
theory Server_Request
  imports Server_Table Json_Select Wake_Signal
begin

text \<open>
  One request of the server's control socket, from its admission to its answer (\<open>execute_command\<close>,
  \<open>execute_request\<close> and \<open>drain\<close> of \<open>src/server_app.rs\<close>, the target and the wait of a receipt of
  \<open>src/control_authority.rs\<close>).  The operation catalogue, the files and the process are the record
  \<open>RequestHost\<close>.
\<close>

record 'p RequestHost =
  rh_env :: UiEnv
  rh_table :: "'p TableHost"
  rh_validate :: "string list \<Rightarrow> string + unit"
  rh_operation_for_args :: operation_lookup
  rh_to_vec :: "string list \<Rightarrow> string + u8 list"
  rh_set_size :: "'p \<Rightarrow> u16 \<times> u16 \<Rightarrow> 'p"
  rh_native_error :: "string option"
  rh_save_workspace :: "SavedWorkspace \<Rightarrow> string + unit"
  rh_iterate :: "u64 set \<Rightarrow> u64 list"
  rh_mark_shutdown :: "string + unit"
  rh_ipc_address :: string

section \<open>Commands\<close>

definition ui_client_edits_command_target :: "UiEnv \<Rightarrow> string list \<Rightarrow> 'p UiServerState \<Rightarrow> bool" where
  "ui_client_edits_command_target env args u =
     (case target_position args u of
        None \<Rightarrow> False
      | Some k \<Rightarrow>
          (case us_snapshot u of
             None \<Rightarrow> False
           | Some snapshot \<Rightarrow>
               (case env_from_str env (sr_json snapshot) of
                  Inl _ \<Rightarrow> False
                | Inr v \<Rightarrow> as_str (json_index (json_index v ''tab_editor'') ''target'') = Some (id_text (CHR ''@'') (tb_id (ui_tabs u ! k))))))"

definition persist_workspace :: "'p RequestHost \<Rightarrow> 'p UiServerState \<Rightarrow> ((string + unit) \<times> 'p UiServerState) option" where
  "persist_workspace host u =
     (case rh_save_workspace host (saved_workspace (rh_iterate host) (us_core u)) of
        Inl e \<Rightarrow> Some (Err e, u)
      | Inr _ \<Rightarrow> map_option (Pair (Ok ())) (ui_commit WorkspaceSaved None (JObj []) u))"

definition persistence_failed :: "string \<Rightarrow> IpcResponse" where
  "persistence_failed e = typed_failure e ''operation_persistence_failed'' ''precondition'' False"

definition save_workspace_command :: "'p RequestHost \<Rightarrow> 'p UiServerState \<Rightarrow> (IpcResponse \<times> 'p UiServerState) option" where
  "save_workspace_command host u =
     map_option (\<lambda>(r, u).
         case r of
           Inl e \<Rightarrow> (persistence_failed e, u)
         | Inr _ \<Rightarrow> (IpcResponse_success (th_workspace_path (rh_table host)), u))
       (persist_workspace host u)"

definition shutdown_command :: "'p RequestHost \<Rightarrow> 'p UiServerState \<Rightarrow> (IpcResponse \<times> 'p UiServerState) option" where
  "shutdown_command host u =
     Option.bind (persist_workspace host u) (\<lambda>(r, u).
       case r of
         Inl e \<Rightarrow> Some (persistence_failed e, u)
       | Inr _ \<Rightarrow>
       case rh_mark_shutdown host of
         Inl e \<Rightarrow> Some (persistence_failed e, u)
       | Inr _ \<Rightarrow>
           map_option (\<lambda>u. (IpcResponse_success [], u\<lparr>us_shutdown_requested := True\<rparr>))
             (ui_commit WorkspaceShutdown None (JObj [(''saved'', JBool True)]) u))"

definition no_window :: "string \<Rightarrow> IpcResponse" where
  "no_window message = typed_failure message ''ui_client_unavailable'' ''availability'' True"

text \<open>The commands of the headless server itself, after the table had no answer.\<close>

definition server_command :: "'p RequestHost \<Rightarrow> string list \<Rightarrow> 'p UiServerState \<Rightarrow> (IpcResponse \<times> 'p UiServerState) option" where
  "server_command host args u =
     (case args of
        [] \<Rightarrow> Some (IpcResponse_failure ''no command specified'', u)
      | name # _ \<Rightarrow>
          if name = ''save-workspace'' then save_workspace_command host u
          else if name = ''shutdown'' then shutdown_command host u
          else if name = UI_CLIENT_COMMAND_FOCUS \<or> name = UI_CLIENT_COMMAND_SHOW_NO_ACTIVATE
          then Some (no_window ''no interactive GUI client is attached to this server'', u)
          else if name = ''ui-input''
          then Some (no_window (''ui-input needs an attached GUI client: this headless server publishes synthetic geometry ''
                 @ ''but has no window to dispatch pointer, wheel or key events into''), u)
          else Some (typed_failure (''headless AgenTerm server does not implement `'' @ name @ ''`'')
                 ''server_command_unsupported'' ''unsupported'' False, u))"

definition relayed :: "'p RequestHost \<Rightarrow> string list \<Rightarrow> 'p UiServerState \<Rightarrow> bool" where
  "relayed host args u =
     (case args of
        [] \<Rightarrow> False
      | name # _ \<Rightarrow>
          name = ''set-composer'' \<and> ui_client_edits_command_target (rh_env host) args u
          \<or> relays_to_ui_client name (lease_active (us_ui_lease u) \<noteq> None))"

abbreviation command_table :: "'p RequestHost \<Rightarrow> 'p shared_table" where
  "command_table host \<equiv> dispatch_shared_command (rh_env host) (rh_table host)"

definition execute_command :: "'p RequestHost \<Rightarrow> string list \<Rightarrow> 'p UiServerState \<Rightarrow> (IpcResponse \<times> 'p UiServerState) option" where
  "execute_command host args u =
     (case rh_validate host args of
        Inl e \<Rightarrow> Some (typed_failure e ''operation_invalid_arguments'' ''validation'' False, u)
      | Inr _ \<Rightarrow>
          let name = (case args of [] \<Rightarrow> [] | name # _ \<Rightarrow> name)
          in if name = ''ui-lease'' then execute_ui_lease_command (rh_env host) args u
             else if name = ''ui-client-state'' then Some (execute_ui_client_state_command (rh_env host) args u)
             else if name = ''ui-client-command''
             then execute_ui_client_command (rh_env host) (rh_validate host) (command_table host) args u
             else if relayed host args u then enqueue_ui_client_command (rh_env host) (command_table host) args u
             else if name = ''ui-interact''
             then execute_ui_interaction_command (rh_env host) (rh_set_size host) (th_written (rh_table host) 0)
                    (rh_native_error host) args u
             else Option.bind (command_table host args u) (\<lambda>(answer, u).
               case answer of Some response \<Rightarrow> Some (response, u) | None \<Rightarrow> server_command host args u))"

section \<open>Requests\<close>

definition control_event_position :: "'p UiServerState \<Rightarrow> Control_Contract.EventPosition" where
  "control_event_position u =
     (let p = journal_position (sv_event_journal (us_core u)) in \<lparr>cp_epoch = pos_epoch p, cp_sequence = pos_sequence p\<rparr>)"

definition tab_scoped_commands :: "string list" where
  "tab_scoped_commands =
     [''capture-output'', ''capture-pane'', ''display-message'', ''dump-cells'', ''focus'', ''inspect'', ''kill-window'',
      ''rename-window'', ''scroll-pane'', ''send-composer'', ''send-keys'', ''send-mouse'', ''set-composer'', ''set-tab-note'',
      ''show-composer'', ''show-tab-note'', ''paste-buffer'', ''pasteb'']"

definition resolved_control_target :: "'p RequestHost \<Rightarrow> string list \<Rightarrow> 'p UiServerState \<Rightarrow> ResolvedTarget" where
  "resolved_control_target host args u =
     (let tab_scoped = (option_value args ''-t'' \<noteq> None \<or> (case args of [] \<Rightarrow> False | name # _ \<Rightarrow> name \<in> set tab_scoped_commands))
      in \<lparr>rt_server_pid = env_process_id (rh_env host), rt_server_address = rh_ipc_address host,
          rt_server_epoch = jr_epoch (sv_event_journal (us_core u)), rt_session = sv_session_name (us_core u),
          rt_tab_id = (if tab_scoped then map_option (\<lambda>k. tb_id (ui_tabs u ! k)) (target_position args u) else None)\<rparr>)"

definition submission_wait ::
  "'p UiServerState \<Rightarrow> ControlRequest \<Rightarrow> bool \<Rightarrow> ResolvedTarget \<Rightarrow> Control_Contract.EventPosition \<Rightarrow> WaitDescriptor option" where
  "submission_wait u control response_ok resolved after_position =
     (if response_ok \<and> OperationId_as_str (rq_operation_id control) = ''command.send.composer''
      then Option.bind (rt_tab_id resolved) (\<lambda>tab_id.
        Option.bind (position (\<lambda>tab. tb_id tab = tab_id) (ui_tabs u)) (\<lambda>k.
          if submission_is_pending (tb_submission (ui_tabs u ! k))
          then Some \<lparr>wd_condition = SubmissionComplete, wd_target = resolved, wd_minimum_position = after_position,
                     wd_event_kind = Some ''composer.submission-finished'', wd_deadline_unix_ms = rq_deadline_unix_ms control\<rparr>
          else None))
      else None)"

definition answered_tab :: "IpcResponse \<Rightarrow> ResolvedTarget \<Rightarrow> ResolvedTarget" where
  "answered_tab response resolved =
     (if rt_tab_id resolved = None
      then (case Option.bind (strip_prefix ''@'' (trim (ir_output response))) parse_u64 of
              None \<Rightarrow> resolved | Some i \<Rightarrow> resolved\<lparr>rt_tab_id := Some i\<rparr>)
      else resolved)"

abbreviation set_authority :: "ControlAuthority \<Rightarrow> 'p UiServerState \<Rightarrow> 'p UiServerState" where
  "set_authority a u \<equiv> u\<lparr>us_core := (us_core u)\<lparr>sv_control_authority := a\<rparr>\<rparr>"

definition run_controlled ::
  "'p RequestHost \<Rightarrow> string list \<Rightarrow> ControlRequest \<Rightarrow> 'p UiServerState \<Rightarrow> (IpcResponse \<times> 'p UiServerState) option" where
  "run_controlled host args control u =
     (let before_position = control_event_position u; resolved = resolved_control_target host args u
      in map_option (\<lambda>(response, u).
           let after_position = control_event_position u;
               resolved = answered_tab response resolved;
               wait = submission_wait u control (ir_ok response) resolved after_position;
               (response, a) = authority_complete (sv_control_authority (us_core u)) control response resolved
                 before_position after_position wait
           in (response, set_authority a u)) (execute_command host args u))"

definition execute_request :: "'p RequestHost \<Rightarrow> IpcRequest \<Rightarrow> 'p UiServerState \<Rightarrow> (IpcResponse \<times> 'p UiServerState) option" where
  "execute_request host request u =
     (case authority_admit (rh_operation_for_args host) (rh_to_vec host) (sv_control_authority (us_core u))
             (iq_control request) (iq_args request) (env_now (rh_env host)) of
        (Uncontrolled, a) \<Rightarrow> execute_command host (iq_args request) (set_authority a u)
      | (Respond response, a) \<Rightarrow> Some (response, set_authority a u)
      | (ExecuteControl control, a) \<Rightarrow> run_controlled host (iq_args request) control (set_authority a u))"

section \<open>One turn of the server\<close>

definition IPC_REQUESTS_PER_TICK :: nat where
  "IPC_REQUESTS_PER_TICK = 16"

text \<open>
  Every request comes with the world at its execution.  The loop keeps the wake signal, the requests
  that wait in the channel, the server and the answers sent so far.
\<close>

type_synonym 'p envelope = "'p RequestHost \<times> IpcRequest"

record 'p ServerLoop =
  sl_wake_signal :: WakeSignal
  sl_ipc_server :: "'p envelope list"
  sl_server :: "'p UiServerState"
  sl_answers :: "IpcResponse list"

fun answer_requests :: "'p envelope list \<Rightarrow> 'p UiServerState \<Rightarrow> (IpcResponse list \<times> 'p UiServerState) option" where
  "answer_requests [] u = Some ([], u)"
| "answer_requests ((host, request) # envelopes) u =
     Option.bind (execute_request host request u) (\<lambda>(response, u).
       map_option (\<lambda>(responses, u). (response # responses, u)) (answer_requests envelopes u))"

definition drain ::
  "('p \<Rightarrow> bytes \<Rightarrow> 'p) \<Rightarrow> ('p \<Rightarrow> string option \<times> 'p) \<Rightarrow> (u64 \<Rightarrow> poll_input) \<Rightarrow> 'p ServerLoop \<Rightarrow> 'p ServerLoop option" where
  "drain process take_cwd inputs l =
     (let signal = begin_drain (sl_wake_signal l) in
      Option.bind (poll_terminals process take_cwd inputs (us_core (sl_server l))) (\<lambda>s.
        let envelopes = take IPC_REQUESTS_PER_TICK (sl_ipc_server l);
            budget_exhausted = (length envelopes = IPC_REQUESTS_PER_TICK)
        in map_option (\<lambda>(responses, u).
             l\<lparr>sl_wake_signal := snd (rearm_if budget_exhausted signal), sl_ipc_server := drop IPC_REQUESTS_PER_TICK (sl_ipc_server l),
               sl_server := u, sl_answers := sl_answers l @ responses\<rparr>)
           (answer_requests envelopes ((sl_server l)\<lparr>us_core := s\<rparr>))))"

text \<open>A turn of the loop: requests arrive in the channel, then the server drains.\<close>

definition server_turn ::
  "('p \<Rightarrow> bytes \<Rightarrow> 'p) \<Rightarrow> ('p \<Rightarrow> string option \<times> 'p) \<Rightarrow> 'p ServerLoop \<Rightarrow> 'p envelope list \<times> (u64 \<Rightarrow> poll_input)
   \<Rightarrow> 'p ServerLoop option" where
  "server_turn process take_cwd l turn =
     drain process take_cwd (snd turn) (l\<lparr>sl_ipc_server := sl_ipc_server l @ fst turn\<rparr>)"

end
