(* ===== verification/Server_Ui_Invariant.thy ===== *)
theory Server_Ui_Invariant
  imports Server_Ui
begin

text \<open>
  What the server's GUI handlers keep (\<open>Server_Ui\<close>): the invariant that ties the server core, the lease
  authority, the published snapshot and the relay queue together, its preservation by every handler, and
  the properties of whole runs.
\<close>

section \<open>The invariant\<close>

text \<open>The core may commit events and change what the tree does not see of its tabs.\<close>

abbreviation core_sequence :: "'p ServerState \<Rightarrow> u64" where
  "core_sequence s \<equiv> jr_sequence (sv_event_journal s)"

definition core_grows :: "'p ServerState \<Rightarrow> 'p ServerState \<Rightarrow> bool" where
  "core_grows s s' \<longleftrightarrow> (server_ok s \<longrightarrow> server_ok s') \<and> core_sequence s \<le> core_sequence s'
     \<and> length (sv_tabs s') = length (sv_tabs s) \<and> sv_next_id s' = sv_next_id s
     \<and> sv_control_authority s' = sv_control_authority s"

lemma core_grows_refl [simp]: "core_grows s s"
  by (simp add: core_grows_def)

lemma core_grows_trans: "\<lbrakk> core_grows a b; core_grows b c \<rbrakk> \<Longrightarrow> core_grows a c"
  by (auto simp: core_grows_def)

definition journal_extends :: "EventJournal \<Rightarrow> EventJournal \<Rightarrow> bool" where
  "journal_extends j j' \<longleftrightarrow> (\<exists>rs. journal_run j rs = Some j')"

lemma journal_extends_sequence: "journal_extends j j' \<Longrightarrow> jr_sequence j \<le> jr_sequence j'"
  by (auto simp: journal_extends_def word_le_nat_alt dest: journal_run_sequence)

lemma server_commit_grows: "server_commit kind tab_id payload s = Some s' \<Longrightarrow> core_grows s s'"
proof -
  assume c: "server_commit kind tab_id payload s = Some s'"
  from server_commitD [OF c] obtain journal e where s': "s' = s\<lparr>sv_event_journal := journal\<rparr>"
    and j: "commit_correlated (sv_event_journal s) kind tab_id None None payload = Some (e, journal)" by blast
  have "journal_extends (sv_event_journal s) journal"
    using journal_run_commit [OF j] by (auto simp: journal_extends_def)
  then show ?thesis
    using server_ok_commit [OF c] server_commit_fields [OF c] journal_extends_sequence by (simp add: core_grows_def s')
qed

definition ui_pending_ok :: "u32 \<Rightarrow> nat \<Rightarrow> (string \<times> u32) set \<Rightarrow> 'p UiServerState \<Rightarrow> bool" where
  "ui_pending_ok pid n away u \<longleftrightarrow>
     server_ok (us_core u) \<and> Ui_Lease.authority_ok pid n (us_ui_lease u, us_next_lease_id u) \<and> queue_ok (us_commands u)
     \<and> (\<forall>r. us_snapshot u = Some r \<longrightarrow>
          lease_table (us_ui_lease u) (sr_lease_id r, sr_client_pid r) \<noteq> None \<or> (sr_lease_id r, sr_client_pid r) \<in> away)
     \<and> (\<forall>k l. lease_table (us_ui_lease u) k = Some l \<longrightarrow>
          ul_observed_sequence l \<le> core_sequence (us_core u) \<and> UI_LEASE_TTL_MS \<le> ul_expires_unix_ms l)"

text \<open>What the handlers leave alone besides: the counters that are never reused.\<close>

definition ui_grows :: "'p UiServerState \<Rightarrow> 'p UiServerState \<Rightarrow> bool" where
  "ui_grows u u' \<longleftrightarrow> core_grows (us_core u) (us_core u') \<and> uq_next_id (us_commands u') = uq_next_id (us_commands u)"

lemma ui_grows_refl [simp]: "ui_grows u u"
  by (simp add: ui_grows_def)

lemma ui_grows_trans: "\<lbrakk> ui_grows a b; ui_grows b c \<rbrakk> \<Longrightarrow> ui_grows a c"
  unfolding ui_grows_def by (auto intro: core_grows_trans)

lemma ui_ok_core:
  "\<lbrakk> ui_pending_ok pid n away u; core_grows (us_core u) s' \<rbrakk> \<Longrightarrow> ui_pending_ok pid n away (u\<lparr>us_core := s'\<rparr>)"
  by (fastforce simp: ui_pending_ok_def core_grows_def intro: order_trans)

lemma ui_commit_ok:
  assumes "ui_commit kind tab_id payload u = Some u'" and "ui_pending_ok pid n away u"
  shows "ui_pending_ok pid n away u' \<and> ui_grows u u' \<and> us_ui_lease u' = us_ui_lease u \<and> us_snapshot u' = us_snapshot u
    \<and> sv_tabs (us_core u') = sv_tabs (us_core u)"
proof -
  from assms(1) obtain s' where s': "server_commit kind tab_id payload (us_core u) = Some s'" and u': "u' = u\<lparr>us_core := s'\<rparr>"
    by (auto simp: ui_commit_def)
  with ui_ok_core [OF assms(2) server_commit_grows [OF s']] server_commit_grows [OF s'] server_commit_fields(1) [OF s'] show ?thesis
    by (simp add: ui_grows_def)
qed

lemma clear_snapshot_ok:
  assumes "ui_pending_ok pid n (insert (lid, p) away) u"
  shows "ui_pending_ok pid n away (clear_ui_client_snapshot_for lid p u)
    \<and> ui_grows u (clear_ui_client_snapshot_for lid p u)
    \<and> us_ui_lease (clear_ui_client_snapshot_for lid p u) = us_ui_lease u
    \<and> us_core (clear_ui_client_snapshot_for lid p u) = us_core u"
proof (cases "us_snapshot u")
  case None
  with assms show ?thesis by (simp add: clear_ui_client_snapshot_for_def ui_pending_ok_def)
next
  case (Some r)
  have "uq_next_id (clear_active (us_commands u)) = uq_next_id (us_commands u)" by (simp add: clear_active_def)
  with Some assms show ?thesis
    by (auto simp: clear_ui_client_snapshot_for_def ui_pending_ok_def ui_grows_def clear_active_keeps_ok)
qed

lemma reap_one_ok:
  assumes ok: "ui_pending_ok pid n (insert (lease_key lease) away) u" and r: "reap_one env u (lease, reason) = Some u'"
  shows "ui_pending_ok pid n away u' \<and> ui_grows u u' \<and> us_ui_lease u' = us_ui_lease u"
proof -
  let ?c = "clear_ui_client_snapshot_for (ul_lease_id lease) (ul_client_pid lease) u"
  note c = clear_snapshot_ok [OF ok]
  from r obtain payload where "ui_commit UiLease None payload ?c = Some u'"
    by (auto simp: reap_one_def commit_ui_lease_event_def)
  from ui_commit_ok [OF this, of pid n away] c ui_grows_trans [of u ?c u'] show ?thesis by simp
qed

lemma reap_all_ok:
  "\<lbrakk> run_steps (reap_one env) u removed = Some u'; ui_pending_ok pid n (lease_key ` fst ` set removed \<union> away) u \<rbrakk>
   \<Longrightarrow> ui_pending_ok pid n away u' \<and> ui_grows u u' \<and> us_ui_lease u' = us_ui_lease u"
proof (induction removed arbitrary: u)
  case Nil
  then show ?case by simp
next
  case (Cons x removed)
  obtain lease reason where x: "x = (lease, reason)" by (cases x)
  from Cons.prems(1) obtain v where v: "reap_one env u (lease, reason) = Some v" "run_steps (reap_one env) v removed = Some u'"
    by (auto simp: x split: option.splits)
  have "ui_pending_ok pid n (insert (lease_key lease) (lease_key ` fst ` set removed \<union> away)) u" using Cons.prems(2) by (simp add: x)
  from reap_one_ok [OF this v(1)] Cons.IH [OF v(2)] show ?case by (auto intro: ui_grows_trans)
qed

lemma commit_event_ok:
  assumes "ui_pending_ok pid n away u"
  shows "commit_ui_lease_event env lease state reason u = Some u' \<Longrightarrow>
      ui_pending_ok pid n away u' \<and> ui_grows u u' \<and> us_ui_lease u' = us_ui_lease u"
    and "commit_window_visibility visible detached reason u = Some u' \<Longrightarrow>
      ui_pending_ok pid n away u' \<and> ui_grows u u' \<and> us_ui_lease u' = us_ui_lease u"
  using ui_commit_ok [OF _ assms] by (auto simp: commit_ui_lease_event_def commit_window_visibility_def)

lemma lease_table_in: "lease_table a k = Some l \<Longrightarrow> l \<in> set (la_leases a) \<and> lease_key l = k"
  by (auto simp: lease_table_def dest: lookup_by_SomeD)

lemma reap_stale_ui_lease_ok:
  assumes ok: "ui_pending_ok pid n away u" and r: "reap_stale_ui_lease env u = Some u'"
  shows "ui_pending_ok pid n away u' \<and> ui_grows u u'
    \<and> us_ui_lease u' = snd (reap_stale (us_ui_lease u) (env_now env) (env_process_is_alive env))"
proof -
  obtain removed leases where reap: "reap_stale (us_ui_lease u) (env_now env) (env_process_is_alive env) = (removed, leases)"
    by (cases "reap_stale (us_ui_lease u) (env_now env) (env_process_is_alive env)")
  from r obtain v where v: "run_steps (reap_one env) (u\<lparr>us_ui_lease := leases\<rparr>) removed = Some v"
    and last: "(if removed \<noteq> [] \<and> la_leases (us_ui_lease v) = []
            then commit_window_visibility False True ''leases-empty'' v else Some v) = Some u'"
    by (auto simp: reap_stale_ui_lease_def reap Option.bind_eq_Some_conv)
  have auth: "leases_ok pid n (la_leases (us_ui_lease u))" "us_next_lease_id u = of_nat n"
    using ok by (simp_all add: ui_pending_ok_def Ui_Lease.authority_ok_def)
  note t = reap_table [OF auth(1) reap]
  have owner: "lease_table leases k \<noteq> None \<or> k \<in> lease_key ` fst ` set removed"
    if "lease_table (us_ui_lease u) k = Some l" for k l
  proof (cases "stale_reason (env_now env) (env_process_is_alive env) l")
    case None
    with that show ?thesis by (simp add: t(2))
  next
    case (Some why)
    with that lease_table_in [OF that] have "(l, why) \<in> set removed" by (simp add: t(3))
    then show ?thesis using lease_table_in [OF that] by force
  qed
  have "ui_pending_ok pid n (lease_key ` fst ` set removed \<union> away) (u\<lparr>us_ui_lease := leases\<rparr>)"
  proof -
    have "lease_table leases (sr_lease_id x, sr_client_pid x) \<noteq> None
        \<or> (sr_lease_id x, sr_client_pid x) \<in> lease_key ` fst ` set removed \<union> away" if "us_snapshot u = Some x" for x
    proof (cases "lease_table (us_ui_lease u) (sr_lease_id x, sr_client_pid x)")
      case None
      with ok that show ?thesis by (auto simp: ui_pending_ok_def)
    next
      case (Some l)
      with owner show ?thesis by blast
    qed
    moreover have "lease_table (us_ui_lease u) k = Some l" if "lease_table leases k = Some l" for k l
      using that by (auto simp: t(2) split: option.splits if_splits)
    ultimately show ?thesis
      using ok auth(2) t(1) unfolding ui_pending_ok_def Ui_Lease.authority_ok_def by (simp, blast)
  qed
  from reap_all_ok [OF v this] have v': "ui_pending_ok pid n away v" "ui_grows u v" "us_ui_lease v = leases"
    by (auto simp: ui_grows_def)
  then show ?thesis
    using last commit_event_ok(2) [OF v'(1)] by (auto simp: reap intro: ui_grows_trans split: if_splits)
qed

text \<open>Storing a lease under a key that is in use, or removing one.\<close>

lemma ui_ok_store:
  assumes ok: "ui_pending_ok pid n away u" and auth: "Ui_Lease.authority_ok pid m (leases, next_id)"
    and table: "lease_table leases = (lease_table (us_ui_lease u))(k \<mapsto> l)"
    and l: "ul_observed_sequence l \<le> core_sequence (us_core u)" "UI_LEASE_TTL_MS \<le> ul_expires_unix_ms l"
  shows "ui_pending_ok pid m away (u\<lparr>us_ui_lease := leases, us_next_lease_id := next_id\<rparr>)"
  using ok auth l unfolding ui_pending_ok_def by (auto simp: table split: if_splits)

lemma ttl_le_expiry: "UI_LEASE_TTL_MS \<le> saturating_add now UI_LEASE_TTL_MS"
proof -
  have "unat UI_LEASE_TTL_MS \<le> unat (saturating_add now UI_LEASE_TTL_MS)"
    using unat_u64_le [of UI_LEASE_TTL_MS] by (auto simp: unat_saturating_add)
  then show ?thesis by (simp add: word_le_nat_alt)
qed

lemma heartbeat_ok:
  assumes ok: "ui_pending_ok pid n away u" and h: "heartbeat (us_ui_lease u) lid p now = (r, leases)"
  shows "ui_pending_ok pid n away (u\<lparr>us_ui_lease := leases\<rparr>)"
    and "r = Ok l \<Longrightarrow> lease_table leases (lid, p) = Some l"
proof -
  have auth: "leases_ok pid n (la_leases (us_ui_lease u))" "us_next_lease_id u = of_nat n"
    using ok by (simp_all add: ui_pending_ok_def Ui_Lease.authority_ok_def)
  note t = heartbeat_table [OF auth(1), of lid p now, unfolded h]
  show "r = Ok l \<Longrightarrow> lease_table leases (lid, p) = Some l" using t by auto
  show "ui_pending_ok pid n away (u\<lparr>us_ui_lease := leases\<rparr>)"
  proof (cases r)
    case (Inl e)
    with t ok show ?thesis by simp
  next
    case (Inr l)
    with t obtain old where old: "lease_table (us_ui_lease u) (lid, p) = Some old"
      "l = old\<lparr>ul_expires_unix_ms := saturating_add now UI_LEASE_TTL_MS\<rparr>"
      "lease_table leases = (lease_table (us_ui_lease u))((lid, p) \<mapsto> l)" "leases_ok pid n (la_leases leases)" by auto
    have "ul_observed_sequence l \<le> core_sequence (us_core u)" using ok old(1,2) by (auto simp: ui_pending_ok_def)
    moreover have "UI_LEASE_TTL_MS \<le> ul_expires_unix_ms l" by (simp add: old(2) ttl_le_expiry)
    ultimately have "ui_pending_ok pid n away (u\<lparr>us_ui_lease := leases, us_next_lease_id := us_next_lease_id u\<rparr>)"
      using ui_ok_store [OF ok _ old(3)] old(4) auth(2) by (simp add: Ui_Lease.authority_ok_def)
    then show ?thesis by simp
  qed
qed

lemma ui_ok_authority:
  "ui_pending_ok pid n away u \<Longrightarrow> Ui_Lease.authority_ok pid n (us_ui_lease u, us_next_lease_id u)
     \<and> leases_ok pid n (la_leases (us_ui_lease u)) \<and> us_next_lease_id u = of_nat n"
  by (simp add: ui_pending_ok_def Ui_Lease.authority_ok_def)

lemma acknowledge_ok:
  assumes ok: "ui_pending_ok pid n away u"
    and a: "acknowledge (us_ui_lease u) lid p sequence (core_sequence (us_core u)) now = (r, leases)"
  shows "ui_pending_ok pid n away (u\<lparr>us_ui_lease := leases\<rparr>)"
    and "r = Ok l \<Longrightarrow> lease_table leases (lid, p) = Some l"
proof -
  note auth = ui_ok_authority [OF ok]
  note t = acknowledge_table [of pid n "us_ui_lease u" lid p sequence "core_sequence (us_core u)" now, unfolded a]
  show "r = Ok l \<Longrightarrow> lease_table leases (lid, p) = Some l" using t auth by auto
  show "ui_pending_ok pid n away (u\<lparr>us_ui_lease := leases\<rparr>)"
  proof (cases r)
    case (Inl e)
    with t ok auth show ?thesis by simp
  next
    case (Inr l)
    with t auth obtain old where old: "sequence \<le> core_sequence (us_core u)"
      "l = old\<lparr>ul_observed_sequence := sequence, ul_expires_unix_ms := saturating_add now UI_LEASE_TTL_MS\<rparr>"
      "lease_table leases = (lease_table (us_ui_lease u))((lid, p) \<mapsto> l)" "leases_ok pid n (la_leases leases)" by auto
    have "ui_pending_ok pid n away (u\<lparr>us_ui_lease := leases, us_next_lease_id := us_next_lease_id u\<rparr>)"
      using ui_ok_store [OF ok _ old(3)] old(1,2,4) auth by (simp add: Ui_Lease.authority_ok_def ttl_le_expiry)
    then show ?thesis by simp
  qed
qed

lemma detach_ok:
  assumes ok: "ui_pending_ok pid n away u" and d: "detach (us_ui_lease u) lid p = (r, leases)"
  shows "ui_pending_ok pid n (insert (lid, p) away) (u\<lparr>us_ui_lease := leases\<rparr>)"
    and "r = Ok l \<Longrightarrow> lease_key l = (lid, p)" and "r = Err e \<Longrightarrow> leases = us_ui_lease u"
proof -
  note auth = ui_ok_authority [OF ok]
  note t = detach_table [of pid n "us_ui_lease u" lid p, unfolded d]
  show "r = Ok l \<Longrightarrow> lease_key l = (lid, p)" using t auth lease_table_in [of "us_ui_lease u" "(lid, p)" l] by auto
  show "r = Err e \<Longrightarrow> leases = us_ui_lease u" using t auth by simp
  have kept: "leases_ok pid n (la_leases leases)
    \<and> (\<forall>k. k \<noteq> (lid, p) \<longrightarrow> lease_table leases k = lease_table (us_ui_lease u) k)
    \<and> (\<forall>k l. lease_table leases k = Some l \<longrightarrow> lease_table (us_ui_lease u) k = Some l)"
  proof (cases r)
    case (Inl e)
    with t auth show ?thesis by simp
  next
    case (Inr l)
    with t auth have "leases_ok pid n (la_leases leases)" "lease_table leases = (lease_table (us_ui_lease u))((lid, p) := None)"
      by simp_all
    then show ?thesis by simp
  qed
  have "lease_table leases (sr_lease_id x, sr_client_pid x) \<noteq> None \<or> (sr_lease_id x, sr_client_pid x) \<in> insert (lid, p) away"
    if "us_snapshot u = Some x" for x
  proof -
    have "lease_table (us_ui_lease u) (sr_lease_id x, sr_client_pid x) \<noteq> None \<or> (sr_lease_id x, sr_client_pid x) \<in> away"
      using ok that by (simp add: ui_pending_ok_def)
    with kept show ?thesis by (metis insertCI)
  qed
  moreover have "ul_observed_sequence l \<le> core_sequence (us_core u) \<and> UI_LEASE_TTL_MS \<le> ul_expires_unix_ms l"
    if "lease_table leases k = Some l" for k l
    using ok that kept unfolding ui_pending_ok_def by blast
  ultimately show "ui_pending_ok pid n (insert (lid, p) away) (u\<lparr>us_ui_lease := leases\<rparr>)"
    using ok auth conjunct1 [OF kept] by (simp add: ui_pending_ok_def Ui_Lease.authority_ok_def)
qed

lemma attach_expires:
  "attach pid st c p b now = (Ok (l, created), st') \<Longrightarrow> ul_expires_unix_ms l = saturating_add now UI_LEASE_TTL_MS"
  by (auto simp: attach_def Let_def split: prod.splits sum.splits if_splits option.splits)

lemma attach_ok:
  assumes ok: "ui_pending_ok pid n away u" and n: "n < 2 ^ 64"
    and a: "attach pid (us_ui_lease u, us_next_lease_id u) c p b now = (r, leases, next_id)"
  shows "\<exists>m \<le> Suc n. ui_pending_ok pid m away (u\<lparr>us_ui_lease := leases, us_next_lease_id := next_id\<rparr>)"
    and "r = Ok (l, created) \<Longrightarrow> lease_table leases (lease_key l) = Some l"
proof -
  note t = attach_table [OF conjunct1 [OF ui_ok_authority [OF ok]] n, where c = c and p = p and b = b and now = now, unfolded a]
  show "r = Ok (l, created) \<Longrightarrow> lease_table leases (lease_key l) = Some l" using t by (cases created) auto
  show "\<exists>m \<le> Suc n. ui_pending_ok pid m away (u\<lparr>us_ui_lease := leases, us_next_lease_id := next_id\<rparr>)"
  proof (cases r)
    case (Inl e)
    with t ok show ?thesis by (intro exI [of _ n]) simp
  next
    case (Inr lc)
    then obtain l created where r: "r = Ok (l, created)" by (cases lc) auto
    have ttl: "UI_LEASE_TTL_MS \<le> ul_expires_unix_ms l" using attach_expires a r by (simp add: ttl_le_expiry)
    show ?thesis
    proof (cases created)
      case True
      with t r have "Ui_Lease.authority_ok pid (Suc n) (leases, next_id)" "ul_observed_sequence l = 0"
        "lease_table leases = (lease_table (us_ui_lease u))(lease_key l \<mapsto> l)" by auto
      with ui_ok_store [OF ok this(1,3) _ ttl] show ?thesis by auto
    next
      case False
      with t r obtain old where "Ui_Lease.authority_ok pid n (leases, next_id)" "lease_table (us_ui_lease u) (lease_key l) = Some old"
        "ul_observed_sequence l = ul_observed_sequence old"
        "lease_table leases = (lease_table (us_ui_lease u))(lease_key l \<mapsto> l)" by auto
      moreover from this(2) have "ul_observed_sequence old \<le> core_sequence (us_core u)" using ok by (auto simp: ui_pending_ok_def)
      ultimately show ?thesis using ui_ok_store [OF ok _ _ _ ttl] by (intro exI [of _ n]) auto
    qed
  qed
qed

section \<open>The handlers keep it\<close>

lemma lease_attach_with_ok:
  assumes ok: "ui_pending_ok pid n away u" and n: "n < 2 ^ 64" and pid: "env_process_id env = pid"
    and c: "lease_attach_with env client_id client_pid build u = Some (r, u')"
  shows "(\<exists>m \<le> Suc n. ui_pending_ok pid m away u') \<and> ui_grows u u'"
proof -
  obtain res leases next_id where
    a: "attach pid (us_ui_lease u, us_next_lease_id u) client_id client_pid build (env_now env) = (res, leases, next_id)"
    by (metis prod_cases3)
  let ?v = "u\<lparr>us_ui_lease := leases, us_next_lease_id := next_id\<rparr>"
  obtain m where m: "m \<le> Suc n" "ui_pending_ok pid m away ?v" using attach_ok(1) [OF ok n a] by blast
  have grows: "ui_grows u ?v" by (simp add: ui_grows_def)
  have "u' = ?v \<or> (\<exists>lease w. commit_ui_lease_event env lease ''attached'' ''requested'' ?v = Some w
      \<and> commit_window_visibility True False ''lease-attached'' w = Some u')"
    using c a by (auto simp: lease_attach_with_def pid Let_def Option.bind_eq_Some_conv split: sum.splits prod.splits if_splits)
  then show ?thesis
  proof (elim disjE exE conjE)
    assume "u' = ?v"
    with m grows show ?thesis by blast
  next
    fix lease w
    assume w: "commit_ui_lease_event env lease ''attached'' ''requested'' ?v = Some w"
      "commit_window_visibility True False ''lease-attached'' w = Some u'"
    from commit_event_ok(1) [OF m(2) w(1)] have w': "ui_pending_ok pid m away w" "ui_grows ?v w" by simp_all
    from commit_event_ok(2) [OF w'(1) w(2)] m(1) w'(2) grows show ?thesis by (blast intro: ui_grows_trans)
  qed
qed

lemma lease_attach_command_ok:
  assumes "ui_pending_ok pid n away u" and "n < 2 ^ 64" and "env_process_id env = pid"
    and c: "lease_attach_command env args u = Some (r, u')"
  shows "(\<exists>m \<le> Suc n. ui_pending_ok pid m away u') \<and> ui_grows u u'"
proof -
  have "u' = u \<or> (\<exists>client_id client_pid build. lease_attach_with env client_id client_pid build u = Some (r, u'))"
    using c by (simp add: lease_attach_command_def Let_def split: option.splits if_splits sum.splits) blast+
  then show ?thesis using assms(1) lease_attach_with_ok [OF assms(1-3)] by (auto intro: exI [of _ n])
qed

lemma lease_heartbeat_command_ok:
  assumes ok: "ui_pending_ok pid n away u" and c: "lease_heartbeat_command env args u = (r, u')"
  shows "ui_pending_ok pid n away u' \<and> ui_grows u u'"
proof -
  have "u' = u \<or> (\<exists>lid p res leases. heartbeat (us_ui_lease u) lid p (env_now env) = (res, leases) \<and> u' = u\<lparr>us_ui_lease := leases\<rparr>)"
    using c by (simp add: lease_heartbeat_command_def Let_def split: option.splits prod.splits sum.splits) blast+
  then show ?thesis using ok heartbeat_ok(1) [OF ok] by (auto simp: ui_grows_def)
qed

lemma lease_acknowledge_command_ok:
  assumes ok: "ui_pending_ok pid n away u" and c: "lease_acknowledge_command env args u = (r, u')"
  shows "ui_pending_ok pid n away u' \<and> ui_grows u u'"
proof -
  have "u' = u \<or> (\<exists>lid p sequence res leases. acknowledge (us_ui_lease u) lid p sequence (core_sequence (us_core u)) (env_now env)
      = (res, leases) \<and> u' = u\<lparr>us_ui_lease := leases\<rparr>)"
    using c by (simp add: lease_acknowledge_command_def journal_position_def Let_def split: option.splits prod.splits sum.splits) blast+
  then show ?thesis using ok acknowledge_ok(1) [OF ok] by (auto simp: ui_grows_def)
qed

lemma lease_detach_with_ok:
  assumes ok: "ui_pending_ok pid n away u" and c: "lease_detach_with env lid p u = Some (r, u')"
  shows "ui_pending_ok pid n away u' \<and> ui_grows u u'"
proof -
  obtain res leases where d: "detach (us_ui_lease u) lid p = (res, leases)" by (cases "detach (us_ui_lease u) lid p")
  let ?v = "u\<lparr>us_ui_lease := leases\<rparr>"
  show ?thesis
  proof (cases res)
    case (Inl e)
    with c d ok detach_ok(3) [OF ok d Inl] show ?thesis by (simp add: lease_detach_with_def)
  next
    case (Inr lease)
    let ?c = "clear_ui_client_snapshot_for (ul_lease_id lease) (ul_client_pid lease) ?v"
    from c d Inr obtain w where w: "commit_ui_lease_event env lease ''detached'' ''requested'' ?c = Some w"
      and end_: "u' = w \<or> commit_window_visibility False True ''detach'' w = Some u'"
      by (auto simp: lease_detach_with_def Option.bind_eq_Some_conv split: if_splits)
    from detach_ok(1,2) [OF ok d] Inr have "ui_pending_ok pid n (insert (ul_lease_id lease, ul_client_pid lease) away) ?v" by simp
    note cleared = clear_snapshot_ok [OF this]
    have w': "ui_pending_ok pid n away w" "ui_grows u w"
      using commit_event_ok(1) [OF conjunct1 [OF cleared] w] cleared ui_grows_trans [of ?v ?c w] by (simp_all add: ui_grows_def)
    from end_ commit_event_ok(2) [OF w'(1)] w' show ?thesis by (blast intro: ui_grows_trans)
  qed
qed

lemma lease_detach_command_ok:
  assumes ok: "ui_pending_ok pid n away u" and c: "lease_detach_command env args u = Some (r, u')"
  shows "ui_pending_ok pid n away u' \<and> ui_grows u u'"
  using c ok lease_detach_with_ok [OF ok] by (auto simp: lease_detach_command_def split: option.splits)

lemma execute_ui_lease_command_ok:
  assumes ok: "ui_pending_ok pid n away u" and n: "n < 2 ^ 64" and pid: "env_process_id env = pid"
    and c: "execute_ui_lease_command env args u = Some (r, u')"
  shows "(\<exists>m \<le> Suc n. ui_pending_ok pid m away u') \<and> ui_grows u u'"
proof -
  from c obtain v where v: "reap_stale_ui_lease env u = Some v"
    and act: "lease_attach_command env args v = Some (r, u') \<or> lease_heartbeat_command env args v = (r, u')
      \<or> lease_detach_command env args v = Some (r, u') \<or> lease_acknowledge_command env args v = (r, u') \<or> u' = v"
    by (auto simp: execute_ui_lease_command_def Let_def Option.bind_eq_Some_conv split: if_splits)
  from reap_stale_ui_lease_ok [OF ok v] have v': "ui_pending_ok pid n away v" "ui_grows u v" by simp_all
  have "(\<exists>m \<le> Suc n. ui_pending_ok pid m away u') \<and> ui_grows v u'"
    using act v'(1) lease_attach_command_ok [OF v'(1) n pid] lease_heartbeat_command_ok [OF v'(1)] lease_detach_command_ok [OF v'(1)]
      lease_acknowledge_command_ok [OF v'(1)] by (meson le_SucI order_refl ui_grows_refl)
  with v'(2) show ?thesis by (blast intro: ui_grows_trans)
qed

lemma execute_ui_client_state_command_ok:
  assumes ok: "ui_pending_ok pid n away u" and c: "execute_ui_client_state_command env args u = (r, u')"
  shows "ui_pending_ok pid n away u' \<and> ui_grows u u'"
proof -
  have "u' = u \<or> (\<exists>lid p text l. verify_owner (us_ui_lease u) lid p = Ok l
      \<and> u' = u\<lparr>us_snapshot := Some \<lparr>sr_lease_id = lid, sr_client_pid = p, sr_json = text\<rparr>\<rparr>)"
    using c by (simp add: execute_ui_client_state_command_def Let_def split: option.splits if_splits sum.splits) blast+
  then show ?thesis
  proof (elim disjE exE conjE)
    assume "u' = u"
    with ok show ?thesis by simp
  next
    fix lid p snapshot_text and l :: UiLeaseRecord
    assume "verify_owner (us_ui_lease u) lid p = Ok l"
      and u': "u' = u\<lparr>us_snapshot := Some \<lparr>sr_lease_id = lid, sr_client_pid = p, sr_json = snapshot_text\<rparr>\<rparr>"
    then have "lease_table (us_ui_lease u) (lid, p) \<noteq> None"
      by (auto simp: verify_owner_def lease_table_def lookup_by_def and_then_Ok_iff ok_or_Ok_iff)
    with ok show ?thesis by (simp add: u' ui_pending_ok_def ui_grows_def)
  qed
qed

lemma select_grows:
  assumes "select_tab_at k s = Some (r, s')"
  shows "core_grows s s' \<and> sv_tabs s' = sv_tabs s"
proof (cases "length (sv_tabs s) \<le> k")
  case True
  with assms show ?thesis by (auto simp: select_tab_at_def)
next
  case False
  let ?i = "tb_id (sv_tabs s ! k)"
  from assms False have c: "server_commit TabSelected (Some ?i) (JObj []) (s\<lparr>sv_active := Some ?i\<rparr>) = Some s'"
    by (auto simp: select_tab_at_def Let_def)
  have "?i \<in> tb_id ` set (sv_tabs s)" using False by simp
  with server_ok_active have "core_grows s (s\<lparr>sv_active := Some ?i\<rparr>)" by (auto simp: core_grows_def)
  with core_grows_trans [OF _ server_commit_grows [OF c]] server_commit_fields(1) [OF c] show ?thesis by simp
qed

lemma set_tab_ok:
  assumes ok: "ui_pending_ok pid n away u" and node: "tab_node tab = tab_node (sv_tabs (us_core u) ! k)"
  shows "ui_pending_ok pid n away (set_tab k tab u) \<and> ui_grows u (set_tab k tab u)"
proof -
  let ?s = "(us_core u)\<lparr>sv_tabs := (sv_tabs (us_core u))[k := tab]\<rparr>"
  have "server_ok ?s \<longleftrightarrow> server_ok (us_core u)" by (intro server_ok_tabs tree_nodes_update node)
  then have "core_grows (us_core u) ?s" by (simp add: core_grows_def)
  with ui_ok_core [OF ok this] show ?thesis by (simp add: set_tab_def ui_grows_def)
qed

lemma tab_node_resize: "tab_resize set_size native_error rows_cols tab = (r, tab') \<Longrightarrow> tab_node tab' = tab_node tab"
  by (auto simp: tab_resize_def split: if_splits option.splits)

lemma set_tab_commit_ok:
  assumes ok: "ui_pending_ok pid n away u" and node: "tab_node tab = tab_node (sv_tabs (us_core u) ! k)"
    and c: "ui_commit kind tab_id payload (set_tab k tab u) = Some u'"
  shows "ui_pending_ok pid n away u' \<and> ui_grows u u'"
proof -
  note t = set_tab_ok [OF ok node]
  from ui_commit_ok [OF c conjunct1 [OF t]] t show ?thesis by (blast intro: ui_grows_trans)
qed

lemma perform_interaction_ok:
  assumes ok: "ui_pending_ok pid n away u" and p: "perform_interaction set_size written native_error k i u = Some (r, u')"
  shows "ui_pending_ok pid n away u' \<and> ui_grows u u'"
proof (cases i)
  case (UiSelect l c t)
  with p obtain x s where s: "select_tab_at k (us_core u) = Some (x, s)" and u': "u' = u\<lparr>us_core := s\<rparr>" by auto
  note g = conjunct1 [OF select_grows [OF s]]
  from ui_ok_core [OF ok g] g show ?thesis by (simp add: u' ui_grows_def)
next
  case (UiInput l c t b)
  with p ok set_tab_ok [OF ok] show ?thesis by (auto split: if_splits prod.splits bool.splits dest!: tab_node_sendD)
next
  case (UiPaste l c t b tb ch br)
  with p ok set_tab_ok [OF ok] set_tab_commit_ok [OF ok] show ?thesis
    by (auto split: if_splits prod.splits bool.splits dest!: tab_node_sendD)
next
  case (UiResize l c t rows columns)
  with p ok set_tab_ok [OF ok] set_tab_commit_ok [OF ok] show ?thesis
    by (auto split: prod.splits sum.splits dest!: tab_node_resize)
qed

lemma execute_ui_interaction_command_ok:
  assumes ok: "ui_pending_ok pid n away u"
    and c: "execute_ui_interaction_command env set_size written native_error args u = Some (r, u')"
  shows "ui_pending_ok pid n away u' \<and> ui_grows u u'"
proof (cases "parse_ui_interaction args")
  case (Inl e)
  with c ok show ?thesis by (simp add: execute_ui_interaction_command_def)
next
  case (Inr i)
  with c obtain v where v: "reap_stale_ui_lease env u = Some v"
    by (auto simp: execute_ui_interaction_command_def Option.bind_eq_Some_conv)
  from reap_stale_ui_lease_ok [OF ok v] have v': "ui_pending_ok pid n away v" "ui_grows u v" by simp_all
  obtain res leases where h: "heartbeat (us_ui_lease v) (fst (lease_identity i)) (snd (lease_identity i)) (env_now env) = (res, leases)"
    by (cases "heartbeat (us_ui_lease v) (fst (lease_identity i)) (snd (lease_identity i)) (env_now env)")
  let ?w = "v\<lparr>us_ui_lease := leases\<rparr>"
  have w: "ui_pending_ok pid n away ?w" "ui_grows u ?w" using heartbeat_ok(1) [OF v'(1) h] v'(2) by (simp_all add: ui_grows_def)
  have "u' = ?w \<or> (\<exists>k x. perform_interaction set_size written native_error k i ?w = Some (x, u'))"
    using c by (cases res; cases "position (\<lambda>tab. tb_id tab = interaction_tab_id i) (sv_tabs (us_core v))")
      (auto simp: execute_ui_interaction_command_def Inr v h Let_def)
  then show ?thesis
    using w perform_interaction_ok [OF w(1)] by (blast intro: ui_grows_trans)
qed

section \<open>Runs\<close>

text \<open>
  What the handlers rely on: a command of the table works on the core, the named buffers and the
  shutdown request, and keeps the core's invariant.
\<close>

definition table_effect :: "'p UiServerState \<Rightarrow> 'p UiServerState \<Rightarrow> bool" where
  "table_effect u u' \<longleftrightarrow>
     us_ui_lease u' = us_ui_lease u \<and> us_next_lease_id u' = us_next_lease_id u \<and> us_snapshot u' = us_snapshot u
     \<and> us_commands u' = us_commands u \<and> us_shutdown_after_ui_result u' = us_shutdown_after_ui_result u
     \<and> sv_control_authority (us_core u') = sv_control_authority (us_core u)
     \<and> (server_ok (us_core u) \<longrightarrow> length (sv_tabs (us_core u)) < 2 ^ 32 \<longrightarrow> sv_next_id (us_core u) \<noteq> - 1 \<longrightarrow>
          server_ok (us_core u') \<and> step_bound (us_core u) (us_core u'))
     \<and> core_sequence (us_core u) \<le> core_sequence (us_core u')"

definition shared_ok :: "'p shared_table \<Rightarrow> bool" where
  "shared_ok shared \<longleftrightarrow> (\<forall>args u r u'. shared args u = Some (r, u') \<longrightarrow> table_effect u u')"

datatype 'p ui_op =
    CoreOp "'p server_op"
  | LeaseCommand UiEnv "string list"
  | StateCommand UiEnv "string list"
  | Interaction UiEnv "'p \<Rightarrow> u16 \<times> u16 \<Rightarrow> 'p" "string option" "string option" "string list"
  | RelayCommand UiEnv "'p shared_table" "string list"
  | ClientCommand UiEnv "string list \<Rightarrow> string + unit"
      "'p shared_table" "string list"

fun ui_step ::
  "('p \<Rightarrow> bytes \<Rightarrow> 'p) \<Rightarrow> ('p \<Rightarrow> string option \<times> 'p) \<Rightarrow> 'p UiServerState \<Rightarrow> 'p ui_op \<Rightarrow> 'p UiServerState option" where
  "ui_step process take_cwd u (CoreOp op) =
     map_option (\<lambda>s. u\<lparr>us_core := s\<rparr>) (server_step process take_cwd (us_core u) op)"
| "ui_step process take_cwd u (LeaseCommand env args) = map_option snd (execute_ui_lease_command env args u)"
| "ui_step process take_cwd u (StateCommand env args) = Some (snd (execute_ui_client_state_command env args u))"
| "ui_step process take_cwd u (Interaction env set_size written native_error args) =
     map_option snd (execute_ui_interaction_command env set_size written native_error args u)"
| "ui_step process take_cwd u (RelayCommand env shared args) = map_option snd (enqueue_ui_client_command env shared args u)"
| "ui_step process take_cwd u (ClientCommand env validate_operation shared args) =
     map_option snd (execute_ui_client_command env validate_operation shared args u)"

text \<open>
  All operations run in the server's process; the command table keeps the core's invariant.  A completion
  that detaches its client stores the client's snapshot after the lease is gone, so the owner may then be
  any \<open>away\<close>.
\<close>

fun ui_op_ok :: "u32 \<Rightarrow> (string \<times> u32) set \<Rightarrow> 'p ui_op \<Rightarrow> bool" where
  "ui_op_ok pid away (LeaseCommand env _) \<longleftrightarrow> env_process_id env = pid"
| "ui_op_ok pid away (RelayCommand env shared _) \<longleftrightarrow> shared_ok shared"
| "ui_op_ok pid away (ClientCommand env _ shared args) \<longleftrightarrow> shared_ok shared \<and> (has_option args ''--detach'' \<longrightarrow> away = UNIV)"
| "ui_op_ok pid away _ \<longleftrightarrow> True"

definition ui_bound :: "'p UiServerState \<Rightarrow> 'p UiServerState \<Rightarrow> bool" where
  "ui_bound u u' \<longleftrightarrow> step_bound (us_core u) (us_core u')
     \<and> unat (uq_next_id (us_commands u')) \<le> Suc (unat (uq_next_id (us_commands u)))"

text \<open>Commands also leave the control authority alone: only requests and polls reach it.\<close>

definition ui_keeps :: "'p UiServerState \<Rightarrow> 'p UiServerState \<Rightarrow> bool" where
  "ui_keeps u u' \<longleftrightarrow> ui_bound u u' \<and> sv_control_authority (us_core u') = sv_control_authority (us_core u)"

lemma ui_grows_keeps: "ui_grows u u' \<Longrightarrow> ui_keeps u u'"
  by (simp add: ui_grows_def ui_keeps_def ui_bound_def core_grows_def step_bound_def)

lemma ui_grows_bound: "ui_grows u u' \<Longrightarrow> ui_bound u u'"
  by (auto dest: ui_grows_keeps simp: ui_keeps_def)

lemma journal_extends_run: "\<lbrakk> journal_extends a b; journal_extends b c \<rbrakk> \<Longrightarrow> journal_extends a c"
  unfolding journal_extends_def using journal_run_append by metis

lemma quiet_extends: "quiet s s' \<Longrightarrow> journal_extends (sv_event_journal s) (sv_event_journal s')"
  by (auto simp: quiet_def journal_extends_def)

lemma poll_extends:
  assumes "poll_terminals process take_cwd inputs s = Some s'"
  shows "journal_extends (sv_event_journal s) (sv_event_journal s')"
proof -
  let ?poll = "\<lambda>tab. poll_tab process take_cwd (inputs (tb_id tab)) tab"
  let ?rs = "map tab_request (concat (map (\<lambda>(_, events, _). events) (map ?poll (sv_tabs s))))"
  let ?tabs = "map (fst \<circ> ?poll) (sv_tabs s)"
  from assms obtain journal completed where j: "journal_run (sv_event_journal s) ?rs = Some journal"
    and run: "run_steps finish_completed (s\<lparr>sv_tabs := ?tabs, sv_event_journal := journal\<rparr>) completed = Some s'"
    by (auto simp: poll_terminals_def Let_def Option.bind_eq_Some_conv)
  have "journal_extends (sv_event_journal s) journal" using j by (auto simp: journal_extends_def)
  moreover have "journal_extends journal (sv_event_journal s')" using quiet_extends [OF quiet_finish_all [OF run]] by simp
  ultimately show ?thesis by (rule journal_extends_run)
qed

lemma server_step_extends:
  assumes step: "server_step process take_cwd s op = Some s'"
  shows "journal_extends (sv_event_journal s) (sv_event_journal s')"
proof (cases op)
  case (CreateTab native title command_line env select parent_id)
  with step obtain r where "create_tab native title command_line env select parent_id s = Some (r, s')" by auto
  from create_tab_quiet [OF this] obtain t where "quiet t s'" "sv_event_journal t = sv_event_journal s" by metis
  with quiet_extends [of t s'] show ?thesis by simp
next
  case (PollTerminals inputs)
  with step poll_extends show ?thesis by auto
next
  case (SendComposer written now k)
  with step show ?thesis by (auto intro!: quiet_extends dest: quiet_send_composer split: if_splits)
qed (use step in \<open>auto intro!: quiet_extends dest: quiet_select quiet_set_parent quiet_toggle quiet_close quiet_prepare_cwd
    quiet_send_cwd\<close>)

lemma core_op_ok:
  assumes ok: "ui_pending_ok pid n away u" and s: "server_ok s" "step_bound (us_core u) s" "core_sequence (us_core u) \<le> core_sequence s"
  shows "ui_pending_ok pid n away (u\<lparr>us_core := s\<rparr>) \<and> ui_bound u (u\<lparr>us_core := s\<rparr>)"
  using ok s unfolding ui_pending_ok_def ui_bound_def by (fastforce intro: order_trans)

lemma ui_ok_commands: "\<lbrakk> ui_pending_ok pid n away u; queue_ok q \<rbrakk> \<Longrightarrow> ui_pending_ok pid n away (u\<lparr>us_commands := q\<rparr>)"
  by (simp add: ui_pending_ok_def)

definition queue_follows :: "UiClientCommandQueue \<Rightarrow> UiClientCommandQueue \<Rightarrow> bool" where
  "queue_follows q q' \<longleftrightarrow> queue_ok q' \<and> unat (uq_next_id q') \<le> Suc (unat (uq_next_id q))"

lemma enqueue_follows:
  assumes "queue_ok q" and "uq_next_id q \<noteq> - 1" and "enqueue args q = (r, q')"
  shows "queue_follows q q'"
  using enqueue_keeps_ok [OF assms(1,2), of args] assms(3) saturating_succ [OF assms(2)]
  by (cases rule: enqueue_cases [of args q]) (auto simp: queue_follows_def)

lemma discard_follows: "queue_follows q q' \<Longrightarrow> queue_follows q (snd (discard_pending i q'))"
  using discard_pending_keeps_ok [of q' i] by (auto simp: queue_follows_def discard_pending_def split: option.splits)

lemma preapply_follows: "queue_follows q q' \<Longrightarrow> queue_follows q (snd (record_preapplied to_string i response q'))"
  using record_preapplied_keeps_ok [of q' to_string i response]
  by (auto simp: queue_follows_def record_preapplied_def split: sum.splits)

text \<open>The relay changes the core only through the command table, and the queue by its own operations.\<close>

lemma table_effect_ok:
  assumes e: "table_effect u u'" and ok: "ui_pending_ok pid n away u"
    and room: "length (sv_tabs (us_core u)) < 2 ^ 32" "sv_next_id (us_core u) \<noteq> - 1"
  shows "ui_pending_ok pid n away u' \<and> ui_keeps u u'"
proof -
  have "server_ok (us_core u)" using ok by (simp add: ui_pending_ok_def)
  with e room have "server_ok (us_core u')" "step_bound (us_core u) (us_core u')" "core_sequence (us_core u) \<le> core_sequence (us_core u')"
    by (simp_all add: table_effect_def)
  from core_op_ok [OF ok this] e show ?thesis by (simp add: ui_pending_ok_def ui_keeps_def ui_bound_def table_effect_def)
qed

lemma relay_preapplied_effect:
  "\<exists>q'. snd (relay_preapplied env i (answer, u)) = u\<lparr>us_commands := q'\<rparr>
     \<and> (\<forall>q. queue_follows q (us_commands u) \<longrightarrow> queue_follows q q')"
proof (cases "\<exists>response. answer = Some response \<and> ir_ok response")
  case False
  then have "snd (relay_preapplied env i (answer, u)) = relay_discard i u"
    by (cases answer) (auto simp: relay_preapplied_def)
  then show ?thesis by (auto simp: relay_discard_def intro: discard_follows)
next
  case True
  then obtain response where response: "answer = Some response" "ir_ok response" by blast
  obtain res q2 where p: "record_preapplied (env_response_to_string env) i response (us_commands u) = (res, q2)"
    by (cases "record_preapplied (env_response_to_string env) i response (us_commands u)")
  have f: "queue_follows q q2" if "queue_follows q (us_commands u)" for q
    using preapply_follows [OF that, of "env_response_to_string env" i response] by (simp add: p)
  show ?thesis
  proof (cases res)
    case (Inl e)
    with response p f show ?thesis by (auto simp: relay_preapplied_def relay_discard_def intro: discard_follows)
  next
    case (Inr x)
    with response p f show ?thesis by (auto simp: relay_preapplied_def relay_queued_def)
  qed
qed

lemma relay_effect:
  assumes c: "enqueue_ui_client_command env shared args u = Some (r, u')" and v: "reap_stale_ui_lease env u = Some v"
    and q: "queue_ok (us_commands v)" "uq_next_id (us_commands v) \<noteq> - 1"
  shows "\<exists>q1 w q. (w = v\<lparr>us_commands := q1\<rparr> \<or> (\<exists>answer. shared args (v\<lparr>us_commands := q1\<rparr>) = Some (answer, w)))
    \<and> queue_follows (us_commands v) q1 \<and> u' = w\<lparr>us_commands := q\<rparr> \<and> (us_commands w = q1 \<longrightarrow> queue_follows (us_commands v) q)"
proof -
  have same: "queue_follows (us_commands v) (us_commands v)" using q by (simp add: queue_follows_def)
  obtain res q1 where e: "enqueue args (us_commands v) = (res, q1)" by (cases "enqueue args (us_commands v)")
  note f = enqueue_follows [OF q e]
  let ?u = "v\<lparr>us_commands := q1\<rparr>"
  consider (none) "u' = v" | (kept) "u' = ?u" | (ran) i answer w where "shared args ?u = Some (answer, w)" "relay_preapplied env i (answer, w) = (r, u')"
  proof (cases res)
    case (Inl x)
    with c v e that(1,2) show ?thesis by (auto simp: enqueue_ui_client_command_def split: if_splits)
  next
    case (Inr i)
    with c v e that show ?thesis
      by (auto simp: enqueue_ui_client_command_def relay_queued_def Let_def split: if_splits)
  qed
  then show ?thesis
  proof cases
    case none
    with same show ?thesis by (intro exI [of _ "us_commands v"] exI [of _ v]) simp
  next
    case kept
    with f show ?thesis by (intro exI [of _ q1] exI [of _ ?u]) simp
  next
    case ran
    obtain q' where "snd (relay_preapplied env i (answer, w)) = w\<lparr>us_commands := q'\<rparr>"
      "\<forall>q. queue_follows q (us_commands w) \<longrightarrow> queue_follows q q'" using relay_preapplied_effect [of env i answer w] by blast
    with ran f show ?thesis by (intro exI [of _ q1] exI [of _ w] exI [of _ q']) auto
  qed
qed

lemma relay_ok:
  assumes ok: "ui_pending_ok pid n away u" and sh: "shared_ok shared" and c: "enqueue_ui_client_command env shared args u = Some (r, u')"
    and room: "length (sv_tabs (us_core u)) < 2 ^ 32" "sv_next_id (us_core u) \<noteq> - 1" "uq_next_id (us_commands u) \<noteq> - 1"
  shows "ui_pending_ok pid n away u' \<and> ui_keeps u u'"
proof -
  from c obtain v where v: "reap_stale_ui_lease env u = Some v" by (auto simp: enqueue_ui_client_command_def Option.bind_eq_Some_conv)
  from reap_stale_ui_lease_ok [OF ok v] have v': "ui_pending_ok pid n away v" and g: "ui_grows u v" by simp_all
  have room': "length (sv_tabs (us_core v)) < 2 ^ 32" "sv_next_id (us_core v) \<noteq> - 1" "uq_next_id (us_commands v) \<noteq> - 1"
    using g room by (simp_all add: ui_grows_def core_grows_def)
  have q: "queue_ok (us_commands v)" using v' by (simp add: ui_pending_ok_def)
  from relay_effect [OF c v q room'(3)] obtain q1 w q' where
    w: "w = v\<lparr>us_commands := q1\<rparr> \<or> (\<exists>answer. shared args (v\<lparr>us_commands := q1\<rparr>) = Some (answer, w))"
    and f1: "queue_follows (us_commands v) q1" and u': "u' = w\<lparr>us_commands := q'\<rparr>"
    and f: "us_commands w = q1 \<longrightarrow> queue_follows (us_commands v) q'" by blast
  let ?u = "v\<lparr>us_commands := q1\<rparr>"
  have start: "ui_pending_ok pid n away ?u" using v' f1 ui_ok_commands unfolding queue_follows_def by blast
  have "us_commands w = q1 \<and> ui_pending_ok pid n away w \<and> step_bound (us_core v) (us_core w)
      \<and> sv_control_authority (us_core w) = sv_control_authority (us_core v)"
  proof (cases "w = ?u")
    case True
    with start show ?thesis by simp
  next
    case False
    with w sh have e: "table_effect ?u w" unfolding shared_ok_def by blast
    with table_effect_ok [OF e start] room'(1,2) show ?thesis by (simp add: table_effect_def ui_keeps_def ui_bound_def)
  qed
  then have w': "ui_pending_ok pid n away w" and b: "step_bound (us_core v) (us_core w)" and f': "queue_follows (us_commands v) q'"
    and a: "sv_control_authority (us_core w) = sv_control_authority (us_core v)"
    using f by blast+
  have "ui_pending_ok pid n away u'" using w' f' ui_ok_commands unfolding u' queue_follows_def by fastforce
  moreover have "ui_keeps u u'"
    using a b f' g by (auto simp: u' ui_keeps_def ui_bound_def ui_grows_def core_grows_def step_bound_def queue_follows_def)
  ultimately show ?thesis ..
qed

subsection \<open>Relayed commands\<close>

lemma ui_ok_flags [simp]:
  "ui_pending_ok pid n away (u\<lparr>us_shutdown_after_ui_result := a\<rparr>) = ui_pending_ok pid n away u"
  "ui_pending_ok pid n away (u\<lparr>us_shutdown_requested := b\<rparr>) = ui_pending_ok pid n away u"
  "ui_grows u (v\<lparr>us_shutdown_after_ui_result := a\<rparr>) = ui_grows u v"
  "ui_grows u (v\<lparr>us_shutdown_requested := b\<rparr>) = ui_grows u v"
  by (simp_all add: ui_pending_ok_def ui_grows_def)

lemma queue_change_ok:
  assumes ok: "ui_pending_ok pid n away u" and q: "queue_ok q" "uq_next_id q = uq_next_id (us_commands u)"
  shows "ui_pending_ok pid n away (u\<lparr>us_commands := q\<rparr>) \<and> ui_grows u (u\<lparr>us_commands := q\<rparr>)"
  using ui_ok_commands [OF ok q(1)] q(2) by (simp add: ui_grows_def)

lemma ui_ok_queue: "ui_pending_ok pid n away u \<Longrightarrow> queue_ok (us_commands u)"
  by (simp add: ui_pending_ok_def)

lemma queue_next_kept:
  "uq_next_id (snd (queue_poll q)) = uq_next_id q" "uq_next_id (snd (queue_complete from_str i j q)) = uq_next_id q"
  "uq_next_id (snd (replace_completed to_string i r q)) = uq_next_id q"
  by (auto simp: queue_poll_def queue_complete_def replace_completed_def Let_def case_prod_beta
      split: list.split sum.split option.split)

lemma store_answer_ok:
  assumes ok: "ui_pending_ok pid n away u" and r: "store_answer env i response u = (x, u')"
  shows "ui_pending_ok pid n away u' \<and> ui_grows u u' \<and> us_ui_lease u' = us_ui_lease u"
proof -
  have u': "u' = u\<lparr>us_commands := snd (replace_completed (env_response_to_string env) i response (us_commands u))\<rparr>"
    using r by (auto simp: store_answer_def split: prod.splits sum.splits)
  show ?thesis
    using queue_change_ok [OF ok replace_completed_keeps_ok [OF ui_ok_queue [OF ok]] queue_next_kept(3)] by (simp add: u')
qed

lemma commit_client_event_ok:
  assumes ok: "ui_pending_ok pid n away u" and c: "commit_client_ui_action_event env cmd response u = Some u'"
  shows "ui_pending_ok pid n away u' \<and> ui_grows u u' \<and> us_ui_lease u' = us_ui_lease u"
proof -
  have "u' = u \<or> (\<exists>kind payload. ui_commit kind None payload u = Some u')"
    using c by (auto simp: commit_client_ui_action_event_def Let_def split: list.splits sum.splits if_splits)
  with ok ui_commit_ok [OF _ ok] show ?thesis by auto
qed

lemma complete_refresh_ok:
  assumes ok: "ui_pending_ok pid n away u" and c: "complete_refresh env i response u = Some (x, u')"
  shows "ui_pending_ok pid n away u' \<and> ui_grows u u' \<and> us_ui_lease u' = us_ui_lease u"
proof -
  have "u' = u \<or> (\<exists>r. store_answer env i r u = (x, u'))"
    using c by (auto simp: complete_refresh_def split: option.splits)
  with ok store_answer_ok [OF ok] show ?thesis by auto
qed

lemma complete_detach_ok:
  assumes ok: "ui_pending_ok pid n away u" and c: "complete_detach env lid p i response u = Some (x, u')"
  shows "ui_pending_ok pid n away u' \<and> ui_grows u u'"
proof -
  obtain res leases where d: "detach (us_ui_lease u) lid p = (res, leases)" by (cases "detach (us_ui_lease u) lid p")
  let ?v = "u\<lparr>us_ui_lease := leases\<rparr>"
  show ?thesis
  proof (cases res)
    case (Inl e)
    with c d ok detach_ok(3) [OF ok d Inl] show ?thesis by (simp add: complete_detach_def)
  next
    case (Inr lease)
    then have done_: "lease_detach_with env lid p u = Some (r, w)" if
      "commit_ui_lease_event env lease ''detached'' ''requested''
         (clear_ui_client_snapshot_for (ul_lease_id lease) (ul_client_pid lease) ?v) = Some w0"
      "(if la_leases (us_ui_lease w0) = [] then commit_window_visibility False True ''detach'' w0 else Some w0) = Some w"
      "r = IpcResponse_success (env_to_string env (detached_json env lease w))" for w0 w r
      using that d by (simp add: lease_detach_with_def)
    from c d Inr obtain w0 w where w: "commit_ui_lease_event env lease ''detached'' ''requested''
         (clear_ui_client_snapshot_for (ul_lease_id lease) (ul_client_pid lease) ?v) = Some w0"
      "(if la_leases (us_ui_lease w0) = [] then commit_window_visibility False True ''detach'' w0 else Some w0) = Some w"
      and u': "\<exists>r. store_answer env i r w = (x, u')"
      by (auto simp: complete_detach_def Option.bind_eq_Some_conv)
    from lease_detach_with_ok [OF ok done_ [OF w refl]] have w': "ui_pending_ok pid n away w" "ui_grows u w" by simp_all
    from u' store_answer_ok [OF w'(1)] w'(2) show ?thesis by (blast intro: ui_grows_trans)
  qed
qed

lemma complete_publish_ok:
  assumes ok: "ui_pending_ok pid n away u" and owner: "lease_table (us_ui_lease u) (lid, p) \<noteq> None \<or> away = UNIV"
  shows "ui_pending_ok pid n away (complete_publish env lid p response u) \<and> ui_grows u (complete_publish env lid p response u)"
  using ok owner by (auto simp: complete_publish_def Let_def ui_pending_ok_def ui_grows_def split: sum.splits)

lemma complete_finish_ok:
  assumes ok: "ui_pending_ok pid n away u" and owner: "lease_table (us_ui_lease u) (lid, p) \<noteq> None \<or> away = UNIV"
    and c: "complete_finish env args lid p i (x, u) = (r, u')"
  shows "ui_pending_ok pid n away u' \<and> ui_grows u u'"
proof (cases x)
  case (Inl e)
  with c ok show ?thesis by (simp add: complete_finish_def)
next
  case (Inr response)
  let ?v = "if has_option args ''--shutdown-after-result'' then u\<lparr>us_shutdown_after_ui_result := Some i\<rparr> else u"
  have v: "ui_pending_ok pid n away ?v" "ui_grows u ?v" "us_ui_lease ?v = us_ui_lease u" using ok by simp_all
  from c Inr have "u' = complete_publish env lid p response ?v" by (auto simp: complete_finish_def Let_def)
  with complete_publish_ok [OF v(1), of lid p env response] owner v(2,3) show ?thesis by (auto intro: ui_grows_trans)
qed

lemma ui_complete_command_ok:
  assumes ok: "ui_pending_ok pid n away u" and owner: "lease_table (us_ui_lease u) (lid, p) \<noteq> None"
    and detach: "has_option args ''--detach'' \<Longrightarrow> away = UNIV"
    and c: "ui_complete_command env args lid p u = Some (r, u')"
  shows "ui_pending_ok pid n away u' \<and> ui_grows u u'"
proof (cases "option_value args ''--command-id''")
  case None
  with c ok show ?thesis by (simp add: ui_complete_command_def)
next
  case i: (Some i)
  show ?thesis
  proof (cases "option_value args ''--response-json''")
    case None
    with c ok i show ?thesis by (simp add: ui_complete_command_def)
  next
    case j: (Some j)
    let ?q = "queue_complete (env_response_from_str env) i j (us_commands u)"
    let ?u1 = "u\<lparr>us_commands := snd ?q\<rparr>"
    have u1: "ui_pending_ok pid n away ?u1" "ui_grows u ?u1" "us_ui_lease ?u1 = us_ui_lease u"
      using queue_change_ok [OF ok queue_complete_keeps_ok [OF ui_ok_queue [OF ok]] queue_next_kept(2)] by simp_all
    show ?thesis
    proof (cases "fst ?q")
      case (Inl e)
      then have "u' = ?u1" using c i j by (simp add: ui_complete_command_def Let_def case_prod_beta)
      with u1 show ?thesis by simp
    next
      case (Inr response)
      with c i j obtain u2 where ev: "u2 = ?u1 \<or> (\<exists>cmd. commit_client_ui_action_event env cmd response ?u1 = Some u2)"
        and rest: "Option.bind (complete_refresh env i response u2) (\<lambda>x. case x of
            (Inl refusal, u) \<Rightarrow> Some (refusal, u)
          | (Inr response, u) \<Rightarrow> map_option (complete_finish env args lid p i)
              (if has_option args ''--detach'' then complete_detach env lid p i response u else Some (Ok response, u))) = Some (r, u')"
        by (auto simp: ui_complete_command_def Let_def case_prod_beta Option.bind_eq_Some_conv split: option.splits if_splits)
      from ev u1 commit_client_event_ok [OF u1(1)] have u2: "ui_pending_ok pid n away u2" "ui_grows u u2" "us_ui_lease u2 = us_ui_lease u"
        by (auto intro: ui_grows_trans)
      from rest obtain x u3 where x: "complete_refresh env i response u2 = Some (x, u3)" by (auto simp: Option.bind_eq_Some_conv)
      from complete_refresh_ok [OF u2(1) x] u2 have u3: "ui_pending_ok pid n away u3" "ui_grows u u3" "us_ui_lease u3 = us_ui_lease u"
        by (auto intro: ui_grows_trans)
      show ?thesis
      proof (cases x)
        case (Inl refusal)
        with rest x u3 show ?thesis by simp
      next
        case (Inr answer)
        with rest x obtain y u4 where y: "(if has_option args ''--detach'' then complete_detach env lid p i answer u3 else Some (Ok answer, u3))
            = Some (y, u4)" and fin: "complete_finish env args lid p i (y, u4) = (r, u')" by auto
        have "ui_pending_ok pid n away u4" "ui_grows u u4" "lease_table (us_ui_lease u4) (lid, p) \<noteq> None \<or> away = UNIV"
          using y u3 complete_detach_ok [OF u3(1)] detach owner by (auto intro: ui_grows_trans split: if_splits)
        with complete_finish_ok [OF this(1,3) fin] show ?thesis by (auto intro: ui_grows_trans)
      qed
    qed
  qed
qed

lemma run_shared_ok:
  assumes ok: "ui_pending_ok pid n away u" and sh: "shared_ok shared"
    and room: "length (sv_tabs (us_core u)) < 2 ^ 32" "sv_next_id (us_core u) \<noteq> - 1"
    and run: "run_shared shared args otherwise u = Some (r, u')"
  shows "ui_pending_ok pid n away u' \<and> ui_keeps u u'"
proof -
  from run obtain answer where "shared args u = Some (answer, u')" by (auto simp: run_shared_def)
  with sh have "table_effect u u'" unfolding shared_ok_def by blast
  from table_effect_ok [OF this ok room] show ?thesis .
qed

lemma verify_owner_table: "verify_owner a lid p = Ok l \<Longrightarrow> lease_table a (lid, p) \<noteq> None"
  by (auto simp: verify_owner_def lease_table_def lookup_by_def and_then_Ok_iff ok_or_Ok_iff)

lemma ui_poll_command_ok:
  assumes ok: "ui_pending_ok pid n away u"
  shows "ui_pending_ok pid n away (snd (ui_poll_command env u)) \<and> ui_grows u (snd (ui_poll_command env u))"
  using queue_change_ok [OF ok queue_poll_keeps_ok [OF ui_ok_queue [OF ok]] queue_next_kept(1)]
  by (simp add: ui_poll_command_def case_prod_beta)

lemma ui_result_command_ok:
  assumes ok: "ui_pending_ok pid n away u"
  shows "ui_pending_ok pid n away (snd (ui_result_command env args u)) \<and> ui_grows u (snd (ui_result_command env args u))"
  using ok by (simp add: ui_result_command_def Let_def split: option.split UiClientCommandResult.split)

lemma ui_keeps_refl [simp]: "ui_keeps u u"
  by (simp add: ui_keeps_def ui_bound_def)

lemma ui_apply_command_ok:
  assumes ok: "ui_pending_ok pid n away u" and "shared_ok shared"
    and "length (sv_tabs (us_core u)) < 2 ^ 32" "sv_next_id (us_core u) \<noteq> - 1"
    and c: "ui_apply_command env shared args u = Some (r, u')"
  shows "ui_pending_ok pid n away u' \<and> ui_keeps u u'"
  using c ok run_shared_ok [OF assms(1-4)] by (auto simp: ui_apply_command_def split: option.splits sum.splits)

lemma ui_invoke_command_ok:
  assumes ok: "ui_pending_ok pid n away u" and "shared_ok shared"
    and "length (sv_tabs (us_core u)) < 2 ^ 32" "sv_next_id (us_core u) \<noteq> - 1"
    and c: "ui_invoke_command env validate_operation shared args u = Some (r, u')"
  shows "ui_pending_ok pid n away u' \<and> ui_keeps u u'"
  using c ok run_shared_ok [OF assms(1-4)]
  by (auto simp: ui_invoke_command_def Let_def split: option.splits sum.splits list.splits if_splits)

lemma execute_ui_client_command_ok:
  assumes ok: "ui_pending_ok pid n away u"
    and c: "execute_ui_client_command env validate_operation shared args u = Some (r, u')"
    and sh: "shared_ok shared" and detach: "has_option args ''--detach'' \<Longrightarrow> away = UNIV"
    and room: "length (sv_tabs (us_core u)) < 2 ^ 32" "sv_next_id (us_core u) \<noteq> - 1"
  shows "ui_pending_ok pid n away u' \<and> ui_keeps u u'"
proof -
  consider (same) "u' = u" | (result) "u' = snd (ui_result_command env args u)" | (poll) "u' = snd (ui_poll_command env u)"
    | (apply_) "ui_apply_command env shared args u = Some (r, u')"
    | (invoke) "ui_invoke_command env validate_operation shared args u = Some (r, u')"
    | (complete) lid p l where "verify_owner (us_ui_lease u) lid p = Ok l" "ui_complete_command env args lid p u = Some (r, u')"
    using c by (auto simp: execute_ui_client_command_def Let_def split: if_splits option.splits sum.splits)
  then show ?thesis
  proof cases
    case same
    with ok show ?thesis by simp
  next
    case result
    with ui_result_command_ok [OF ok] show ?thesis by (simp add: ui_grows_keeps)
  next
    case poll
    with ui_poll_command_ok [OF ok] show ?thesis by (simp add: ui_grows_keeps)
  next
    case apply_
    from ui_apply_command_ok [OF ok sh room this] show ?thesis .
  next
    case invoke
    from ui_invoke_command_ok [OF ok sh room this] show ?thesis .
  next
    case complete
    from ui_complete_command_ok [OF ok verify_owner_table [OF complete(1)] detach complete(2)] show ?thesis
      by (simp add: ui_grows_keeps)
  qed
qed

lemma ui_step_ok:
  assumes ok: "ui_pending_ok pid n away u" and step: "ui_step process take_cwd u op = Some u'" and op: "ui_op_ok pid away op"
    and n: "n < 2 ^ 64"
    and room: "length (sv_tabs (us_core u)) < 2 ^ 32" "sv_next_id (us_core u) \<noteq> - 1" "uq_next_id (us_commands u) \<noteq> - 1"
  shows "\<exists>m \<le> Suc n. ui_pending_ok pid m away u' \<and> ui_bound u u'"
proof -
  have keep: ?thesis if "ui_pending_ok pid n away u' \<and> ui_bound u u'" using that by (intro exI [of _ n]) simp
  show ?thesis
  proof (cases op)
    case (CoreOp core)
    with step obtain s where s: "server_step process take_cwd (us_core u) core = Some s" and u': "u' = u\<lparr>us_core := s\<rparr>" by auto
    have "server_ok (us_core u)" using ok by (simp add: ui_pending_ok_def)
    from server_step_ok [OF this room(1,2) s] journal_extends_sequence [OF server_step_extends [OF s]] core_op_ok [OF ok] show ?thesis
      by (intro keep) (simp add: u')
  next
    case (LeaseCommand env args)
    with step obtain r where "execute_ui_lease_command env args u = Some (r, u')" by auto
    from execute_ui_lease_command_ok [OF ok n _ this] op LeaseCommand show ?thesis by (auto dest: ui_grows_bound)
  next
    case (StateCommand env args)
    with step execute_ui_client_state_command_ok [OF ok, of env args] show ?thesis
      by (intro keep) (auto dest: ui_grows_bound simp: prod_eq_iff)
  next
    case (Interaction env set_size written native_error args)
    with step obtain r where "execute_ui_interaction_command env set_size written native_error args u = Some (r, u')" by auto
    from execute_ui_interaction_command_ok [OF ok this] show ?thesis by (intro keep) (simp add: ui_grows_bound)
  next
    case (RelayCommand env shared args)
    with step op relay_ok [OF ok] room show ?thesis by (intro keep) (auto simp: ui_keeps_def)
  next
    case (ClientCommand env validate_operation shared args)
    with step obtain r where "execute_ui_client_command env validate_operation shared args u = Some (r, u')" by auto
    from execute_ui_client_command_ok [OF ok this _ _ room(1,2)] op ClientCommand show ?thesis
      by (intro keep) (auto simp: ui_keeps_def)
  qed
qed

lemma ui_run_ok:
  "\<lbrakk> run_steps (ui_step process take_cwd) u ops = Some u'; ui_pending_ok pid n away u; list_all (ui_op_ok pid away) ops;
     n + length ops < 2 ^ 64; length (sv_tabs (us_core u)) + length ops \<le> 2 ^ 32;
     unat (sv_next_id (us_core u)) + length ops < 2 ^ 64; unat (uq_next_id (us_commands u)) + length ops < 2 ^ 64 \<rbrakk>
   \<Longrightarrow> \<exists>m. ui_pending_ok pid m away u'"
proof (induction ops arbitrary: u n)
  case Nil
  then show ?case by auto
next
  case (Cons op ops)
  from Cons.prems(1) obtain v where v: "ui_step process take_cwd u op = Some v" "run_steps (ui_step process take_cwd) v ops = Some u'"
    by (auto split: option.splits)
  have "sv_next_id (us_core u) \<noteq> - 1" "uq_next_id (us_commands u) \<noteq> - 1"
    using Cons.prems(6,7) by (auto simp: unsigned_minus_1_eq_mask mask_eq_exp_minus_1)
  with ui_step_ok [OF Cons.prems(2) v(1)] Cons.prems(3-5) obtain m where
    m: "m \<le> Suc n" "ui_pending_ok pid m away v" "ui_bound u v" by auto
  from m(3) Cons.prems(5-7) have "length (sv_tabs (us_core v)) + length ops \<le> 2 ^ 32"
    "unat (sv_next_id (us_core v)) + length ops < 2 ^ 64" "unat (uq_next_id (us_commands v)) + length ops < 2 ^ 64"
    by (simp_all add: ui_bound_def step_bound_def)
  with Cons.IH [OF v(2) m(2)] Cons.prems(3,4) m(1) show ?case by simp
qed

text \<open>The state before any client attached.\<close>

definition fresh_ui :: "string \<Rightarrow> 'p ServerState \<Rightarrow> 'p UiServerState" where
  "fresh_ui identity s =
     \<lparr>us_core = s, us_ui_lease = \<lparr>la_leases = []\<rparr>, us_next_lease_id = 1, us_snapshot = None,
      us_commands = UiClientCommandQueue_new identity, us_shutdown_after_ui_result = None, us_shutdown_requested = False,
      us_named_buffers = NamedBufferStore_new\<rparr>"

lemma fresh_ui_ok: "server_ok s \<Longrightarrow> ui_pending_ok pid 1 away (fresh_ui identity s)"
  by (simp add: ui_pending_ok_def fresh_ui_def Ui_Lease.authority_ok_def leases_ok_def new_queue_ok lease_table_def lookup_by_def)

lemma fresh_ui_run_ok:
  assumes run: "run_steps (ui_step process take_cwd) (fresh_ui identity s) ops = Some u'"
    and "server_ok s" and ops: "\<forall>op \<in> set ops. ui_op_ok pid away op"
    and "length (sv_tabs s) + length ops \<le> 2 ^ 32" and "unat (sv_next_id s) + length ops < 2 ^ 64"
  shows "\<exists>m. ui_pending_ok pid m away u'"
proof -
  have "list_all (ui_op_ok pid away) ops" using ops by (simp add: list_all_iff)
  moreover have "(1 :: nat) + length ops < 2 ^ 64" using assms(4) by simp
  moreover have "unat (uq_next_id (us_commands (fresh_ui identity s))) + length ops < 2 ^ 64"
    using assms(4) by (simp add: fresh_ui_def UiClientCommandQueue_new_def)
  ultimately show ?thesis
    using ui_run_ok [OF run fresh_ui_ok [OF assms(2)]] assms(4,5) by (simp add: fresh_ui_def)
qed

section \<open>Where input goes\<close>

fun interaction_bytes :: "UiInteraction \<Rightarrow> string option" where
  "interaction_bytes (UiInput _ _ _ bytes) = Some bytes"
| "interaction_bytes (UiPaste _ _ _ bytes _ _ _) = Some bytes"
| "interaction_bytes _ = None"

text \<open>A lease that is neither expired nor left behind by an exited process.\<close>

definition live_lease :: "UiEnv \<Rightarrow> UiLeaseAuthority \<Rightarrow> string \<times> u32 \<Rightarrow> bool" where
  "live_lease env a k \<longleftrightarrow> (\<exists>l \<in> set (la_leases a). lease_key l = k \<and> env_now env < ul_expires_unix_ms l
     \<and> env_process_is_alive env (ul_client_pid l))"

lemma ui_commit_tabs:
  "ui_commit kind tab_id payload u = Some u' \<Longrightarrow> sv_tabs (us_core u') = sv_tabs (us_core u) \<and> sv_active (us_core u') = sv_active (us_core u)
     \<and> us_ui_lease u' = us_ui_lease u"
  by (auto simp: ui_commit_def dest: server_commit_fields)

lemma clear_snapshot_frame [simp]:
  "us_core (clear_ui_client_snapshot_for lid p u) = us_core u" "us_ui_lease (clear_ui_client_snapshot_for lid p u) = us_ui_lease u"
  by (simp_all add: clear_ui_client_snapshot_for_def split: option.split)

lemma reap_one_tabs:
  "reap_one env u removed = Some u' \<Longrightarrow> sv_tabs (us_core u') = sv_tabs (us_core u) \<and> sv_active (us_core u') = sv_active (us_core u)
     \<and> us_ui_lease u' = us_ui_lease u"
  by (cases removed) (auto simp: reap_one_def commit_ui_lease_event_def dest!: ui_commit_tabs)

lemma reap_all_tabs:
  "run_steps (reap_one env) u removed = Some u' \<Longrightarrow> sv_tabs (us_core u') = sv_tabs (us_core u)
     \<and> sv_active (us_core u') = sv_active (us_core u) \<and> us_ui_lease u' = us_ui_lease u"
  by (induction removed arbitrary: u) (auto split: option.splits dest!: reap_one_tabs)

lemma reap_tabs:
  assumes "reap_stale_ui_lease env u = Some u'"
  shows "sv_tabs (us_core u') = sv_tabs (us_core u) \<and> sv_active (us_core u') = sv_active (us_core u)
    \<and> us_ui_lease u' = snd (reap_stale (us_ui_lease u) (env_now env) (env_process_is_alive env))"
proof -
  obtain removed leases where reap: "reap_stale (us_ui_lease u) (env_now env) (env_process_is_alive env) = (removed, leases)"
    by (cases "reap_stale (us_ui_lease u) (env_now env) (env_process_is_alive env)")
  from assms obtain v where v: "run_steps (reap_one env) (u\<lparr>us_ui_lease := leases\<rparr>) removed = Some v"
    and last: "u' = v \<or> commit_window_visibility False True ''leases-empty'' v = Some u'"
    by (auto simp: reap_stale_ui_lease_def reap Option.bind_eq_Some_conv split: if_splits)
  from reap_all_tabs [OF v] last show ?thesis by (auto simp: reap commit_window_visibility_def dest!: ui_commit_tabs)
qed

lemma heartbeat_live:
  assumes "heartbeat (snd (reap_stale a (env_now env) (env_process_is_alive env))) lid p now = (Ok l, leases)"
  shows "live_lease env a (lid, p)"
proof -
  let ?ls = "filter (\<lambda>lease. stale_reason (env_now env) (env_process_is_alive env) lease = None) (la_leases a)"
  from assms obtain k where k: "position (\<lambda>lease. ul_lease_id lease = lid \<and> ul_client_pid lease = p) ?ls = Some k"
    by (auto simp: heartbeat_def reap_stale_def lease_find_mut_def and_then_Ok_iff ok_or_Ok_iff Let_def split: sum.splits)
  from position_SomeD [OF k] have "k < length ?ls" "lease_key (?ls ! k) = (lid, p)" by simp_all
  then obtain l' where "l' \<in> set ?ls" "lease_key l' = (lid, p)" by (metis nth_mem)
  then show ?thesis by (auto simp: live_lease_def stale_reason_def not_le split: if_splits)
qed

text \<open>What the arms do to the tabs.\<close>

definition input_accepted :: "nat \<Rightarrow> UiInteraction \<Rightarrow> 'p UiServerState \<Rightarrow> 'p UiServerState \<Rightarrow> bool" where
  "input_accepted k i u u' \<longleftrightarrow> sv_active (us_core u) = Some (interaction_tab_id i)
     \<and> \<not> submission_is_pending (tb_submission (sv_tabs (us_core u) ! k))
     \<and> tb_input_bytes (sv_tabs (us_core u') ! k) =
         tb_input_bytes (sv_tabs (us_core u) ! k) + length (the (interaction_bytes i))"

lemma set_tab_frame [simp]:
  "sv_tabs (us_core (set_tab k tab u)) = (sv_tabs (us_core u))[k := tab]"
  by (simp add: set_tab_def)

lemma tab_send_effect:
  "tab_send written bytes tab = (sent, tab') \<Longrightarrow> tb_input_bytes tab' = tb_input_bytes tab + (if sent then length bytes else 0)"
  by (auto simp: tab_send_def split: if_splits option.splits)

lemma tab_resize_input: "tab_resize set_size native_error rc tab = (r, tab') \<Longrightarrow> tb_input_bytes tab' = tb_input_bytes tab"
  by (auto simp: tab_resize_def split: if_splits option.splits)

lemma perform_interaction_effect:
  assumes k: "k < length (sv_tabs (us_core u))"
    and p: "perform_interaction set_size written native_error k i u = Some (r, u')"
  shows "(\<exists>tab. sv_tabs (us_core u') = (sv_tabs (us_core u))[k := tab])
    \<and> (if interaction_bytes i \<noteq> None \<and> (\<exists>x. r = Ok x) then input_accepted k i u u'
       else tb_input_bytes (sv_tabs (us_core u') ! k) = tb_input_bytes (sv_tabs (us_core u) ! k))"
proof (cases i)
  case (UiSelect l c t)
  with p obtain x s where "select_tab_at k (us_core u) = Some (x, s)" "u' = u\<lparr>us_core := s\<rparr>" by auto
  moreover from this have "sv_tabs s = sv_tabs (us_core u)" using select_grows by blast
  ultimately show ?thesis by (simp add: UiSelect) (metis list_update_id)
next
  case (UiInput l c t b)
  have same: "\<exists>tab. sv_tabs (us_core u) = (sv_tabs (us_core u))[k := tab]" by (metis list_update_id)
  from p k same show ?thesis
    by (auto simp: UiInput input_accepted_def split: if_splits prod.splits bool.splits dest!: tab_send_effect)
next
  case (UiPaste l c t b tb ch br)
  have same: "\<exists>tab. sv_tabs (us_core u) = (sv_tabs (us_core u))[k := tab]" by (metis list_update_id)
  from p k same show ?thesis
    by (auto simp: UiPaste input_accepted_def split: if_splits prod.splits bool.splits dest!: tab_send_effect ui_commit_tabs)
next
  case (UiResize l c t rows columns)
  from p k show ?thesis
    by (auto simp: UiResize split: prod.splits sum.splits dest!: tab_resize_input ui_commit_tabs)
qed

lemma perform_refuses:
  "\<lbrakk> perform_interaction set_size written native_error k i u = Some (Err response, u'); interaction_bytes i \<noteq> None \<rbrakk>
   \<Longrightarrow> \<not> ir_ok response"
  by (cases i) (auto simp: typed_failure_def not_active_def submission_pending_def not_writable_def
      split: if_splits prod.splits bool.splits)

text \<open>
  C5. Input reaches only the tab it is addressed to. Whatever arguments a client sends and whatever the
  native writes return: no other tab changes; if the server reports success for typed or pasted bytes,
  then the client held a live lease, the tab was the active one, no composer submission was pending on
  it, and exactly these bytes are counted as its input; in every other case no tab counts any input.
\<close>

theorem ui_input_confined:
  assumes i: "parse_ui_interaction args = Ok i"
    and c: "execute_ui_interaction_command env set_size written native_error args u = Some (r, u')"
  shows "length (sv_tabs (us_core u')) = length (sv_tabs (us_core u))
    \<and> (\<forall>k < length (sv_tabs (us_core u)). tb_id (sv_tabs (us_core u) ! k) \<noteq> interaction_tab_id i \<longrightarrow>
         sv_tabs (us_core u') ! k = sv_tabs (us_core u) ! k)
    \<and> (if interaction_bytes i \<noteq> None \<and> ir_ok r
       then live_lease env (us_ui_lease u) (lease_identity i)
         \<and> (\<exists>k < length (sv_tabs (us_core u)). tb_id (sv_tabs (us_core u) ! k) = interaction_tab_id i \<and> input_accepted k i u u')
       else map tb_input_bytes (sv_tabs (us_core u')) = map tb_input_bytes (sv_tabs (us_core u)))"
proof -
  from c i obtain v where v: "reap_stale_ui_lease env u = Some v"
    by (auto simp: execute_ui_interaction_command_def Option.bind_eq_Some_conv)
  note t = reap_tabs [OF v]
  obtain res leases where h: "heartbeat (us_ui_lease v) (fst (lease_identity i)) (snd (lease_identity i)) (env_now env) = (res, leases)"
    by (cases "heartbeat (us_ui_lease v) (fst (lease_identity i)) (snd (lease_identity i)) (env_now env)")
  let ?w = "v\<lparr>us_ui_lease := leases\<rparr>"
  show ?thesis
  proof (cases "\<exists>l k. res = Ok l \<and> position (\<lambda>tab. tb_id tab = interaction_tab_id i) (sv_tabs (us_core v)) = Some k")
    case False
    then have "u' = ?w \<and> \<not> ir_ok r"
      using c by (cases res; cases "position (\<lambda>tab. tb_id tab = interaction_tab_id i) (sv_tabs (us_core v))")
        (auto simp: execute_ui_interaction_command_def i v h Let_def ui_lease_failure_def typed_failure_def)
    with t show ?thesis by simp
  next
    case True
    then obtain l k where l: "res = Ok l" and k: "position (\<lambda>tab. tb_id tab = interaction_tab_id i) (sv_tabs (us_core v)) = Some k" by blast
    from c l k obtain x where p: "perform_interaction set_size written native_error k i ?w = Some (x, u')"
      and r: "r = (case x of Inl response \<Rightarrow> response | Inr reported \<Rightarrow> IpcResponse_success (env_to_string env (interaction_json i reported l u')))"
      by (auto simp: execute_ui_interaction_command_def i v h Let_def)
    have at: "k < length (sv_tabs (us_core u))" "tb_id (sv_tabs (us_core u) ! k) = interaction_tab_id i"
      using position_SomeD [OF k] t by simp_all
    then have e: "\<exists>tab. sv_tabs (us_core u') = (sv_tabs (us_core u))[k := tab]"
      and bytes: "if interaction_bytes i \<noteq> None \<and> (\<exists>y. x = Ok y) then input_accepted k i u u'
         else tb_input_bytes (sv_tabs (us_core u') ! k) = tb_input_bytes (sv_tabs (us_core u) ! k)"
      using perform_interaction_effect [OF _ p] t by (auto simp: input_accepted_def split: if_splits)
    have ok: "interaction_bytes i \<noteq> None \<Longrightarrow> ir_ok r \<longleftrightarrow> (\<exists>y. x = Ok y)"
    proof (cases x)
      case (Inl response)
      moreover assume "interaction_bytes i \<noteq> None"
      ultimately show ?thesis using perform_refuses [OF p [unfolded Inl]] by (simp add: r)
    next
      case (Inr reported)
      then show ?thesis by (cases reported) (simp add: r IpcResponse_success_def)
    qed
    have "live_lease env (us_ui_lease u) (lease_identity i)"
      using heartbeat_live [of "us_ui_lease u" env "fst (lease_identity i)" "snd (lease_identity i)"] h l t by auto
    moreover obtain tab where tab: "sv_tabs (us_core u') = (sv_tabs (us_core u))[k := tab]" using e by blast
    moreover have "sv_tabs (us_core u') ! j = sv_tabs (us_core u) ! j" if "tb_id (sv_tabs (us_core u) ! j) \<noteq> interaction_tab_id i" for j
      using that at(2) by (cases "j = k") (simp_all add: tab)
    moreover have "map tb_input_bytes (sv_tabs (us_core u')) = map tb_input_bytes (sv_tabs (us_core u))"
      if "\<not> (interaction_bytes i \<noteq> None \<and> (\<exists>y. x = Ok y))"
      using bytes that at(1) by (simp add: tab map_update list_update_same_conv split: if_splits)
    moreover have "input_accepted k i u u'" if "interaction_bytes i \<noteq> None" "ir_ok r"
      using bytes that ok by simp
    moreover have "interaction_bytes i \<noteq> None \<and> (\<exists>y. x = Ok y) \<longleftrightarrow> interaction_bytes i \<noteq> None \<and> ir_ok r" using ok by blast
    ultimately show ?thesis using at by (simp only: if_splits simp_thms) (metis length_list_update)
  qed
qed

section \<open>The composed invariant\<close>

fun detaches :: "'p ui_op \<Rightarrow> bool" where
  "detaches (ClientCommand _ _ _ args) = has_option args ''--detach''"
| "detaches _ = False"

lemma ui_op_ok_away: "ui_op_ok pid UNIV op \<Longrightarrow> \<not> detaches op \<Longrightarrow> ui_op_ok pid away op"
  by (cases op) auto

lemma lease_in_table:
  "\<lbrakk> ui_pending_ok pid n away u; l \<in> set (la_leases (us_ui_lease u)) \<rbrakk> \<Longrightarrow> lease_table (us_ui_lease u) (lease_key l) = Some l"
  using lease_table_nth [OF conjunct1 [OF conjunct2 [OF ui_ok_authority]]] by (metis in_set_conv_nth)

text \<open>What the invariant says of the leases and the published snapshot.\<close>

lemma ui_ok_observed:
  assumes "ui_pending_ok pid n away u" and "lease \<in> set (la_leases (us_ui_lease u))"
  shows "ul_observed_sequence lease \<le> core_sequence (us_core u)"
  using lease_in_table [OF assms] assms(1) unfolding ui_pending_ok_def by blast

lemma ui_ok_owner:
  assumes ok: "ui_pending_ok pid n {} u" and x: "us_snapshot u = Some x"
  shows "\<exists>lease. verify_owner (us_ui_lease u) (sr_lease_id x) (sr_client_pid x) = Ok lease"
proof -
  have leases: "leases_ok pid n (la_leases (us_ui_lease u))" using ui_ok_authority [OF ok] by blast
  have "lease_table (us_ui_lease u) (sr_lease_id x, sr_client_pid x) \<noteq> None" using ok x by (simp add: ui_pending_ok_def)
  then show ?thesis by (cases rule: lease_find_mut_cases [OF leases, of "sr_lease_id x" "sr_client_pid x"])
    (auto simp: verify_owner_def lease_find_mut_def lease_table_def lookup_by_def and_then_Ok_iff ok_or_Ok_iff)
qed

text \<open>
  The server and its GUI clients stay consistent through every sequence of core operations, lease
  commands, snapshots, interactions and relayed commands. The core keeps its invariant; at most sixteen
  leases exist; no client has acknowledged an event the journal has not committed; the relay queue keeps
  its bounds; and unless a completion detached its client, the published snapshot belongs to a client
  that still holds its lease.
\<close>

theorem ui_server_keeps_invariant:
  assumes run: "run_steps (ui_step process take_cwd) (fresh_ui identity s) ops = Some u'"
    and s: "server_ok s" and ops: "\<forall>op \<in> set ops. ui_op_ok pid UNIV op"
    and room: "length (sv_tabs s) + length ops \<le> 2 ^ 32" "unat (sv_next_id s) + length ops < 2 ^ 64"
  shows "server_ok (us_core u') \<and> length (la_leases (us_ui_lease u')) \<le> UI_LEASE_MAX_CLIENTS \<and> queue_ok (us_commands u')
    \<and> (\<forall>lease \<in> set (la_leases (us_ui_lease u')). ul_observed_sequence lease \<le> core_sequence (us_core u'))
    \<and> (list_ex detaches ops \<or> us_snapshot u' = None \<or>
       (\<exists>lease. verify_owner (us_ui_lease u') (sr_lease_id (the (us_snapshot u'))) (sr_client_pid (the (us_snapshot u'))) = Ok lease))"
proof -
  obtain m where m: "ui_pending_ok pid m UNIV u'" using fresh_ui_run_ok [OF run s ops room] by blast
  have leases: "leases_ok pid m (la_leases (us_ui_lease u'))" using ui_ok_authority [OF m] by blast
  moreover have "\<exists>lease. verify_owner (us_ui_lease u') (sr_lease_id x) (sr_client_pid x) = Ok lease"
    if x: "us_snapshot u' = Some x" and "\<not> list_ex detaches ops" for x
  proof -
    have "\<forall>op \<in> set ops. ui_op_ok pid {} op" using ops that(2) by (auto simp: list_ex_iff intro: ui_op_ok_away)
    from fresh_ui_run_ok [OF run s this room] x show ?thesis by (auto dest: ui_ok_owner)
  qed
  ultimately show ?thesis
    using m ui_ok_observed [OF m] by (cases "us_snapshot u'") (auto simp: ui_pending_ok_def leases_ok_def)
qed


section \<open>A sample server\<close>

definition sample_snapshot :: "u64 \<Rightarrow> json" where
  "sample_snapshot n = JObj [(''schema_version'', json_of_u64 (ucast UI_CLIENT_STATE_SCHEMA_VERSION)), (''projection'', JStr PROJECTION_REPLACEABLE_UI_CLIENT),
     (''client_pid'', json_of_u64 42), (''server_pid'', json_of_u64 7),
     (''event_position'', JObj [(''epoch'', JStr ''e''), (''sequence'', json_of_u64 n)]), (''tabs'', JArr [])]"

definition sample_env :: "u64 \<Rightarrow> UiEnv" where
  "sample_env now = \<lparr>env_now = now, env_process_id = 7, env_process_is_alive = (\<lambda>_. True), env_to_string = (\<lambda>_. ''{}''),
     env_to_string_pretty = (\<lambda>v. Ok (show_nat (case as_u64 (json_index (json_index v ''event_position'') ''sequence'') of Some n \<Rightarrow> unat n | None \<Rightarrow> 0))),
     env_from_str = (\<lambda>s. if s = ''position'' then Ok (JObj [(''projection'', JStr PROJECTION_REPLACEABLE_UI_CLIENT), (''event_position'', JBool True)])
        else case parse_u64 s of Some n \<Rightarrow> Ok (sample_snapshot n) | None \<Rightarrow> Err ''invalid''),
     env_identity_from_str = (\<lambda>_. Err ''invalid''), env_identity_json = (\<lambda>_. JNull), env_identity_to_vec = (\<lambda>_. Ok ''{}''),
     env_response_to_string = (\<lambda>r. Ok (ir_output r)), env_response_from_str = (\<lambda>s. Ok (IpcResponse_success s)),
     env_args_from_str = (\<lambda>_. Err ''invalid'')\<rparr>"

definition sample_ui_ops :: "unit ui_op list" where
  "sample_ui_ops = [CoreOp (CreateTab sample_native None [] [] True None),
     LeaseCommand (sample_env 1000) [''ui-lease'', ''attach'', ''--client-id'', ''gui'', ''--client-pid'', ''42'']]"

lemmas sample_run_defs = create_tab_def sample_spawn Let_def empty_server_def initial_server_def saturating_add_def free_index_def
      push_tab_def initial_tab_def server_commit_def journal_commit_def commit_correlated_def EventJournal_new_def with_epoch_def
      checked_add_def

lemmas sample_attach_defs = sample_ui_ops_def fresh_ui_def sample_run_defs execute_ui_lease_command_def reap_stale_ui_lease_def
  reap_stale_def lease_attach_command_def option_value_def parse_u32_def parse_unsigned_def decimal_value_def is_ascii_digit_def
  sample_env_def lease_attach_with_def attach_def validate_client_id_def UI_LEASE_MAX_CLIENTS_def UI_LEASE_TTL_MS_def sample_lease_def
  commit_ui_lease_event_def ui_commit_def commit_window_visibility_def is_ascii_control_def UI_CLIENT_ID_MAX_BYTES_def

lemma sample_attach:
  "\<exists>u tab. run_steps (ui_step (\<lambda>p _. p) (\<lambda>p. (None, p))) (fresh_ui ''q'' empty_server) sample_ui_ops = Some u
   \<and> us_ui_lease u = \<lparr>la_leases = [sample_lease]\<rparr> \<and> jr_epoch (sv_event_journal (us_core u)) = ''e''
   \<and> sv_tabs (us_core u) = [tab] \<and> tb_id tab = 1 \<and> sv_active (us_core u) = Some 1 \<and> tb_input_bytes tab = 0
   \<and> \<not> submission_is_pending (tb_submission tab) \<and> fst (tab_send None ''ls'' tab)"
  by (simp add: sample_attach_defs tab_send_def TerminalLifecycle_default_def)

lemma sample_ui_ops_ok: "\<forall>op \<in> set sample_ui_ops. ui_op_ok 7 UNIV op" "\<not> list_ex detaches sample_ui_ops"
  by (simp_all add: sample_ui_ops_def sample_env_def)

lemma sample_room:
  "length (sv_tabs empty_server) + length sample_ui_ops \<le> 2 ^ 32" "unat (sv_next_id empty_server) + length sample_ui_ops < 2 ^ 64"
  by (simp_all add: empty_server_def initial_server_def saturating_add_def sample_ui_ops_def)

definition sample_input_args :: "string list" where
  "sample_input_args = client_arguments (UiInput (lease_id_text 7 1000 1) 42 1 ''ls'')"

lemma sample_input_parses:
  "parse_ui_interaction sample_input_args = Ok (UiInput (lease_id_text 7 1000 1) 42 1 ''ls'')"
  unfolding sample_input_args_def by (rule written_interaction_parses) (simp add: UI_INPUT_MAX_BYTES_def)

lemma sample_reap:
  "us_ui_lease u = \<lparr>la_leases = [sample_lease]\<rparr> \<Longrightarrow> \<not> 6000 \<le> now \<Longrightarrow> reap_stale_ui_lease (sample_env now) u = Some u"
  by (cases u) (simp add: reap_stale_ui_lease_def reap_stale_def stale_reason_def sample_env_def sample_lease_def map_filter_def)

lemma sample_find: "lease_find_mut \<lparr>la_leases = [sample_lease]\<rparr> (lease_id_text 7 1000 1) 42 = Ok 0"
  by (simp add: lease_find_mut_def lease_id_text_valid sample_lease_def)

lemma sample_heartbeat:
  "\<exists>l a. heartbeat \<lparr>la_leases = [sample_lease]\<rparr> (lease_id_text 7 1000 1) 42 now = (Ok l, a)"
  by (simp add: heartbeat_def sample_find Let_def)

lemma sample_input:
  assumes "us_ui_lease u = \<lparr>la_leases = [sample_lease]\<rparr>" "sv_tabs (us_core u) = [tab]" "tb_id tab = 1" "sv_active (us_core u) = Some 1"
    "\<not> submission_is_pending (tb_submission tab)" "fst (tab_send None ''ls'' tab)"
  shows "\<exists>r u'. execute_ui_interaction_command (sample_env 2000) (\<lambda>p _. p) None None
     sample_input_args u = Some (r, u') \<and> ir_ok r"
proof -
  obtain l a where "heartbeat \<lparr>la_leases = [sample_lease]\<rparr> (lease_id_text 7 1000 1) 42 2000 = (Ok l, a)"
    using sample_heartbeat by blast
  moreover have "env_now (sample_env 2000) = 2000" by (simp add: sample_env_def)
  moreover obtain tab' where "tab_send None ''ls'' tab = (True, tab')" using assms(6) by (cases "tab_send None ''ls'' tab") simp
  ultimately show ?thesis using assms
    by (simp add: execute_ui_interaction_command_def sample_input_parses sample_reap Let_def IpcResponse_success_def)
qed

lemma ui_input_confined_witness:
  "\<exists>u r u'. run_steps (ui_step (\<lambda>p _. p) (\<lambda>p. (None, p))) (fresh_ui ''q'' empty_server) sample_ui_ops = Some u
    \<and> execute_ui_interaction_command (sample_env 2000) (\<lambda>p _. p) None None
        sample_input_args u = Some (r, u')
    \<and> map tb_input_bytes (sv_tabs (us_core u')) = [2]"
proof -
  from sample_attach obtain u tab where u: "run_steps (ui_step (\<lambda>p _. p) (\<lambda>p. (None, p))) (fresh_ui ''q'' empty_server) sample_ui_ops = Some u"
    and l: "us_ui_lease u = \<lparr>la_leases = [sample_lease]\<rparr>" and t: "sv_tabs (us_core u) = [tab]" "tb_id tab = 1" "sv_active (us_core u) = Some 1"
      "\<not> submission_is_pending (tb_submission tab)" "fst (tab_send None ''ls'' tab)" and zero: "tb_input_bytes tab = 0"
    by (elim exE conjE)
  from sample_input [OF l t] obtain r u' where r: "execute_ui_interaction_command (sample_env 2000) (\<lambda>p _. p) None None
        sample_input_args u = Some (r, u')" "ir_ok r" by (elim exE conjE)
  have "map tb_input_bytes (sv_tabs (us_core u')) = [2]"
    using ui_input_confined [OF sample_input_parses r(1)] r(2) t zero by (auto simp: input_accepted_def length_Suc_conv)
  with u r show ?thesis by (intro exI conjI)
qed

lemma ui_server_keeps_invariant_witness:
  "\<exists>u. run_steps (ui_step (\<lambda>p _. p) (\<lambda>p. (None, p))) (fresh_ui ''q'' empty_server) sample_ui_ops = Some u
    \<and> la_leases (us_ui_lease u) = [sample_lease] \<and> server_ok (us_core u)"
proof -
  from sample_attach obtain u where u: "run_steps (ui_step (\<lambda>p _. p) (\<lambda>p. (None, p))) (fresh_ui ''q'' empty_server) sample_ui_ops = Some u"
    and l: "us_ui_lease u = \<lparr>la_leases = [sample_lease]\<rparr>" by (elim exE conjE)
  from ui_server_keeps_invariant [OF u empty_server_ok sample_ui_ops_ok(1) sample_room] have "server_ok (us_core u)" by (elim conjE)
  with u l show ?thesis by (intro exI conjI) simp_all
qed



section \<open>Two completions that go wrong\<close>

text \<open>
  An attached client with the command \<open>get-settings\<close> in flight.  It completes the command with a snapshot
  as its answer.  With \<open>--detach\<close> the snapshot is stored after the lease is gone, and nothing clears it; and
  an answer whose \<open>event_position\<close> is no object panics the server (the result is \<open>None\<close>).
\<close>

definition attached_ui :: "unit UiServerState" where
  "attached_ui = (fresh_ui ''q'' empty_server)\<lparr>us_ui_lease := \<lparr>la_leases = [sample_lease]\<rparr>,
     us_commands := snd (queue_poll (snd (enqueue [''get-settings''] (UiClientCommandQueue_new ''q''))))\<rparr>"

lemma attached_queue:
  "us_commands attached_ui = (UiClientCommandQueue_new ''q'')\<lparr>uq_next_id := 2,
     uq_in_flight := [(command_id_text ''q'' 1, \<lparr>uc_schema_version = 1, uc_command_id = command_id_text ''q'' 1, uc_args = [''get-settings'']\<rparr>)]\<rparr>"
  by (simp add: attached_ui_def queue_poll_def enqueue_def validate_args_def UI_CLIENT_COMMAND_MAX_ARGUMENTS_def UI_CLIENT_COMMAND_MAX_BYTES_def
    UI_CLIENT_COMMAND_QUEUE_LIMIT_def UiClientCommandQueue_new_def Let_def saturating_add_def
    UI_CLIENT_COMMAND_SCHEMA_VERSION_def)

definition completion_args :: "string \<Rightarrow> string list" where
  "completion_args answer = [''ui-client-command'', ''complete'', ''--lease-id'', lease_id_text 7 1000 1, ''--client-pid'', ''42'',
     ''--command-id'', command_id_text ''q'' 1, ''--response-json'', answer, ''--detach'']"


lemma completion_values:
  assumes "a \<in> {''0'', ''position''}"
  shows "option_value (completion_args a) ''--lease-id'' = Some (lease_id_text 7 1000 1)"
    "option_value (completion_args a) ''--client-pid'' = Some ''42''"
    "option_value (completion_args a) ''--command-id'' = Some (command_id_text ''q'' 1)"
    "option_value (completion_args a) ''--response-json'' = Some a"
    "has_option (completion_args a) ''--detach''" "\<not> has_option (completion_args a) ''--shutdown-after-result''"
  using assms by (auto simp: completion_args_def option_value_def has_option_def lease_id_text_def command_id_text_def)

lemma completion_reaches:
  assumes "a \<in> {''0'', ''position''}"
  shows "execute_ui_client_command (sample_env 1003) (\<lambda>_. Ok ()) (\<lambda>_ u. Some (None, u)) (completion_args a) attached_ui =
     ui_complete_command (sample_env 1003) (completion_args a) (lease_id_text 7 1000 1) 42 attached_ui"
proof -
  have "parse_u32 ''42'' = Some 42" by (simp add: parse_u32_def parse_unsigned_def decimal_value_def is_ascii_digit_def)
  moreover have "verify_owner (us_ui_lease attached_ui) (lease_id_text 7 1000 1) 42 = Ok sample_lease"
    by (simp add: verify_owner_def attached_ui_def sample_lease_def lease_id_text_valid)
  moreover have "(case completion_args a of _ # x # _ \<Rightarrow> x | _ \<Rightarrow> []) = ''complete''" by (simp add: completion_args_def)
  ultimately show ?thesis using completion_values [OF assms] by (simp add: execute_ui_client_command_def)
qed

lemma completed_queue:
  assumes "a \<in> {''0'', ''position''}"
  shows "\<exists>q. queue_complete (env_response_from_str (sample_env 1003)) (command_id_text ''q'' 1) a (us_commands attached_ui) =
     (Ok (IpcResponse_success a), q) \<and> uq_completed q = [(command_id_text ''q'' 1, a)]"
  using assms by (auto simp: queue_complete_def attached_queue UiClientCommandQueue_new_def sample_env_def UI_CLIENT_COMMAND_RESPONSE_MAX_BYTES_def
    UI_CLIENT_COMMAND_QUEUE_LIMIT_def)

lemma malformed_position_panics:
  "execute_ui_client_command (sample_env 1003) (\<lambda>_. Ok ()) (\<lambda>_ u. Some (None, u)) (completion_args ''position'') attached_ui = None"
proof -
  obtain q where q: "queue_complete (env_response_from_str (sample_env 1003)) (command_id_text ''q'' 1) ''position'' (us_commands attached_ui) =
     (Ok (IpcResponse_success ''position''), q)" using completed_queue [of "''position''"] by auto
  moreover have "refresh_position (sample_env 1003) u (IpcResponse_success ''position'') = None" for u :: "unit UiServerState"
    by (simp add: refresh_position_def client_projection_def sample_env_def IpcResponse_success_def set_event_position_def)
  ultimately show ?thesis unfolding completion_reaches [of "''position''", simplified]
    by (simp add: ui_complete_command_def completion_values Let_def attached_queue commit_client_ui_action_event_def complete_refresh_def)
qed

lemma show_zero: "show_nat 0 = ''0''"
  by code_simp

lemma show_nat_not_position [simp]: "show_nat n \<noteq> ''position''"
  using show_nat_digits [of n] by (auto simp: is_ascii_digit_def)

lemma sample_parse: "env_from_str (sample_env now) (show_nat (unat n)) = Ok (sample_snapshot n)"
  using unat_bounds(2) [of n] by (simp add: sample_env_def parse_u64_def parse_unsigned_show_nat)

lemma sample_projection: "client_projection (sample_env now) (IpcResponse_success (show_nat (unat n))) = Some (sample_snapshot n)"
  by (simp add: client_projection_def IpcResponse_success_def sample_parse) (simp add: sample_snapshot_def)

lemma sample_refresh:
  "jr_epoch (sv_event_journal (us_core u)) = ''e'' \<Longrightarrow>
   refresh_position (sample_env now) u (IpcResponse_success (show_nat (unat (n :: u64)))) =
     Some (Some (IpcResponse_success (show_nat (unat (jr_sequence (sv_event_journal (us_core u)))))))"
  unfolding refresh_position_def sample_projection
  by (simp add: sample_env_def sample_snapshot_def set_event_position_def journal_position_def IpcResponse_success_def json_of_u64_def)

lemma sample_store:
  assumes "uq_completed (us_commands u) = [(i, x)]"
  shows "store_answer (sample_env now) i (IpcResponse_success (show_nat (unat (n :: u64)))) u =
     (Ok (IpcResponse_success (show_nat (unat n))), u\<lparr>us_commands := us_commands u\<lparr>uq_completed := [(i, show_nat (unat n))]\<rparr>\<rparr>)"
  using length_show_base [of 10 "unat n" 20] unat_bounds(2) [of n] assms
  by (simp add: store_answer_def replace_completed_def sample_env_def IpcResponse_success_def UI_CLIENT_COMMAND_RESPONSE_MAX_BYTES_def show_nat_def)

lemma sample_detach:
  assumes "us_ui_lease u = \<lparr>la_leases = [sample_lease]\<rparr>" and "sv_event_journal (us_core u) = EventJournal_new ''e''"
    and "uq_completed (us_commands u) = [(i, x)]" and "us_snapshot u = None"
  shows "\<exists>u'. complete_detach (sample_env now) (lease_id_text 7 1000 1) 42 i (IpcResponse_success (show_nat (unat (n :: u64)))) u =
     Some (Ok (IpcResponse_success (show_nat (unat (2 :: u64)))), u') \<and> la_leases (us_ui_lease u') = []
     \<and> journal_position (sv_event_journal (us_core u')) = \<lparr>pos_epoch = ''e'', pos_sequence = 2\<rparr>"
proof -
  let ?d = "clear_ui_client_snapshot_for (ul_lease_id sample_lease) (ul_client_pid sample_lease) (u\<lparr>us_ui_lease := \<lparr>la_leases = []\<rparr>\<rparr>)"
  have d: "sv_event_journal (us_core ?d) = EventJournal_new ''e''" "us_commands ?d = us_commands u" "us_ui_lease ?d = \<lparr>la_leases = []\<rparr>"
    using assms by (simp_all add: clear_ui_client_snapshot_for_def)
  have "\<exists>v w. commit_ui_lease_event (sample_env now) sample_lease ''detached'' ''requested'' ?d = Some v
      \<and> commit_window_visibility False True ''detach'' v = Some w \<and> us_ui_lease v = \<lparr>la_leases = []\<rparr>
      \<and> us_commands w = us_commands u \<and> us_ui_lease w = \<lparr>la_leases = []\<rparr>
      \<and> jr_epoch (sv_event_journal (us_core w)) = ''e'' \<and> jr_sequence (sv_event_journal (us_core w)) = 2"
    using assms(2) by (simp add: d commit_ui_lease_event_def ui_commit_def commit_window_visibility_def server_commit_def journal_commit_def
      commit_correlated_def EventJournal_new_def with_epoch_def checked_add_def Let_def)
  then obtain v w where "commit_ui_lease_event (sample_env now) sample_lease ''detached'' ''requested'' ?d = Some v"
    "commit_window_visibility False True ''detach'' v = Some w" "us_ui_lease v = \<lparr>la_leases = []\<rparr>"
    and w: "us_commands w = us_commands u" "us_ui_lease w = \<lparr>la_leases = []\<rparr>" "jr_epoch (sv_event_journal (us_core w)) = ''e''"
      "jr_sequence (sv_event_journal (us_core w)) = 2" by (elim exE conjE)
  moreover have "detach (us_ui_lease u) (lease_id_text 7 1000 1) 42 = (Ok sample_lease, \<lparr>la_leases = []\<rparr>)"
    using assms by (simp add: detach_def sample_find remove_at_def)
  ultimately show ?thesis
    using assms sample_store [of w i x now 2] by (simp add: complete_detach_def sample_refresh journal_position_def)
qed

lemma detached_client_snapshot_stays:
  "\<exists>r u. execute_ui_client_command (sample_env 1003) (\<lambda>_. Ok ()) (\<lambda>_ u. Some (None, u)) (completion_args ''0'') attached_ui = Some (r, u)
    \<and> la_leases (us_ui_lease u) = [] \<and> map_option sr_lease_id (us_snapshot u) = Some (lease_id_text 7 1000 1)"
proof -
  let ?i = "command_id_text ''q'' 1"
  obtain q where q: "queue_complete (env_response_from_str (sample_env 1003)) ?i ''0'' (us_commands attached_ui) =
     (Ok (IpcResponse_success ''0''), q)" "uq_completed q = [(?i, ''0'')]" using completed_queue [of "''0''"] by auto
  let ?u = "attached_ui\<lparr>us_commands := q\<rparr>"
  let ?v = "?u\<lparr>us_commands := q\<lparr>uq_completed := [(?i, ''0'')]\<rparr>\<rparr>"
  have j: "sv_event_journal (us_core attached_ui) = EventJournal_new ''e''" "us_ui_lease attached_ui = \<lparr>la_leases = [sample_lease]\<rparr>"
      "us_snapshot attached_ui = None"
    by (simp_all add: attached_ui_def fresh_ui_def empty_server_def initial_server_def)
  then have refresh: "complete_refresh (sample_env 1003) ?i (IpcResponse_success ''0'') ?u = Some (Ok (IpcResponse_success ''0''), ?v)"
    using sample_refresh [of ?u 1003 0] sample_store [of ?u ?i "''0''" 1003 0] q(2)
    by (simp add: complete_refresh_def show_zero EventJournal_new_def with_epoch_def)
  obtain u' where d: "complete_detach (sample_env 1003) (lease_id_text 7 1000 1) 42 ?i (IpcResponse_success ''0'') ?v =
     Some (Ok (IpcResponse_success (show_nat (unat (2 :: u64)))), u')" "la_leases (us_ui_lease u') = []"
     "journal_position (sv_event_journal (us_core u')) = \<lparr>pos_epoch = ''e'', pos_sequence = 2\<rparr>"
    using sample_detach [of ?v ?i "''0''" 1003 0] j by (auto simp: show_zero)
  have "validate_ui_client_snapshot (sample_env 1003) (show_nat (unat (2 :: u64))) 42 7 ''e'' 2 = Ok ()"
    using sample_parse [of 1003 2] length_show_base [of 10 "2" 20]
    by (simp add: validate_ui_client_snapshot_def UI_CLIENT_STATE_MAX_BYTES_def sample_snapshot_def show_nat_def json_of_u64_def)
  then have "map_option sr_lease_id (us_snapshot (complete_publish (sample_env 1003) (lease_id_text 7 1000 1) 42
      (IpcResponse_success (show_nat (unat (2 :: u64)))) u')) = Some (lease_id_text 7 1000 1)"
    "us_ui_lease (complete_publish (sample_env 1003) (lease_id_text 7 1000 1) 42
      (IpcResponse_success (show_nat (unat (2 :: u64)))) u') = us_ui_lease u'"
    using sample_projection [of 1003 2] d(3)
    by (simp_all add: complete_publish_def Let_def IpcResponse_success_def) (simp_all add: sample_env_def)
  then show ?thesis unfolding completion_reaches [of "''0''", simplified]
    using q refresh d(1,2)
    by (simp add: ui_complete_command_def completion_values Let_def attached_queue commit_client_ui_action_event_def complete_finish_def)
qed

end
