(* ===== verification/Server_Table_Invariant.thy ===== *)
theory Server_Table_Invariant
  imports Server_Table Server_Ui_Invariant
begin

text \<open>
  What the command table of the server keeps (\<open>Server_Table\<close>): every command works within
  \<open>table_effect\<close>, so the table may stand behind the relay and the GUI handlers; the commands that are
  queries change nothing.
\<close>

section \<open>Effects of the core's operations\<close>

definition core_effect :: "'p ServerState \<Rightarrow> 'p ServerState \<Rightarrow> bool" where
  "core_effect s s' \<longleftrightarrow> sv_control_authority s' = sv_control_authority s
     \<and> (server_ok s \<longrightarrow> length (sv_tabs s) < 2 ^ 32 \<longrightarrow> sv_next_id s \<noteq> - 1 \<longrightarrow> server_ok s' \<and> step_bound s s')
     \<and> core_sequence s \<le> core_sequence s'"

lemma core_effect_refl [simp]: "core_effect s s"
  by (simp add: core_effect_def)

lemma table_effect_refl [simp]: "table_effect u u"
  by (simp add: table_effect_def)

lemma table_effect_core [simp]: "table_effect u (u\<lparr>us_core := s\<rparr>) \<longleftrightarrow> core_effect (us_core u) s"
  by (simp add: table_effect_def core_effect_def)

lemma core_grows_effect: "\<lbrakk> core_grows s s'; sv_control_authority s' = sv_control_authority s \<rbrakk> \<Longrightarrow> core_effect s s'"
  by (simp add: core_grows_def core_effect_def step_bound_def)

lemma commit_authority: "server_commit kind tab_id payload s = Some s' \<Longrightarrow> sv_control_authority s' = sv_control_authority s"
  by (auto dest: server_commitD)

text \<open>Only the poll of the terminals ends submissions and so reaches the control authority.\<close>

fun is_poll :: "'p server_op \<Rightarrow> bool" where
  "is_poll (PollTerminals _) \<longleftrightarrow> True"
| "is_poll _ \<longleftrightarrow> False"

lemma update_tab_authority [simp]: "sv_control_authority (update_tab k f s) = sv_control_authority s"
  by (simp add: update_tab_def)

lemma create_tab_authority:
  assumes c: "create_tab native title command_line env select parent_id s = Some (r, s')"
  shows "sv_control_authority s' = sv_control_authority s"
proof (cases "find (\<lambda>parent. \<not> list_ex (\<lambda>tab. tb_id tab = parent) (sv_tabs s)) (case parent_id of None \<Rightarrow> [] | Some p \<Rightarrow> [p])")
  case (Some p)
  with c show ?thesis by (simp add: create_tab_def)
next
  case found: None
  let ?s1 = "s\<lparr>sv_next_id := saturating_add (sv_next_id s) 1\<rparr>"
  let ?launch = "\<lparr>tlc_id = sv_next_id s, tlc_index = free_index (sv_tabs s), tlc_parent_id = parent_id, tlc_title = title,
      tlc_command_line = command_line, tlc_tab_environment = env, tlc_initial_size = launch_size ?s1\<rparr>"
  show ?thesis
  proof (cases "spawn native ?launch")
    case (Inl e)
    with c found show ?thesis by (auto simp: create_tab_def Let_def)
  next
    case (Inr tab)
    from create_tab_stages [OF c found Inr] obtain s3 s4 where
      3: "s3 = ?s1\<lparr>sv_tabs := push_tab tab (sv_tabs s)\<rparr> \<or> (\<exists>p c. server_commit LayoutTreeCollapse (Some p) c
        (?s1\<lparr>sv_tabs := push_tab tab (sv_tabs s), sv_collapsed_tabs := sv_collapsed_tabs s - {p}\<rparr>) = Some s3)"
      and 4: "\<exists>payload. server_commit TabCreated (Some (sv_next_id s)) payload s3 = Some s4"
      and 5: "s' = s4 \<or> (\<exists>payload. server_commit TabSelected (Some (sv_next_id s)) payload (s4\<lparr>sv_active := Some (sv_next_id s)\<rparr>) = Some s')"
      by metis
    from 3 have "sv_control_authority s3 = sv_control_authority s" by (auto dest: commit_authority)
    moreover from 4 have "sv_control_authority s4 = sv_control_authority s3" by (auto dest: commit_authority)
    moreover from 5 have "sv_control_authority s' = sv_control_authority s4" by (auto dest: commit_authority)
    ultimately show ?thesis by simp
  qed
qed

lemma server_step_authority:
  assumes step: "server_step process take_cwd s op = Some s'" and op: "\<not> is_poll op"
  shows "sv_control_authority s' = sv_control_authority s"
proof (cases op)
  case (CreateTab native title command_line env select parent_id)
  with step show ?thesis by (auto dest: create_tab_authority)
next
  case (MoveTab i p)
  with step show ?thesis by (auto simp: set_tab_parent_def)
next
  case (PrepareCwd i dir mode)
  with step show ?thesis
    by (auto simp: prepare_cwd_def Let_def Option.bind_eq_Some_conv dest!: commit_authority split: option.splits sum.splits prod.splits)
next
  case (SendCwd written now i dir)
  with step show ?thesis
    by (auto simp: send_cwd_now_def Let_def dest!: commit_authority split: option.splits sum.splits prod.splits bool.splits)
next
  case (SendComposer written now k)
  with step show ?thesis
    by (auto simp: send_composer_at_position_def Let_def dest!: commit_authority
      split: option.splits sum.splits prod.splits bool.splits if_splits)
qed (use step op in \<open>auto simp: select_tab_at_def toggle_tab_collapsed_def close_tab_def Let_def dest!: commit_authority
    split: option.splits if_splits\<close>)

lemma server_step_effect:
  assumes "server_step process take_cwd s op = Some s'" and "\<not> is_poll op"
  shows "core_effect s s'"
  unfolding core_effect_def
  using server_step_authority [OF assms] server_step_ok [OF _ _ _ assms(1)]
    journal_extends_sequence [OF server_step_extends [OF assms(1)]] by blast

text \<open>The operations, each as a step of the core.\<close>

lemma core_operation_effects:
  fixes s :: "'p ServerState"
  shows "create_tab native title command_line env select parent_id s = Some (r1, s') \<Longrightarrow> core_effect s s'"
    "select_tab_at k s = Some (r2, s') \<Longrightarrow> core_effect s s'"
    "set_tab_parent i p s = Some (r2, s') \<Longrightarrow> core_effect s s'"
    "toggle_tab_collapsed i s = Some (r2, s') \<Longrightarrow> core_effect s s'"
    "close_tab receipt i s = Some (r3, s') \<Longrightarrow> core_effect s s'"
    "prepare_cwd i dir mode s = Some (r2, s') \<Longrightarrow> core_effect s s'"
    "send_cwd_now written now i dir s = Some (r2, s') \<Longrightarrow> core_effect s s'"
    "k < length (sv_tabs s) \<Longrightarrow> send_composer_at_position written now k s = Some (r4, s') \<Longrightarrow> core_effect s s'"
proof -
  note e = server_step_effect [of "\<lambda>p _. p" "\<lambda>p. (None, p)" s _ s']
  show "create_tab native title command_line env select parent_id s = Some (r1, s') \<Longrightarrow> core_effect s s'"
    using e [of "CreateTab native title command_line env select parent_id"] by simp
  show "select_tab_at k s = Some (r2, s') \<Longrightarrow> core_effect s s'" using e [of "SelectTab k"] by simp
  show "set_tab_parent i p s = Some (r2, s') \<Longrightarrow> core_effect s s'" using e [of "MoveTab i p"] by simp
  show "toggle_tab_collapsed i s = Some (r2, s') \<Longrightarrow> core_effect s s'" using e [of "ToggleCollapsed i"] by simp
  show "close_tab receipt i s = Some (r3, s') \<Longrightarrow> core_effect s s'" using e [of "CloseTab receipt i"] by simp
  show "prepare_cwd i dir mode s = Some (r2, s') \<Longrightarrow> core_effect s s'" using e [of "PrepareCwd i dir mode"] by simp
  show "send_cwd_now written now i dir s = Some (r2, s') \<Longrightarrow> core_effect s s'" using e [of "SendCwd written now i dir"] by simp
  show "k < length (sv_tabs s) \<Longrightarrow> send_composer_at_position written now k s = Some (r4, s') \<Longrightarrow> core_effect s s'"
    using e [of "SendComposer written now k"] by simp
qed

section \<open>Submissions of closed tabs\<close>

text \<open>
  Identifiers of tabs are never given twice, and only the poll of a tab finishes its submission.  So the
  receipt of a composer submission whose tab is closed before Enter was written is never finished: it
  stays in flight in the replay window for as long as the server runs.
\<close>

definition tab_gone :: "u64 \<Rightarrow> 'p ServerState \<Rightarrow> bool" where
  "tab_gone i s \<longleftrightarrow> i \<notin> tb_id ` set (sv_tabs s) \<and> i < sv_next_id s"

lemma outputs_ids: "tb_id ` set (sv_tabs s) = fst ` outputs s"
  by (simp add: outputs_def image_image)

lemma quiet_gone: "\<lbrakk> quiet s s'; tab_gone i s \<rbrakk> \<Longrightarrow> tab_gone i s'"
  by (auto simp: quiet_def tab_gone_def outputs_ids)

lemma create_tab_gone:
  assumes c: "create_tab native title command_line env select parent_id s = Some (r, s')" and gone: "tab_gone i s" and last: "sv_next_id s \<noteq> - 1"
  shows "tab_gone i s'"
proof -
  from create_tab_quiet [OF c] obtain t where t: "quiet t s'"
    "(sv_next_id t = sv_next_id s \<or> sv_next_id t = saturating_add (sv_next_id s) 1) \<and> outputs t = outputs s
     \<or> sv_next_id t = saturating_add (sv_next_id s) 1 \<and> outputs t = insert (sv_next_id s, 0) (outputs s)" .
  have "sv_next_id s < saturating_add (sv_next_id s) 1" using saturating_succ [OF last] by simp
  with t(2) gone have "tab_gone i t" by (auto simp: tab_gone_def outputs_ids)
  with quiet_gone [OF t(1)] show ?thesis .
qed

lemma poll_tab_completed: "(i, e, f) \<in> set (snd (snd (poll_tab process take_cwd input tab))) \<Longrightarrow> i = tb_id tab"
  using tab_node_poll [of process take_cwd "fst input" "fst (snd input)" "snd (snd input)" tab]
  by (auto simp: poll_tab_def Let_def tab_node_def split: prod.splits sum.splits if_splits)

lemma finish_completed_authority:
  assumes "finish_completed s (i, enter, final) = Some s'"
  obtains r journal where "finish_submission (sv_control_authority s) (sv_event_journal s) i enter final = Some (r, sv_control_authority s', journal)"
proof -
  from assms obtain r a journal where f: "finish_submission (sv_control_authority s) (sv_event_journal s) i enter final = Some (r, a, journal)"
    by (auto simp: finish_completed_def)
  with assms have "sv_control_authority s' = a"
    by (cases r; cases "position (\<lambda>tab. tb_id tab = i) (sv_tabs s)") (auto simp: finish_completed_def)
  with f that show ?thesis by blast
qed

lemma finish_submission_other:
  "\<lbrakk> finish_submission a journal k enter final = Some (r, a', journal'); k \<noteq> i \<rbrakk> \<Longrightarrow> ca_pending_submissions a' i = ca_pending_submissions a i"
  by (auto simp: finish_submission_def Let_def split: option.splits sum.splits prod.splits)

lemma finish_completed_other:
  assumes "finish_completed s c = Some s'" and "fst c \<noteq> i"
  shows "ca_pending_submissions (sv_control_authority s') i = ca_pending_submissions (sv_control_authority s) i"
proof -
  obtain k enter final where c: "c = (k, enter, final)" by (cases c)
  from finish_completed_authority [OF assms(1) [unfolded c]] obtain r journal where
    "finish_submission (sv_control_authority s) (sv_event_journal s) k enter final = Some (r, sv_control_authority s', journal)" .
  from finish_submission_other [OF this] assms(2) show ?thesis by (simp add: c)
qed

lemma finish_all_other:
  "\<lbrakk> run_steps finish_completed s cs = Some s'; \<forall>c \<in> set cs. fst c \<noteq> i \<rbrakk> \<Longrightarrow>
   ca_pending_submissions (sv_control_authority s') i = ca_pending_submissions (sv_control_authority s) i"
  by (induction cs arbitrary: s) (auto split: option.splits dest: finish_completed_other)

lemma poll_gone:
  assumes p: "poll_terminals process take_cwd inputs s = Some s'" and gone: "tab_gone i s" and ok: "server_ok s"
  shows "tab_gone i s' \<and> ca_pending_submissions (sv_control_authority s') i = ca_pending_submissions (sv_control_authority s) i"
proof -
  note t = poll_terminals_ok [OF p ok]
  from t have "tb_id ` set (sv_tabs s') = tb_id ` set (sv_tabs s)" by (metis tree_nodes_simps(5))
  with t gone have "tab_gone i s'" by (simp add: tab_gone_def)
  moreover from p obtain tabs journal where
    run: "run_steps finish_completed (s\<lparr>sv_tabs := tabs, sv_event_journal := journal\<rparr>)
       (concat (map (\<lambda>(_, _, completed). completed) (map (\<lambda>tab. poll_tab process take_cwd (inputs (tb_id tab)) tab) (sv_tabs s)))) = Some s'"
    by (auto simp: poll_terminals_def Let_def Option.bind_eq_Some_conv)
  have "fst c \<noteq> i" if "c \<in> set (concat (map (\<lambda>(_, _, completed). completed)
      (map (\<lambda>tab. poll_tab process take_cwd (inputs (tb_id tab)) tab) (sv_tabs s))))" for c
  proof -
    from that obtain tab where tab: "tab \<in> set (sv_tabs s)" "c \<in> set (snd (snd (poll_tab process take_cwd (inputs (tb_id tab)) tab)))"
      by (auto simp: case_prod_beta)
    then have "fst c = tb_id tab" using poll_tab_completed [of "fst c" "fst (snd c)" "snd (snd c)" process take_cwd "inputs (tb_id tab)" tab] by simp
    with tab(1) gone show ?thesis by (auto simp: tab_gone_def)
  qed
  with finish_all_other [OF run, of i] have
    "ca_pending_submissions (sv_control_authority s') i = ca_pending_submissions (sv_control_authority s) i" by simp
  ultimately show ?thesis ..
qed

lemma server_step_gone:
  assumes step: "server_step process take_cwd s op = Some s'" and gone: "tab_gone i s" and ok: "server_ok s" and last: "sv_next_id s \<noteq> - 1"
  shows "tab_gone i s' \<and> ca_pending_submissions (sv_control_authority s') i = ca_pending_submissions (sv_control_authority s) i"
proof (cases "is_poll op")
  case True
  with step poll_gone [OF _ gone ok] show ?thesis by (cases op) auto
next
  case False
  have "tab_gone i s'"
  proof (cases op)
    case (CreateTab native title command_line env select parent_id)
    with step create_tab_gone [OF _ gone last] show ?thesis by auto
  next
    case (SendComposer written now k)
    with step gone show ?thesis by (auto intro: quiet_gone dest: quiet_send_composer split: if_splits)
  qed (use step gone False in \<open>auto intro: quiet_gone dest: quiet_select quiet_set_parent quiet_toggle quiet_close quiet_prepare_cwd
      quiet_send_cwd\<close>)
  with server_step_authority [OF step False] show ?thesis by simp
qed

lemma run_gone:
  "\<lbrakk> run_steps (server_step process take_cwd) s ops = Some s'; server_ok s; tab_gone i s;
     length (sv_tabs s) + length ops \<le> 2 ^ 32; unat (sv_next_id s) + length ops < 2 ^ 64 \<rbrakk> \<Longrightarrow>
   server_ok s' \<and> ca_pending_submissions (sv_control_authority s') i = ca_pending_submissions (sv_control_authority s) i"
proof (induction ops arbitrary: s)
  case Nil
  then show ?case by simp
next
  case (Cons op ops)
  from Cons.prems(1) obtain t where t: "server_step process take_cwd s op = Some t" "run_steps (server_step process take_cwd) t ops = Some s'"
    by (auto split: option.splits)
  have last: "sv_next_id s \<noteq> - 1" using Cons.prems(5) by (auto simp: unsigned_minus_1_eq_mask mask_eq_exp_minus_1)
  note g = server_step_gone [OF t(1) Cons.prems(3,2) last]
  have "server_ok t \<and> step_bound s t" using server_step_ok [OF Cons.prems(2) _ last t(1)] Cons.prems(4) by simp
  with Cons.IH [OF t(2)] Cons.prems(4,5) g show ?case by (simp add: step_bound_def)
qed

text \<open>
  Closing a tab with an accepted submission: whatever the server does afterwards, the request stays
  unfinished in the replay window.
\<close>

lemma closed_tab_submission_never_finishes:
  assumes ok: "server_ok s" and p: "ca_pending_submissions (sv_control_authority s) i = Some p" and tab: "i \<in> tb_id ` set (sv_tabs s)"
    and c: "close_tab receipt i s = Some (Ok receipt, t)" and run: "run_steps (server_step process take_cwd) t ops = Some s'"
    and room: "length (sv_tabs t) + length ops \<le> 2 ^ 32" "unat (sv_next_id t) + length ops < 2 ^ 64"
  shows "\<exists>e. remembered (ca_replay_window (sv_control_authority s')) (rq_request_id (pr_request p)) = Some e \<and> \<not> re_finalized e"
proof -
  have q: "quiet s t" by (rule quiet_close [OF c])
  have "i \<notin> tb_id ` set (sv_tabs t)"
  proof (cases "position (\<lambda>tab. tb_id tab = i) (sv_tabs s)")
    case None
    with c show ?thesis by (simp add: close_tab_def)
  next
    case (Some k)
    from close_tab_split [OF c Some] obtain pre tab post payload active where
      split: "sv_tabs s = pre @ tab # post" "tb_id tab = i" and cl: "server_commit TabClosed (Some i) payload
       (s\<lparr>sv_tabs := map (promote i (tb_parent_id tab)) (pre @ post), sv_collapsed_tabs := sv_collapsed_tabs s - {i}, sv_active := active\<rparr>) = Some t"
      by metis
    have "distinct (map tb_id (sv_tabs s))" using ok by (simp add: server_ok_def nodes_ok_def)
    with split server_commit_fields(1) [OF cl] show ?thesis by auto
  qed
  moreover have "i < sv_next_id s" using ok tab by (auto simp: server_ok_def)
  ultimately have gone: "tab_gone i t" using q by (simp add: tab_gone_def quiet_def)
  have "server_ok t" using close_tab_ok [OF ok c] by simp
  with run_gone [OF run this gone room] p server_step_authority [of "\<lambda>p _. p" "\<lambda>p. (None, p)" s "CloseTab receipt i" t] c
  have "server_ok s'" "ca_pending_submissions (sv_control_authority s') i = Some p" by auto
  then show ?thesis by (fastforce simp: server_ok_def Control_Authority.authority_ok_def pending_ok_def)
qed

section \<open>Effects of the handlers\<close>

definition handler_ok :: "'p handler \<Rightarrow> bool" where
  "handler_ok h \<longleftrightarrow> (\<forall>args u r u'. h args u = Some (r, u') \<longrightarrow> table_effect u u')"

lemma handler_okI: "(\<And>args u r u'. h args u = Some (r, u') \<Longrightarrow> table_effect u u') \<Longrightarrow> handler_ok h"
  by (simp add: handler_ok_def)

lemma resolved_position_bound: "resolve_target_position tabs active target = Some k \<Longrightarrow> k < length tabs"
  by (auto simp: resolve_target_position_def Let_def Option.bind_eq_Some_conv dest!: position_SomeD split: option.splits)

lemma target_position_bound: "target_position args u = Some k \<Longrightarrow> k < length (ui_tabs u)"
  unfolding target_position_def by (rule resolved_position_bound)

lemma active_position_bound: "active_position u = Some k \<Longrightarrow> k < length (ui_tabs u)"
  unfolding active_position_def by (rule resolved_position_bound)

lemma at_target_effect:
  assumes "at_target missing f args u = Some (r, u')"
    and "\<And>k r u'. \<lbrakk> k < length (ui_tabs u); f k u = Some (r, u') \<rbrakk> \<Longrightarrow> table_effect u u'"
  shows "table_effect u u'"
  using assms by (auto simp: at_target_def dest: target_position_bound split: option.splits)

lemma on_core_effect:
  assumes "on_core result f u = Some (r, u')" and "\<And>r s. result = Some (r, s) \<Longrightarrow> core_effect (us_core u) s"
  shows "table_effect u u'"
  using assms by (auto simp: on_core_def)

lemma set_tab_grows:
  assumes "tab_node tab = tab_node (ui_tabs u ! k)"
  shows "core_grows (us_core u) (us_core (set_tab k tab u))"
proof -
  have "server_ok ((us_core u)\<lparr>sv_tabs := (ui_tabs u)[k := tab]\<rparr>) \<longleftrightarrow> server_ok (us_core u)"
    by (intro server_ok_tabs tree_nodes_update assms)
  then show ?thesis by (simp add: core_grows_def set_tab_def)
qed

lemma set_tab_effect:
  assumes "tab_node tab = tab_node (ui_tabs u ! k)"
  shows "table_effect u (set_tab k tab u)"
  using core_grows_effect [OF set_tab_grows [OF assms]] by (simp add: set_tab_def)

lemma send_tab_effect: "tab_send written bytes (ui_tabs u ! k) = (r, tab) \<Longrightarrow> table_effect u (set_tab k tab u)"
  by (rule set_tab_effect [OF tab_node_sendD])

lemma set_tab_commit_effect:
  assumes c: "ui_commit kind tab_id payload (set_tab k tab u) = Some u'" and node: "tab_node tab = tab_node (ui_tabs u ! k)"
  shows "table_effect u u'"
proof -
  from c obtain s where s: "server_commit kind tab_id payload (us_core (set_tab k tab u)) = Some s" "u' = (set_tab k tab u)\<lparr>us_core := s\<rparr>"
    by (auto simp: ui_commit_def)
  have "core_effect (us_core u) s"
    using core_grows_effect [OF core_grows_trans [OF set_tab_grows [OF node] server_commit_grows [OF s(1)]]] commit_authority [OF s(1)]
    by (simp add: set_tab_def)
  then show ?thesis by (simp add: s(2) set_tab_def)
qed

lemma session_name_effect: "table_effect u (set_session_name name v) \<longleftrightarrow> table_effect u v"
  by (simp add: set_session_name_def table_effect_def server_ok_def step_bound_def split: option.splits)

lemma launch_tab_effect:
  assumes "launch_tab host args title child_command environment select parent_id session error_prefix u = Some (r, u')"
  shows "table_effect u u'"
proof -
  from assms obtain r1 s where c: "create_tab (th_native host) title child_command environment select parent_id (us_core u) = Some (r1, s)"
    by (cases "create_tab (th_native host) title child_command environment select parent_id (us_core u)") (auto simp: launch_tab_def)
  with assms have u': "u' = u\<lparr>us_core := s\<rparr> \<or> u' = set_session_name session (u\<lparr>us_core := s\<rparr>)"
    by (cases r1) (auto simp: launch_tab_def created_tab_def split: option.splits)
  from core_operation_effects(1) [OF c] u' show ?thesis by (auto simp: session_name_effect)
qed

lemma send_keys_loop_effect:
  "send_keys_loop written literal k n keys u = (r, u') \<Longrightarrow>
   core_grows (us_core u) (us_core u') \<and> sv_control_authority (us_core u') = sv_control_authority (us_core u)
     \<and> u' = u\<lparr>us_core := us_core u'\<rparr>"
proof (induction keys arbitrary: n u)
  case Nil
  then show ?case by simp
next
  case (Cons key keys)
  obtain sent tab where t: "tab_send (written n) (key_bytes literal key) (ui_tabs u ! k) = (sent, tab)" by fastforce
  note g = set_tab_grows [OF tab_node_sendD [OF t]]
  have f: "sv_control_authority (us_core (set_tab k tab u)) = sv_control_authority (us_core u)"
    "(set_tab k tab u)\<lparr>us_core := s\<rparr> = u\<lparr>us_core := s\<rparr>" for s by (simp_all add: set_tab_def)
  show ?case
  proof (cases sent)
    case True
    with Cons.prems t have "send_keys_loop written literal k (Suc n) keys (set_tab k tab u) = (r, u')" by simp
    from Cons.IH [OF this] g f show ?thesis by (auto intro: core_grows_trans)
  next
    case False
    with Cons.prems t have "u' = set_tab k tab u" by simp
    with g show ?thesis by (simp add: set_tab_def)
  qed
qed

lemma buffers_effect [simp]: "table_effect u (u\<lparr>us_named_buffers := store\<rparr>)"
  by (simp add: table_effect_def)

lemma buffer_stored_effect: "buffer_stored x u = Some (r, u') \<Longrightarrow> table_effect u u'"
  by (auto simp: buffer_stored_def split: prod.splits sum.splits)

lemma kill_all_effect: "kill_all host u = Some (r, u') \<Longrightarrow> table_effect u u'"
  by (auto simp: kill_all_def Let_def table_effect_def server_ok_def nodes_ok_def parents_known_def step_bound_def)

lemma select_position_effect: "select_position k u = Some (r, u') \<Longrightarrow> table_effect u u'"
  by (auto simp: select_position_def dest: core_operation_effects elim!: on_core_effect)

lemma select_adjacent_effect: "select_adjacent host direction missing u = Some (r, u') \<Longrightarrow> table_effect u u'"
  by (cases "adjacent_tab_position host direction u")
    (auto simp: select_adjacent_def dest: select_position_effect split: sum.splits option.splits)

lemma send_composer_at_effect: "\<lbrakk> send_composer_at host f k u = Some (r, u'); k < length (ui_tabs u) \<rbrakk> \<Longrightarrow> table_effect u u'"
  by (auto simp: send_composer_at_def dest: core_operation_effects elim!: on_core_effect)

lemma apply_set_composer_effect: "apply_set_composer k draft u = Some (r, u') \<Longrightarrow> table_effect u u'"
  by (auto simp: apply_set_composer_def Let_def intro: set_tab_commit_effect split: if_splits)

subsection \<open>Handlers that read\<close>

text \<open>A handler that answers from the state and leaves it as it is.\<close>

definition reads_only :: "'p handler \<Rightarrow> bool" where
  "reads_only h \<longleftrightarrow> (\<forall>args u r u'. h args u = Some (r, u') \<longrightarrow> u' = u)"

lemma at_target_reads: "\<lbrakk> at_target missing f args u = Some (r, u'); \<And>k r u'. f k u = Some (r, u') \<Longrightarrow> u' = u \<rbrakk> \<Longrightarrow> u' = u"
  by (auto simp: at_target_def split: option.splits)

lemma read_handlers_read: "list_all (reads_only \<circ> snd) (read_handlers env host)"
  unfolding read_handlers_def list.pred_inject comp_def snd_conv reads_only_def
  by (intro conjI allI impI)
    (auto simp: list_sessions_def has_session_def list_windows_def list_panes_def show_buffer_def list_buffers_def save_buffer_def
      active_window_def display_message_def read_events_def list_tab_tree_def workspace_info_def show_tab_note_def show_tab_parent_def
      show_composer_def set_setting_def Let_def elim!: at_target_reads split: option.splits sum.splits if_splits)

lemma reads_only_ok: "reads_only h \<Longrightarrow> handler_ok h"
  unfolding reads_only_def handler_ok_def using table_effect_refl by metis

subsection \<open>Handlers that write\<close>

lemma input_handlers_ok:
  assumes "shared_ok (th_other host)"
  shows "handler_ok (send_keys host)" "handler_ok (paste_buffer host)"
proof -
  have other: "table_effect u u'" if "th_other host args u = Some (r, u')" for args u r u'
    using assms that unfolding shared_ok_def by blast
  have loop: "table_effect u u'" if "send_keys_loop written literal k n keys u = (r, u')" for written literal k n keys u r u'
    using send_keys_loop_effect [OF that] core_grows_effect table_effect_core by metis
  show "handler_ok (send_keys host)"
    by (rule handler_okI) (auto simp: send_keys_def elim!: at_target_effect dest: other loop split: if_splits prod.splits)
  show "handler_ok (paste_buffer host)"
    by (rule handler_okI) (auto simp: paste_buffer_def elim!: at_target_effect
      intro: send_tab_effect split: if_splits sum.splits prod.splits bool.splits)
qed

lemma buffer_handlers_ok: "handler_ok set_buffer" "handler_ok (load_buffer host)" "handler_ok delete_buffer"
  by (rule handler_okI, auto simp: set_buffer_def load_buffer_def delete_buffer_def Let_def dest: buffer_stored_effect
    split: if_splits list.splits sum.splits prod.splits)+

lemma launch_handlers_ok: "handler_ok (new_window host)" "handler_ok (new_agent host)"
  by (rule handler_okI, case_tac "parse_new_command args",
    auto simp: new_window_def new_agent_def Let_def dest: launch_tab_effect split: sum.splits)+

lemma tab_handlers_ok:
  "handler_ok (select_window host)" "handler_ok (next_window host)" "handler_ok (kill_window env host)" "handler_ok rename_session"
  "handler_ok (kill_server host)" "handler_ok rename_window" "handler_ok set_tab_note" "handler_ok set_tab_parent_command"
  "handler_ok (focus env host)"
proof -
  show "handler_ok (select_window host)" "handler_ok (next_window host)"
    by (rule handler_okI, auto simp: select_window_def next_window_def elim!: at_target_effect
      dest: select_adjacent_effect select_position_effect split: if_splits)+
  show "handler_ok (kill_window env host)" "handler_ok set_tab_parent_command"
    by (rule handler_okI, auto simp: kill_window_def set_tab_parent_command_def Let_def elim!: at_target_effect on_core_effect
      dest: core_operation_effects split: option.splits sum.splits)+
  show "handler_ok (focus env host)"
    by (rule handler_okI) (auto simp: focus_def Let_def elim!: on_core_effect dest: core_operation_effects split: option.splits)
  show "handler_ok rename_session" "handler_ok (kill_server host)"
    by (rule handler_okI, auto simp: rename_session_def kill_server_def session_name_effect dest: kill_all_effect
      split: option.splits if_splits)+
  show "handler_ok rename_window" "handler_ok set_tab_note"
    by (rule handler_okI, auto simp: rename_window_def set_tab_note_def Let_def elim!: at_target_effect
      intro: set_tab_commit_effect split: option.splits)+
qed

lemma draft_handlers_ok:
  "handler_ok (cwd_prepare env host)" "handler_ok (cwd_send_now env host)" "handler_ok set_composer" "handler_ok (send_composer host)"
proof -
  show "handler_ok (cwd_prepare env host)" "handler_ok (cwd_send_now env host)"
    by (rule handler_okI, auto simp: cwd_prepare_def cwd_send_now_def elim!: at_target_effect on_core_effect
      dest: core_operation_effects split: option.splits sum.splits)+
  show "handler_ok set_composer" "handler_ok (send_composer host)"
    by (rule handler_okI, auto simp: set_composer_def send_composer_def elim!: at_target_effect
      dest: apply_set_composer_effect send_composer_at_effect split: if_splits)+
qed

lemma action_new_tab_effect: "action_new_tab env host title parent_id u = Some (r, u') \<Longrightarrow> table_effect u u'"
  by (auto simp: action_new_tab_def elim!: on_core_effect dest: core_operation_effects)

lemma target_or_active_bound: "target_or_active args u = Some k \<Longrightarrow> k < length (ui_tabs u)"
  by (auto simp: target_or_active_def dest: target_position_bound active_position_bound split: option.splits)

lemma action_handlers_ok:
  fixes host :: "'p TableHost"
  shows "list_all (handler_ok \<circ> snd) (action_handlers env host)"
proof -
  have "handler_ok (\<lambda>args. action_new_tab env host None None)" "handler_ok (action_new_child env host)"
    by (rule handler_okI, auto simp: action_new_child_def dest: action_new_tab_effect split: option.splits)+
  moreover have "handler_ok (action_select_tab env host)" "handler_ok (action_close_tab env host)" "handler_ok (action_toggle_tree env host)"
    by (rule handler_okI, auto simp: action_select_tab_def action_close_tab_def action_toggle_tree_def Let_def
      elim!: at_target_effect on_core_effect dest: core_operation_effects)+
  moreover have "handler_ok (action_composer_send env host)"
    by (rule handler_okI) (auto simp: action_composer_send_def dest: send_composer_at_effect target_or_active_bound split: option.splits)
  moreover have "handler_ok (action_set_width :: 'p handler)" "handler_ok (action_edit_tab :: 'p handler)"
    "handler_ok (action_picker_select :: 'p handler)" "handler_ok (action_server_tab :: 'p handler)"
    by (rule handler_okI, auto simp: action_set_width_def action_edit_tab_def action_picker_select_def action_server_tab_def
      elim!: at_target_effect split: if_splits)+
  moreover have "handler_ok (\<lambda>args u. reply (ui_snapshot_response env host u) u)" "handler_ok (refused message :: 'p handler)" for message
    by (rule handler_okI, auto simp: refused_def)+
  ultimately show ?thesis by (simp add: action_handlers_def list_all_iff case_prod_beta)
qed

lemma find_handler_ok:
  assumes "find_handler name handlers = Some h" and "list_all (P \<circ> snd) handlers"
  shows "P h"
  using assms by (auto simp: find_handler_def list_all_iff find_Some_iff) (metis nth_mem snd_conv)

lemma ui_actions_ok: "handler_ok (dispatch_shared_ui_action env host)"
proof (rule handler_okI)
  fix args u r u'
  assume d: "dispatch_shared_ui_action env host args u = Some (r, u')"
  show "table_effect u u'"
  proof (cases "\<exists>name act more h. args = name # act # more \<and> find_handler act (action_handlers env host) = Some h")
    case True
    then obtain name act more h where h: "args = name # act # more" "find_handler act (action_handlers env host) = Some h" by blast
    from find_handler_ok [OF h(2) action_handlers_ok] d h show ?thesis
      by (simp add: dispatch_shared_ui_action_def handler_ok_def)
  next
    case False
    with d show ?thesis by (auto simp: dispatch_shared_ui_action_def split: list.splits option.splits)
  qed
qed

lemma write_handlers_ok: "shared_ok (th_other host) \<Longrightarrow> list_all (handler_ok \<circ> snd) (write_handlers env host)"
  by (simp add: write_handlers_def input_handlers_ok buffer_handlers_ok launch_handlers_ok tab_handlers_ok draft_handlers_ok ui_actions_ok)

section \<open>The table\<close>

lemma table_lookup_ok:
  assumes "shared_ok (th_other host)" and "find_handler name (read_handlers env host @ write_handlers env host) = Some h"
  shows "handler_ok h"
proof (rule find_handler_ok [OF assms(2)])
  show "list_all (handler_ok \<circ> snd) (read_handlers env host @ write_handlers env host)"
    using write_handlers_ok [OF assms(1), of env] read_handlers_read [of env host] reads_only_ok by (auto simp: list_all_iff)
qed

lemma command_table_ok:
  assumes other: "shared_ok (th_other host)"
  shows "shared_ok (dispatch_shared_command env host)"
  unfolding shared_ok_def
proof (intro allI impI)
  fix args u r u'
  assume d: "dispatch_shared_command env host args u = Some (r, u')"
  show "table_effect u u'"
  proof (cases "\<exists>name more h. args = name # more \<and> find_handler name (read_handlers env host @ write_handlers env host) = Some h")
    case True
    then obtain name more h where "args = name # more" "find_handler name (read_handlers env host @ write_handlers env host) = Some h" by blast
    with table_lookup_ok [OF other this(2)] d show ?thesis by (simp add: dispatch_shared_command_def handler_ok_def)
  next
    case False
    with d other show ?thesis
      by (auto simp: dispatch_shared_command_def shared_ok_def split: list.splits option.splits if_splits)
  qed
qed

end
