(* ===== verification/Server_Request_Invariant.thy ===== *)
theory Server_Request_Invariant
  imports Server_Request Server_Table_Invariant
begin

text \<open>
  The whole server: requests, terminals and GUI clients together (\<open>Server_Request\<close>).  Every turn of its
  loop keeps the invariant of the core, the leases and the relay, and moves the control authority along
  its own state machine; so a retried request receives its first answer and changes nothing.
\<close>

section \<open>Commands\<close>

text \<open>A world in which the server runs: its process and a table that keeps to its effects.\<close>

definition host_ok :: "u32 \<Rightarrow> 'p RequestHost \<Rightarrow> bool" where
  "host_ok pid host \<longleftrightarrow> env_process_id (rh_env host) = pid \<and> shared_ok (th_other (rh_table host))"

lemma host_table_ok: "host_ok pid host \<Longrightarrow> shared_ok (command_table host)"
  by (simp add: host_ok_def command_table_ok)

text \<open>Room for one more tab, lease and relayed command.\<close>

definition has_room :: "'p UiServerState \<Rightarrow> bool" where
  "has_room u \<longleftrightarrow> length (ui_tabs u) < 2 ^ 32 \<and> sv_next_id (us_core u) \<noteq> - 1 \<and> uq_next_id (us_commands u) \<noteq> - 1"

lemma ui_commit_keeps:
  assumes "ui_commit kind tab_id payload u = Some u'" and "ui_pending_ok pid n away u"
  shows "ui_pending_ok pid n away u' \<and> ui_grows u u'"
  using ui_commit_ok [OF assms] by simp

lemma persist_workspace_keeps:
  assumes "persist_workspace host u = Some (r, u')" and "ui_pending_ok pid n away u"
  shows "ui_pending_ok pid n away u' \<and> ui_grows u u'"
  using assms ui_commit_keeps [OF _ assms(2)] by (auto simp: persist_workspace_def split: sum.splits)

lemma shutdown_flag_ok [simp]:
  "ui_pending_ok pid n away (u\<lparr>us_shutdown_requested := b\<rparr>) \<longleftrightarrow> ui_pending_ok pid n away u"
  "ui_grows u (v\<lparr>us_shutdown_requested := b\<rparr>) \<longleftrightarrow> ui_grows u v"
  by (simp_all add: ui_pending_ok_def ui_grows_def)

lemma shutdown_keeps:
  assumes c: "shutdown_command host u = Some (r, u')" and ok: "ui_pending_ok pid n away u"
  shows "ui_pending_ok pid n away u' \<and> ui_grows u u'"
proof -
  from c obtain s v where p: "persist_workspace host u = Some (s, v)"
    by (cases "persist_workspace host u") (auto simp: shutdown_command_def)
  note v = persist_workspace_keeps [OF p ok]
  have "u' = v \<or> (\<exists>payload w. ui_commit WorkspaceShutdown None payload v = Some w \<and> u' = w\<lparr>us_shutdown_requested := True\<rparr>)"
    using c p by (auto simp: shutdown_command_def split: sum.splits)
  then show ?thesis using v ui_commit_keeps [OF _ conjunct1 [OF v]] by (auto intro: ui_grows_trans)
qed

lemma server_command_keeps:
  assumes c: "server_command host args u = Some (r, u')" and ok: "ui_pending_ok pid n away u"
  shows "ui_pending_ok pid n away u' \<and> ui_grows u u'"
proof -
  consider "u' = u" | "save_workspace_command host u = Some (r, u')" | "shutdown_command host u = Some (r, u')"
    using c by (auto simp: server_command_def split: list.splits if_splits)
  then show ?thesis
  proof cases
    case 1
    with ok show ?thesis by simp
  next
    case 2
    then obtain s where "persist_workspace host u = Some (s, u')" by (cases "persist_workspace host u") (auto simp: save_workspace_command_def split: sum.splits)
    from persist_workspace_keeps [OF this ok] show ?thesis .
  next
    case 3
    from shutdown_keeps [OF this ok] show ?thesis .
  qed
qed

lemma table_command_keeps:
  assumes ok: "ui_pending_ok pid n away u" and host: "host_ok pid host" and room: "has_room u"
    and c: "Option.bind (command_table host args u) (\<lambda>(answer, u).
               case answer of Some response \<Rightarrow> Some (response, u) | None \<Rightarrow> server_command host args u) = Some (r, u')"
  shows "ui_pending_ok pid n away u' \<and> ui_keeps u u'"
proof -
  from c obtain answer v where v: "command_table host args u = Some (answer, v)" by (cases "command_table host args u") auto
  have "table_effect u v" using host_table_ok [OF host] v unfolding shared_ok_def by blast
  from table_effect_ok [OF this ok] room have t: "ui_pending_ok pid n away v" "ui_keeps u v" by (simp_all add: has_room_def)
  show ?thesis
  proof (cases answer)
    case (Some response)
    with c v t show ?thesis by simp
  next
    case None
    with c v have "server_command host args v = Some (r, u')" by simp
    from server_command_keeps [OF this t(1)] t(2) show ?thesis
      by (auto simp: ui_keeps_def ui_bound_def ui_grows_def core_grows_def step_bound_def)
  qed
qed

text \<open>Only a completion may detach its client after the lease is gone.\<close>

definition args_ok :: "(string \<times> u32) set \<Rightarrow> string list \<Rightarrow> bool" where
  "args_ok away args \<longleftrightarrow> (has_option args ''--detach'' \<longrightarrow> away = UNIV)"

lemma execute_command_keeps:
  assumes ok: "ui_pending_ok pid n away u" and host: "host_ok pid host" and room: "has_room u" and n: "n < 2 ^ 64"
    and args: "args_ok away args" and c: "execute_command host args u = Some (r, u')"
  shows "(\<exists>m \<le> Suc n. ui_pending_ok pid m away u') \<and> ui_keeps u u'"
proof -
  have keep: ?thesis if "ui_pending_ok pid n away u' \<and> ui_keeps u u'" using that le_Suc_eq by blast
  consider (same) "u' = u" | (lease) "execute_ui_lease_command (rh_env host) args u = Some (r, u')"
    | (state) "execute_ui_client_state_command (rh_env host) args u = (r, u')"
    | (client) "execute_ui_client_command (rh_env host) (rh_validate host) (command_table host) args u = Some (r, u')"
    | (relay) "enqueue_ui_client_command (rh_env host) (command_table host) args u = Some (r, u')"
    | (interact) "execute_ui_interaction_command (rh_env host) (rh_set_size host) (th_written (rh_table host) 0)
                    (rh_native_error host) args u = Some (r, u')"
    | (table) "Option.bind (command_table host args u) (\<lambda>(answer, u).
               case answer of Some response \<Rightarrow> Some (response, u) | None \<Rightarrow> server_command host args u) = Some (r, u')"
    using c unfolding execute_command_def Let_def by (auto split: sum.splits if_splits)
  then show ?thesis
  proof cases
    case same
    with ok show ?thesis by (intro keep) simp
  next
    case lease
    from execute_ui_lease_command_ok [OF ok n _ lease] host show ?thesis by (auto simp: host_ok_def dest: ui_grows_keeps)
  next
    case state
    with execute_ui_client_state_command_ok [OF ok, of "rh_env host" args] show ?thesis
      by (intro keep) (auto dest: ui_grows_keeps)
  next
    case client
    from execute_ui_client_command_ok [OF ok client host_table_ok [OF host]] args room show ?thesis
      by (intro keep) (auto simp: args_ok_def has_room_def)
  next
    case relay
    from relay_ok [OF ok host_table_ok [OF host] relay] room show ?thesis by (intro keep) (simp add: has_room_def)
  next
    case interact
    from execute_ui_interaction_command_ok [OF ok interact] show ?thesis by (intro keep) (simp add: ui_grows_keeps)
  next
    case table
    from table_command_keeps [OF ok host room table] show ?thesis by (intro keep)
  qed
qed

section \<open>Requests\<close>

text \<open>The worlds of a run share the operation catalogue and the encoder.\<close>

definition envelope_ok :: "operation_lookup \<Rightarrow> (string list \<Rightarrow> string + u8 list) \<Rightarrow> u32 \<Rightarrow> (string \<times> u32) set \<Rightarrow> 'p envelope \<Rightarrow> bool" where
  "envelope_ok ofa to_vec pid away e \<longleftrightarrow>
     (case e of (host, request) \<Rightarrow> host_ok pid host \<and> rh_operation_for_args host = ofa \<and> rh_to_vec host = to_vec
        \<and> args_ok away (iq_args request))"

abbreviation ui_authority :: "'p UiServerState \<Rightarrow> ControlAuthority" where
  "ui_authority u \<equiv> sv_control_authority (us_core u)"

lemma set_authority_ok:
  "\<lbrakk> ui_pending_ok pid n away u; Control_Authority.authority_ok a \<rbrakk> \<Longrightarrow> ui_pending_ok pid n away (set_authority a u)"
  by (simp add: ui_pending_ok_def server_ok_def)

lemma ui_ok_control: "ui_pending_ok pid n away u \<Longrightarrow> Control_Authority.authority_ok (ui_authority u)"
  by (simp add: ui_pending_ok_def server_ok_def)

lemma set_authority_bound [simp]:
  "ui_bound (set_authority a u) v \<longleftrightarrow> ui_bound u v" "ui_bound u (set_authority a v) \<longleftrightarrow> ui_bound u v"
  "has_room (set_authority a u) \<longleftrightarrow> has_room u"
  by (simp_all add: ui_bound_def step_bound_def has_room_def)

lemma set_authority_same [simp]: "a = ui_authority u \<Longrightarrow> set_authority a u = u"
  by simp

lemma authority_ok_admitted:
  assumes ok: "Control_Authority.authority_ok a" and adm: "admit (ca_replay_window a) c now = (Execute rc, w)"
  shows "Control_Authority.authority_ok (a\<lparr>ca_replay_window := w\<rparr>)"
proof -
  have win: "window_ok (ca_replay_window a)" using ok by (simp add: Control_Authority.authority_ok_def)
  then show ?thesis using admit_ok [OF win adm] pending_ok_execute [OF _ win adm] ok
    by (simp add: Control_Authority.authority_ok_def)
qed

text \<open>A request is one step of the control authority, which its command does not touch.\<close>

definition request_step ::
  "operation_lookup \<Rightarrow> (string list \<Rightarrow> string + u8 list) \<Rightarrow> ControlRequest option \<Rightarrow> ControlAuthority \<Rightarrow> ControlAuthority \<Rightarrow> bool" where
  "request_step ofa to_vec control a a' \<longleftrightarrow>
     (\<exists>l. authority_step ofa to_vec a l a' \<and> (\<forall>c r. l = Ran c r \<longrightarrow> control = Some c))"

lemma run_controlled_parts:
  assumes "run_controlled host args c u = Some (r, u')"
  obtains response v resolved b af wait a where "execute_command host args u = Some (response, v)"
    "authority_complete (ui_authority v) c response resolved b af wait = (r, a)" "u' = set_authority a v"
    "wait = submission_wait v c (ir_ok response) resolved af"
proof (cases "execute_command host args u")
  case None
  with assms show ?thesis by (simp add: run_controlled_def Let_def)
next
  case (Some x)
  obtain response v where x: "x = (response, v)" by (cases x)
  let ?resolved = "answered_tab response (resolved_control_target host args u)"
  obtain r' a where "authority_complete (ui_authority v) c response ?resolved (control_event_position u) (control_event_position v)
      (submission_wait v c (ir_ok response) ?resolved (control_event_position v)) = (r', a)" by fastforce
  with assms Some x that show ?thesis by (simp add: run_controlled_def Let_def)
qed

lemma execute_request_keeps:
  assumes ok: "ui_pending_ok pid n away u" and e: "envelope_ok ofa to_vec pid away (host, request)" and room: "has_room u"
    and n: "n < 2 ^ 64" and c: "execute_request host request u = Some (r, u')"
  shows "(\<exists>m \<le> Suc n. ui_pending_ok pid m away u') \<and> ui_bound u u'
    \<and> request_step ofa to_vec (iq_control request) (ui_authority u) (ui_authority u')"
proof -
  have host: "host_ok pid host" "args_ok away (iq_args request)" and par: "rh_operation_for_args host = ofa" "rh_to_vec host = to_vec"
    using e by (simp_all add: envelope_ok_def)
  note auth = ui_ok_control [OF ok]
  obtain adm a where adm: "authority_admit ofa to_vec (ui_authority u) (iq_control request) (iq_args request) (env_now (rh_env host)) = (adm, a)"
    by fastforce
  from adm auth show ?thesis
  proof (cases rule: authority_admit_cases)
    case answered
    then have step: "request_step ofa to_vec (iq_control request) (ui_authority u) (ui_authority u)"
      using authority_step.answered [OF adm] by (auto simp: request_step_def)
    show ?thesis
    proof (cases adm)
      case Uncontrolled
      with c adm answered par have "execute_command host (iq_args request) u = Some (r, u')" by (simp add: execute_request_def)
      from execute_command_keeps [OF ok host(1) room n host(2) this] step show ?thesis by (auto simp: ui_keeps_def)
    next
      case (Respond response)
      with c adm answered par have "u' = u" by (simp add: execute_request_def)
      with ok step show ?thesis using le_Suc_eq by (auto simp: ui_bound_def)
    qed (use answered in auto)
  next
    case (execute control w)
    let ?a = "(ui_authority u)\<lparr>ca_replay_window := w\<rparr>"
    let ?u = "set_authority ?a u"
    have "run_controlled host (iq_args request) control ?u = Some (r, u')" using c adm execute par by (simp add: execute_request_def)
    then obtain response v resolved b af wait a' where v: "execute_command host (iq_args request) ?u = Some (response, v)"
      "authority_complete (ui_authority v) control response resolved b af wait = (r, a')" "u' = set_authority a' v"
      by (rule run_controlled_parts)
    have "ui_pending_ok pid n away ?u" using set_authority_ok [OF ok authority_ok_admitted [OF auth execute(6)]] .
    from execute_command_keeps [OF this host(1) _ n host(2) v(1)] room obtain m where
      m: "m \<le> Suc n" "ui_pending_ok pid m away v" "ui_bound u v" "ui_authority v = ?a" by (auto simp: ui_keeps_def)
    from v(2) m(4) have comp: "authority_complete ?a control response resolved b af wait = (r, a')" by simp
    have "Control_Authority.authority_ok a'" by (rule authority_ok_ran [OF auth execute(6) comp])
    with m v(3) set_authority_ok have "ui_pending_ok pid m away u'" by simp
    moreover have "request_step ofa to_vec (iq_control request) (ui_authority u) (ui_authority u')"
      using authority_step.ran [of ofa to_vec "ui_authority u" control "iq_args request" "env_now (rh_env host)" ?a, OF _ comp] adm execute v(3)
      by (auto simp: request_step_def intro!: exI [of _ "Ran control r"])
    ultimately show ?thesis using m v(3) by auto
  qed
qed

section \<open>Turns\<close>

text \<open>Steps of the control authority that execute only requests of a set.\<close>

definition authority_run ::
  "operation_lookup \<Rightarrow> (string list \<Rightarrow> string + u8 list) \<Rightarrow> ControlRequest set \<Rightarrow> ControlAuthority \<Rightarrow> ControlAuthority \<Rightarrow> bool" where
  "authority_run ofa to_vec cs a a' \<longleftrightarrow>
     (\<exists>ls. path (authority_step ofa to_vec) a ls a' \<and> (\<forall>c r. Ran c r \<in> set ls \<longrightarrow> c \<in> cs))"

lemma authority_run_refl [simp]: "authority_run ofa to_vec cs a a"
  unfolding authority_run_def by (intro exI [of _ "[]"]) simp

lemma authority_run_trans:
  assumes "authority_run ofa to_vec cs a b" and "authority_run ofa to_vec ds b c"
  shows "authority_run ofa to_vec (cs \<union> ds) a c"
proof -
  from assms obtain ls ks where "path (authority_step ofa to_vec) a ls b" "\<forall>c r. Ran c r \<in> set ls \<longrightarrow> c \<in> cs"
    "path (authority_step ofa to_vec) b ks c" "\<forall>c r. Ran c r \<in> set ks \<longrightarrow> c \<in> ds" by (auto simp: authority_run_def)
  then show ?thesis unfolding authority_run_def by (intro exI [of _ "ls @ ks"]) (auto simp: path_append_iff)
qed

lemma authority_run_mono: "\<lbrakk> authority_run ofa to_vec cs a b; cs \<subseteq> ds \<rbrakk> \<Longrightarrow> authority_run ofa to_vec ds a b"
  unfolding authority_run_def by blast

lemma request_step_run: "request_step ofa to_vec control a a' \<Longrightarrow> authority_run ofa to_vec (set_option control) a a'"
  unfolding request_step_def authority_run_def
  by (elim exE conjE, rule_tac x = "[l]" in exI) (auto simp: path_Cons_iff)

definition controls :: "'p envelope list \<Rightarrow> ControlRequest set" where
  "controls es = {c. \<exists>e \<in> set es. iq_control (snd e) = Some c}"

lemma controls_simps [simp]: "controls [] = {}" "controls (e # es) = set_option (iq_control (snd e)) \<union> controls es"
  "controls (es @ fs) = controls es \<union> controls fs"
  by (auto simp: controls_def)

lemma controls_mono: "set es \<subseteq> set fs \<Longrightarrow> controls es \<subseteq> controls fs"
  by (auto simp: controls_def)

lemma finish_completed_run:
  assumes "finish_completed s c = Some s'"
  shows "authority_run ofa to_vec {} (sv_control_authority s) (sv_control_authority s')"
proof -
  obtain i enter final where c: "c = (i, enter, final)" by (cases c)
  from finish_completed_authority [OF assms [unfolded c]] obtain r journal where
    f: "finish_submission (sv_control_authority s) (sv_event_journal s) i enter final = Some (r, sv_control_authority s', journal)" .
  from authority_step.finished [OF f, of ofa to_vec] show ?thesis
    unfolding authority_run_def by (intro exI [of _ "[Finished i r]"]) (simp add: path_Cons_iff)
qed

lemma finish_all_run:
  "run_steps finish_completed s cs = Some s' \<Longrightarrow> authority_run ofa to_vec {} (sv_control_authority s) (sv_control_authority s')"
proof (induction cs arbitrary: s)
  case Nil
  then show ?case by simp
next
  case (Cons c cs)
  from Cons.prems obtain t where t: "finish_completed s c = Some t" "run_steps finish_completed t cs = Some s'" by (auto split: option.splits)
  from authority_run_trans [OF finish_completed_run [OF t(1)] Cons.IH [OF t(2)]] show ?case by simp
qed

text \<open>Polling the terminals only finishes submissions.\<close>

lemma poll_run:
  assumes "poll_terminals process take_cwd inputs s = Some s'"
  shows "authority_run ofa to_vec {} (sv_control_authority s) (sv_control_authority s')"
proof -
  from assms obtain tabs journal completed where
    "run_steps finish_completed (s\<lparr>sv_tabs := tabs, sv_event_journal := journal\<rparr>) completed = Some s'"
    by (auto simp: poll_terminals_def Let_def Option.bind_eq_Some_conv)
  from finish_all_run [OF this] show ?thesis by simp
qed

lemma poll_keeps:
  assumes ok: "ui_pending_ok pid n away u" and p: "poll_terminals process take_cwd inputs (us_core u) = Some s"
  shows "ui_pending_ok pid n away (u\<lparr>us_core := s\<rparr>) \<and> length (sv_tabs s) = length (ui_tabs u) \<and> sv_next_id s = sv_next_id (us_core u)"
proof -
  have "server_ok (us_core u)" using ok by (simp add: ui_pending_ok_def)
  note t = poll_terminals_ok [OF p this]
  from t have len: "length (sv_tabs s) = length (ui_tabs u)" by (metis tree_nodes_simps(3))
  with t core_op_ok [OF ok] journal_extends_sequence [OF poll_extends [OF p]] show ?thesis by (simp add: step_bound_def)
qed

text \<open>Counters of the server after some requests.\<close>

definition within :: "nat \<Rightarrow> 'p UiServerState \<Rightarrow> 'p UiServerState \<Rightarrow> bool" where
  "within k u u' \<longleftrightarrow> length (ui_tabs u') \<le> length (ui_tabs u) + k
     \<and> unat (sv_next_id (us_core u')) \<le> unat (sv_next_id (us_core u)) + k
     \<and> unat (uq_next_id (us_commands u')) \<le> unat (uq_next_id (us_commands u)) + k"

definition room_for :: "nat \<Rightarrow> 'p UiServerState \<Rightarrow> bool" where
  "room_for k u \<longleftrightarrow> length (ui_tabs u) + k \<le> 2 ^ 32 \<and> unat (sv_next_id (us_core u)) + k < 2 ^ 64
     \<and> unat (uq_next_id (us_commands u)) + k < 2 ^ 64"

lemma room_for_one: "room_for (Suc k) u \<Longrightarrow> has_room u"
  by (auto simp: room_for_def has_room_def unsigned_minus_1_eq_mask mask_eq_exp_minus_1)

lemma room_for_within: "\<lbrakk> room_for (j + k) u; within j u v \<rbrakk> \<Longrightarrow> room_for k v"
  by (auto simp: room_for_def within_def)

lemma within_trans: "\<lbrakk> within j u v; within k v w \<rbrakk> \<Longrightarrow> within (j + k) u w"
  by (auto simp: within_def)

lemma bound_within: "ui_bound u v \<Longrightarrow> within 1 u v"
  by (simp add: ui_bound_def step_bound_def within_def)

lemma answer_requests_keep:
  "\<lbrakk> answer_requests es u = Some (rs, u'); ui_pending_ok pid n away u; list_all (envelope_ok ofa to_vec pid away) es;
     room_for (length es) u; n + length es \<le> 2 ^ 64 \<rbrakk> \<Longrightarrow>
   (\<exists>m \<le> n + length es. ui_pending_ok pid m away u') \<and> within (length es) u u' \<and> length rs = length es
     \<and> authority_run ofa to_vec (controls es) (ui_authority u) (ui_authority u')"
proof (induction es arbitrary: u n rs)
  case Nil
  then show ?case by (auto simp: within_def)
next
  case (Cons e es)
  obtain host request where e: "e = (host, request)" by (cases e)
  from Cons.prems(1) obtain r v rs' where v: "execute_request host request u = Some (r, v)" "answer_requests es v = Some (rs', u')"
    and rs: "rs = r # rs'" by (cases "execute_request host request u") (auto simp: e)
  have "has_room u" using Cons.prems(4) room_for_one by fastforce
  moreover have "envelope_ok ofa to_vec pid away (host, request)" "n < 2 ^ 64" using Cons.prems(3,5) by (simp_all add: e)
  ultimately obtain m where m: "m \<le> Suc n" "ui_pending_ok pid m away v" "ui_bound u v"
    and step: "request_step ofa to_vec (iq_control request) (ui_authority u) (ui_authority v)"
    using execute_request_keeps [OF Cons.prems(2) _ _ _ v(1)] by blast
  have "room_for (length es) v" using room_for_within [of 1 "length es" u v] bound_within [OF m(3)] Cons.prems(4) by simp
  with Cons.IH [OF v(2) m(2)] Cons.prems(3,5) m(1) obtain m' ls where
    m': "m' \<le> m + length es" "ui_pending_ok pid m' away u'" "within (length es) v u'" "length rs' = length es"
    and ls: "authority_run ofa to_vec (controls es) (ui_authority v) (ui_authority u')" by auto
  have "authority_run ofa to_vec (controls (e # es)) (ui_authority u) (ui_authority u')"
    using authority_run_trans [OF request_step_run [OF step] ls] by (simp add: e)
  moreover have "within (length (e # es)) u u'" using within_trans [OF bound_within [OF m(3)] m'(3)] by simp
  moreover have "m' \<le> n + length (e # es)" using m(1) m'(1) by simp
  ultimately show ?case using m'(2,4) rs by auto
qed

definition loop_ok :: "operation_lookup \<Rightarrow> (string list \<Rightarrow> string + u8 list) \<Rightarrow> u32 \<Rightarrow> (string \<times> u32) set \<Rightarrow> nat \<Rightarrow> 'p ServerLoop \<Rightarrow> bool" where
  "loop_ok ofa to_vec pid away n l \<longleftrightarrow>
     ui_pending_ok pid n away (sl_server l) \<and> list_all (envelope_ok ofa to_vec pid away) (sl_ipc_server l)"

lemma poll_frame:
  assumes "poll_terminals process take_cwd inputs (us_core u) = Some s" and "ui_pending_ok pid n away u"
  shows "room_for k (u\<lparr>us_core := s\<rparr>) = room_for k u \<and> within k (u\<lparr>us_core := s\<rparr>) v = within k u v"
  using poll_keeps [OF assms(2,1)] by (simp add: room_for_def within_def)

lemma drain_parts:
  assumes "drain process take_cwd inputs l = Some l'"
  obtains s rs where "poll_terminals process take_cwd inputs (us_core (sl_server l)) = Some s"
    "answer_requests (take IPC_REQUESTS_PER_TICK (sl_ipc_server l)) ((sl_server l)\<lparr>us_core := s\<rparr>) = Some (rs, sl_server l')"
    "sl_ipc_server l' = drop IPC_REQUESTS_PER_TICK (sl_ipc_server l)" "sl_answers l' = sl_answers l @ rs"
    "sl_wake_signal l' = snd (rearm_if (IPC_REQUESTS_PER_TICK \<le> length (sl_ipc_server l)) (begin_drain (sl_wake_signal l)))"
proof (cases "poll_terminals process take_cwd inputs (us_core (sl_server l))")
  case None
  with assms show ?thesis by (simp add: drain_def Let_def)
next
  case (Some s)
  have "length (take IPC_REQUESTS_PER_TICK (sl_ipc_server l)) = IPC_REQUESTS_PER_TICK \<longleftrightarrow> IPC_REQUESTS_PER_TICK \<le> length (sl_ipc_server l)"
    by auto
  with assms Some that show ?thesis by (auto simp: drain_def Let_def simp del: length_take)
qed

text \<open>What one turn does: the invariant, the answers, the wake and the steps of the authority.\<close>

lemma drain_keeps:
  assumes ok: "loop_ok ofa to_vec pid away n l" and d: "drain process take_cwd inputs l = Some l'"
    and room: "room_for (length (sl_ipc_server l)) (sl_server l)" "n + length (sl_ipc_server l) \<le> 2 ^ 64"
  defines "k \<equiv> length (sl_answers l') - length (sl_answers l)"
  shows "(\<exists>m \<le> n + k. loop_ok ofa to_vec pid away m l') \<and> within k (sl_server l) (sl_server l')
    \<and> length (sl_answers l') = length (sl_answers l) + k \<and> k + length (sl_ipc_server l') = length (sl_ipc_server l)
    \<and> (sl_ipc_server l' \<noteq> [] \<longrightarrow> ws_pending (sl_wake_signal l'))
    \<and> authority_run ofa to_vec (controls (sl_ipc_server l)) (ui_authority (sl_server l)) (ui_authority (sl_server l'))"
proof -
  let ?es = "take IPC_REQUESTS_PER_TICK (sl_ipc_server l)"
  from d obtain s rs where p: "poll_terminals process take_cwd inputs (us_core (sl_server l)) = Some s"
    and a: "answer_requests ?es ((sl_server l)\<lparr>us_core := s\<rparr>) = Some (rs, sl_server l')"
    and l': "sl_ipc_server l' = drop IPC_REQUESTS_PER_TICK (sl_ipc_server l)" "sl_answers l' = sl_answers l @ rs"
      "sl_wake_signal l' = snd (rearm_if (IPC_REQUESTS_PER_TICK \<le> length (sl_ipc_server l)) (begin_drain (sl_wake_signal l)))"
    by (rule drain_parts)
  have u: "ui_pending_ok pid n away (sl_server l)" and q: "list_all (envelope_ok ofa to_vec pid away) (sl_ipc_server l)"
    using ok by (simp_all add: loop_ok_def)
  have es: "list_all (envelope_ok ofa to_vec pid away) ?es" "list_all (envelope_ok ofa to_vec pid away) (sl_ipc_server l')"
    using q by (auto simp: l' list_all_iff dest: in_set_takeD in_set_dropD)
  have "room_for (length ?es) (sl_server l)" using room(1) by (auto simp: room_for_def)
  then have r: "room_for (length ?es) ((sl_server l)\<lparr>us_core := s\<rparr>)" using poll_frame [OF p u] by blast
  have "n + length ?es \<le> 2 ^ 64" using room(2) by simp
  from answer_requests_keep [OF a conjunct1 [OF poll_keeps [OF u p]] es(1) r this] obtain m ls where
    m: "m \<le> n + length ?es" "ui_pending_ok pid m away (sl_server l')" "length rs = length ?es"
      "within (length ?es) ((sl_server l)\<lparr>us_core := s\<rparr>) (sl_server l')"
    and run: "authority_run ofa to_vec (controls ?es) (sv_control_authority s) (ui_authority (sl_server l'))" by auto
  have k: "k = length ?es" by (simp add: k_def l' m(3))
  have "controls ?es \<subseteq> controls (sl_ipc_server l)" by (rule controls_mono) (auto dest: in_set_takeD)
  then have "authority_run ofa to_vec (controls (sl_ipc_server l)) (ui_authority (sl_server l)) (ui_authority (sl_server l'))"
    using authority_run_mono [OF authority_run_trans [OF poll_run [OF p] run]] by simp
  moreover have "within k (sl_server l) (sl_server l')" using m(4) poll_frame [OF p u] by (simp add: k)
  moreover have "sl_ipc_server l' \<noteq> [] \<longrightarrow> ws_pending (sl_wake_signal l')"
    by (simp add: l' rearm_if_def wake_request_def begin_drain_def)
  moreover have "loop_ok ofa to_vec pid away m l'" using m(2) es(2) by (simp add: loop_ok_def)
  moreover have "length (sl_answers l') = length (sl_answers l) + k \<and> k + length (sl_ipc_server l') = length (sl_ipc_server l)"
    by (simp add: k l' m(3))
  ultimately show ?thesis using m(1) by (auto simp: k)
qed

subsection \<open>Runs\<close>

type_synonym 'p turn = "'p envelope list \<times> (u64 \<Rightarrow> poll_input)"

definition arrivals :: "'p turn list \<Rightarrow> 'p envelope list" where
  "arrivals turns = concat (map fst turns)"

lemma arrivals_simps [simp]: "arrivals [] = []" "arrivals (t # ts) = fst t @ arrivals ts"
  by (simp_all add: arrivals_def)

lemma turns_keep:
  "\<lbrakk> run_steps (server_turn process take_cwd) l turns = Some l'; loop_ok ofa to_vec pid away n l;
     list_all (envelope_ok ofa to_vec pid away) (arrivals turns);
     room_for (length (sl_ipc_server l) + length (arrivals turns)) (sl_server l);
     n + length (sl_ipc_server l) + length (arrivals turns) \<le> 2 ^ 64 \<rbrakk> \<Longrightarrow>
   (\<exists>k. length (sl_answers l') = length (sl_answers l) + k
      \<and> k + length (sl_ipc_server l') = length (sl_ipc_server l) + length (arrivals turns)
      \<and> (\<exists>m \<le> n + k. loop_ok ofa to_vec pid away m l') \<and> within k (sl_server l) (sl_server l'))
   \<and> (turns \<noteq> [] \<longrightarrow> sl_ipc_server l' \<noteq> [] \<longrightarrow> ws_pending (sl_wake_signal l'))
   \<and> authority_run ofa to_vec (controls (sl_ipc_server l @ arrivals turns)) (ui_authority (sl_server l)) (ui_authority (sl_server l'))"
proof (induction turns arbitrary: l n)
  case Nil
  then show ?case by (auto simp: within_def)
next
  case (Cons turn turns)
  let ?l = "l\<lparr>sl_ipc_server := sl_ipc_server l @ fst turn\<rparr>"
  from Cons.prems(1) obtain v where v: "drain process take_cwd (snd turn) ?l = Some v" "run_steps (server_turn process take_cwd) v turns = Some l'"
    by (simp add: server_turn_def [of _ _ l turn] split: option.splits)
  have ok: "loop_ok ofa to_vec pid away n ?l" using Cons.prems(2,3) by (simp add: loop_ok_def)
  have "room_for (length (sl_ipc_server ?l)) (sl_server ?l)" "n + length (sl_ipc_server ?l) \<le> 2 ^ 64"
    using Cons.prems(4,5) by (simp_all add: room_for_def)
  from drain_keeps [OF ok v(1) this] obtain m k where m: "m \<le> n + k" "loop_ok ofa to_vec pid away m v"
    and w: "within k (sl_server l) (sl_server v)" and len: "length (sl_answers v) = length (sl_answers l) + k"
      "k + length (sl_ipc_server v) = length (sl_ipc_server l) + length (fst turn)"
    and pend: "sl_ipc_server v \<noteq> [] \<longrightarrow> ws_pending (sl_wake_signal v)"
    and run: "authority_run ofa to_vec (controls (sl_ipc_server l @ fst turn)) (ui_authority (sl_server l)) (ui_authority (sl_server v))"
    by auto
  have "room_for (length (sl_ipc_server v) + length (arrivals turns)) (sl_server v)"
    by (rule room_for_within [OF _ w]) (use Cons.prems(4) len(2) in \<open>simp add: add.assoc [symmetric]\<close>)
  moreover have "m + length (sl_ipc_server v) + length (arrivals turns) \<le> 2 ^ 64" using Cons.prems(5) len(2) m(1) by simp
  moreover have "list_all (envelope_ok ofa to_vec pid away) (arrivals turns)" using Cons.prems(3) by simp
  ultimately obtain m' k' where k': "length (sl_answers l') = length (sl_answers v) + k'"
      "k' + length (sl_ipc_server l') = length (sl_ipc_server v) + length (arrivals turns)"
      "within k' (sl_server v) (sl_server l')"
    and m': "m' \<le> m + k'" "loop_ok ofa to_vec pid away m' l'"
      "turns \<noteq> [] \<longrightarrow> sl_ipc_server l' \<noteq> [] \<longrightarrow> ws_pending (sl_wake_signal l')"
    and run': "authority_run ofa to_vec (controls (sl_ipc_server v @ arrivals turns)) (ui_authority (sl_server v)) (ui_authority (sl_server l'))"
    using Cons.IH [OF v(2) m(2)] by blast
  have sub: "set (sl_ipc_server v) \<subseteq> set (sl_ipc_server l @ fst turn)"
    using v(1) by (elim drain_parts) (auto dest: in_set_dropD)
  have "authority_run ofa to_vec (controls (sl_ipc_server l @ arrivals (turn # turns))) (ui_authority (sl_server l)) (ui_authority (sl_server l'))"
    by (rule authority_run_mono [OF authority_run_trans [OF run run']]) (use controls_mono [OF sub] in auto)
  moreover have "sl_ipc_server l' \<noteq> [] \<longrightarrow> ws_pending (sl_wake_signal l')"
    using m'(3) pend v(2) by (cases "turns = []") auto
  moreover have "length (sl_answers l') = length (sl_answers l) + (k + k')"
    "k + k' + length (sl_ipc_server l') = length (sl_ipc_server l) + length (arrivals (turn # turns))"
    "within (k + k') (sl_server l) (sl_server l')" "m' \<le> n + (k + k')"
    using len k'(1,2) m(1) m'(1) within_trans [OF w k'(3)] by simp_all
  ultimately show ?case using m'(2) by blast
qed

text \<open>The loop of a server that has answered nothing.\<close>

definition fresh_loop :: "string \<Rightarrow> 'p ServerState \<Rightarrow> 'p ServerLoop" where
  "fresh_loop identity s =
     \<lparr>sl_wake_signal = WakeSignal_new, sl_ipc_server = [], sl_server = fresh_ui identity s, sl_answers = []\<rparr>"

lemma fresh_loop_simps [simp]:
  "sl_ipc_server (fresh_loop identity s) = []" "sl_answers (fresh_loop identity s) = []"
  "sl_server (fresh_loop identity s) = fresh_ui identity s" "us_core (fresh_ui identity s) = s"
  by (simp_all add: fresh_loop_def fresh_ui_def)

definition run_room :: "'p ServerState \<Rightarrow> nat \<Rightarrow> bool" where
  "run_room s k \<longleftrightarrow> length (sv_tabs s) + k \<le> 2 ^ 32 \<and> unat (sv_next_id s) + k < 2 ^ 64"

lemma fresh_turns_keep:
  assumes run: "run_steps (server_turn process take_cwd) (fresh_loop identity s) turns = Some l"
    and s: "server_ok s" and es: "\<forall>e \<in> set (arrivals turns). envelope_ok ofa to_vec pid away e"
    and room: "run_room s (length (arrivals turns))"
  shows "(\<exists>m \<le> 1 + length (sl_answers l). loop_ok ofa to_vec pid away m l) \<and> within (length (sl_answers l)) (fresh_ui identity s) (sl_server l)
    \<and> length (sl_answers l) + length (sl_ipc_server l) = length (arrivals turns) \<and> (turns \<noteq> [] \<longrightarrow> sl_ipc_server l \<noteq> [] \<longrightarrow> ws_pending (sl_wake_signal l))
    \<and> authority_run ofa to_vec (controls (arrivals turns)) (sv_control_authority s) (ui_authority (sl_server l))"
proof -
  have "loop_ok ofa to_vec pid away 1 (fresh_loop identity s)" using fresh_ui_ok [OF s] by (simp add: loop_ok_def)
  moreover have "list_all (envelope_ok ofa to_vec pid away) (arrivals turns)" using es by (simp add: list_all_iff)
  moreover have "room_for (length (arrivals turns)) (fresh_ui identity s)" "1 + length (arrivals turns) \<le> 2 ^ 64"
    using room by (simp_all add: run_room_def room_for_def fresh_ui_def UiClientCommandQueue_new_def)
  ultimately show ?thesis using turns_keep [OF run, of ofa to_vec pid away 1] by auto
qed

section \<open>The server\<close>


text \<open>
  C3. The server implements the control authority. Whatever requests arrive and whatever their commands do,
  the control authority of the server moves only along its own state machine -- admitted and answered,
  executed and completed, or finished by a terminal -- and executes only requests that arrived. So the
  guarantees of that machine are guarantees of the server.
\<close>

theorem server_refines_authority:
  assumes run: "run_steps (server_turn process take_cwd) (fresh_loop identity s) turns = Some l"
    and s: "server_ok s" and es: "\<forall>e \<in> set (arrivals turns). envelope_ok ofa to_vec pid UNIV e"
    and room: "run_room s (length (arrivals turns))"
  shows "\<exists>ls. path (authority_step ofa to_vec) (sv_control_authority s) ls (sv_control_authority (us_core (sl_server l)))
    \<and> (\<forall>c r. Ran c r \<in> set ls \<longrightarrow> (\<exists>e \<in> set (arrivals turns). iq_control (snd e) = Some c))"
  using fresh_turns_keep [OF run s es room] by (simp add: authority_run_def controls_def)

subsection \<open>Retries\<close>

text \<open>A receipt carries no receipt of the response it records.\<close>

lemma complete_without_receipt:
  "authority_complete a c (response\<lparr>ir_receipt := x\<rparr>) resolved b af wait = authority_complete a c response resolved b af wait"
proof -
  have "response_receipt c (response\<lparr>ir_receipt := x\<rparr>) resolved b af wait = response_receipt c response resolved b af wait"
    by (simp add: response_receipt_def response_outcome_def response_error_def)
  moreover have "with_receipt (response\<lparr>ir_receipt := x\<rparr>) = with_receipt response" by (simp add: with_receipt_def fun_eq_iff)
  ultimately show ?thesis by (simp only: authority_complete_def)
qed

lemma no_submission_wait:
  "OperationId_as_str (rq_operation_id c) \<noteq> ''command.send.composer'' \<Longrightarrow> submission_wait u c ok resolved af = None"
  by (simp add: submission_wait_def)

text \<open>What executing a control request leaves behind.\<close>

lemma execute_request_runs:
  assumes ok: "ui_pending_ok pid n away u" and e: "envelope_ok ofa to_vec pid away (host, request)" and room: "has_room u" "n < 2 ^ 64"
    and c: "iq_control request = Some c" "OperationId_as_str (rq_operation_id c) \<noteq> ''command.send.composer''"
    and adm: "authority_admit ofa to_vec (ui_authority u) (Some c) (iq_args request) (env_now (rh_env host)) = (ExecuteControl c, a1)"
    and x: "execute_request host request u = Some (r, u')"
  obtains response resolved b af where "ir_receipt response = None" "authority_complete a1 c response resolved b af None = (r, ui_authority u')"
proof -
  have par: "host_ok pid host" "args_ok away (iq_args request)" "rh_operation_for_args host = ofa" "rh_to_vec host = to_vec"
    using e by (simp_all add: envelope_ok_def)
  let ?u = "set_authority a1 u"
  from x adm c(1) par have "run_controlled host (iq_args request) c ?u = Some (r, u')" by (simp add: execute_request_def)
  then obtain response v resolved b af a where v: "execute_command host (iq_args request) ?u = Some (response, v)"
    "authority_complete (ui_authority v) c response resolved b af None = (r, a)" "u' = set_authority a v"
    by (rule run_controlled_parts) (simp add: no_submission_wait [OF c(2)])
  from adm ui_ok_control [OF ok] have "Control_Authority.authority_ok a1"
    by (cases rule: authority_admit_cases) (auto intro: authority_ok_admitted [OF ui_ok_control [OF ok]])
  from execute_command_keeps [OF set_authority_ok [OF ok this] par(1) _ room(2) par(2) v(1)] room(1)
  have "ui_authority v = a1" by (simp add: ui_keeps_def)
  with v(2,3) that [of "response\<lparr>ir_receipt := None\<rparr>"] show ?thesis by (simp add: complete_without_receipt)
qed

lemma completed_answer:
  assumes "Control_Authority.authority_ok a" and "authority_admit ofa to_vec a (Some c) args now = (ExecuteControl c, a1)"
    and comp: "authority_complete a1 c response resolved b af None = (r, a2)" and "ir_receipt response = None"
  shows "r\<lparr>ir_receipt := None\<rparr> = response"
proof -
  have win: "window_ok (ca_replay_window a)" using assms(1) by (simp add: Control_Authority.authority_ok_def)
  from assms(2,1) obtain w where adm: "admit (ca_replay_window a) c now = (Execute (receipt_accepted c), w)" "a1 = a\<lparr>ca_replay_window := w\<rparr>"
    by (cases rule: authority_admit_cases) auto
  have "window_ok (ca_replay_window a1)" "remembered (ca_replay_window a1) (rq_request_id c) = Some (fresh_entry c)"
    using admit_ok [OF win adm(1)] admit_remembered [OF win adm(1)] adm(2) by auto
  moreover have "rc_outcome (response_receipt c response resolved b af None) \<noteq> Accepted"
    by (simp add: response_receipt_def response_outcome_def)
  ultimately have "r = with_receipt response (response_receipt c response resolved b af None)"
    using authority_complete_fresh [OF _ _ comp] by blast
  with assms(4) show ?thesis by (simp add: with_receipt_def)
qed


subsection \<open>Queries\<close>

text \<open>The spellings under which a command may change the server.\<close>

definition changing_names :: "string list" where
  "changing_names =
     [''send'', ''send-keys'', ''set-buffer'', ''setb'', ''load-buffer'', ''loadb'', ''delete-buffer'', ''deleteb'', ''paste-buffer'',
      ''pasteb'', ''new'', ''new-session'', ''neww'', ''new-window'', ''new-agent'', ''selectw'', ''select-window'', ''killw'',
      ''kill-window'', ''rename'', ''rename-session'', ''kill-session'', ''kill-server'', ''cwd-prepare'', ''cwd-prepare-append'',
      ''cwd-prepare-replace'', ''cwd-send-now'', ''renamew'', ''rename-window'', ''set-tab-note'', ''set-tab-parent'', ''next'',
      ''next-window'', ''prev'', ''previous-window'', ''set-composer'', ''send-composer'', ''ui-action'', ''focus'',
      ''ui-lease'', ''ui-client-state'', ''ui-client-command'', ''ui-interact'', ''save-workspace'', ''shutdown'', ''set-setting'',
      ''screenshot'', ''screenshot-pane'', ''screenshot-tab'', ''ui-input'', UI_CLIENT_COMMAND_FOCUS, UI_CLIENT_COMMAND_SHOW_NO_ACTIVATE]"

lemma changing_names_not_queries: "list_all (\<lambda>name. canonical_control_command name \<notin> set query_commands) changing_names"
  by code_simp

lemma query_not_changing: "canonical_control_command name \<in> set query_commands \<Longrightarrow> name \<notin> set changing_names"
  using changing_names_not_queries by (auto simp: list_all_iff)

lemma write_names: "set (concat (map fst (write_handlers env host))) \<subseteq> set changing_names"
  by (simp add: write_handlers_def changing_names_def)

lemma find_append: "find P (xs @ ys) = (case find P xs of None \<Rightarrow> find P ys | Some x \<Rightarrow> Some x)"
  by (induction xs) simp_all

lemma find_handler_append:
  assumes "find_handler name (hs @ ks) = Some h" and "name \<notin> set (concat (map fst ks))"
  shows "find_handler name hs = Some h"
proof -
  have "find (\<lambda>(names, _). name \<in> set names) ks = None" using assms(2) by (force simp: find_None_iff)
  then show ?thesis using assms(1) by (auto simp: find_handler_def find_append split: option.splits)
qed

lemma query_table:
  assumes query: "canonical_control_command name \<in> set query_commands"
    and other: "\<forall>u r u'. th_other (rh_table host) (name # rest) u = Some (r, u') \<longrightarrow> u' = u"
    and d: "command_table host (name # rest) u = Some (r, u')"
  shows "u' = u"
proof (cases "find_handler name (read_handlers (rh_env host) (rh_table host) @ write_handlers (rh_env host) (rh_table host))")
  case None
  with d other show ?thesis by (auto simp: dispatch_shared_command_def split: if_splits)
next
  case (Some h)
  have "name \<notin> set (concat (map fst (write_handlers (rh_env host) (rh_table host))))"
    using write_names query_not_changing [OF query] by blast
  from find_handler_ok [OF find_handler_append [OF Some this] read_handlers_read] d Some show ?thesis
    by (auto simp: reads_only_def dispatch_shared_command_def)
qed


section \<open>A concrete server\<close>

text \<open>A server without tabs that stores a buffer on a controlled request.\<close>

definition sample_table_host :: "unit TableHost" where
  "sample_table_host = \<lparr>th_native = sample_native, th_receipt = (\<lambda>_. sample_receipt), th_written = (\<lambda>_. None), th_now = 0,
     th_read_file = (\<lambda>_. Err ''not found''), th_utf8_lossy = (\<lambda>s. s), th_image = None, th_bracketed = (\<lambda>_. False),
     th_screen_title = (\<lambda>_. []), th_headless_snapshot = (\<lambda>_. ''{}''), th_started_at = 1, th_workspace_path = ''/w'',
     th_other = (\<lambda>_ u. Some (None, u))\<rparr>"

definition sample_host :: "u64 \<Rightarrow> unit RequestHost" where
  "sample_host now = \<lparr>rh_env = sample_env now, rh_table = sample_table_host, rh_validate = (\<lambda>_. Ok ()),
     rh_operation_for_args = sample_lookup, rh_to_vec = sample_to_vec, rh_set_size = (\<lambda>p _. p), rh_native_error = None,
     rh_save_workspace = (\<lambda>_. Ok ()), rh_iterate = (\<lambda>_. []), rh_mark_shutdown = Ok (), rh_ipc_address = ''s''\<rparr>"

definition buffer_control :: ControlRequest where
  "buffer_control = ControlRequest_new (RequestId ''r1'') (OperationId ''command.set.buffer'') (fingerprint_from_bytes []) Mutation None"

definition buffer_request :: IpcRequest where
  "buffer_request = \<lparr>iq_args = [''set-buffer'', ''x''], iq_control = Some buffer_control\<rparr>"

lemma sample_host_simps [simp]:
  "rh_operation_for_args (sample_host now) = sample_lookup" "rh_to_vec (sample_host now) = sample_to_vec" "rh_env (sample_host now) = sample_env now"
  "th_other (rh_table (sample_host now)) = (\<lambda>_ u. Some (None, u))" "rh_validate (sample_host now) = (\<lambda>_. Ok ())"
  by (simp_all add: sample_host_def sample_table_host_def)

lemma sample_host_ok: "envelope_ok sample_lookup sample_to_vec 7 UNIV (sample_host now, request)"
  by (simp add: envelope_ok_def host_ok_def args_ok_def sample_host_def sample_env_def sample_table_host_def shared_ok_def)

lemma sample_set_buffer:
  "execute_command (sample_host now) [''set-buffer'', ''x''] (set_authority a (fresh_ui ''q'' empty_server)) =
     Some (IpcResponse_success [], (set_authority a (fresh_ui ''q'' empty_server))\<lparr>us_named_buffers := \<lparr>nb_buffers = [(''0'', ''x'')]\<rparr>\<rparr>)"
proof -
  have "buffer_data_from_args [''set-buffer'', ''x''] = ''x''" "resolve_name None = Ok ''0''"
    "option_value [''set-buffer'', ''x''] ''-b'' = None" by code_simp+
  moreover have "find_handler ''set-buffer'' (read_handlers env host @ write_handlers env host) = Some set_buffer"
    for env and host :: "unit TableHost" by (simp add: find_handler_def read_handlers_def write_handlers_def)
  moreover have "\<not> relayed (sample_host now) [''set-buffer'', ''x''] u" for u
    by (simp add: relayed_def relays_to_ui_client_def UI_CLIENT_COMMAND_FOCUS_def UI_CLIENT_COMMAND_SHOW_NO_ACTIVATE_def)
  ultimately show ?thesis
    by (simp add: execute_command_def dispatch_shared_command_def set_buffer_def buffer_stored_def buffer_set_def Let_def
      sample_host_def fresh_ui_def NamedBufferStore_new_def MAX_BUFFER_BYTES_def MAX_BUFFER_COUNT_def)
qed

definition buffer_admitted :: ControlAuthority where
  "buffer_admitted = ControlAuthority_default\<lparr>ca_replay_window := \<lparr>rw_capacity = 512, rw_entries = [fresh_entry buffer_control]\<rparr>\<rparr>"

lemma buffer_admit:
  "authority_admit sample_lookup sample_to_vec ControlAuthority_default (Some buffer_control) [''set-buffer'', ''x''] now
     = (ExecuteControl buffer_control, buffer_admitted)"
proof -
  have "canonical_control_command ''set-buffer'' = ''set-buffer''" "''set-buffer'' \<notin> set query_commands"
    "OperationId_new (''command.'' @ replace_dash ''set-buffer'') = Ok (OperationId ''command.set.buffer'')" by code_simp+
  then have "control_request_identity sample_lookup [''set-buffer'', ''x''] = Ok (OperationId ''command.set.buffer'', Mutation)"
    by (simp add: control_request_identity_def Let_def)
  then show ?thesis
    by (simp add: authority_admit_def identity_matches_def fingerprint_matches_def control_payload_fingerprint_def admit_def push_entry_eq
      mutation_is_expired_def buffer_admitted_def ControlAuthority_default_def ReplayWindow_new_def CONTROL_REPLAY_CAPACITY_def
      buffer_control_def ControlRequest_new_def)
qed

lemma empty_server_authority [simp]: "sv_control_authority empty_server = ControlAuthority_default"
  by (simp add: empty_server_def initial_server_def)

lemma buffer_executed:
  "\<exists>r u. execute_request (sample_host now) buffer_request (fresh_ui ''q'' empty_server) = Some (r, u)
     \<and> r\<lparr>ir_receipt := None\<rparr> = IpcResponse_success [] \<and> us_named_buffers u = \<lparr>nb_buffers = [(''0'', ''x'')]\<rparr>
     \<and> remembered (ca_replay_window (ui_authority u)) (RequestId ''r1'') \<noteq> None"
proof -
  let ?v = "(set_authority buffer_admitted (fresh_ui ''q'' empty_server))\<lparr>us_named_buffers := \<lparr>nb_buffers = [(''0'', ''x'')]\<rparr>\<rparr>"
  let ?u = "set_authority buffer_admitted (fresh_ui ''q'' empty_server)"
  let ?resolved = "answered_tab (IpcResponse_success []) (resolved_control_target (sample_host now) [''set-buffer'', ''x''] ?u)"
  obtain r a where comp: "authority_complete buffer_admitted buffer_control (IpcResponse_success []) ?resolved
      (control_event_position ?u) (control_event_position ?v) None = (r, a)" by fastforce
  have id: "OperationId_as_str (rq_operation_id buffer_control) \<noteq> ''command.send.composer''" "rq_request_id buffer_control = RequestId ''r1''"
    by (simp_all add: buffer_control_def ControlRequest_new_def)
  have win: "window_ok (ca_replay_window buffer_admitted)"
    "remembered (ca_replay_window buffer_admitted) (rq_request_id buffer_control) = Some (fresh_entry buffer_control)"
    by (simp_all add: buffer_admitted_def lookup_by_Cons window_ok_def)
  have "run_controlled (sample_host now) [''set-buffer'', ''x''] buffer_control ?u = Some (r, set_authority a ?v)"
    using sample_set_buffer [of now buffer_admitted] comp by (simp add: run_controlled_def Let_def no_submission_wait [OF id(1)])
  with buffer_admit have "execute_request (sample_host now) buffer_request (fresh_ui ''q'' empty_server) = Some (r, set_authority a ?v)"
    by (simp add: execute_request_def buffer_request_def)
  moreover have "r\<lparr>ir_receipt := None\<rparr> = IpcResponse_success []"
    by (rule completed_answer [OF _ buffer_admit comp]) (simp_all add: IpcResponse_success_def)
  moreover have "remembered (ca_replay_window a) (RequestId ''r1'') \<noteq> None"
    using authority_complete_window [OF win comp] rewrite_remembered [OF _ win(1), of buffer_control _ "Ok ()" "ca_replay_window a"] id(2) by fastforce
  ultimately show ?thesis by (intro exI [of _ r] exI [of _ "set_authority a ?v"]) simp
qed

definition buffer_turn :: "unit turn" where
  "buffer_turn = ([(sample_host 0, buffer_request)], \<lambda>_. ([], 0, None))"

lemma empty_poll: "sv_tabs s = [] \<Longrightarrow> poll_terminals process take_cwd inputs s = Some s"
  by (simp add: poll_terminals_def journal_run_def)

lemma fresh_ui_core [simp]: "(fresh_ui identity s)\<lparr>us_core := s\<rparr> = fresh_ui identity s"
  by (simp add: fresh_ui_def)

lemma buffer_turn_runs:
  "\<exists>l. run_steps (server_turn (\<lambda>p _. p) (\<lambda>p. (None, p))) (fresh_loop ''q'' empty_server) [buffer_turn] = Some l \<and> length (sl_answers l) = 1
     \<and> us_named_buffers (sl_server l) = \<lparr>nb_buffers = [(''0'', ''x'')]\<rparr>"
proof -
  from buffer_executed obtain r u where "execute_request (sample_host 0) buffer_request (fresh_ui ''q'' empty_server) = Some (r, u)"
    "us_named_buffers u = \<lparr>nb_buffers = [(''0'', ''x'')]\<rparr>" by blast
  moreover have "sv_tabs empty_server = []" by (simp add: empty_server_def initial_server_def)
  ultimately show ?thesis
    by (simp add: server_turn_def drain_def buffer_turn_def empty_poll Let_def IPC_REQUESTS_PER_TICK_def)
qed

lemma buffer_run_room: "run_room empty_server 1" "\<forall>e \<in> set (arrivals [buffer_turn]). envelope_ok sample_lookup sample_to_vec 7 UNIV e"
  by (simp_all add: run_room_def empty_server_def initial_server_def saturating_add_def buffer_turn_def sample_host_ok)


lemma server_refines_authority_witness:
  "\<exists>l ls. run_steps (server_turn (\<lambda>p _. p) (\<lambda>p. (None, p))) (fresh_loop ''q'' empty_server) [buffer_turn] = Some l
     \<and> path (authority_step sample_lookup sample_to_vec) ControlAuthority_default ls (sv_control_authority (us_core (sl_server l)))
     \<and> (\<forall>c r. Ran c r \<in> set ls \<longrightarrow> c = buffer_control)"
proof -
  from buffer_turn_runs obtain l where l: "run_steps (server_turn (\<lambda>p _. p) (\<lambda>p. (None, p))) (fresh_loop ''q'' empty_server) [buffer_turn] = Some l"
    by blast
  have "length (arrivals [buffer_turn]) = 1" by (simp add: buffer_turn_def)
  with server_refines_authority [OF l empty_server_ok buffer_run_room(2)] buffer_run_room(1) l show ?thesis
    by (fastforce simp: buffer_turn_def buffer_request_def)
qed



end
