(* ===== verification/Spec2Isabelle.thy ===== *)
theory Spec2Isabelle
  imports Event_Journal Chassis_Image Server_Output Server_Workspace Json_Select Ui_Command Server_Request_Invariant Ui_Lease Paste_Buffers Wake_Signal
begin

text \<open>
  AgenTerm: a terminal server with a control plane, verified.

  The program.  A server process owns terminal tabs; each tab runs a process on a pseudoterminal.
  Clients (the GUI, the command line, scripts) send control requests over local IPC.  The server
  admits a request through a replay window, executes it on its tabs, commits what happened to an
  event journal, and answers with a receipt; clients follow the journal by position.  The GUI holds
  leases on the server and is woken through a coalesced signal.  Small decisions of the workbench
  (which tab is next) come from loadable bytecode images that run in a bounded interpreter and
  reach the product only through declared capabilities.

  The theories, in the order of the code's layers.

  \<^item> \<open>Prelude\<close>, \<open>Json_Value\<close>, \<open>Utf8\<close>: Rust's integers, results, strings and searches, JSON values
    as serde_json keeps them, UTF-8 as the standard library checks it.  \<open>Prelude\<close> also holds the
    locale \<open>exclusive_execution\<close> (an operation under way finishes before it starts again), and
    \<open>Utf8\<close> the byte-bounded prefix of \<open>src/control_dispatch.rs\<close>.
  \<^item> \<open>Retention\<close>: the locale of bounded retention, interpreted by the event journal and by the
    ring of raw terminal output.
  \<^item> \<open>Event_Journal\<close> (\<open>src/event_journal.rs\<close>): kinds, catalogue, commits and reads after a
    position.  A read returns exactly the next events of the complete history or the precise reason
    why it cannot, and resuming loses and repeats nothing.
  \<^item> \<open>Chassis_Bytecode\<close>, \<open>Chassis_VM\<close>, \<open>Chassis_Dispatch\<close>, \<open>Chassis_Image\<close>
    (\<open>crates/agenterm-chassis/src\<close>, \<open>src/frontend/chassis_image.rs\<close>): assembler and decoder are
    inverse; the interpreter on assembled code is the direct meaning of the source (\<open>ir_run\<close>); the
    locale \<open>cap_host\<close> states what a host promises about its calls, and its interpretations give that
    a program calls only declared capabilities, at most once per step; a loaded image is evaluated
    only from untampered files, and the shipped program decides exactly the built-in rule.
  \<^item> \<open>Control_Contract\<close>, \<open>Control_Commands\<close>, \<open>Control_Authority\<close> (\<open>src/control_contract.rs\<close>,
    \<open>src/commands.rs\<close>, \<open>src/control_authority.rs\<close>, with \<open>src/protocol.rs\<close> and the request identity of
    \<open>src/client/mod.rs\<close>): the replay window as a state machine; a request never executes twice while
    it is under way, a final receipt never changes, a retry receives the first response, a pending
    submission is finished and recorded; the command names are unambiguous.
  \<^item> \<open>Tab_Tree\<close> (\<open>src/tab_tree.rs\<close> and \<open>set_tab_parent_on_host\<close> of \<open>src/control_dispatch.rs\<close>): the
    tree view shows every tab once whatever the parents are, its recursion is bounded, the cycle
    check is exact, and moving tabs keeps a forest.
  \<^item> \<open>Upgrade_Identity\<close>, \<open>Ui_Lease\<close> (\<open>src/build_identity.rs\<close>, \<open>src/upgrade_identity.rs\<close>,
    \<open>src/ui_lease.rs\<close>): the comparison of builds is exact; the leases of GUI clients are bounded,
    unique, changed only by their owner and reaped exactly.
  \<^item> \<open>Terminal_Lifecycle\<close>, \<open>Terminal_Cursor\<close>, \<open>Working_Context\<close>, \<open>Proxy_Redaction\<close>,
    \<open>Terminal_Runtime\<close> (\<open>src/terminal_lifecycle.rs\<close>, \<open>src/terminal_observation.rs\<close>,
    \<open>src/terminal_cursor.rs\<close>, \<open>src/working_context.rs\<close>, \<open>src/terminal_runtime.rs\<close>, and the output
    reads of \<open>src/control_dispatch.rs\<close>): a tab from the bytes of its process to the reads of a client.
    Redaction of secrets does not depend on how output is cut into reads; counter, cursor style and
    every read are those of one redacted stream; a confirmation marker is found across reads; Enter
    follows a submission once; arguments survive shell quoting and reported directories are decoded
    exactly.
  \<^item> \<open>Paste_Buffers\<close> (\<open>src/ui_clipboard.rs\<close>, \<open>src/named_buffer.rs\<close>, and the buffer commands and
    the base-64 encoder of \<open>src/control_dispatch.rs\<close>): a paste cannot leave its brackets, the buffers
    are a bounded store, captured output decodes to its bytes.
  \<^item> \<open>Server_Core\<close>, \<open>Server_Invariant\<close>, \<open>Server_Output\<close>, \<open>Server_Workspace\<close>
    (\<open>src/server_app.rs\<close>, \<open>src/workspace.rs\<close>, the target and composer handlers of
    \<open>src/control_dispatch.rs\<close>): the server state with its tabs, journal, control authority and
    collapsed set.  Its operations create, restore, select, move, collapse and close tabs, prepare and
    send directory changes, submit the composer, and poll the terminals.  Every sequence of them keeps
    one invariant that spans the components; closing a tab has exactly the described effect; the
    output events of a tab add up to its counter; a saved workspace restores to the same tabs.
  \<^item> \<open>Json_Select\<close> (\<open>src/json_select.rs\<close>): the field selectors of the clients.  An accepted selector
    projects a document onto the set of paths it names, whatever their order, repetition and spelling;
    a projection only removes; every list of valid paths can be written and read back.
  \<^item> \<open>Ui_Command\<close> (\<open>src/ui_command.rs\<close>): the queue of commands relayed to an attached GUI.  The stage of
    a command moves along one life cycle, commands are handed out once and in order, an answer is
    recorded once and may be repeated, and everything kept is bounded.
  \<^item> \<open>Wake_Signal\<close> (\<open>src/wake_signal.rs\<close>): every interleaving of producers and consumer, with at most
    one wake under way and no stranded work.
  \<^item> \<open>Ui_Interaction\<close> (\<open>src/ui_interaction.rs\<close>, the writer of \<open>src/ui_client.rs\<close>): what an attached GUI
    does to a tab, from the client's arguments to the server's parser and back.
  \<^item> \<open>Server_Ui\<close>, \<open>Server_Ui_Invariant\<close> (\<open>src/server_app.rs\<close>, \<open>src/ui_bridge.rs\<close>): the handlers of GUI clients on
    the server: leases, published snapshots, interactions and the relay of commands.  The server, its
    leases, the snapshot and the queue stay consistent; input reaches only the active tab of a live
    lease; every grant passes its receiver's validation.  Two completions that go wrong are shown.
  \<^item> \<open>Command_Arguments\<close> (\<open>src/commands.rs\<close>): positional values, the options, the environment and the
    child command of a new tab, and the bytes of named keys.  The child's arguments stay apart from the
    options; an option without its value panics.
  \<^item> \<open>Server_Table\<close>, \<open>Server_Table_Invariant\<close> (\<open>dispatch_shared_command\<close> and
    \<open>dispatch_shared_ui_action\<close> of \<open>src/control_dispatch.rs\<close>): the command table as the server runs it, one
    definition for each arm.  Every arm keeps to \<open>table_effect\<close>: it leaves leases, queue, snapshot and
    control authority alone and keeps the core's invariant.  \<open>closed_tab_submission_never_finishes\<close> shows
    what closing a tab leaves behind.
  \<^item> \<open>Server_Request\<close>, \<open>Server_Request_Invariant\<close> (\<open>execute_command\<close>, \<open>execute_request\<close> and \<open>drain\<close> of
    \<open>src/server_app.rs\<close>): the composition of all of them.  Any turns of the server's loop keep the
    invariant and answer every request; the control authority inside the server moves along its own
    state machine, so a retried request gets its first answer and changes nothing at all; queries
    change nothing.

  Reading the model.  A struct is a record whose field names carry a prefix, an enum a datatype, a
  method a function that takes and returns the state, with the source's name unless HOL or another
  component uses it.  An unsigned integer is a word of its width, a \<open>usize\<close> a natural number with
  saturation written out, a string or byte vector the list of its bytes.  A \<open>Result\<close> is a sum with
  the error on the left; where a panic is possible the result is an option.  Clocks, process
  identifiers, file contents, parsers and encoders of third-party packages (serde_json, SHA-256, the
  vt100 screen) are arguments of the definitions that use them.

  Bounds and fuel.  The traversal of the tab tree recurses at most once per tab, so its fuel, the
  number of tabs plus one, is never used up (\<open>tree_rows_terminates\<close>); the cycle check runs one step
  more than there are tabs, which \<open>would_create_cycle_exact\<close> shows to be enough.  The interpreter's
  budget is the source's.  Statements about lease identifiers hold for runs of fewer than \<open>2 ^ 64\<close>
  operations, and so do those about relayed commands and journal positions; statements about the server
  hold while its 32-bit tab numbering lasts (\<open>run_room\<close>: tabs and requests together at most \<open>2 ^ 32\<close>), statements about output reads for streams within the
  \<open>isize\<close> limit of a vector.

  Not modelled.  Rendering, windowing and platform adapters (\<open>src/platform\<close>, most of \<open>src/frontend\<close>),
  threads and sockets are input and output; starting and ending a native process is an argument of
  \<open>spawn\<close> and \<open>close_tab\<close>.  The arms of \<open>src/control_dispatch.rs\<close> that read the vt100 screen or the
  protocol facts (capture, inspection, cells, mouse, scrolling, native keys and signals, the bootstrap and
  delta texts) are the field \<open>th_other\<close> of the table's host; the operation catalogue
  (\<open>src/operations.rs\<close>) is \<open>rh_validate\<close> and \<open>rh_operation_for_args\<close> of a request's world.  The other
  command parsers, the script and MCP hosts and the instance registry are candidates for extending this
  library; the computer-use product (\<open>crates/agenterm-cu\<close>), the ABI crate, the embedded script engines and
  the viewers are separate programs of the repository.
  \<open>PROJECT.json\<close> lists every part.
\<close>

end
